(* ===== verification/Prelude.thy ===== *)
theory Prelude
  imports Main "HOL-Library.Word"
begin

text \<open>
  Shared vocabulary of the development: the machine integers of
  \<^verbatim>\<open>hundun/v04_types.hpp\<close>, the status values of \<^verbatim>\<open>hundun/v04_status.hpp\<close>, the
  checked \<^verbatim>\<open>std::size_t\<close> arithmetic of \<^verbatim>\<open>core_arena.cpp\<close>, the FNV mixing step every
  fingerprint uses, and the generic lemmas on words and lists the component theories share.

  Conventions. A \<^verbatim>\<open>std::size_t\<close>, \<^verbatim>\<open>RevisionToken\<close>, identity or fingerprint is a 64-bit word;
  a length or an index into a vector is a natural number. A \<^verbatim>\<open>std::int32_t\<close> is an
  integer, with \<open>is_int32\<close> where a bound matters. A C++ enumerator type with a fixed
  underlying type can hold a value no enumerator names: each such datatype has one
  constructor for it. A block guarded by \<^verbatim>\<open>catch (const std::bad_alloc&)\<close> takes a
  boolean \<open>mem\<close> that says whether its allocations succeed.
\<close>

unbundle bit_operations_syntax

named_theorems checked_dest \<open>what a successful checked operation means\<close>

section \<open>Machine integers and small structures\<close>

type_synonym u8 = "8 word"
type_synonym u16 = "16 word"
type_synonym u32 = "32 word"
type_synonym u64 = "64 word"
type_synonym size_t = "64 word"

type_synonym field_id = u16
type_synonym stage_id = u16
type_synonym revision_token = u64
type_synonym plan_fingerprint = u64

record int3 =
  x3 :: int
  y3 :: int
  z3 :: int

text \<open>
  A borrowed \<^verbatim>\<open>Span\<close>: its elements, or a null pointer with the size it claims.
\<close>

datatype 'a span = Null_span nat | Span "'a list"

fun span_size :: "'a span \<Rightarrow> nat" where
  "span_size (Null_span n) = n"
| "span_size (Span xs) = length xs"

fun span_list :: "'a span \<Rightarrow> 'a list" where
  "span_list (Null_span n) = []"
| "span_list (Span xs) = xs"

fun span_null :: "'a span \<Rightarrow> bool" where
  "span_null (Null_span n) = True"
| "span_null (Span xs) = False"

definition is_int32 :: "int \<Rightarrow> bool" where
  "is_int32 i \<longleftrightarrow> - (2 ^ 31) \<le> i \<and> i < 2 ^ 31"

definition int32_max :: int where
  "int32_max = 2 ^ 31 - 1"

definition u64_max :: u64 where
  "u64_max = - 1"

lemma unat_u64_max [simp]: "unat u64_max = 2 ^ 64 - 1"
  by (simp add: u64_max_def unsigned_minus_1_eq_mask mask_eq_exp_minus_1)

lemma unat_u64_less: "unat (w :: u64) < 2 ^ 64"
  using unsigned_less [of w] by simp

lemma unat_inject: "unat (a :: 'a::len word) = unat b \<longleftrightarrow> a = b"
  by (simp add: word_unat_eq_iff)

lemma unat_word_of_int64: "0 \<le> i \<Longrightarrow> i < 2 ^ 64 \<Longrightarrow> unat (word_of_int i :: u64) = nat i"
  by (simp only: unat_eq_nat_uint uint_word_of_int, simp)

lemma unat_word_of_int32: "is_int32 i \<Longrightarrow> 0 \<le> i \<Longrightarrow> unat (word_of_int i :: u64) = nat i"
  by (rule unat_word_of_int64) (simp_all add: is_int32_def)

lemma unat_ucast_up:
  fixes w :: "'a::len word"
  assumes "LENGTH('a) \<le> LENGTH('b::len)"
  shows "unat (ucast w :: 'b word) = unat w"
proof -
  have "unat w < 2 ^ LENGTH('a)" by (rule unsigned_less)
  also have "\<dots> \<le> 2 ^ LENGTH('b)" using assms by (rule power_increasing) simp
  finally show ?thesis by (simp add: unsigned_ucast_eq take_bit_nat_eq_self)
qed

lemma unat_ucast_u64 [simp]:
  "unat (ucast (a :: u8) :: u64) = unat a"
  "unat (ucast (b :: u16) :: u64) = unat b"
  "unat (ucast (c :: u32) :: u64) = unat c"
  by (simp_all add: unat_ucast_up)

lemma unat_word_of_uint8: "unat (word_of_int (uint (g :: u8)) :: u64) = unat g"
proof -
  have "uint g < 2 ^ 64" using uint_lt2p [of g] by simp
  then show ?thesis by (simp add: unat_word_of_int64)
qed

section \<open>Status values\<close>

text \<open>The last constructor is a value of the underlying type no enumerator names.\<close>

datatype status_code =
    Ok
  | Invalid_case
  | Invalid_plan
  | Allocation_failure
  | Mpi_failure
  | Numerical_failure
  | Rejected_step
  | Io_failure
  | Unnamed_code u16

record status =
  scode :: status_code
  sdetail :: u32

definition status_ok :: status where
  "status_ok = \<lparr>scode = Ok, sdetail = 0\<rparr>"

definition failed :: "status_code \<Rightarrow> u32 \<Rightarrow> status" where
  "failed c d = \<lparr>scode = c, sdetail = d\<rparr>"

definition is_ok :: "status \<Rightarrow> bool" where
  "is_ok s \<longleftrightarrow> scode s = Ok"

fun status_message :: "status_code \<Rightarrow> string" where
  "status_message Ok = ''ok''"
| "status_message Invalid_case = ''invalid case''"
| "status_message Invalid_plan = ''invalid plan''"
| "status_message Allocation_failure = ''allocation failure''"
| "status_message Mpi_failure = ''MPI failure''"
| "status_message Numerical_failure = ''numerical failure''"
| "status_message Rejected_step = ''rejected step''"
| "status_message Io_failure = ''I/O failure''"
| "status_message (Unnamed_code _) = ''unknown status''"

text \<open>\<^verbatim>\<open>static_cast<std::uint64_t>(code)\<close> and the cast back.\<close>

fun code_value :: "status_code \<Rightarrow> u64" where
  "code_value Ok = 0"
| "code_value Invalid_case = 1"
| "code_value Invalid_plan = 2"
| "code_value Allocation_failure = 3"
| "code_value Mpi_failure = 4"
| "code_value Numerical_failure = 5"
| "code_value Rejected_step = 6"
| "code_value Io_failure = 7"
| "code_value (Unnamed_code w) = ucast w"

definition code_of_value :: "u64 \<Rightarrow> status_code" where
  "code_of_value w =
     (if w = 0 then Ok else if w = 1 then Invalid_case else if w = 2 then Invalid_plan
      else if w = 3 then Allocation_failure else if w = 4 then Mpi_failure
      else if w = 5 then Numerical_failure else if w = 6 then Rejected_step
      else if w = 7 then Io_failure else Unnamed_code (ucast w))"

fun named_code :: "status_code \<Rightarrow> bool" where
  "named_code (Unnamed_code _) = False"
| "named_code _ = True"

lemma is_ok_status_ok [simp]: "is_ok status_ok"
  by (simp add: is_ok_def status_ok_def)

lemma is_ok_failed [simp]: "is_ok (failed c d) \<longleftrightarrow> c = Ok"
  by (simp add: is_ok_def failed_def)

lemma failed_sel [simp]: "scode (failed c d) = c" "sdetail (failed c d) = d"
  by (simp_all add: failed_def)

lemma status_ok_sel [simp]: "scode status_ok = Ok" "sdetail status_ok = 0"
  by (simp_all add: status_ok_def)

lemma failed_neq_ok [simp]: "c \<noteq> Ok \<Longrightarrow> failed c d \<noteq> status_ok" "c \<noteq> Ok \<Longrightarrow> status_ok \<noteq> failed c d"
  by (auto simp: failed_def status_ok_def)

lemma code_of_value_code_value: "named_code c \<Longrightarrow> code_of_value (code_value c) = c"
  by (cases c) (simp_all add: code_of_value_def)

lemma code_value_named: "named_code c \<Longrightarrow> code_value c \<le> 7"
  by (cases c) simp_all

section \<open>Checked size arithmetic\<close>

definition checked_add :: "u64 \<Rightarrow> u64 \<Rightarrow> u64 option" where
  "checked_add left right =
     (if right > u64_max - left then None else Some (left + right))"

definition checked_multiply :: "u64 \<Rightarrow> u64 \<Rightarrow> u64 option" where
  "checked_multiply left right =
     (if left \<noteq> 0 \<and> right > u64_max div left then None else Some (left * right))"

definition checked_align :: "u64 \<Rightarrow> u64 \<Rightarrow> u64 option" where
  "checked_align value alignment =
     (if alignment = 0 \<or> alignment AND (alignment - 1) \<noteq> 0 then None
      else case checked_add value (alignment - 1) of
             None \<Rightarrow> None
           | Some candidate \<Rightarrow> Some (candidate AND NOT (alignment - 1)))"

definition cache_line_bytes :: u64 where "cache_line_bytes = 64"
definition size_of_double :: u64 where "size_of_double = 8"
definition doubles_per_cache_line :: u64 where
  "doubles_per_cache_line = cache_line_bytes div size_of_double"

lemma unat_max_minus: "unat (u64_max - left) = 2 ^ 64 - 1 - unat left"
proof -
  have "left \<le> u64_max" by (simp add: u64_max_def)
  then show ?thesis by (simp add: unat_sub)
qed

lemma checked_add_eq:
  "checked_add a b = (if unat a + unat b < 2 ^ 64 then Some (a + b) else None)"
proof -
  have "b > u64_max - a \<longleftrightarrow> \<not> unat a + unat b < 2 ^ 64"
    using unat_u64_less [of a] unat_u64_less [of b]
    unfolding word_less_nat_alt unat_max_minus by linarith
  then show ?thesis by (simp add: checked_add_def)
qed

lemma checked_add_SomeD [checked_dest]:
  "checked_add a b = Some c \<Longrightarrow> unat c = unat a + unat b"
  by (auto simp: checked_add_eq unat_word_ariths split: if_splits)

lemma checked_multiply_eq:
  "checked_multiply a b = (if unat a * unat b < 2 ^ 64 then Some (a * b) else None)"
proof (cases "a = 0")
  case True
  then show ?thesis by (simp add: checked_multiply_def)
next
  case False
  then have a0: "0 < unat a" by (simp add: unat_gt_0)
  have "b > u64_max div a \<longleftrightarrow> (2 ^ 64 - 1) div unat a < unat b"
    unfolding word_less_nat_alt unat_div_distrib unat_u64_max ..
  also have "\<dots> \<longleftrightarrow> 2 ^ 64 - 1 < unat b * unat a"
    using a0 by (rule div_less_iff_less_mult)
  finally have "b > u64_max div a \<longleftrightarrow> \<not> unat a * unat b < 2 ^ 64"
    by (auto simp: mult.commute)
  with False show ?thesis by (simp add: checked_multiply_def)
qed

lemma checked_multiply_SomeD [checked_dest]:
  "checked_multiply a b = Some c \<Longrightarrow> unat c = unat a * unat b"
  by (auto simp: checked_multiply_eq unat_word_ariths split: if_splits)

text \<open>
  Alignments are powers of two: clearing the lowest set bit of a positive number leaves zero
  exactly when that bit is its only one.
\<close>

lemma nat_and_pred_even: "0 < m \<Longrightarrow> (2 * m) AND (2 * m - 1) = 2 * (m AND (m - 1))" for m :: nat
proof -
  assume "0 < m"
  then have "(2 * m - 1) div 2 = m - 1" by arith
  then show ?thesis by (simp add: and_rec [of "2 * m"])
qed

lemma nat_single_bit: "0 < n \<Longrightarrow> n AND (n - 1) = 0 \<Longrightarrow> \<exists>k. n = 2 ^ k" for n :: nat
proof (induction n rule: less_induct)
  case (less n)
  show ?case
  proof (cases "even n")
    case True
    then obtain m where m: "n = 2 * m" by blast
    with less.prems have "0 < m" by simp
    with less.prems(2) nat_and_pred_even [OF \<open>0 < m\<close>] have "m AND (m - 1) = 0"
      unfolding m by presburger
    with less.IH [of m] m \<open>0 < m\<close> obtain k where "m = 2 ^ k" by auto
    with m show ?thesis by (intro exI [of _ "Suc k"]) simp
  next
    case False
    then obtain m where m: "n = 2 * m + 1" by (blast elim: oddE)
    have "n AND (n - 1) = 2 * m" by (simp add: m and_rec [of "Suc (2 * m)"])
    with less.prems have "m = 0" by simp
    with m show ?thesis by (intro exI [of _ 0]) simp
  qed
qed

lemma unat_and_eq: "unat (a AND b) = unat a AND unat b"
  by (rule unsigned_and_eq)

lemma alignment_power: 
  assumes "a \<noteq> 0" and "a AND (a - 1) = (0 :: u64)"
  obtains k where "unat a = 2 ^ k" "k < 64"
proof -
  from assms have "unat a AND (unat a - 1) = 0"
    using unat_and_eq [of a "a - 1"] unat_minus_one [OF assms(1)] by simp
  moreover have "0 < unat a" using assms(1) by (simp add: unat_gt_0)
  ultimately obtain k where k: "unat a = 2 ^ k"
    using nat_single_bit by blast
  have "(2::nat) ^ k < 2 ^ 64" using unat_u64_less [of a] unfolding k .
  then have "k < 64" by (rule power_less_imp_less_exp [rotated]) simp
  with k show thesis by (rule that)
qed

lemma unat_clear_low_bits:
  assumes "unat a = 2 ^ k" "k < 64"
  shows "unat ((v :: u64) AND NOT (a - 1)) = unat v div unat a * unat a"
proof -
  have "a = of_nat (unat a)" by simp
  then have a: "a = 2 ^ k" unfolding assms(1) by simp
  then have "a - 1 = mask k" by (simp add: mask_eq_exp_minus_1)
  then have "v AND NOT (a - 1) = push_bit k (drop_bit k v)"
    by (simp add: bit_eq_iff bit_simps) (auto simp: bit_simps)
  also have "unat \<dots> = unat v div 2 ^ k * 2 ^ k"
  proof -
    have "unat v div 2 ^ k * 2 ^ k \<le> unat v" by simp
    then have "unat v div 2 ^ k * 2 ^ k < 2 ^ 64" using unat_u64_less [of v] by linarith
    moreover have "unat (drop_bit k v) = unat v div 2 ^ k"
      unfolding unat_drop_bit_eq by (rule drop_bit_eq_div)
    moreover have "unat (push_bit k (drop_bit k v)) = take_bit 64 (unat (drop_bit k v) * 2 ^ k)"
      unfolding unsigned_push_bit_eq by (simp add: push_bit_eq_mult)
    ultimately show ?thesis by (simp add: take_bit_nat_eq_self)
  qed
  finally show ?thesis by (simp add: assms)
qed

lemma checked_align_SomeD:
  assumes "checked_align v a = Some c"
  shows "unat c = (unat v + (unat a - 1)) div unat a * unat a" and "0 < unat a"
proof -
  from assms have a: "a \<noteq> 0" "a AND (a - 1) = 0"
    by (auto simp: checked_align_def split: if_splits)
  then obtain k where k: "unat a = 2 ^ k" "k < 64" by (rule alignment_power)
  from assms a obtain s where s: "checked_add v (a - 1) = Some s" "c = s AND NOT (a - 1)"
    by (auto simp: checked_align_def split: option.splits)
  have "unat s = unat v + (unat a - 1)"
    using checked_add_SomeD [OF s(1)] unat_minus_one [OF a(1)] by simp
  with s(2) unat_clear_low_bits [OF k, of s]
  show "unat c = (unat v + (unat a - 1)) div unat a * unat a" by simp
  show "0 < unat a" using k by simp
qed

lemma checked_align_bounds:
  assumes "checked_align v a = Some c"
  shows "unat v \<le> unat c" "unat c < unat v + unat a" "unat a dvd unat c"
proof -
  note c = checked_align_SomeD [OF assms]
  have d: "(unat v + (unat a - 1)) div unat a * unat a
      = unat v + (unat a - 1) - (unat v + (unat a - 1)) mod unat a"
    by (simp add: minus_mod_eq_div_mult)
  have "(unat v + (unat a - 1)) mod unat a < unat a" using c(2) by simp
  with c d show "unat v \<le> unat c" "unat c < unat v + unat a" by linarith+
  show "unat a dvd unat c" using c by simp
qed

text \<open>Rounding up to whole cache lines of doubles.\<close>

definition up8 :: "nat \<Rightarrow> nat" where
  "up8 n = (n + 7) div 8 * 8"

lemma up8_ge: "n \<le> up8 n" and up8_less: "up8 n < n + 8" and up8_dvd: "8 dvd up8 n"
  unfolding up8_def by (presburger | simp)+

lemma up8_idem: "8 dvd n \<Longrightarrow> up8 n = n"
  unfolding up8_def by presburger

lemma unat_doubles_per_cache_line [simp]: "unat doubles_per_cache_line = 8"
  by (simp add: doubles_per_cache_line_def cache_line_bytes_def size_of_double_def)

lemma checked_align_up8 [checked_dest]:
  "checked_align v doubles_per_cache_line = Some c \<Longrightarrow> unat c = up8 (unat v)"
  using checked_align_SomeD(1) [of v doubles_per_cache_line c] by (simp add: up8_def)

section \<open>Mixed-radix positions\<close>

lemma radix_unique:
  "a < m \<Longrightarrow> a' < m \<Longrightarrow> a + b * m = a' + b' * (m::nat) \<Longrightarrow> a = a' \<and> b = b'"
proof -
  assume a: "a < m" "a' < m" and eq: "a + b * m = a' + b' * m"
  from eq have "(a + b * m) mod m = (a' + b' * m) mod m" "(a + b * m) div m = (a' + b' * m) div m"
    by simp_all
  with a show ?thesis by simp
qed

lemma radix_bound: "a < m \<Longrightarrow> b < n \<Longrightarrow> a + b * m < m * (n::nat)"
proof -
  assume "a < m" "b < n"
  then have "a + b * m < m + b * m" by simp
  also have "\<dots> = Suc b * m" by simp
  also have "\<dots> \<le> n * m" using \<open>b < n\<close> by (intro mult_le_mono1) simp
  finally show ?thesis by (simp add: mult.commute)
qed

section \<open>Fingerprint mixing\<close>

text \<open>The FNV-1a step on 64-bit values that every plan fingerprint folds over its content.\<close>

definition fnv_offset :: u64 where "fnv_offset = 1469598103934665603"
definition fnv_prime :: u64 where "fnv_prime = 1099511628211"

definition hash_mix :: "u64 \<Rightarrow> u64 \<Rightarrow> u64" where
  "hash_mix hash value = (hash XOR value) * fnv_prime"

text \<open>A zero hash is published as one: a zero fingerprint means ``no plan''.\<close>

definition publish_hash :: "u64 \<Rightarrow> plan_fingerprint" where
  "publish_hash hash = (if hash = 0 then 1 else hash)"

lemma publish_hash_nonzero [simp]: "publish_hash h \<noteq> 0"
  by (simp add: publish_hash_def)

end
