(* ===== verification/Field_Registry.thy ===== *)
theory Field_Registry
  imports Prelude
begin

text \<open>
  The field catalogue of \<^verbatim>\<open>core_field_registry.cpp\<close> and \<^verbatim>\<open>hundun/v04_field.hpp\<close>. A registry
  collects field descriptors under unique stable names, hands out consecutive identifiers and is
  frozen once into an immutable schema, which every later plan indexes by identifier.

  The invariant \<open>registry_wf\<close> says that identifiers are positions and that the name set mirrors
  the descriptor list; every operation keeps it. The locale \<open>indexed_schema\<close> is what the arena
  layout relies on, interpreted here on the registry's own invariant.
\<close>

section \<open>State\<close>

record field_descriptor =
  fd_id :: field_id
  fd_name :: string
  fd_components :: u8
  fd_ghost_width :: u8

type_synonym field_schema = "field_descriptor list"

record field_registry =
  reg_fields :: "field_descriptor list"
  reg_names :: "string set"
  reg_frozen :: bool

definition empty_registry :: field_registry where
  "empty_registry = \<lparr>reg_fields = [], reg_names = {}, reg_frozen = False\<rparr>"

definition max_ghost_width :: u8 where "max_ghost_width = 16"

definition max_field_id :: nat where "max_field_id = 65535"

section \<open>Operations\<close>

text \<open>
  Each operation returns the status or the published value, and the registry afterwards. The
  roll-back of a failed \<^verbatim>\<open>push_back\<close> erases the name again, so an allocation failure at any
  point of the block leaves the registry as it was.
\<close>

definition declare_field ::
  "bool \<Rightarrow> string \<Rightarrow> u8 \<Rightarrow> u8 \<Rightarrow> field_registry \<Rightarrow> (status + field_id) \<times> field_registry" where
  "declare_field mem stable_name components ghost_width r =
     (if reg_frozen r \<or> stable_name = [] \<or> components = 0 \<or> ghost_width > max_ghost_width \<or>
         length (reg_fields r) > max_field_id
      then (Inl (failed Invalid_plan 1), r)
      else if \<not> mem then (Inl (failed Allocation_failure 0), r)
      else if stable_name \<in> reg_names r then (Inl (failed Invalid_plan 2), r)
      else let i = of_nat (length (reg_fields r)) :: field_id in
        (Inr i,
         r\<lparr>reg_fields := reg_fields r @
              [\<lparr>fd_id = i, fd_name = stable_name, fd_components = components,
                fd_ghost_width = ghost_width\<rparr>],
           reg_names := insert stable_name (reg_names r)\<rparr>))"

text \<open>The search loop of \<^verbatim>\<open>require_field\<close>: \<open>None\<close> when no descriptor has the name.\<close>

fun widen_field ::
  "string \<Rightarrow> u8 \<Rightarrow> u8 \<Rightarrow> field_descriptor list \<Rightarrow>
   ((status + field_id) \<times> field_descriptor list) option" where
  "widen_field stable_name components ghosts [] = None"
| "widen_field stable_name components ghosts (f # fs) =
     (if fd_name f \<noteq> stable_name
      then map_option (\<lambda>(out, fs'). (out, f # fs')) (widen_field stable_name components ghosts fs)
      else if fd_components f \<noteq> components then Some (Inl (failed Invalid_plan 4), f # fs)
      else Some (Inr (fd_id f),
             (if fd_ghost_width f < ghosts then f\<lparr>fd_ghost_width := ghosts\<rparr> else f) # fs))"

definition require_field ::
  "bool \<Rightarrow> string \<Rightarrow> u8 \<Rightarrow> u8 \<Rightarrow> field_registry \<Rightarrow> (status + field_id) \<times> field_registry" where
  "require_field mem stable_name components minimum_ghost_width r =
     (if reg_frozen r \<or> stable_name = [] \<or> components = 0 \<or> minimum_ghost_width > max_ghost_width
      then (Inl (failed Invalid_plan 1), r)
      else case widen_field stable_name components minimum_ghost_width (reg_fields r) of
             Some (out, fs) \<Rightarrow> (out, r\<lparr>reg_fields := fs\<rparr>)
           | None \<Rightarrow> declare_field mem stable_name components minimum_ghost_width r)"

definition freeze_registry ::
  "bool \<Rightarrow> field_registry \<Rightarrow> (status + field_schema) \<times> field_registry" where
  "freeze_registry mem r =
     (if reg_frozen r then (Inl (failed Invalid_plan 3), r)
      else if \<not> mem then (Inl (failed Allocation_failure 0), r)
      else (Inr (reg_fields r), r\<lparr>reg_frozen := True\<rparr>))"

definition hash_descriptor :: "u64 \<Rightarrow> field_descriptor \<Rightarrow> u64" where
  "hash_descriptor h f =
     fold (\<lambda>c h. hash_mix h (of_char c)) (fd_name f)
       (hash_mix
         (hash_mix (hash_mix (hash_mix h (ucast (fd_id f))) (ucast (fd_components f)))
           (ucast (fd_ghost_width f)))
         (of_nat (length (fd_name f))))"

definition registry_fingerprint :: "field_registry \<Rightarrow> plan_fingerprint" where
  "registry_fingerprint r =
     publish_hash
       (hash_mix
         (fold (\<lambda>f h. hash_descriptor h f) (reg_fields r)
           (hash_mix fnv_offset (of_nat (length (reg_fields r)))))
         (if reg_frozen r then 1 else 0))"

section \<open>Well-formed registries\<close>

definition schema_wf :: "field_schema \<Rightarrow> bool" where
  "schema_wf fs \<longleftrightarrow>
     length fs \<le> 65536 \<and>
     (\<forall>i < length fs. unat (fd_id (fs ! i)) = i) \<and>
     (\<forall>f \<in> set fs. fd_name f \<noteq> [] \<and> fd_components f \<noteq> 0 \<and> fd_ghost_width f \<le> max_ghost_width)"

definition registry_wf :: "field_registry \<Rightarrow> bool" where
  "registry_wf r \<longleftrightarrow>
     schema_wf (reg_fields r) \<and> distinct (map fd_name (reg_fields r)) \<and>
     reg_names r = fd_name ` set (reg_fields r)"

text \<open>
  What the operations may do to a descriptor list: keep every entry's identity, widen ghosts,
  append.
\<close>

definition schema_extends :: "field_schema \<Rightarrow> field_schema \<Rightarrow> bool" where
  "schema_extends fs gs \<longleftrightarrow>
     length fs \<le> length gs \<and>
     (\<forall>i < length fs. fd_id (gs ! i) = fd_id (fs ! i) \<and> fd_name (gs ! i) = fd_name (fs ! i) \<and>
        fd_components (gs ! i) = fd_components (fs ! i) \<and>
        fd_ghost_width (fs ! i) \<le> fd_ghost_width (gs ! i))"

lemma schema_extends_refl [simp, intro]: "schema_extends fs fs"
  by (simp add: schema_extends_def)

lemma schema_extends_trans:
  "schema_extends fs gs \<Longrightarrow> schema_extends gs hs \<Longrightarrow> schema_extends fs hs"
  unfolding schema_extends_def
proof (intro conjI allI impI; elim conjE)
  assume "length fs \<le> length gs" "length gs \<le> length hs"
  then show "length fs \<le> length hs" by simp
next
  fix i
  assume "i < length fs" "length fs \<le> length gs"
    "\<forall>i<length fs. fd_id (gs ! i) = fd_id (fs ! i) \<and> fd_name (gs ! i) = fd_name (fs ! i) \<and>
        fd_components (gs ! i) = fd_components (fs ! i) \<and>
        fd_ghost_width (fs ! i) \<le> fd_ghost_width (gs ! i)"
    "\<forall>i<length gs. fd_id (hs ! i) = fd_id (gs ! i) \<and> fd_name (hs ! i) = fd_name (gs ! i) \<and>
        fd_components (hs ! i) = fd_components (gs ! i) \<and>
        fd_ghost_width (gs ! i) \<le> fd_ghost_width (hs ! i)"
  then show "fd_id (hs ! i) = fd_id (fs ! i)" "fd_name (hs ! i) = fd_name (fs ! i)"
    "fd_components (hs ! i) = fd_components (fs ! i)"
    "fd_ghost_width (fs ! i) \<le> fd_ghost_width (hs ! i)"
    by (auto intro: order_trans)
qed

lemma schema_extends_append [intro]: "schema_extends fs (fs @ gs)"
  by (simp add: schema_extends_def nth_append)

lemma widen_field_None:
  "widen_field n c g fs = None \<longleftrightarrow> n \<notin> fd_name ` set fs"
  by (induction fs) (auto split: if_splits)

lemma widen_field_names:
  "widen_field n c g fs = Some (out, fs') \<Longrightarrow> map fd_name fs' = map fd_name fs"
  by (induction fs arbitrary: fs') (auto split: if_splits)

lemma widen_field_extends:
  "widen_field n c g fs = Some (out, fs') \<Longrightarrow> length fs' = length fs \<and> schema_extends fs fs'"
proof (induction fs arbitrary: fs')
  case Nil
  then show ?case by simp
next
  case (Cons f fs)
  then show ?case
    by (fastforce simp: schema_extends_def nth_Cons split: if_splits nat.splits)
qed

lemma widen_field_entries:
  "widen_field n c g fs = Some (out, fs') \<Longrightarrow> f' \<in> set fs' \<Longrightarrow>
     f' \<in> set fs \<or> (\<exists>f \<in> set fs. f' = f\<lparr>fd_ghost_width := g\<rparr>)"
  by (induction fs arbitrary: fs') (fastforce split: if_splits)+

lemma widen_field_wf:
  assumes "widen_field n c g fs = Some (out, fs')" "schema_wf fs" "g \<le> max_ghost_width"
  shows "schema_wf fs'"
proof -
  have "f' \<in> set fs' \<Longrightarrow>
      fd_name f' \<noteq> [] \<and> fd_components f' \<noteq> 0 \<and> fd_ghost_width f' \<le> max_ghost_width" for f'
    using widen_field_entries [OF assms(1)] assms(2,3) by (fastforce simp: schema_wf_def)
  with widen_field_extends [OF assms(1)] assms(2) show ?thesis
    by (auto simp: schema_wf_def schema_extends_def)
qed

lemma schema_wf_snoc:
  assumes "schema_wf fs" "length fs \<le> max_field_id" "n \<noteq> []" "c \<noteq> 0" "g \<le> max_ghost_width"
  shows "schema_wf (fs @ [\<lparr>fd_id = of_nat (length fs), fd_name = n, fd_components = c,
    fd_ghost_width = g\<rparr>])"
  using assms
  by (auto simp: schema_wf_def nth_append less_Suc_eq max_field_id_def unat_of_nat
      take_bit_nat_eq_self)

lemma declare_field_wf:
  "registry_wf r \<Longrightarrow> declare_field mem n c g r = (out, r') \<Longrightarrow> registry_wf r'"
  by (auto simp: declare_field_def registry_wf_def Let_def schema_wf_snoc not_less
      split: if_splits)

lemma require_field_wf:
  assumes "registry_wf r" "require_field mem n c g r = (out, r')"
  shows "registry_wf r'"
proof (cases "widen_field n c g (reg_fields r)")
  case None
  with assms show ?thesis
    by (auto simp: require_field_def intro: declare_field_wf split: if_splits)
next
  case (Some p)
  then obtain o' fs where p: "widen_field n c g (reg_fields r) = Some (o', fs)" by (cases p) auto
  from widen_field_names [OF p] assms(1) have "reg_names r = fd_name ` set fs"
    by (metis list.set_map registry_wf_def)
  with assms p widen_field_names [OF p] widen_field_wf [OF p] show ?thesis
    by (clarsimp simp: require_field_def registry_wf_def not_less split: if_splits)
qed

lemma freeze_registry_wf:
  "registry_wf r \<Longrightarrow> freeze_registry mem r = (out, r') \<Longrightarrow> registry_wf r'"
  by (auto simp: freeze_registry_def registry_wf_def split: if_splits)

lemma declare_field_extends:
  "declare_field mem n c g r = (out, r') \<Longrightarrow> schema_extends (reg_fields r) (reg_fields r')"
  by (auto simp: declare_field_def Let_def split: if_splits)

lemma require_field_extends:
  "require_field mem n c g r = (out, r') \<Longrightarrow> schema_extends (reg_fields r) (reg_fields r')"
  by (auto simp: require_field_def dest: widen_field_extends declare_field_extends
      split: if_splits option.splits)

section \<open>The catalogue as a finite map\<close>

text \<open>
  The abstract view: a partial map from stable names to identifier, component count and ghost
  width.
\<close>

definition registry_view :: "field_registry \<Rightarrow> (string \<rightharpoonup> field_id \<times> u8 \<times> u8)" where
  "registry_view r =
     map_of (map (\<lambda>f. (fd_name f, fd_id f, fd_components f, fd_ghost_width f)) (reg_fields r))"

definition abstract_require ::
  "nat \<Rightarrow> string \<Rightarrow> u8 \<Rightarrow> u8 \<Rightarrow> (string \<rightharpoonup> field_id \<times> u8 \<times> u8) \<Rightarrow>
   (status + field_id) \<times> (string \<rightharpoonup> field_id \<times> u8 \<times> u8)" where
  "abstract_require count n c g m =
     (case m n of
        None \<Rightarrow> (Inr (of_nat count), m(n \<mapsto> (of_nat count, c, g)))
      | Some (i, c', g') \<Rightarrow>
          if c' \<noteq> c then (Inl (failed Invalid_plan 4), m)
          else (Inr i, m(n \<mapsto> (i, c', max g' g))))"

abbreviation view_entry :: "field_descriptor \<Rightarrow> string \<times> field_id \<times> u8 \<times> u8" where
  "view_entry f \<equiv> (fd_name f, fd_id f, fd_components f, fd_ghost_width f)"

lemma map_of_view_None:
  "map_of (map view_entry fs) n = None \<longleftrightarrow> n \<notin> fd_name ` set fs"
  by (simp add: map_of_eq_None_iff image_image)

lemma widen_field_view:
  "widen_field n c g fs = Some (out, fs') \<Longrightarrow>
   (out, map_of (map view_entry fs')) = abstract_require k n c g (map_of (map view_entry fs))"
proof (induction fs arbitrary: fs')
  case Nil
  then show ?case by simp
next
  case (Cons f fs)
  show ?case
  proof (cases "fd_name f = n")
    case True
    with Cons.prems show ?thesis
      by (auto simp: abstract_require_def max_def not_less split: if_splits)
  next
    case False
    with Cons.prems obtain gs where gs: "widen_field n c g fs = Some (out, gs)" "fs' = f # gs"
      by auto
    from Cons.IH [OF gs(1)] False show ?thesis
      by (auto simp: gs(2) abstract_require_def fun_upd_twist split: option.splits if_splits)
  qed
qed

lemma map_add_fresh: "m n = None \<Longrightarrow> [n \<mapsto> v] ++ m = m(n \<mapsto> v)"
  by (auto simp: fun_eq_iff map_add_def split: option.splits)

section \<open>The interface plans index by\<close>

text \<open>
  What every consumer of a frozen catalogue relies on: the descriptor of identifier \<open>i\<close> stands at
  position \<open>i\<close>.
\<close>

locale indexed_schema =
  fixes schema :: "'r \<Rightarrow> field_schema"
    and valid :: "'r \<Rightarrow> bool"
  assumes id_position: "valid r \<Longrightarrow> i < length (schema r) \<Longrightarrow> unat (fd_id (schema r ! i)) = i"
    and id_range: "valid r \<Longrightarrow> length (schema r) \<le> 65536"
begin

lemma id_of_position: "valid r \<Longrightarrow> i < length (schema r) \<Longrightarrow> fd_id (schema r ! i) = of_nat i"
proof -
  assume "valid r" "i < length (schema r)"
  then have "of_nat (unat (fd_id (schema r ! i))) = (of_nat i :: field_id)"
    by (simp add: id_position)
  then show ?thesis by simp
qed

lemma position_of_entry:
  assumes "valid r" "f \<in> set (schema r)"
  shows "unat (fd_id f) < length (schema r) \<and> schema r ! unat (fd_id f) = f"
proof -
  from assms(2) obtain i where "i < length (schema r)" "schema r ! i = f"
    by (auto simp: in_set_conv_nth)
  with id_position [OF assms(1)] show ?thesis by auto
qed

lemma ids_distinct: "valid r \<Longrightarrow> distinct (map fd_id (schema r))"
  unfolding distinct_conv_nth by (metis id_position length_map nth_map)

end

interpretation catalogue: indexed_schema reg_fields registry_wf
  by unfold_locales (auto simp: registry_wf_def schema_wf_def)

interpretation snapshot: indexed_schema "\<lambda>fs. fs" schema_wf
  by unfold_locales (auto simp: schema_wf_def)

section \<open>Histories\<close>

inductive registry_step :: "field_registry \<Rightarrow> field_registry \<Rightarrow> bool" where
  step_declare: "declare_field mem n c g r = (out, r') \<Longrightarrow> registry_step r r'"
| step_require: "require_field mem n c g r = (out, r') \<Longrightarrow> registry_step r r'"
| step_freeze: "freeze_registry mem r = (res, r') \<Longrightarrow> registry_step r r'"

inductive registry_history :: "field_registry \<Rightarrow> field_registry \<Rightarrow> bool" where
  history_refl: "registry_history r r"
| history_step: "registry_history r r' \<Longrightarrow> registry_step r' r'' \<Longrightarrow> registry_history r r''"

inductive_cases registry_stepE: "registry_step r r'"

lemma registry_step_wf: "registry_step r r' \<Longrightarrow> registry_wf r \<Longrightarrow> registry_wf r'"
  by (erule registry_stepE) (auto intro: declare_field_wf require_field_wf freeze_registry_wf)

lemma registry_step_extends: "registry_step r r' \<Longrightarrow> schema_extends (reg_fields r) (reg_fields r')"
  by (erule registry_stepE)
    (auto dest: declare_field_extends require_field_extends simp: freeze_registry_def
      split: if_splits)

lemma registry_step_frozen: "registry_step r r' \<Longrightarrow> reg_frozen r \<Longrightarrow> r' = r"
  by (erule registry_stepE)
    (auto simp: declare_field_def require_field_def freeze_registry_def)

section \<open>Properties\<close>

text \<open>
  C12. Every history of an empty registry, whatever operations, arguments and allocation failures
  it contains, leaves a catalogue in which identifiers are positions, names are unique and
  non-empty, component counts are positive and ghost widths stay within sixteen.
\<close>

theorem registry_invariant:
  assumes "registry_history empty_registry r"
  shows "registry_wf r"
  using assms
proof (induction empty_registry r rule: registry_history.induct)
  case history_refl
  show ?case by (simp add: registry_wf_def schema_wf_def empty_registry_def)
next
  case (history_step r' r'')
  then show ?case by (blast intro: registry_step_wf)
qed

theorem registry_invariant_witness:
  "\<exists>r. registry_history empty_registry r \<and> registry_wf r \<and> length (reg_fields r) = 1"
proof -
  have s: "registry_step empty_registry (snd (declare_field True ''rho'' 1 2 empty_registry))"
    by (rule registry_step.step_declare [where out = "Inr 0" and mem = True and n = "''rho''" and c = 1 and g = 2])
      (simp add: declare_field_def empty_registry_def max_ghost_width_def max_field_id_def)
  then have h: "registry_history empty_registry (snd (declare_field True ''rho'' 1 2 empty_registry))"
    by (blast intro: registry_history.intros)
  then show ?thesis using registry_invariant [OF h]
    by (intro exI [of _ "snd (declare_field True ''rho'' 1 2 empty_registry)"])
      (simp add: declare_field_def empty_registry_def max_ghost_width_def max_field_id_def)
qed

text \<open>
  An identifier keeps its meaning: along any history, a field keeps its identifier, name and
  component count, its ghost width never shrinks, and once the registry is frozen nothing changes
  any more.
\<close>

theorem registry_identifiers_stable:
  assumes "registry_history r r'"
  shows "schema_extends (reg_fields r) (reg_fields r') \<and> (reg_frozen r \<longrightarrow> r' = r)"
  using assms
proof (induction rule: registry_history.induct)
  case (history_refl r)
  show ?case by simp
next
  case (history_step r r' r'')
  then show ?case
    by (meson registry_step_extends registry_step_frozen schema_extends_trans)
qed

theorem registry_identifiers_stable_witness:
  "\<exists>r r'. registry_history r r' \<and> reg_frozen r \<and> r' = r \<and>
     schema_extends (reg_fields r) (reg_fields r')"
proof -
  let ?r = "empty_registry\<lparr>reg_frozen := True\<rparr>"
  have h: "registry_history ?r ?r" by (rule registry_history.history_refl)
  from registry_identifiers_stable [OF h] show ?thesis
    by (intro exI [of _ ?r]) (simp add: h)
qed

text \<open>
  C13. On a well-formed open registry, \<open>require_field\<close> with admissible arguments and enough memory
  refines the update of a finite map from names: an absent name is bound to the next identifier, a
  present name with the same component count keeps its identifier and takes the larger ghost
  width, and a component mismatch changes nothing.
\<close>

theorem require_field_refines:
  assumes "registry_wf r" "\<not> reg_frozen r" "n \<noteq> []" "c \<noteq> 0" "g \<le> max_ghost_width"
    and "length (reg_fields r) \<le> max_field_id"
  shows "(let (out, r') = require_field True n c g r in (out, registry_view r'))
    = abstract_require (length (reg_fields r)) n c g (registry_view r)"
proof (cases "widen_field n c g (reg_fields r)")
  case None
  then have fresh: "n \<notin> fd_name ` set (reg_fields r)" by (simp add: widen_field_None)
  with assms have "n \<notin> reg_names r" by (simp add: registry_wf_def)
  moreover have "registry_view r n = None"
    using fresh by (simp add: registry_view_def map_of_view_None)
  ultimately show ?thesis using assms None fresh
    by (simp add: require_field_def declare_field_def abstract_require_def registry_view_def
        Let_def not_less map_add_fresh)
next
  case (Some p)
  then obtain out fs where "widen_field n c g (reg_fields r) = Some (out, fs)" by (cases p) auto
  moreover from assms(5) have "\<not> max_ghost_width < g" by simp
  ultimately show ?thesis using widen_field_view assms
    by (simp add: require_field_def registry_view_def)
qed

theorem require_field_refines_witness:
  "(let (out, r') = require_field True ''u'' 3 2 empty_registry in (out, registry_view r'))
    = abstract_require 0 ''u'' 3 2 (registry_view empty_registry)"
  using require_field_refines [of empty_registry "''u''" 3 2]
  by (simp add: registry_wf_def schema_wf_def empty_registry_def max_ghost_width_def max_field_id_def)

end
