(* ===== verification/Resource_Contract.thy ===== *)
theory Resource_Contract
  imports Prelude
begin

text \<open>
  Resource accounting of \<^verbatim>\<open>core_resource_contract.cpp\<close>: counters accumulated with checked
  64-bit additions, compared against the contract the execution graph freezes. Both are read
  through a list of lanes in the order of the code's checks, which gives each error code its
  meaning: the first lane that overflows, the first lane over its limit.
\<close>

section \<open>Data\<close>

record resource_contract =
  max_live_workspace_bytes :: u64
  allocation_allowance :: u64
  lim_halo_messages :: u64
  lim_halo_bytes :: u64
  lim_numeric_refills :: u64
  lim_hierarchy_rebuilds :: u64
  lim_cache_publishes :: u64
  lim_linear_iterations :: u64
  lim_stage_wall_nanoseconds :: u64

record resource_counters =
  peak_workspace_bytes :: u64
  allocations :: u64
  merged_halo_messages :: u64
  merged_halo_bytes :: u64
  numeric_refills :: u64
  hierarchy_rebuilds :: u64
  cache_publishes :: u64
  linear_iterations :: u64
  stage_wall_nanoseconds :: u64

section \<open>Operations\<close>

definition add_resource_counters ::
  "resource_counters \<Rightarrow> resource_counters \<Rightarrow> status \<times> resource_counters" where
  "add_resource_counters counters inc =
    (let candidate = counters\<lparr>peak_workspace_bytes :=
           max (peak_workspace_bytes counters) (peak_workspace_bytes inc)\<rparr> in
     case checked_add (allocations candidate) (allocations inc) of
       None \<Rightarrow> (failed Invalid_plan 401, counters)
     | Some v1 \<Rightarrow>
     case checked_add (merged_halo_messages candidate) (merged_halo_messages inc) of
       None \<Rightarrow> (failed Invalid_plan 402, counters)
     | Some v2 \<Rightarrow>
     case checked_add (merged_halo_bytes candidate) (merged_halo_bytes inc) of
       None \<Rightarrow> (failed Invalid_plan 403, counters)
     | Some v3 \<Rightarrow>
     case checked_add (numeric_refills candidate) (numeric_refills inc) of
       None \<Rightarrow> (failed Invalid_plan 404, counters)
     | Some v4 \<Rightarrow>
     case checked_add (hierarchy_rebuilds candidate) (hierarchy_rebuilds inc) of
       None \<Rightarrow> (failed Invalid_plan 405, counters)
     | Some v5 \<Rightarrow>
     case checked_add (cache_publishes candidate) (cache_publishes inc) of
       None \<Rightarrow> (failed Invalid_plan 406, counters)
     | Some v6 \<Rightarrow>
     case checked_add (linear_iterations candidate) (linear_iterations inc) of
       None \<Rightarrow> (failed Invalid_plan 407, counters)
     | Some v7 \<Rightarrow>
     case checked_add (stage_wall_nanoseconds candidate) (stage_wall_nanoseconds inc) of
       None \<Rightarrow> (failed Invalid_plan 408, counters)
     | Some v8 \<Rightarrow>
       (status_ok,
        candidate\<lparr>allocations := v1, merged_halo_messages := v2, merged_halo_bytes := v3,
          numeric_refills := v4, hierarchy_rebuilds := v5, cache_publishes := v6,
          linear_iterations := v7, stage_wall_nanoseconds := v8\<rparr>))"

definition validate_resource_counters :: "resource_contract \<Rightarrow> resource_counters \<Rightarrow> status" where
  "validate_resource_counters contract counters =
    (if peak_workspace_bytes counters > max_live_workspace_bytes contract
     then failed Invalid_plan 411
     else if allocations counters > allocation_allowance contract
     then failed Invalid_plan 412
     else if merged_halo_messages counters > lim_halo_messages contract
     then failed Invalid_plan 413
     else if merged_halo_bytes counters > lim_halo_bytes contract
     then failed Invalid_plan 414
     else if numeric_refills counters > lim_numeric_refills contract
     then failed Invalid_plan 415
     else if hierarchy_rebuilds counters > lim_hierarchy_rebuilds contract
     then failed Invalid_plan 416
     else if cache_publishes counters > lim_cache_publishes contract
     then failed Invalid_plan 417
     else if linear_iterations counters > lim_linear_iterations contract
     then failed Invalid_plan 418
     else if stage_wall_nanoseconds counters > lim_stage_wall_nanoseconds contract
     then failed Invalid_plan 419
     else status_ok)"

section \<open>Lanes\<close>

text \<open>The eight summed lanes, and the nine limited ones, in the order of the checks.\<close>

definition summed_lanes :: "resource_counters \<Rightarrow> u64 list" where
  "summed_lanes c = [allocations c, merged_halo_messages c, merged_halo_bytes c,
     numeric_refills c, hierarchy_rebuilds c, cache_publishes c, linear_iterations c,
     stage_wall_nanoseconds c]"

definition counter_lanes :: "resource_counters \<Rightarrow> u64 list" where
  "counter_lanes c = peak_workspace_bytes c # summed_lanes c"

definition contract_lanes :: "resource_contract \<Rightarrow> u64 list" where
  "contract_lanes k = [max_live_workspace_bytes k, allocation_allowance k, lim_halo_messages k,
     lim_halo_bytes k, lim_numeric_refills k, lim_hierarchy_rebuilds k, lim_cache_publishes k,
     lim_linear_iterations k, lim_stage_wall_nanoseconds k]"

text \<open>The error code of the first lane pair that fails a test, counted from a base code.\<close>

fun first_failure :: "(u64 \<Rightarrow> u64 \<Rightarrow> bool) \<Rightarrow> u32 \<Rightarrow> u64 list \<Rightarrow> u64 list \<Rightarrow> u32 option" where
  "first_failure bad k (a # as) (b # bs) =
     (if bad a b then Some k else first_failure bad (k + 1) as bs)"
| "first_failure bad k _ _ = None"

definition sum_overflows :: "u64 \<Rightarrow> u64 \<Rightarrow> bool" where
  "sum_overflows a b \<longleftrightarrow> 2 ^ 64 \<le> unat a + unat b"

lemma first_failure_None:
  "length as = length bs \<Longrightarrow>
   first_failure bad k as bs = None \<longleftrightarrow> (\<forall>i < length as. \<not> bad (as ! i) (bs ! i))"
proof (induction as bs arbitrary: k rule: list_induct2)
  case Nil
  then show ?case by simp
next
  case (Cons a as b bs)
  then show ?case by (auto simp: nth_Cons split: nat.splits)
qed

lemma checked_add_overflow: "checked_add a b = (if sum_overflows a b then None else Some (a + b))"
  by (simp add: checked_add_eq sum_overflows_def not_le)

section \<open>Properties\<close>

text \<open>
  Accumulation is exact or does nothing: it fails exactly when some lane's mathematical sum
  leaves 64 bits, with the code of the first such lane and the counters untouched; otherwise every
  lane holds the mathematical sum and the peak is the larger one.
\<close>

theorem add_resource_counters_exact:
  "case first_failure sum_overflows 401 (summed_lanes c) (summed_lanes d) of
     Some k \<Rightarrow> add_resource_counters c d = (failed Invalid_plan k, c)
   | None \<Rightarrow> (let (s, e) = add_resource_counters c d in
       s = status_ok \<and>
       peak_workspace_bytes e = max (peak_workspace_bytes c) (peak_workspace_bytes d) \<and>
       map unat (summed_lanes e) =
         map2 (\<lambda>a b. unat a + unat b) (summed_lanes c) (summed_lanes d))"
  by (simp add: add_resource_counters_def summed_lanes_def checked_add_overflow Let_def)
    (simp add: sum_overflows_def unat_word_ariths not_le)

text \<open>
  Validation accepts exactly the counters that respect every limit, and otherwise names the
  first limit that is exceeded.
\<close>

theorem validate_resource_counters_first:
  "validate_resource_counters k c =
     (case first_failure (\<lambda>a b. a > b) 411 (counter_lanes c) (contract_lanes k) of
        None \<Rightarrow> status_ok | Some d \<Rightarrow> failed Invalid_plan d)"
  by (simp add: validate_resource_counters_def counter_lanes_def summed_lanes_def
      contract_lanes_def)

end
