(* ===== verification/Identities.thy ===== *)
theory Identities
  imports Field_Registry
begin

text \<open>
  Process-wide identities (\<^verbatim>\<open>detail::issue_identity\<close> in \<^verbatim>\<open>core_arena.cpp\<close>) and revision
  sets (\<^verbatim>\<open>core_revision.cpp\<close>). The counter is an atomic shared by every thread: the
  compare-exchange loop is a step relation over interleaved threads, which refines the sequential
  \<open>issue_identity\<close> the other components use. The locale \<open>token_clock\<close> is the contract of every
  source of fresh tokens; it is interpreted here on the identity counter and, in the theory of the
  state layers, on their revision counter.
\<close>

section \<open>Sources of fresh tokens\<close>

fun run_ticks :: "('a \<Rightarrow> 's \<Rightarrow> (u64 \<times> 's) option) \<Rightarrow> 'a list \<Rightarrow> 's \<Rightarrow> (u64 list \<times> 's) option" where
  "run_ticks tick [] s = Some ([], s)"
| "run_ticks tick (a # as) s =
     (case tick a s of
        None \<Rightarrow> None
      | Some (t, s') \<Rightarrow> map_option (\<lambda>(ts, s''). (t # ts, s'')) (run_ticks tick as s'))"

locale token_clock =
  fixes tick :: "'a \<Rightarrow> 's \<Rightarrow> (u64 \<times> 's) option"
    and clock :: "'s \<Rightarrow> nat"
    and valid :: "'s \<Rightarrow> bool"
  assumes tick_token: "valid s \<Longrightarrow> tick a s = Some (t, s') \<Longrightarrow> unat t = clock s"
    and tick_clock: "valid s \<Longrightarrow> tick a s = Some (t, s') \<Longrightarrow> clock s' = Suc (clock s)"
    and tick_valid: "valid s \<Longrightarrow> tick a s = Some (t, s') \<Longrightarrow> valid s'"
    and valid_positive: "valid s \<Longrightarrow> 0 < clock s"
begin

lemma tick_nonzero: "valid s \<Longrightarrow> tick a s = Some (t, s') \<Longrightarrow> t \<noteq> 0"
  using tick_token [of s a t s'] valid_positive [of s] by auto

lemma run_valid: "valid s \<Longrightarrow> run_ticks tick as s = Some (ts, s') \<Longrightarrow> valid s'"
  by (induction as arbitrary: s ts) (auto split: option.splits dest: tick_valid)

text \<open>The tokens of a run are the consecutive values of the clock.\<close>

lemma run_tokens:
  "valid s \<Longrightarrow> run_ticks tick as s = Some (ts, s') \<Longrightarrow>
   map unat ts = [clock s ..< clock s + length as] \<and> clock s' = clock s + length as"
proof (induction as arbitrary: s ts)
  case Nil
  then show ?case by simp
next
  case (Cons a as)
  then obtain t s1 us where t: "tick a s = Some (t, s1)" "run_ticks tick as s1 = Some (us, s')"
    "ts = t # us"
    by (auto split: option.splits)
  note c = tick_token [OF Cons.prems(1) t(1)] tick_clock [OF Cons.prems(1) t(1)]
  from Cons.IH [OF tick_valid [OF Cons.prems(1) t(1)] t(2)] c
  show ?case by (simp add: t(3) upt_conv_Cons del: upt_Suc)
qed

lemma run_distinct: "valid s \<Longrightarrow> run_ticks tick as s = Some (ts, s') \<Longrightarrow> distinct ts"
  by (metis run_tokens distinct_map distinct_upt)

lemma run_fresh:
  assumes "valid s" "run_ticks tick as s = Some (ts, s')" "t \<in> set ts"
  shows "clock s \<le> unat t \<and> unat t < clock s' \<and> t \<noteq> 0"
proof -
  from assms(3) have "unat t \<in> set (map unat ts)" by simp
  with run_tokens [OF assms(1,2)] valid_positive [OF assms(1)] show ?thesis by auto
qed

end

section \<open>The identity counter\<close>

text \<open>
  The counter starts at one and stops at the largest value: it then answers zero, the identity no
  object has. The first component is the identity, the second the counter afterwards.
\<close>

definition first_identity :: u64 where "first_identity = 1"

definition issue_identity :: "u64 \<Rightarrow> u64 \<times> u64" where
  "issue_identity next_id =
     (if next_id \<noteq> u64_max then (next_id, next_id + 1) else (0, next_id))"

definition tick_identity :: "unit \<Rightarrow> u64 \<Rightarrow> (u64 \<times> u64) option" where
  "tick_identity _ next_id =
     (let (i, next') = issue_identity next_id in if i = 0 then None else Some (i, next'))"

lemma unat_succ: "w \<noteq> u64_max \<Longrightarrow> unat (w + 1) = Suc (unat w)"
proof -
  assume "w \<noteq> u64_max"
  then have "unat w \<noteq> unat u64_max" by (simp add: word_unat_eq_iff)
  then have "unat w + 1 < 2 ^ 64" using unat_u64_less [of w] by simp
  then show ?thesis by (simp add: unat_word_ariths)
qed

lemma tick_identity_SomeD:
  "tick_identity a n = Some (t, n') \<Longrightarrow> t = n \<and> n \<noteq> 0 \<and> n \<noteq> u64_max \<and> n' = n + 1"
  by (auto simp: tick_identity_def issue_identity_def split: if_splits)

lemma succ_nonzero: "w \<noteq> u64_max \<Longrightarrow> w + 1 \<noteq> 0"
  using unat_succ [of w] by (metis nat.distinct(1) unat_0)

interpretation identity: token_clock tick_identity unat "\<lambda>n. n \<noteq> 0"
  by unfold_locales
    (auto dest!: tick_identity_SomeD simp: unat_succ succ_nonzero unat_gt_0)

section \<open>Interleaved threads\<close>

text \<open>
  A thread loads the counter, then retries a compare-exchange, which may fail spuriously and then
  reloads the counter, until it wins or sees the last value. \<open>issued\<close> lists the results in the
  order in which they were obtained.
\<close>

datatype id_thread = Id_idle | Id_trying u64

record id_machine =
  id_next :: u64
  id_threads :: "nat \<Rightarrow> id_thread"
  id_issued :: "u64 list"

definition id_init :: id_machine where
  "id_init = \<lparr>id_next = first_identity, id_threads = (\<lambda>_. Id_idle), id_issued = []\<rparr>"

inductive id_step :: "id_machine \<Rightarrow> id_machine \<Rightarrow> bool" where
  id_load: "id_threads m k = Id_idle \<Longrightarrow>
     id_step m (m\<lparr>id_threads := (id_threads m)(k := Id_trying (id_next m))\<rparr>)"
| id_win: "id_threads m k = Id_trying c \<Longrightarrow> c \<noteq> u64_max \<Longrightarrow> id_next m = c \<Longrightarrow>
     id_step m (m\<lparr>id_next := c + 1, id_threads := (id_threads m)(k := Id_idle),
                  id_issued := id_issued m @ [c]\<rparr>)"
| id_lose: "id_threads m k = Id_trying c \<Longrightarrow> c \<noteq> u64_max \<Longrightarrow>
     id_step m (m\<lparr>id_threads := (id_threads m)(k := Id_trying (id_next m))\<rparr>)"
| id_exhausted: "id_threads m k = Id_trying c \<Longrightarrow> c = u64_max \<Longrightarrow>
     id_step m (m\<lparr>id_threads := (id_threads m)(k := Id_idle), id_issued := id_issued m @ [0]\<rparr>)"

inductive id_reachable :: "id_machine \<Rightarrow> bool" where
  id_start: "id_reachable id_init"
| id_next_step: "id_reachable m \<Longrightarrow> id_step m m' \<Longrightarrow> id_reachable m'"

inductive_cases id_stepE: "id_step m m'"

definition granted :: "u64 list \<Rightarrow> u64 list" where
  "granted = filter (\<lambda>i. i \<noteq> 0)"

text \<open>
  The strengthened invariant: the granted identities are what a sequential run of as many calls
  yields, that run ends at the current counter, and a thread never holds a candidate beyond it.
\<close>

definition id_inv :: "id_machine \<Rightarrow> bool" where
  "id_inv m \<longleftrightarrow>
     id_next m \<noteq> 0 \<and>
     run_ticks tick_identity (replicate (length (granted (id_issued m))) ()) first_identity
       = Some (granted (id_issued m), id_next m) \<and>
     (0 \<in> set (id_issued m) \<longrightarrow> id_next m = u64_max) \<and>
     (\<forall>k c. id_threads m k = Id_trying c \<longrightarrow> c \<le> id_next m)"

lemma run_ticks_snoc:
  "run_ticks tick as s = Some (ts, s1) \<Longrightarrow> tick a s1 = Some (t, s2) \<Longrightarrow>
   run_ticks tick (as @ [a]) s = Some (ts @ [t], s2)"
  by (induction as arbitrary: s ts) (auto split: option.splits)

lemma u64_max_greatest: "u64_max \<le> w \<longleftrightarrow> w = u64_max"
  by (simp add: u64_max_def word_order.extremum_unique)

lemma id_step_inv: "id_step m m' \<Longrightarrow> id_inv m \<Longrightarrow> id_inv m'"
proof (induction rule: id_step.induct)
  case (id_win m k c)
  let ?g = "granted (id_issued m)"
  from id_win have c0: "c \<noteq> 0" by (auto simp: id_inv_def)
  with id_win have tick: "tick_identity () c = Some (c, c + 1)"
    by (simp add: tick_identity_def issue_identity_def)
  from id_win.prems id_win.hyps have
    run: "run_ticks tick_identity (replicate (length ?g) ()) first_identity = Some (?g, c)"
    by (simp add: id_inv_def)
  from run_ticks_snoc [OF run tick]
  have "run_ticks tick_identity (replicate (Suc (length ?g)) ()) first_identity = Some (?g @ [c], c + 1)"
    by (simp flip: replicate_append_same)
  moreover have "c + 1 \<noteq> 0" using identity.tick_valid [OF c0 tick] .
  moreover have "c \<le> c + 1" using unat_succ [OF id_win.hyps(2)] by (simp add: word_le_nat_alt)
  ultimately show ?case using id_win c0
    by (auto simp: id_inv_def granted_def intro: order_trans)
next
  case (id_exhausted m k c)
  then have "u64_max \<le> id_next m" by (auto simp: id_inv_def)
  then have "id_next m = u64_max" by (simp add: u64_max_greatest)
  with id_exhausted show ?case by (auto simp: id_inv_def granted_def)
qed (auto simp: id_inv_def)

lemma id_reachable_inv: "id_reachable m \<Longrightarrow> id_inv m"
proof (induction rule: id_reachable.induct)
  case id_start
  show ?case by (simp add: id_inv_def id_init_def granted_def first_identity_def)
next
  case (id_next_step m m')
  then show ?case by (blast intro: id_step_inv)
qed

section \<open>Revision sets\<close>

record revision_set =
  rs_tokens :: "revision_token list"
  rs_identity :: u64

text \<open>The counter is consumed even when a later test fails.\<close>

definition revision_set_create ::
  "bool \<Rightarrow> field_schema \<Rightarrow> u64 \<Rightarrow> (status + revision_set) \<times> u64" where
  "revision_set_create mem schema next_id =
     (if \<not> mem then (Inl (failed Allocation_failure 0), next_id)
      else let (i, next') = issue_identity next_id in
        if i = 0 then (Inl (failed Invalid_plan 2), next')
        else (Inr \<lparr>rs_tokens = replicate (length schema) 1, rs_identity = i\<rparr>, next'))"

definition revision_set_token :: "revision_set \<Rightarrow> field_id \<Rightarrow> revision_token" where
  "revision_set_token r f =
     (if unat f < length (rs_tokens r) then rs_tokens r ! unat f else 0)"

definition revision_set_revise :: "field_id \<Rightarrow> revision_set \<Rightarrow> status \<times> revision_set" where
  "revision_set_revise f r =
     (if unat f \<ge> length (rs_tokens r) then (failed Invalid_plan 1, r)
      else if rs_tokens r ! unat f = u64_max then (failed Invalid_plan 2, r)
      else (status_ok, r\<lparr>rs_tokens := (rs_tokens r)[unat f := rs_tokens r ! unat f + 1]\<rparr>))"

section \<open>Properties\<close>

text \<open>
  C11. However the threads interleave, and however often a compare-exchange fails, the identities
  granted are exactly those of the sequential counter: consecutive from one, hence non-zero and
  pairwise distinct, and a zero is answered only once the counter is exhausted.
\<close>

theorem identities_linearizable:
  assumes "id_reachable m"
  shows "map unat (granted (id_issued m)) = [1 ..< Suc (length (granted (id_issued m)))] \<and>
    distinct (granted (id_issued m)) \<and> 0 \<notin> set (granted (id_issued m)) \<and>
    (0 \<in> set (id_issued m) \<longrightarrow> id_next m = u64_max)"
proof -
  note inv = id_reachable_inv [OF assms, unfolded id_inv_def]
  have one: "first_identity \<noteq> 0" "unat first_identity = 1" by (simp_all add: first_identity_def)
  from inv identity.run_tokens [OF one(1)] identity.run_distinct [OF one(1)] one
  show ?thesis by (fastforce simp: granted_def)
qed

theorem identities_linearizable_witness:
  "\<exists>m. id_reachable m \<and> granted (id_issued m) = [1] \<and> distinct (granted (id_issued m))"
proof -
  let ?m1 = "id_init\<lparr>id_threads := (id_threads id_init)(0 := Id_trying (id_next id_init))\<rparr>"
  let ?m2 = "?m1\<lparr>id_next := 1 + 1, id_threads := (id_threads ?m1)(0 := Id_idle),
    id_issued := id_issued ?m1 @ [1]\<rparr>"
  have "id_step id_init ?m1" by (rule id_step.id_load) (simp add: id_init_def)
  moreover have "id_step ?m1 ?m2"
    by (rule id_step.id_win)
      (simp_all add: id_init_def first_identity_def u64_max_def)
  ultimately have r: "id_reachable ?m2" by (blast intro: id_reachable.intros)
  with identities_linearizable [OF r] show ?thesis
    by (intro exI [of _ ?m2]) (simp add: id_init_def granted_def)
qed

end
