(* ===== verification/Arena_Layout.thy ===== *)
theory Arena_Layout
  imports Identities "HOL-Library.Product_Lexorder" "HOL-Library.Monad_Syntax" "HOL-Library.Multiset"
begin

text \<open>
  \<^verbatim>\<open>ArenaLayout::compile\<close> of \<^verbatim>\<open>core_arena.cpp\<close>: every schema field gets strides, replicas
  and a cache-line aligned place in the block of its owner, and every owner block a place in the
  arena. All sizes are checked 64-bit arithmetic. The lemmas translate a successful compilation
  into natural-number equations (\<open>placed\<close>) and show that fields of one owner, and owner blocks,
  never overlap.
\<close>

section \<open>Data\<close>

datatype field_lifetime =
    State_layer
  | Pending_cache
  | Persistent_workspace
  | Step_scratch
  | Unnamed_lifetime u8

fun named_lifetime :: "field_lifetime \<Rightarrow> bool" where
  "named_lifetime (Unnamed_lifetime _) = False"
| "named_lifetime _ = True"

record arena_field_request =
  rq_id :: field_id
  rq_interior :: int3
  rq_owner :: u16
  rq_lifetime :: field_lifetime

record arena_field_layout =
  al_id :: field_id
  al_interior :: int3
  al_ghosts :: int3
  al_components :: u8
  al_stride_y :: u64
  al_stride_z :: u64
  al_component_stride :: u64
  al_replicas :: u64
  al_replica_stride :: u64
  al_owner :: u16
  al_owner_index :: nat
  al_raw_offset :: u64
  al_offset :: u64
  al_span :: u64
  al_lifetime :: field_lifetime

record arena_owner_layout =
  ao_owner :: u16
  ao_offset :: u64
  ao_span :: u64

record arena_layout =
  lay_fields :: "arena_field_layout list"
  lay_owners :: "arena_owner_layout list"
  lay_total :: u64

definition blank_layout :: arena_field_layout where
  "blank_layout = \<lparr>al_id = 0, al_interior = \<lparr>x3 = 0, y3 = 0, z3 = 0\<rparr>,
     al_ghosts = \<lparr>x3 = 0, y3 = 0, z3 = 0\<rparr>, al_components = 0, al_stride_y = 0, al_stride_z = 0,
     al_component_stride = 0, al_replicas = 0, al_replica_stride = 0, al_owner = 0,
     al_owner_index = 0, al_raw_offset = 0, al_offset = 0, al_span = 0,
     al_lifetime = State_layer\<rparr>"

definition ptrdiff_max :: u64 where "ptrdiff_max = 0x7FFFFFFFFFFFFFFF"

section \<open>Compilation\<close>

definition checked_ghost_extent :: "int \<Rightarrow> int \<Rightarrow> u64 option" where
  "checked_ghost_extent interior ghost =
     (if interior \<le> 0 \<or> ghost < 0 then None
      else do {
        two_ghosts \<leftarrow> checked_multiply (word_of_int ghost) 2;
        checked_add (word_of_int interior) two_ghosts
      })"

text \<open>The test of the requests in identifier order; \<open>seen\<close> are the identifiers met so far.\<close>

fun check_requests :: "field_schema \<Rightarrow> nat list \<Rightarrow> arena_field_request list \<Rightarrow> bool" where
  "check_requests schema seen [] = True"
| "check_requests schema seen (rq # rqs) =
     (let i = unat (rq_id rq) in
      if i \<ge> length schema \<or> fd_id (schema ! i) \<noteq> rq_id rq \<or> i \<in> set seen \<or>
         \<not> named_lifetime (rq_lifetime rq)
      then False else check_requests schema (i # seen) rqs)"

definition sort_by_field :: "arena_field_request list \<Rightarrow> arena_field_request list" where
  "sort_by_field = sort_key rq_id"

definition sort_by_owner :: "arena_field_request list \<Rightarrow> arena_field_request list" where
  "sort_by_owner = sort_key (\<lambda>rq. (rq_owner rq, rq_id rq))"

definition lifetime_replicas :: "field_lifetime \<Rightarrow> u64" where
  "lifetime_replicas l = (if l = State_layer then 3 else 1)"

text \<open>One field of an owner block: its layout and the block cursor after it.\<close>

definition place_field ::
  "field_descriptor \<Rightarrow> arena_field_request \<Rightarrow> nat \<Rightarrow> u64 \<Rightarrow>
   status + arena_field_layout \<times> u64" where
  "place_field descriptor rq owner_index owner_cursor =
    (let ghost = uint (fd_ghost_width descriptor);
         nx = word_of_int (x3 (rq_interior rq)) :: u64;
         g = word_of_int ghost :: u64 in
     case do {
       x_ghosted \<leftarrow> checked_ghost_extent (x3 (rq_interior rq)) ghost;
       y_ghosted \<leftarrow> checked_ghost_extent (y3 (rq_interior rq)) ghost;
       z_ghosted \<leftarrow> checked_ghost_extent (z3 (rq_interior rq)) ghost;
       Some (y_ghosted, z_ghosted)
     } of
       None \<Rightarrow> Inl (failed Invalid_plan 3)
     | Some (y_ghosted, z_ghosted) \<Rightarrow>
     case do {
       leading_x \<leftarrow> checked_align g doubles_per_cache_line;
       x_without_leading \<leftarrow> checked_add nx g;
       row_width \<leftarrow> checked_add leading_x x_without_leading;
       stride_y \<leftarrow> checked_align row_width doubles_per_cache_line;
       stride_z \<leftarrow> checked_multiply stride_y y_ghosted;
       component_stride \<leftarrow> checked_multiply stride_z z_ghosted;
       raw_component_span \<leftarrow> checked_multiply component_stride (ucast (fd_components descriptor));
       replica_stride \<leftarrow> checked_align raw_component_span doubles_per_cache_line;
       span \<leftarrow> checked_multiply replica_stride (lifetime_replicas (rq_lifetime rq));
       raw_start \<leftarrow> checked_align owner_cursor doubles_per_cache_line;
       ghost_y_offset \<leftarrow> checked_multiply g stride_y;
       ghost_z_offset \<leftarrow> checked_multiply g stride_z;
       off1 \<leftarrow> checked_add raw_start leading_x;
       off2 \<leftarrow> checked_add off1 ghost_y_offset;
       interior_offset \<leftarrow> checked_add off2 ghost_z_offset;
       field_end \<leftarrow> checked_add raw_start span;
       if field_end > ptrdiff_max div size_of_double then None
       else Some (\<lparr>al_id = rq_id rq, al_interior = rq_interior rq,
              al_ghosts = \<lparr>x3 = ghost, y3 = ghost, z3 = ghost\<rparr>,
              al_components = fd_components descriptor, al_stride_y = stride_y,
              al_stride_z = stride_z, al_component_stride = component_stride,
              al_replicas = lifetime_replicas (rq_lifetime rq),
              al_replica_stride = replica_stride, al_owner = rq_owner rq,
              al_owner_index = owner_index, al_raw_offset = raw_start,
              al_offset = interior_offset, al_span = span,
              al_lifetime = rq_lifetime rq\<rparr>, field_end)
     } of
       None \<Rightarrow> Inl (failed Invalid_plan 4)
     | Some placed \<Rightarrow> Inr placed)"

text \<open>The inner loop over the requests of one owner.\<close>

fun place_group ::
  "field_schema \<Rightarrow> nat \<Rightarrow> arena_field_request list \<Rightarrow> u64 \<Rightarrow> arena_field_layout list \<Rightarrow>
   status + arena_field_layout list \<times> u64" where
  "place_group schema owner_index [] owner_cursor fls = Inr (fls, owner_cursor)"
| "place_group schema owner_index (rq # rqs) owner_cursor fls =
     (case place_field (schema ! unat (rq_id rq)) rq owner_index owner_cursor of
        Inl e \<Rightarrow> Inl e
      | Inr (f, field_end) \<Rightarrow>
          place_group schema owner_index rqs field_end (fls[unat (rq_id rq) := f]))"

text \<open>The outer loop: one block per owner, in owner order.\<close>

function place_owners ::
  "field_schema \<Rightarrow> arena_field_request list \<Rightarrow> arena_layout \<Rightarrow> status + arena_layout" where
  "place_owners schema [] candidate = Inr candidate"
| "place_owners schema (rq # rqs) candidate =
     (let owner_id = rq_owner rq;
          grp = rq # takeWhile (\<lambda>r. rq_owner r = owner_id) rqs;
          rest = dropWhile (\<lambda>r. rq_owner r = owner_id) rqs in
      case place_group schema (length (lay_owners candidate)) grp 0 (lay_fields candidate) of
        Inl e \<Rightarrow> Inl e
      | Inr (fls, owner_cursor) \<Rightarrow>
      case checked_align owner_cursor doubles_per_cache_line of
        None \<Rightarrow> Inl (failed Invalid_plan 5)
      | Some owner_span \<Rightarrow>
      if owner_span = 0 then Inl (failed Invalid_plan 5) else
      case checked_align (lay_total candidate) doubles_per_cache_line of
        None \<Rightarrow> Inl (failed Invalid_plan 4)
      | Some global_offset \<Rightarrow>
      case checked_add global_offset owner_span of
        None \<Rightarrow> Inl (failed Invalid_plan 4)
      | Some total_doubles \<Rightarrow>
          place_owners schema rest
            \<lparr>lay_fields = fls,
             lay_owners = lay_owners candidate @
               [\<lparr>ao_owner = owner_id, ao_offset = global_offset, ao_span = owner_span\<rparr>],
             lay_total = total_doubles\<rparr>)"
  by pat_completeness auto
termination
  by (relation "measure (\<lambda>(schema, rqs, candidate). length rqs)")
    (auto simp: le_imp_less_Suc length_dropWhile_le)

definition compile_layout ::
  "bool \<Rightarrow> field_schema \<Rightarrow> arena_field_request span \<Rightarrow> status + arena_layout" where
  "compile_layout mem schema requests =
     (if schema = [] \<or> span_null requests \<or> span_size requests \<noteq> length schema
      then Inl (failed Invalid_plan 1)
      else if \<not> mem then Inl (failed Allocation_failure 0)
      else let by_field = sort_by_field (span_list requests) in
        if \<not> check_requests schema [] by_field then Inl (failed Invalid_plan 2)
        else case place_owners schema (sort_by_owner by_field)
                 \<lparr>lay_fields = replicate (length schema) blank_layout, lay_owners = [],
                  lay_total = 0\<rparr> of
               Inl e \<Rightarrow> Inl e
             | Inr candidate \<Rightarrow>
                 (case checked_multiply (lay_total candidate) size_of_double of
                    None \<Rightarrow> Inl (failed Invalid_plan 4)
                  | Some total_bytes \<Rightarrow>
                      if total_bytes > ptrdiff_max then Inl (failed Invalid_plan 4)
                      else Inr candidate))"

definition layout_field :: "arena_layout \<Rightarrow> field_id \<Rightarrow> arena_field_layout option" where
  "layout_field lay f =
     (if unat f < length (lay_fields lay) then Some (lay_fields lay ! unat f) else None)"

definition layout_owner :: "arena_layout \<Rightarrow> nat \<Rightarrow> arena_owner_layout option" where
  "layout_owner lay i =
     (if i < length (lay_owners lay) then Some (lay_owners lay ! i) else None)"

section \<open>What a placed field looks like\<close>

definition int32_request :: "arena_field_request \<Rightarrow> bool" where
  "int32_request rq \<longleftrightarrow> is_int32 (x3 (rq_interior rq)) \<and> is_int32 (y3 (rq_interior rq)) \<and>
     is_int32 (z3 (rq_interior rq))"

text \<open>The layout equations over natural numbers, free of wrap-around.\<close>

definition placed :: "field_descriptor \<Rightarrow> arena_field_request \<Rightarrow> arena_field_layout \<Rightarrow> bool" where
  "placed d rq f \<longleftrightarrow>
     al_id f = rq_id rq \<and> al_interior f = rq_interior rq \<and> al_components f = fd_components d \<and>
     al_ghosts f = \<lparr>x3 = uint (fd_ghost_width d), y3 = uint (fd_ghost_width d),
                   z3 = uint (fd_ghost_width d)\<rparr> \<and>
     al_owner f = rq_owner rq \<and> al_lifetime f = rq_lifetime rq \<and>
     0 < x3 (rq_interior rq) \<and> 0 < y3 (rq_interior rq) \<and> 0 < z3 (rq_interior rq) \<and>
     (let g = unat (fd_ghost_width d); nx = nat (x3 (rq_interior rq));
          ny = nat (y3 (rq_interior rq)); nz = nat (z3 (rq_interior rq)) in
      unat (al_stride_y f) = up8 (up8 g + (nx + g)) \<and>
      unat (al_stride_z f) = unat (al_stride_y f) * (ny + 2 * g) \<and>
      unat (al_component_stride f) = unat (al_stride_z f) * (nz + 2 * g) \<and>
      unat (al_replica_stride f) =
        up8 (unat (al_component_stride f) * unat (fd_components d)) \<and>
      al_replicas f = lifetime_replicas (rq_lifetime rq) \<and>
      unat (al_span f) = unat (al_replica_stride f) * unat (al_replicas f) \<and>
      8 dvd unat (al_raw_offset f) \<and>
      unat (al_offset f) = unat (al_raw_offset f) + up8 g + g * unat (al_stride_y f)
        + g * unat (al_stride_z f) \<and>
      unat (al_raw_offset f) + unat (al_span f) < 2 ^ 60)"

lemma checked_ghost_extent_SomeD:
  assumes "checked_ghost_extent i (uint (g :: u8)) = Some e" "is_int32 i"
  shows "0 < i \<and> unat e = nat i + 2 * unat g"
  using assms
  by (auto simp: checked_ghost_extent_def unat_word_of_uint8 unat_word_of_int32 Option.bind_eq_Some_conv
      dest!: checked_dest split: if_splits)

lemma place_field_placed:
  assumes "place_field d rq oi cur = Inr (f, fe)" "int32_request rq"
  shows "placed d rq f \<and> al_owner_index f = oi \<and> unat (al_raw_offset f) = up8 (unat cur) \<and>
    unat fe = unat (al_raw_offset f) + unat (al_span f)"
proof -
  from assms(1) obtain xg yg zg where gh:
    "checked_ghost_extent (x3 (rq_interior rq)) (uint (fd_ghost_width d)) = Some xg"
    "checked_ghost_extent (y3 (rq_interior rq)) (uint (fd_ghost_width d)) = Some yg"
    "checked_ghost_extent (z3 (rq_interior rq)) (uint (fd_ghost_width d)) = Some zg"
    by (auto simp: place_field_def Let_def Option.bind_eq_Some_conv split: option.splits)
  note ext = gh [THEN checked_ghost_extent_SomeD]
  from assms(2) ext have e: "0 < x3 (rq_interior rq)" "0 < y3 (rq_interior rq)"
    "0 < z3 (rq_interior rq)"
    "unat yg = nat (y3 (rq_interior rq)) + 2 * unat (fd_ghost_width d)"
    "unat zg = nat (z3 (rq_interior rq)) + 2 * unat (fd_ghost_width d)"
    "unat (word_of_int (x3 (rq_interior rq)) :: u64) = nat (x3 (rq_interior rq))"
    by (simp_all add: int32_request_def unat_word_of_int32)
  let ?g = "word_of_int (uint (fd_ghost_width d)) :: u64"
  from assms(1) gh obtain lead xw row sy sz sc rcs rs sp raw gy gz o1 o2 io where
    c: "checked_align ?g doubles_per_cache_line = Some lead"
      "checked_add (word_of_int (x3 (rq_interior rq))) ?g = Some xw"
      "checked_add lead xw = Some row" "checked_align row doubles_per_cache_line = Some sy"
      "checked_multiply sy yg = Some sz" "checked_multiply sz zg = Some sc"
      "checked_multiply sc (ucast (fd_components d)) = Some rcs"
      "checked_align rcs doubles_per_cache_line = Some rs"
      "checked_multiply rs (lifetime_replicas (rq_lifetime rq)) = Some sp"
      "checked_align cur doubles_per_cache_line = Some raw"
      "checked_multiply ?g sy = Some gy" "checked_multiply ?g sz = Some gz"
      "checked_add raw lead = Some o1" "checked_add o1 gy = Some o2" "checked_add o2 gz = Some io"
      "checked_add raw sp = Some fe"
    and lim: "\<not> fe > ptrdiff_max div size_of_double"
    and f: "f = \<lparr>al_id = rq_id rq, al_interior = rq_interior rq,
              al_ghosts = \<lparr>x3 = uint (fd_ghost_width d), y3 = uint (fd_ghost_width d),
                z3 = uint (fd_ghost_width d)\<rparr>,
              al_components = fd_components d, al_stride_y = sy,
              al_stride_z = sz, al_component_stride = sc,
              al_replicas = lifetime_replicas (rq_lifetime rq),
              al_replica_stride = rs, al_owner = rq_owner rq,
              al_owner_index = oi, al_raw_offset = raw,
              al_offset = io, al_span = sp, al_lifetime = rq_lifetime rq\<rparr>"
    by (auto simp: place_field_def Let_def Option.bind_eq_Some_conv split: option.splits if_splits)
  note n = c(1,4,8,10) [THEN checked_align_up8] c(2,3,13,14,15,16) [THEN checked_add_SomeD]
    c(5,6,7,9,11,12) [THEN checked_multiply_SomeD]
  have "unat fe \<le> unat (ptrdiff_max div size_of_double)"
    using lim by (simp add: word_le_nat_alt not_less)
  also have "\<dots> < 2 ^ 60" by (simp add: ptrdiff_max_def size_of_double_def)
  finally have fe: "unat fe < 2 ^ 60" .
  show ?thesis
    unfolding placed_def Let_def f using n fe e up8_dvd [of "unat cur"]
    by (simp add: unat_word_of_uint8)
qed

section \<open>Blocks of one owner\<close>

definition span_end :: "arena_field_layout \<Rightarrow> nat" where
  "span_end f = unat (al_raw_offset f) + unat (al_span f)"

definition spans_disjoint :: "arena_field_layout \<Rightarrow> arena_field_layout \<Rightarrow> bool" where
  "spans_disjoint f f' \<longleftrightarrow>
     span_end f \<le> unat (al_raw_offset f') \<or> span_end f' \<le> unat (al_raw_offset f)"

lemma spans_disjoint_sym: "spans_disjoint f f' \<Longrightarrow> spans_disjoint f' f"
  by (auto simp: spans_disjoint_def)

abbreviation at_request :: "arena_field_layout list \<Rightarrow> arena_field_request \<Rightarrow> arena_field_layout" where
  "at_request fls rq \<equiv> fls ! unat (rq_id rq)"

definition group_placed ::
  "field_schema \<Rightarrow> nat \<Rightarrow> arena_field_request list \<Rightarrow> nat \<Rightarrow> nat \<Rightarrow> arena_field_layout list \<Rightarrow> bool" where
  "group_placed schema oi rqs lo hi fls \<longleftrightarrow> lo \<le> hi \<and>
     (\<forall>rq \<in> set rqs. placed (schema ! unat (rq_id rq)) rq (at_request fls rq) \<and>
        al_owner_index (at_request fls rq) = oi \<and>
        lo \<le> unat (al_raw_offset (at_request fls rq)) \<and> span_end (at_request fls rq) \<le> hi) \<and>
     (\<forall>a \<in> set rqs. \<forall>b \<in> set rqs. a \<noteq> b \<longrightarrow> spans_disjoint (at_request fls a) (at_request fls b))"

lemma place_group_placed:
  assumes "place_group schema oi rqs cur fls = Inr (fls', cur')"
    and "distinct (map rq_id rqs)"
    and "\<forall>rq \<in> set rqs. int32_request rq \<and> unat (rq_id rq) < length fls"
  shows "length fls' = length fls \<and>
    (\<forall>k. k \<notin> (\<lambda>rq. unat (rq_id rq)) ` set rqs \<longrightarrow> fls' ! k = fls ! k) \<and>
    group_placed schema oi rqs (unat cur) (unat cur') fls'"
  using assms
proof (induction rqs arbitrary: cur fls)
  case Nil
  then show ?case by (simp add: group_placed_def)
next
  case (Cons rq rqs)
  let ?i = "unat (rq_id rq)"
  from Cons.prems(1) obtain f fe where f: "place_field (schema ! ?i) rq oi cur = Inr (f, fe)"
    and rest: "place_group schema oi rqs fe (fls[?i := f]) = Inr (fls', cur')"
    by (auto split: sum.splits)
  from f Cons.prems(3) have pf: "placed (schema ! ?i) rq f" "al_owner_index f = oi"
    "unat (al_raw_offset f) = up8 (unat cur)" "unat fe = span_end f"
    using place_field_placed [of "schema ! ?i" rq oi cur f fe] by (simp_all add: span_end_def)
  from Cons.IH [OF rest] Cons.prems(2,3)
  have IH: "length fls' = length fls"
      "\<forall>k. k \<notin> (\<lambda>rq. unat (rq_id rq)) ` set rqs \<longrightarrow> fls' ! k = fls[?i := f] ! k"
      "group_placed schema oi rqs (unat fe) (unat cur') fls'"
    by auto
  have new: "?i \<notin> (\<lambda>rq. unat (rq_id rq)) ` set rqs"
    using Cons.prems(2) by (auto simp: unat_inject)
  with IH(2) Cons.prems(3) have at: "fls' ! ?i = f" by simp
  have "unat cur \<le> unat (al_raw_offset f)" "unat (al_raw_offset f) \<le> span_end f"
    using pf(3) up8_ge [of "unat cur"] by (simp_all add: span_end_def)
  with IH pf at have "group_placed schema oi (rq # rqs) (unat cur) (unat cur') fls'"
    unfolding group_placed_def by (auto simp: spans_disjoint_def intro: order_trans)
  with IH new show ?case by auto
qed

section \<open>The whole arena\<close>

definition owners_disjoint :: "arena_layout \<Rightarrow> bool" where
  "owners_disjoint lay \<longleftrightarrow> 8 dvd unat (lay_total lay) \<and>
     (\<forall>k < length (lay_owners lay).
        8 dvd unat (ao_offset (lay_owners lay ! k)) \<and> 0 < unat (ao_span (lay_owners lay ! k)) \<and>
        unat (ao_offset (lay_owners lay ! k)) + unat (ao_span (lay_owners lay ! k)) \<le> unat (lay_total lay)) \<and>
     (\<forall>j k. j < k \<and> k < length (lay_owners lay) \<longrightarrow>
        unat (ao_offset (lay_owners lay ! j)) + unat (ao_span (lay_owners lay ! j))
          \<le> unat (ao_offset (lay_owners lay ! k)))"

definition layout_inv :: "field_schema \<Rightarrow> arena_field_request set \<Rightarrow> arena_layout \<Rightarrow> bool" where
  "layout_inv schema rqs lay \<longleftrightarrow>
     length (lay_fields lay) = length schema \<and>
     (\<forall>rq \<in> rqs. placed (schema ! unat (rq_id rq)) rq (at_request (lay_fields lay) rq) \<and>
        (let k = al_owner_index (at_request (lay_fields lay) rq) in
          k < length (lay_owners lay) \<and> ao_owner (lay_owners lay ! k) = rq_owner rq \<and>
          span_end (at_request (lay_fields lay) rq) \<le> unat (ao_span (lay_owners lay ! k)))) \<and>
     (\<forall>a \<in> rqs. \<forall>b \<in> rqs. a \<noteq> b \<longrightarrow>
        al_owner_index (at_request (lay_fields lay) a) = al_owner_index (at_request (lay_fields lay) b) \<longrightarrow>
        spans_disjoint (at_request (lay_fields lay) a) (at_request (lay_fields lay) b)) \<and>
     owners_disjoint lay"

lemma owners_disjoint_snoc:
  assumes "owners_disjoint lay" "unat off = unat (lay_total lay)" "8 dvd unat span" "0 < unat span"
    "unat t = unat off + unat span"
  shows "owners_disjoint \<lparr>lay_fields = fls,
    lay_owners = lay_owners lay @ [\<lparr>ao_owner = o', ao_offset = off, ao_span = span\<rparr>], lay_total = t\<rparr>"
  using assms unfolding owners_disjoint_def
  by (auto simp: nth_append less_Suc_eq)

lemma layout_inv_block:
  assumes inv: "layout_inv schema D lay"
    and grp: "place_group schema (length (lay_owners lay)) rqs 0 (lay_fields lay) = Inr (fls, cur)"
    and own: "\<forall>rq \<in> set rqs. rq_owner rq = o' \<and> int32_request rq \<and> unat (rq_id rq) < length schema"
    and ids: "distinct (map rq_id rqs)" "rq_id ` D \<inter> rq_id ` set rqs = {}"
    and span: "checked_align cur doubles_per_cache_line = Some span" "span \<noteq> 0"
    and off: "checked_align (lay_total lay) doubles_per_cache_line = Some off"
    and tot: "checked_add off span = Some t"
  shows "layout_inv schema (D \<union> set rqs) \<lparr>lay_fields = fls,
    lay_owners = lay_owners lay @ [\<lparr>ao_owner = o', ao_offset = off, ao_span = span\<rparr>], lay_total = t\<rparr>"
proof -
  let ?n = "length (lay_owners lay)"
  have len: "length (lay_fields lay) = length schema" using inv by (simp add: layout_inv_def)
  from place_group_placed [OF grp ids(1)] own len
  have g: "length fls = length schema"
      "\<And>k. k \<notin> (\<lambda>rq. unat (rq_id rq)) ` set rqs \<Longrightarrow> fls ! k = lay_fields lay ! k"
      "group_placed schema ?n rqs 0 (unat cur) fls"
    by auto
  have old: "at_request fls rq = at_request (lay_fields lay) rq" if "rq \<in> D" for rq
    using that ids(2) by (intro g(2)) (auto simp: unat_inject)
  have "0 < unat span" using span(2) by (simp add: unat_gt_0)
  then have s: "unat cur \<le> unat span" "8 dvd unat span" "0 < unat span"
    using checked_align_up8 [OF span(1)] up8_ge up8_dvd by simp_all
  have dis: "owners_disjoint lay" using inv by (simp add: layout_inv_def)
  then have "unat off = unat (lay_total lay)"
    using checked_align_up8 [OF off] up8_idem by (simp add: owners_disjoint_def)
  from owners_disjoint_snoc [OF dis this s(2,3) checked_add_SomeD [OF tot]]
  have "owners_disjoint \<lparr>lay_fields = fls,
    lay_owners = lay_owners lay @ [\<lparr>ao_owner = o', ao_offset = off, ao_span = span\<rparr>], lay_total = t\<rparr>" .
  moreover have "\<forall>rq \<in> D. al_owner_index (at_request fls rq) < ?n"
    using inv old by (auto simp: layout_inv_def Let_def)
  moreover have "\<forall>rq \<in> set rqs. al_owner_index (at_request fls rq) = ?n"
    using g(3) by (simp add: group_placed_def)
  ultimately show ?thesis using inv g s(1) own old
    unfolding layout_inv_def group_placed_def
    by (auto simp: Let_def nth_append intro: order_trans)
qed

lemma place_owners_inv:
  assumes "place_owners schema rqs lay = Inr lay'" "layout_inv schema D lay"
    and "\<forall>rq \<in> set rqs. int32_request rq \<and> unat (rq_id rq) < length schema"
    and "distinct (map rq_id rqs)" "rq_id ` D \<inter> rq_id ` set rqs = {}"
  shows "layout_inv schema (D \<union> set rqs) lay'"
  using assms
proof (induction schema rqs lay arbitrary: D rule: place_owners.induct)
  case (1 schema lay)
  then show ?case by simp
next
  case (2 schema rq rqs lay)
  let ?grp = "rq # takeWhile (\<lambda>r. rq_owner r = rq_owner rq) rqs"
  let ?rest = "dropWhile (\<lambda>r. rq_owner r = rq_owner rq) rqs"
  have split: "set (rq # rqs) = set ?grp \<union> set ?rest" "rq # rqs = ?grp @ ?rest"
    by (simp_all flip: set_append)
  from "2.prems"(1) obtain fls cur span off t where
    st: "place_group schema (length (lay_owners lay)) ?grp 0 (lay_fields lay) = Inr (fls, cur)"
      "checked_align cur doubles_per_cache_line = Some span" "span \<noteq> 0"
      "checked_align (lay_total lay) doubles_per_cache_line = Some off"
      "checked_add off span = Some t"
    and rec: "place_owners schema ?rest \<lparr>lay_fields = fls,
      lay_owners = lay_owners lay @ [\<lparr>ao_owner = rq_owner rq, ao_offset = off, ao_span = span\<rparr>],
      lay_total = t\<rparr> = Inr lay'"
    by (auto simp: Let_def split: sum.splits option.splits if_splits)
  from "2.prems"(4) have dist: "distinct (map rq_id ?grp)" "distinct (map rq_id ?rest)"
    "rq_id ` set ?grp \<inter> rq_id ` set ?rest = {}"
    unfolding split(2) map_append distinct_append by auto
  have own: "\<forall>r \<in> set ?grp. rq_owner r = rq_owner rq \<and> int32_request r \<and> unat (rq_id r) < length schema"
    using "2.prems"(3) by (auto dest: set_takeWhileD)
  have disj: "rq_id ` D \<inter> rq_id ` set ?grp = {}" "rq_id ` D \<inter> rq_id ` set ?rest = {}"
    using "2.prems"(5) unfolding split(1) by auto
  note inv' = layout_inv_block [OF "2.prems"(2) st(1) own dist(1) disj(1) st(2-5)]
  have pre: "\<forall>r \<in> set ?rest. int32_request r \<and> unat (rq_id r) < length schema"
    using "2.prems"(3) by (auto dest: set_dropWhileD)
  have "rq_id ` (D \<union> set ?grp) \<inter> rq_id ` set ?rest = {}"
    unfolding image_Un Int_Un_distrib2 using dist(3) disj(2) by simp
  then have "layout_inv schema ((D \<union> set ?grp) \<union> set ?rest) lay'"
    using "2.IH" [OF refl refl refl st(1) refl st(2,3,4,5) rec inv' pre dist(2)] by simp
  then show ?case unfolding split(1) by (simp add: Un_assoc)
qed

lemma check_requests_iff:
  "check_requests schema seen rqs \<longleftrightarrow>
     (\<forall>rq \<in> set rqs. unat (rq_id rq) < length schema \<and> fd_id (schema ! unat (rq_id rq)) = rq_id rq \<and>
        named_lifetime (rq_lifetime rq) \<and> unat (rq_id rq) \<notin> set seen) \<and>
     distinct (map rq_id rqs)"
proof (induction rqs arbitrary: seen)
  case Nil
  then show ?case by simp
next
  case (Cons rq rqs)
  then show ?case by (auto simp: Let_def unat_inject) (metis image_eqI)+
qed

lemma check_requests_perm:
  assumes "mset rqs = mset rqs'"
  shows "check_requests schema [] rqs = check_requests schema [] rqs'"
proof -
  have "distinct (map rq_id rqs) = distinct (map rq_id rqs')"
    using assms by (intro mset_eq_imp_distinct_iff) simp
  with mset_eq_setD [OF assms] show ?thesis by (simp add: check_requests_iff)
qed

lemma sort_by_field_perm:
  assumes "mset rqs = mset rqs'" "distinct (map rq_id rqs)"
  shows "sort_by_field rqs = sort_by_field rqs'"
  unfolding sort_by_field_def using assms
  by (intro sort_key_inj_key_eq) (simp_all add: distinct_map)

lemma compile_layout_InrD:
  assumes "compile_layout mem schema requests = Inr lay"
  shows "length (span_list requests) = length schema" "check_requests schema [] (span_list requests)"
    "place_owners schema (sort_by_owner (sort_by_field (span_list requests)))
      \<lparr>lay_fields = replicate (length schema) blank_layout, lay_owners = [], lay_total = 0\<rparr> = Inr lay"
    "unat (lay_total lay) * 8 < 2 ^ 63"
proof -
  from assms obtain xs where xs: "requests = Span xs"
    by (cases requests) (auto simp: compile_layout_def)
  from assms obtain tb where tb: "checked_multiply (lay_total lay) size_of_double = Some tb"
      "\<not> tb > ptrdiff_max"
    by (auto simp: compile_layout_def Let_def split: if_splits sum.splits option.splits)
  from checked_multiply_SomeD [OF tb(1)] tb(2) show "unat (lay_total lay) * 8 < 2 ^ 63"
    by (simp add: size_of_double_def ptrdiff_max_def word_le_nat_alt not_less)
  from assms show "length (span_list requests) = length schema"
    by (auto simp: xs compile_layout_def split: if_splits)
  from assms show "place_owners schema (sort_by_owner (sort_by_field (span_list requests)))
      \<lparr>lay_fields = replicate (length schema) blank_layout, lay_owners = [], lay_total = 0\<rparr> = Inr lay"
    by (auto simp: compile_layout_def Let_def split: if_splits sum.splits option.splits)
  have "check_requests schema [] (sort_by_field (span_list requests))"
    using assms by (auto simp: compile_layout_def Let_def split: if_splits)
  then show "check_requests schema [] (span_list requests)"
    using check_requests_perm [of "sort_by_field (span_list requests)" "span_list requests"]
    by (simp add: sort_by_field_def)
qed

lemma distinct_ids_cover:
  assumes "distinct (map (\<lambda>rq. unat (rq_id rq)) xs)" "\<forall>rq \<in> set xs. unat (rq_id rq) < length xs"
    and "i < length xs"
  shows "\<exists>rq \<in> set xs. unat (rq_id rq) = i"
proof -
  have "card ((\<lambda>rq. unat (rq_id rq)) ` set xs) = length xs"
    using assms(1) distinct_card [of "map (\<lambda>rq. unat (rq_id rq)) xs"] by simp
  moreover have "(\<lambda>rq. unat (rq_id rq)) ` set xs \<subseteq> {..< length xs}" using assms(2) by auto
  ultimately have "(\<lambda>rq. unat (rq_id rq)) ` set xs = {..< length xs}"
    by (intro card_subset_eq) simp_all
  with assms(3) have "i \<in> (\<lambda>rq. unat (rq_id rq)) ` set xs" by simp
  then show ?thesis by (auto simp: image_iff)
qed

lemma compiled_layout:
  assumes "compile_layout mem schema requests = Inr lay"
    and "\<forall>rq \<in> set (span_list requests). int32_request rq"
  shows "layout_inv schema (set (span_list requests)) lay \<and> unat (lay_total lay) * 8 < 2 ^ 63 \<and>
    (\<forall>i < length schema. \<exists>!rq. rq \<in> set (span_list requests) \<and> unat (rq_id rq) = i)"
proof -
  note c = compile_layout_InrD [OF assms(1)]
  let ?xs = "span_list requests" and ?ys = "sort_by_owner (sort_by_field (span_list requests))"
  have set: "set ?ys = set ?xs" by (simp add: sort_by_owner_def sort_by_field_def)
  have "mset ?ys = mset ?xs" by (simp add: sort_by_owner_def sort_by_field_def)
  then have dist: "distinct (map rq_id ?ys)"
    using c(2) mset_eq_imp_distinct_iff [of "map rq_id ?ys" "map rq_id ?xs"]
    by (simp add: check_requests_iff)
  have "layout_inv schema ({} \<union> set ?ys) lay"
    using c(2) assms(2) set dist
    by (intro place_owners_inv [OF c(3)])
      (auto simp: layout_inv_def owners_disjoint_def check_requests_iff)
  moreover have "\<exists>!rq. rq \<in> set ?xs \<and> unat (rq_id rq) = i" if "i < length schema" for i
  proof -
    have d: "distinct (map rq_id ?xs)" using c(2) by (simp add: check_requests_iff)
    then have "distinct (map (\<lambda>rq. unat (rq_id rq)) ?xs)"
      by (auto simp: distinct_map inj_on_def unat_inject)
    with distinct_ids_cover [of ?xs i] c(1,2) that obtain rq where
      "rq \<in> set ?xs" "unat (rq_id rq) = i" by (auto simp: check_requests_iff)
    with d show ?thesis by (auto simp: distinct_map inj_on_def unat_inject)
  qed
  ultimately show ?thesis using c(4) set by simp
qed

section \<open>Properties\<close>

text \<open>
  C5. A compiled arena is sound: every schema field has exactly one request and a layout with the
  equations of \<open>placed\<close> (strides, ghosts, replicas, cache-line aligned start, no wrap-around), it
  lies inside the block of its owner, fields of one owner occupy disjoint spans, owner blocks are
  disjoint, aligned and inside the arena, and the arena's byte size fits a signed pointer
  difference.
\<close>

theorem compile_layout_sound:
  assumes "compile_layout mem schema requests = Inr lay"
    and "\<forall>rq \<in> set (span_list requests). int32_request rq"
  shows "layout_inv schema (set (span_list requests)) lay \<and> unat (lay_total lay) * 8 < 2 ^ 63 \<and>
    (\<forall>i < length schema. \<exists>!rq. rq \<in> set (span_list requests) \<and> unat (rq_id rq) = i)"
  using assms by (rule compiled_layout)

definition example_schema :: field_schema where
  "example_schema =
     [\<lparr>fd_id = 0, fd_name = ''p'', fd_components = 1, fd_ghost_width = 1\<rparr>,
      \<lparr>fd_id = 1, fd_name = ''u'', fd_components = 3, fd_ghost_width = 2\<rparr>]"

definition example_requests :: "arena_field_request list" where
  "example_requests =
     [\<lparr>rq_id = 1, rq_interior = \<lparr>x3 = 4, y3 = 3, z3 = 2\<rparr>, rq_owner = 0, rq_lifetime = State_layer\<rparr>,
      \<lparr>rq_id = 0, rq_interior = \<lparr>x3 = 4, y3 = 3, z3 = 2\<rparr>, rq_owner = 0, rq_lifetime = Step_scratch\<rparr>]"

definition example_layout :: arena_layout where
  "example_layout =
     \<lparr>lay_fields =
        [\<lparr>al_id = 0, al_interior = \<lparr>x3 = 4, y3 = 3, z3 = 2\<rparr>, al_ghosts = \<lparr>x3 = 1, y3 = 1, z3 = 1\<rparr>,
          al_components = 1, al_stride_y = 16, al_stride_z = 80, al_component_stride = 320,
          al_replicas = 1, al_replica_stride = 320, al_owner = 0, al_owner_index = 0,
          al_raw_offset = 0, al_offset = 104, al_span = 320, al_lifetime = Step_scratch\<rparr>,
         \<lparr>al_id = 1, al_interior = \<lparr>x3 = 4, y3 = 3, z3 = 2\<rparr>, al_ghosts = \<lparr>x3 = 2, y3 = 2, z3 = 2\<rparr>,
          al_components = 3, al_stride_y = 16, al_stride_z = 112, al_component_stride = 672,
          al_replicas = 3, al_replica_stride = 2016, al_owner = 0, al_owner_index = 0,
          al_raw_offset = 320, al_offset = 584, al_span = 6048, al_lifetime = State_layer\<rparr>],
      lay_owners = [\<lparr>ao_owner = 0, ao_offset = 0, ao_span = 6368\<rparr>], lay_total = 6368\<rparr>"

lemma example_layout_compiled:
  "compile_layout True example_schema (Span example_requests) = Inr example_layout"
  by code_simp

lemma example_requests_int32: "\<forall>rq \<in> set (span_list (Span example_requests)). int32_request rq"
  by (simp add: example_requests_def int32_request_def is_int32_def)

theorem compile_layout_sound_witness:
  "layout_inv example_schema (set example_requests) example_layout"
  using compile_layout_sound [OF example_layout_compiled example_requests_int32] by simp

text \<open>
  C14. The plan does not depend on the order in which the requests are listed, errors included.
\<close>

theorem compile_layout_order_independent:
  assumes "mset rqs = mset rqs'"
  shows "compile_layout mem schema (Span rqs) = compile_layout mem schema (Span rqs')"
proof -
  have len: "length rqs = length rqs'" using assms by (rule mset_eq_length)
  have chk: "check_requests schema [] (sort_by_field rqs) = check_requests schema [] (sort_by_field rqs')"
    using assms by (intro check_requests_perm) (simp add: sort_by_field_def)
  show ?thesis
  proof (cases "check_requests schema [] (sort_by_field rqs)")
    case True
    then have "distinct (map rq_id (sort_by_field rqs))" by (simp add: check_requests_iff)
    moreover have "distinct (map rq_id (sort_by_field rqs)) = distinct (map rq_id rqs)"
      by (intro mset_eq_imp_distinct_iff) (simp add: sort_by_field_def)
    ultimately show ?thesis using sort_by_field_perm [OF assms] len
      by (simp add: compile_layout_def)
  next
    case False
    with chk len show ?thesis by (simp add: compile_layout_def Let_def)
  qed
qed

theorem compile_layout_order_independent_witness:
  "compile_layout True example_schema (Span example_requests)
    = compile_layout True example_schema (Span (rev example_requests))"
  using compile_layout_order_independent [of example_requests "rev example_requests"] by simp

end
