(* ===== verification/Field_Storage.thy ===== *)
theory Field_Storage
  imports Arena_Layout
begin

text \<open>
  \<^verbatim>\<open>FieldStorage\<close> of \<^verbatim>\<open>core_arena.cpp\<close>: the aligned blocks of an arena, the views of a field's
  replica, and the checked access that revalidates a view before it computes an address.

  A pointer is an address counted in doubles, \<open>None\<close> for null. \<^verbatim>\<open>operator new\<close> is not part of the
  program: an allocation takes the list of addresses it answers, and an exhausted list is
  \<^verbatim>\<open>std::bad_alloc\<close>. That live blocks do not overlap is the hypothesis \<open>blocks_disjoint\<close>. Signed
  offsets are integers: the address theorem shows they stay inside a block, so the code's
  \<^verbatim>\<open>ptrdiff_t\<close> arithmetic does not overflow.
\<close>

section \<open>Data\<close>

type_synonym pointer = "int option"

record owner_allocation =
  oa_owner :: u16
  oa_data :: pointer
  oa_doubles :: u64

record execution_counters =
  ec_allocations :: u64
  ec_bytes :: u64
  ec_whole_field_copies :: u64

record field_storage =
  st_fields :: "arena_field_layout list"
  st_owners :: "owner_allocation list"
  st_counters :: execution_counters
  st_identity :: u64

record field_view =
  fv_base :: pointer
  fv_interior :: int3
  fv_ghosts :: int3
  fv_components :: u8
  fv_stride_y :: u64
  fv_stride_z :: u64
  fv_component_stride :: u64
  fv_replica :: u64
  fv_field :: field_id
  fv_revision :: revision_token
  fv_storage_identity :: u64
  fv_revision_domain :: u64

definition zero_counters :: execution_counters where
  "zero_counters = \<lparr>ec_allocations = 0, ec_bytes = 0, ec_whole_field_copies = 0\<rparr>"

definition empty_storage :: field_storage where
  "empty_storage = \<lparr>st_fields = [], st_owners = [], st_counters = zero_counters, st_identity = 0\<rparr>"

section \<open>Allocation, release and moves\<close>

fun allocate_owners ::
  "arena_owner_layout list \<Rightarrow> nat list \<Rightarrow> field_storage \<Rightarrow> status + field_storage" where
  "allocate_owners [] blocks st = Inr st"
| "allocate_owners (ol # ols) blocks st =
     (case checked_multiply (ao_span ol) size_of_double of
        None \<Rightarrow> Inl (failed Invalid_plan 4)
      | Some bytes \<Rightarrow>
          if bytes = 0 then Inl (failed Invalid_plan 4)
          else case blocks of
            [] \<Rightarrow> Inl (failed Allocation_failure 0)
          | b # bs \<Rightarrow> allocate_owners ols bs
              (st\<lparr>st_owners := st_owners st @
                   [\<lparr>oa_owner = ao_owner ol, oa_data = Some (int b), oa_doubles = ao_span ol\<rparr>],
                 st_counters := (st_counters st)\<lparr>
                   ec_allocations := ec_allocations (st_counters st) + 1,
                   ec_bytes := ec_bytes (st_counters st) + bytes\<rparr>\<rparr>))"

definition storage_allocate ::
  "bool \<Rightarrow> nat list \<Rightarrow> arena_layout \<Rightarrow> u64 \<Rightarrow> (status + field_storage) \<times> u64" where
  "storage_allocate mem blocks layout next_id =
     (if lay_fields layout = [] \<or> lay_owners layout = [] then (Inl (failed Invalid_plan 1), next_id)
      else let (i, next') = issue_identity next_id in
        if i = 0 then (Inl (failed Invalid_plan 7), next')
        else if \<not> mem then (Inl (failed Allocation_failure 0), next')
        else (allocate_owners (lay_owners layout) blocks
                (empty_storage\<lparr>st_fields := lay_fields layout, st_identity := i\<rparr>), next'))"

text \<open>The released blocks go back to the allocator; nothing of the object survives.\<close>

definition storage_release :: "field_storage \<Rightarrow> field_storage" where
  "storage_release st =
     st\<lparr>st_owners := [], st_fields := [], st_counters := zero_counters, st_identity := 0\<rparr>"

text \<open>A move: the destination's new value and what is left of the source.\<close>

definition storage_move :: "field_storage \<Rightarrow> field_storage \<times> field_storage" where
  "storage_move other =
     (\<lparr>st_fields = st_fields other, st_owners = st_owners other, st_counters = st_counters other,
       st_identity = st_identity other\<rparr>,
      other\<lparr>st_fields := [], st_owners := [], st_counters := zero_counters, st_identity := 0\<rparr>)"

definition storage_move_assign :: "field_storage \<Rightarrow> field_storage \<Rightarrow> field_storage \<times> field_storage" where
  "storage_move_assign self other =
     (let released = storage_release self in
      (released\<lparr>st_fields := st_fields other, st_owners := st_owners other,
         st_counters := st_counters other, st_identity := st_identity other\<rparr>,
       other\<lparr>st_fields := [], st_owners := [], st_counters := zero_counters, st_identity := 0\<rparr>))"

section \<open>Views\<close>

definition storage_field_layout :: "field_storage \<Rightarrow> field_id \<Rightarrow> arena_field_layout option" where
  "storage_field_layout st f =
     (if unat f < length (st_fields st) then Some (st_fields st ! unat f) else None)"

definition make_view ::
  "pointer \<Rightarrow> arena_field_layout \<Rightarrow> u64 \<Rightarrow> revision_token \<Rightarrow> u64 \<Rightarrow> u64 \<Rightarrow> status + field_view" where
  "make_view owner_base layout replica revision storage_identity revision_domain =
     (case owner_base of
        None \<Rightarrow> Inl (failed Invalid_plan 6)
      | Some base \<Rightarrow>
          if replica \<ge> al_replicas layout \<or> revision = 0 \<or> storage_identity = 0 \<or> revision_domain = 0
          then Inl (failed Invalid_plan 6)
          else case checked_multiply replica (al_replica_stride layout) of
            None \<Rightarrow> Inl (failed Invalid_plan 4)
          | Some replica_offset \<Rightarrow>
              Inr \<lparr>fv_base = Some (base + int (unat (al_offset layout)) + int (unat replica_offset)),
                fv_interior = al_interior layout, fv_ghosts = al_ghosts layout,
                fv_components = al_components layout, fv_stride_y = al_stride_y layout,
                fv_stride_z = al_stride_z layout, fv_component_stride = al_component_stride layout,
                fv_replica = replica, fv_field = al_id layout, fv_revision = revision,
                fv_storage_identity = storage_identity, fv_revision_domain = revision_domain\<rparr>)"

definition storage_view ::
  "field_storage \<Rightarrow> field_id \<Rightarrow> u64 \<Rightarrow> revision_token \<Rightarrow> u64 \<Rightarrow> status + field_view" where
  "storage_view st f replica revision revision_domain =
     (case storage_field_layout st f of
        None \<Rightarrow> Inl (failed Invalid_plan 6)
      | Some layout \<Rightarrow>
          if al_owner_index layout \<ge> length (st_owners st) \<or>
             oa_owner (st_owners st ! al_owner_index layout) \<noteq> al_owner layout
          then Inl (failed Invalid_plan 6)
          else make_view (oa_data (st_owners st ! al_owner_index layout)) layout replica revision
                 (st_identity st) revision_domain)"

definition storage_view_set ::
  "field_storage \<Rightarrow> field_id \<Rightarrow> u64 \<Rightarrow> revision_set \<Rightarrow> status + field_view" where
  "storage_view_set st f replica revisions =
     storage_view st f replica (revision_set_token revisions f) (rs_identity revisions)"

section \<open>Checked access\<close>

definition in_ghosted :: "arena_field_layout \<Rightarrow> int3 \<Rightarrow> u8 \<Rightarrow> bool" where
  "in_ghosted layout index component \<longleftrightarrow>
     component < al_components layout \<and>
     - x3 (al_ghosts layout) \<le> x3 index \<and> - y3 (al_ghosts layout) \<le> y3 index \<and>
     - z3 (al_ghosts layout) \<le> z3 index \<and>
     x3 index < x3 (al_interior layout) + x3 (al_ghosts layout) \<and>
     y3 index < y3 (al_interior layout) + y3 (al_ghosts layout) \<and>
     z3 index < z3 (al_interior layout) + z3 (al_ghosts layout)"

definition cell_offset :: "arena_field_layout \<Rightarrow> int3 \<Rightarrow> u8 \<Rightarrow> int" where
  "cell_offset layout index component =
     x3 index + y3 index * int (unat (al_stride_y layout)) + z3 index * int (unat (al_stride_z layout))
       + int (unat component) * int (unat (al_component_stride layout))"

definition storage_checked_ptr ::
  "field_storage \<Rightarrow> field_view \<Rightarrow> int3 \<Rightarrow> u8 \<Rightarrow> revision_token \<Rightarrow> u64 \<Rightarrow> pointer" where
  "storage_checked_ptr st view index component expected_revision expected_domain =
     (case storage_field_layout st (fv_field view) of
        None \<Rightarrow> None
      | Some layout \<Rightarrow>
          if al_owner_index layout \<ge> length (st_owners st) \<or>
             oa_owner (st_owners st ! al_owner_index layout) \<noteq> al_owner layout \<or>
             fv_replica view \<ge> al_replicas layout \<or> expected_revision = 0 \<or> expected_domain = 0 \<or>
             fv_revision view \<noteq> expected_revision \<or> fv_storage_identity view \<noteq> st_identity st \<or>
             fv_revision_domain view \<noteq> expected_domain \<or>
             fv_interior view \<noteq> al_interior layout \<or> fv_ghosts view \<noteq> al_ghosts layout \<or>
             fv_components view \<noteq> al_components layout \<or> fv_stride_y view \<noteq> al_stride_y layout \<or>
             fv_stride_z view \<noteq> al_stride_z layout \<or>
             fv_component_stride view \<noteq> al_component_stride layout
          then None
          else case oa_data (st_owners st ! al_owner_index layout) of
            None \<Rightarrow> None
          | Some base \<Rightarrow>
          case checked_multiply (fv_replica view) (al_replica_stride layout) of
            None \<Rightarrow> None
          | Some replica_offset \<Rightarrow>
              let expected_base = base + int (unat (al_offset layout)) + int (unat replica_offset) in
              if fv_base view \<noteq> Some expected_base \<or> \<not> in_ghosted layout index component then None
              else Some (expected_base + cell_offset layout index component))"

definition storage_checked_ptr_set ::
  "field_storage \<Rightarrow> field_view \<Rightarrow> int3 \<Rightarrow> u8 \<Rightarrow> revision_set \<Rightarrow> pointer" where
  "storage_checked_ptr_set st view index component revisions =
     storage_checked_ptr st view index component (revision_set_token revisions (fv_field view))
       (rs_identity revisions)"

section \<open>Positions inside a field's span\<close>

text \<open>The mixed-radix digits of a cell: ghosted x, y, z, component, replica.\<close>

definition cell_position :: "arena_field_layout \<Rightarrow> nat \<Rightarrow> int3 \<Rightarrow> u8 \<Rightarrow> nat" where
  "cell_position f replica index component =
     (((nat (int (up8 (nat (x3 (al_ghosts f)))) + x3 index)
         + nat (y3 index + y3 (al_ghosts f)) * unat (al_stride_y f))
         + nat (z3 index + z3 (al_ghosts f)) * unat (al_stride_z f))
         + unat component * unat (al_component_stride f))
         + replica * unat (al_replica_stride f)"

lemma placed_digits:
  assumes "placed d rq f" "in_ghosted f index c"
  shows "nat (int (up8 (nat (x3 (al_ghosts f)))) + x3 index) < unat (al_stride_y f)"
    and "unat (al_stride_z f) = unat (al_stride_y f)
      * (nat (y3 (al_interior f)) + 2 * nat (y3 (al_ghosts f)))"
    and "nat (y3 index + y3 (al_ghosts f)) < nat (y3 (al_interior f)) + 2 * nat (y3 (al_ghosts f))"
    and "unat (al_component_stride f) = unat (al_stride_z f)
      * (nat (z3 (al_interior f)) + 2 * nat (z3 (al_ghosts f)))"
    and "nat (z3 index + z3 (al_ghosts f)) < nat (z3 (al_interior f)) + 2 * nat (z3 (al_ghosts f))"
    and "unat c < unat (al_components f)"
    and "unat (al_component_stride f) * unat (al_components f) \<le> unat (al_replica_stride f)"
proof -
  let ?g = "unat (fd_ghost_width d)"
  have g: "nat (x3 (al_ghosts f)) = ?g" "nat (y3 (al_ghosts f)) = ?g" "nat (z3 (al_ghosts f)) = ?g"
    "x3 (al_ghosts f) = int ?g" "y3 (al_ghosts f) = int ?g" "z3 (al_ghosts f) = int ?g"
    using assms(1) by (simp_all add: placed_def)
  have p: "al_interior f = rq_interior rq" "0 < x3 (rq_interior rq)" "0 < y3 (rq_interior rq)"
      "0 < z3 (rq_interior rq)"
      "unat (al_stride_y f) = up8 (up8 ?g + (nat (x3 (rq_interior rq)) + ?g))"
      "unat (al_stride_z f) = unat (al_stride_y f) * (nat (y3 (rq_interior rq)) + 2 * ?g)"
      "unat (al_component_stride f) = unat (al_stride_z f) * (nat (z3 (rq_interior rq)) + 2 * ?g)"
      "unat (al_replica_stride f) = up8 (unat (al_component_stride f) * unat (fd_components d))"
      "al_components f = fd_components d"
    using assms(1) by (simp_all add: placed_def Let_def)
  have i: "x3 index < x3 (rq_interior rq) + int ?g" "- int ?g \<le> x3 index" "- int ?g \<le> y3 index"
    "y3 index < y3 (rq_interior rq) + int ?g" "- int ?g \<le> z3 index"
    "z3 index < z3 (rq_interior rq) + int ?g" "c < fd_components d"
    using assms(2) p(1,9) by (simp_all add: in_ghosted_def g)
  have "nat (int (up8 ?g) + x3 index) < up8 ?g + (nat (x3 (rq_interior rq)) + ?g)"
    using i(1) p(2) by linarith
  also have "\<dots> \<le> unat (al_stride_y f)" unfolding p(5) by (rule up8_ge)
  finally show "nat (int (up8 (nat (x3 (al_ghosts f)))) + x3 index) < unat (al_stride_y f)"
    by (simp add: g)
  have "nat (y3 index + int ?g) < nat (y3 (rq_interior rq)) + 2 * ?g"
    "nat (z3 index + int ?g) < nat (z3 (rq_interior rq)) + 2 * ?g"
    using i p(3,4) by linarith+
  then show "nat (y3 index + y3 (al_ghosts f)) < nat (y3 (al_interior f)) + 2 * nat (y3 (al_ghosts f))"
    "nat (z3 index + z3 (al_ghosts f)) < nat (z3 (al_interior f)) + 2 * nat (z3 (al_ghosts f))"
    by (simp_all only: g p(1) nat_int)
  show "unat c < unat (al_components f)" using i(7) p(9) by (simp add: word_less_nat_alt)
  show "unat (al_component_stride f) * unat (al_components f) \<le> unat (al_replica_stride f)"
    unfolding p(8,9) by (rule up8_ge)
  show "unat (al_stride_z f) = unat (al_stride_y f)
      * (nat (y3 (al_interior f)) + 2 * nat (y3 (al_ghosts f)))"
    "unat (al_component_stride f) = unat (al_stride_z f)
      * (nat (z3 (al_interior f)) + 2 * nat (z3 (al_ghosts f)))"
    by (simp_all only: g(2,3) p(1,6,7))
qed


lemma cell_position_address:
  assumes "placed d rq f" "in_ghosted f index c"
  shows "int (unat (al_offset f)) + int (r * unat (al_replica_stride f)) + cell_offset f index c
    = int (unat (al_raw_offset f)) + int (cell_position f r index c)"
proof -
  define g where "g = unat (fd_ghost_width d)"
  have g: "x3 (al_ghosts f) = int g" "y3 (al_ghosts f) = int g" "z3 (al_ghosts f) = int g"
    using assms(1) by (simp_all add: placed_def g_def)
  have off: "unat (al_offset f) = unat (al_raw_offset f) + up8 g + g * unat (al_stride_y f)
      + g * unat (al_stride_z f)"
    using assms(1) by (simp add: placed_def Let_def g_def)
  have b: "0 \<le> int (up8 g) + x3 index" "0 \<le> y3 index + int g" "0 \<le> z3 index + int g"
    using assms(2) up8_ge [of g] by (auto simp: in_ghosted_def g)
  show ?thesis unfolding cell_position_def off cell_offset_def g nat_int
    using b by (simp add: algebra_simps)
qed

lemma radix5_unique:
  fixes x y z c r :: nat
  assumes "x < sy" "y < ny" "z < nz" "c < nc" "x' < sy" "y' < ny" "z' < nz" "c' < nc"
    and "sz = sy * ny" "sc = sz * nz" "sc * nc \<le> sr"
    and "x + y * sy + z * sz + c * sc + r * sr = x' + y' * sy + z' * sz + c' * sc + r' * sr"
  shows "x = x' \<and> y = y' \<and> z = z' \<and> c = c' \<and> r = r'"
proof -
  have y: "x + y * sy < sz" "x' + y' * sy < sz"
    using assms(1-8) unfolding assms(9) by (simp_all add: radix_bound)
  then have z: "x + y * sy + z * sz < sc" "x' + y' * sy + z' * sz < sc"
    using assms(3,7) unfolding assms(10) by (simp_all add: radix_bound)
  then have c: "x + y * sy + z * sz + c * sc < sr" "x' + y' * sy + z' * sz + c' * sc < sr"
    using assms(4,8,11) radix_bound less_le_trans by blast+
  note r = radix_unique [OF c assms(12)]
  note c' = radix_unique [OF z conjunct1 [OF r]]
  note z' = radix_unique [OF y conjunct1 [OF c']]
  note y' = radix_unique [OF assms(1,5) conjunct1 [OF z']]
  from r c' z' y' show ?thesis by simp
qed

lemma cell_position_inject:
  assumes "placed d rq f" "in_ghosted f i c" "in_ghosted f i' c'"
    and "cell_position f r i c = cell_position f r' i' c'"
  shows "i = i' \<and> c = c' \<and> r = r'"
proof -
  note a = placed_digits [OF assms(1,2)] and b = placed_digits [OF assms(1,3)]
  note e = radix5_unique [OF a(1,3,5,6) b(1,3,5,6) a(2,4,7) assms(4) [unfolded cell_position_def]]
  have pos: "0 \<le> int (up8 (nat (x3 (al_ghosts f)))) + x3 j \<and> 0 \<le> y3 j + y3 (al_ghosts f)
      \<and> 0 \<le> z3 j + z3 (al_ghosts f)" if "in_ghosted f j e" for j e
  proof -
    have "x3 (al_ghosts f) \<le> int (up8 (nat (x3 (al_ghosts f))))"
      using up8_ge [of "nat (x3 (al_ghosts f))"] by linarith
    with that show ?thesis by (auto simp: in_ghosted_def)
  qed
  from e have "nat (int (up8 (nat (x3 (al_ghosts f)))) + x3 i)
      = nat (int (up8 (nat (x3 (al_ghosts f)))) + x3 i')"
    "nat (y3 i + y3 (al_ghosts f)) = nat (y3 i' + y3 (al_ghosts f))"
    "nat (z3 i + z3 (al_ghosts f)) = nat (z3 i' + z3 (al_ghosts f))" by blast+
  with pos [OF assms(2)] pos [OF assms(3)] have "x3 i = x3 i'" "y3 i = y3 i'" "z3 i = z3 i'"
    by linarith+
  with e show ?thesis by (simp add: int3.equality unat_inject)
qed

lemma cell_position_bound:
  assumes "placed d rq f" "in_ghosted f i c" "r < unat (al_replicas f)"
  shows "cell_position f r i c < unat (al_span f)"
proof -
  note a = placed_digits [OF assms(1,2)]
  from radix_bound [OF a(1,3)] have "nat (int (up8 (nat (x3 (al_ghosts f)))) + x3 i)
      + nat (y3 i + y3 (al_ghosts f)) * unat (al_stride_y f) < unat (al_stride_z f)"
    unfolding a(2) .
  from radix_bound [OF this a(5)] have "nat (int (up8 (nat (x3 (al_ghosts f)))) + x3 i)
      + nat (y3 i + y3 (al_ghosts f)) * unat (al_stride_y f)
      + nat (z3 i + z3 (al_ghosts f)) * unat (al_stride_z f) < unat (al_component_stride f)"
    unfolding a(4) .
  from less_le_trans [OF radix_bound [OF this a(6)] a(7)] radix_bound [OF _ assms(3)]
  have "cell_position f r i c < unat (al_replica_stride f) * unat (al_replicas f)"
    unfolding cell_position_def by blast
  moreover have "unat (al_span f) = unat (al_replica_stride f) * unat (al_replicas f)"
    using assms(1) by (simp add: placed_def Let_def)
  ultimately show ?thesis by simp
qed


declare of_nat_unat [simp del]

section \<open>An allocated arena\<close>

text \<open>
  What \<^verbatim>\<open>allocate\<close> leaves: the layout's fields, one non-null block per owner layout with its
  owner and length. \<open>blocks_disjoint\<close> is the documented behaviour of \<^verbatim>\<open>operator new\<close>: two live
  blocks do not overlap.
\<close>

definition backs :: "arena_layout \<Rightarrow> field_storage \<Rightarrow> bool" where
  "backs lay st \<longleftrightarrow> st_fields st = lay_fields lay \<and>
     map oa_owner (st_owners st) = map ao_owner (lay_owners lay) \<and>
     map oa_doubles (st_owners st) = map ao_span (lay_owners lay) \<and>
     (\<forall>o' \<in> set (st_owners st). oa_data o' \<noteq> None) \<and> st_identity st \<noteq> 0"

definition in_block :: "owner_allocation \<Rightarrow> int \<Rightarrow> bool" where
  "in_block o' a \<longleftrightarrow> (\<exists>b. oa_data o' = Some b \<and> b \<le> a \<and> a < b + int (unat (oa_doubles o')))"

definition blocks_disjoint :: "field_storage \<Rightarrow> bool" where
  "blocks_disjoint st \<longleftrightarrow> (\<forall>j < length (st_owners st). \<forall>k < length (st_owners st). \<forall>a.
     in_block (st_owners st ! j) a \<longrightarrow> in_block (st_owners st ! k) a \<longrightarrow> j = k)"

lemma allocate_owners_InrD:
  assumes "allocate_owners ols blocks st = Inr st'"
  shows "st_fields st' = st_fields st \<and> st_identity st' = st_identity st \<and>
    (\<exists>new. st_owners st' = st_owners st @ new \<and> map oa_owner new = map ao_owner ols \<and>
       map oa_doubles new = map ao_span ols \<and> (\<forall>o' \<in> set new. oa_data o' \<noteq> None))"
  using assms
proof (induction ols blocks st arbitrary: st' rule: allocate_owners.induct)
  case (2 ol ols blocks st)
  from "2.prems" obtain bytes b bs where ok: "checked_multiply (ao_span ol) size_of_double = Some bytes"
      "bytes \<noteq> 0" "blocks = b # bs"
    by (auto split: option.splits if_splits list.splits)
  from "2.IH" [OF ok] "2.prems" ok show ?case by fastforce
qed auto

lemma storage_allocate_backs:
  assumes "storage_allocate mem blocks lay next_id = (Inr st, next')"
  shows "backs lay st"
  using assms
  by (auto simp: storage_allocate_def backs_def empty_storage_def Let_def
      split: if_splits prod.splits dest!: allocate_owners_InrD)

lemma checked_ptr_SomeD:
  assumes "storage_checked_ptr st view i c rv dm = Some a"
  obtains f base where "storage_field_layout st (fv_field view) = Some f"
    "al_owner_index f < length (st_owners st)" "oa_data (st_owners st ! al_owner_index f) = Some base"
    "fv_replica view < al_replicas f" "in_ghosted f i c"
    "a = base + int (unat (al_offset f)) + int (unat (fv_replica view) * unat (al_replica_stride f))
       + cell_offset f i c"
  using assms
  by (auto simp: storage_checked_ptr_def Let_def
      split: option.splits if_splits dest!: checked_multiply_SomeD)

lemma layout_inv_field:
  assumes "compile_layout mem schema requests = Inr lay"
    and "\<forall>rq \<in> set (span_list requests). int32_request rq"
    and "backs lay st" "storage_field_layout st fid = Some f"
  obtains rq where "rq \<in> set (span_list requests)" "rq_id rq = fid"
    "f = at_request (lay_fields lay) rq" "placed (schema ! unat fid) rq f"
    "al_owner_index f < length (lay_owners lay)"
    "span_end f \<le> unat (ao_span (lay_owners lay ! al_owner_index f))"
proof -
  from compiled_layout [OF assms(1,2)] have inv: "layout_inv schema (set (span_list requests)) lay"
    and ex: "\<forall>i < length schema. \<exists>rq. rq \<in> set (span_list requests) \<and> unat (rq_id rq) = i" by blast+
  have len: "length (lay_fields lay) = length schema" using inv by (simp add: layout_inv_def)
  from assms(3,4) have f: "unat fid < length schema" "f = lay_fields lay ! unat fid"
    by (auto simp: storage_field_layout_def backs_def len split: if_splits)
  with ex obtain rq where rq: "rq \<in> set (span_list requests)" "unat (rq_id rq) = unat fid" by blast
  then have id: "rq_id rq = fid" by (simp add: unat_inject)
  with f have at: "f = at_request (lay_fields lay) rq" by simp
  from inv rq(1) id at that show ?thesis unfolding layout_inv_def Let_def by blast
qed


lemma granted_in_span:
  assumes "compile_layout mem schema requests = Inr lay"
    and "\<forall>rq \<in> set (span_list requests). int32_request rq"
    and "backs lay st" "storage_checked_ptr st view i c rv dm = Some a"
  obtains f rq base where "storage_field_layout st (fv_field view) = Some f"
    "rq \<in> set (span_list requests)" "rq_id rq = fv_field view" "f = at_request (lay_fields lay) rq"
    "placed (schema ! unat (fv_field view)) rq f" "in_ghosted f i c"
    "al_owner_index f < length (st_owners st)"
    "oa_data (st_owners st ! al_owner_index f) = Some base"
    "span_end f \<le> unat (oa_doubles (st_owners st ! al_owner_index f))"
    "a = base + int (unat (al_raw_offset f)) + int (cell_position f (unat (fv_replica view)) i c)"
    "cell_position f (unat (fv_replica view)) i c < unat (al_span f)"
proof -
  from assms(4) obtain f base where g: "storage_field_layout st (fv_field view) = Some f"
    "al_owner_index f < length (st_owners st)" "oa_data (st_owners st ! al_owner_index f) = Some base"
    "fv_replica view < al_replicas f" "in_ghosted f i c"
    "a = base + int (unat (al_offset f)) + int (unat (fv_replica view) * unat (al_replica_stride f))
       + cell_offset f i c" by (rule checked_ptr_SomeD)
  from layout_inv_field [OF assms(1-3) g(1)] obtain rq where rq:
    "rq \<in> set (span_list requests)" "rq_id rq = fv_field view"
    "f = at_request (lay_fields lay) rq" "placed (schema ! unat (fv_field view)) rq f"
    "al_owner_index f < length (lay_owners lay)"
    "span_end f \<le> unat (ao_span (lay_owners lay ! al_owner_index f))" by blast
  have "map oa_doubles (st_owners st) ! al_owner_index f = map ao_span (lay_owners lay) ! al_owner_index f"
    using assms(3) by (simp add: backs_def)
  then have e: "span_end f \<le> unat (oa_doubles (st_owners st ! al_owner_index f))"
    using rq(5,6) g(2) by simp
  have "a = base + int (unat (al_raw_offset f)) + int (cell_position f (unat (fv_replica view)) i c)"
    using g(6) cell_position_address [OF rq(4) g(5), of "unat (fv_replica view)"] by linarith
  moreover have "cell_position f (unat (fv_replica view)) i c < unat (al_span f)"
    using g(4) by (intro cell_position_bound [OF rq(4) g(5)]) (simp add: word_less_nat_alt)
  ultimately show ?thesis using that [OF g(1) rq(1-4) g(5) g(2,3) e] by blast
qed

lemma granted_in_block:
  assumes "compile_layout mem schema requests = Inr lay"
    and "\<forall>rq \<in> set (span_list requests). int32_request rq"
    and "backs lay st" "storage_checked_ptr st view i c rv dm = Some a"
  shows "\<exists>f. storage_field_layout st (fv_field view) = Some f \<and> al_owner_index f < length (st_owners st) \<and>
    in_block (st_owners st ! al_owner_index f) a"
proof -
  from granted_in_span [OF assms] obtain f base where
    "storage_field_layout st (fv_field view) = Some f" "al_owner_index f < length (st_owners st)"
    "oa_data (st_owners st ! al_owner_index f) = Some base"
    "span_end f \<le> unat (oa_doubles (st_owners st ! al_owner_index f))"
    "a = base + int (unat (al_raw_offset f)) + int (cell_position f (unat (fv_replica view)) i c)"
    "cell_position f (unat (fv_replica view)) i c < unat (al_span f)" by metis
  then show ?thesis by (auto simp: in_block_def span_end_def)
qed

lemma granted_unaliased:
  assumes "compile_layout mem schema requests = Inr lay"
    and "\<forall>rq \<in> set (span_list requests). int32_request rq"
    and b: "backs lay st" and "blocks_disjoint st"
    and "storage_checked_ptr st view i c rv dm = Some a"
    and "storage_checked_ptr st view' i' c' rv' dm' = Some a"
  shows "fv_field view = fv_field view' \<and> fv_replica view = fv_replica view' \<and> i = i' \<and> c = c'"
proof -
  note inv = conjunct1 [OF compiled_layout [OF assms(1,2)]]
  from granted_in_span [OF assms(1,2) b assms(5)] obtain f rq base where f:
    "storage_field_layout st (fv_field view) = Some f" "rq \<in> set (span_list requests)"
    "rq_id rq = fv_field view" "f = at_request (lay_fields lay) rq"
    "placed (schema ! unat (fv_field view)) rq f" "in_ghosted f i c"
    "oa_data (st_owners st ! al_owner_index f) = Some base"
    "a = base + int (unat (al_raw_offset f)) + int (cell_position f (unat (fv_replica view)) i c)"
    "cell_position f (unat (fv_replica view)) i c < unat (al_span f)" by metis
  from granted_in_span [OF assms(1,2) b assms(6)] obtain f' rq' base' where f':
    "storage_field_layout st (fv_field view') = Some f'" "rq' \<in> set (span_list requests)"
    "rq_id rq' = fv_field view'" "f' = at_request (lay_fields lay) rq'"
    "placed (schema ! unat (fv_field view')) rq' f'" "in_ghosted f' i' c'"
    "oa_data (st_owners st ! al_owner_index f') = Some base'"
    "a = base' + int (unat (al_raw_offset f')) + int (cell_position f' (unat (fv_replica view')) i' c')"
    "cell_position f' (unat (fv_replica view')) i' c' < unat (al_span f')" by metis
  have k: "al_owner_index f = al_owner_index f'"
    using granted_in_block [OF assms(1,2) b assms(5)] granted_in_block [OF assms(1,2) b assms(6)]
      f(1) f'(1) assms(4) by (auto simp: blocks_disjoint_def)
  with f(7) f'(7) have base: "base = base'" by simp
  have same: "rq = rq'"
  proof (rule ccontr)
    assume "rq \<noteq> rq'"
    with inv f(2,4) f'(2,4) k have "spans_disjoint f f'" unfolding layout_inv_def by blast
    with f(8,9) f'(8,9) base show False by (auto simp: spans_disjoint_def span_end_def)
  qed
  with f(3,4) f'(3,4) have ff: "f = f'" "fv_field view = fv_field view'" by simp_all
  with f(8) f'(8) base have "cell_position f (unat (fv_replica view)) i c
      = cell_position f (unat (fv_replica view')) i' c'" by simp
  from cell_position_inject [OF f(5,6) f'(6) [folded ff(1)] this] ff(2) show ?thesis
    by (simp add: unat_inject)
qed


section \<open>Properties\<close>

text \<open>
  C10. A granted pointer lies inside the block of the owner the field's request names: whatever view,
  index, component and expected revision a caller passes, forged or stale ones included, the checked
  access of an arena allocated from a compiled layout answers null or an address of that block.
\<close>

theorem checked_ptr_in_owner_block:
  assumes "compile_layout mem schema requests = Inr lay"
    and "\<forall>rq \<in> set (span_list requests). int32_request rq"
    and "storage_allocate mem' blocks lay next_id = (Inr st, next')"
    and "storage_checked_ptr st view i c rv dm = Some a"
  shows "\<exists>rq k. rq \<in> set (span_list requests) \<and> rq_id rq = fv_field view \<and> k < length (st_owners st) \<and>
    oa_owner (st_owners st ! k) = rq_owner rq \<and> in_block (st_owners st ! k) a"
proof -
  note b = storage_allocate_backs [OF assms(3)]
  from granted_in_span [OF assms(1,2) b assms(4)] obtain f rq where f:
    "storage_field_layout st (fv_field view) = Some f" "rq \<in> set (span_list requests)"
    "rq_id rq = fv_field view" "placed (schema ! unat (fv_field view)) rq f" by metis
  from granted_in_block [OF assms(1,2) b assms(4)] f(1)
  have k: "al_owner_index f < length (st_owners st)" "in_block (st_owners st ! al_owner_index f) a"
    by auto
  have "oa_owner (st_owners st ! al_owner_index f) = al_owner f"
    using assms(4) f(1) by (auto simp: storage_checked_ptr_def split: if_splits)
  with f k show ?thesis by (auto simp: placed_def)
qed


definition example_storage :: field_storage where
  "example_storage =
     \<lparr>st_fields = lay_fields example_layout,
       st_owners = [\<lparr>oa_owner = 0, oa_data = Some 1000, oa_doubles = 6368\<rparr>],
       st_counters = \<lparr>ec_allocations = 1, ec_bytes = 50944, ec_whole_field_copies = 0\<rparr>,
       st_identity = 5\<rparr>"

definition example_view :: field_view where
  "example_view =
     \<lparr>fv_base = Some 3600, fv_interior = \<lparr>x3 = 4, y3 = 3, z3 = 2\<rparr>,
       fv_ghosts = \<lparr>x3 = 2, y3 = 2, z3 = 2\<rparr>, fv_components = 3, fv_stride_y = 16,
       fv_stride_z = 112, fv_component_stride = 672, fv_replica = 1, fv_field = 1, fv_revision = 9,
       fv_storage_identity = 5, fv_revision_domain = 4\<rparr>"

lemma example_storage_allocated:
  "storage_allocate True [1000] example_layout 5 = (Inr example_storage, 6)"
  by code_simp

lemma example_view_granted: "storage_view example_storage 1 1 9 4 = Inr example_view"
  by code_simp

lemma example_pointer:
  "storage_checked_ptr example_storage example_view \<lparr>x3 = - 2, y3 = 4, z3 = 3\<rparr> 2 9 4 = Some 5342"
  by code_simp

lemma example_blocks_disjoint: "blocks_disjoint example_storage"
  by (simp add: blocks_disjoint_def example_storage_def)

theorem checked_ptr_in_owner_block_witness:
  "\<exists>rq k. rq \<in> set example_requests \<and> rq_id rq = 1 \<and> k < length (st_owners example_storage) \<and>
    oa_owner (st_owners example_storage ! k) = rq_owner rq \<and>
    in_block (st_owners example_storage ! k) 5342"
  using checked_ptr_in_owner_block [OF example_layout_compiled example_requests_int32
      example_storage_allocated example_pointer]
  by (simp add: example_view_def)


text \<open>
  A view an arena granted is accepted exactly as long as it is current: in that storage a
  checked access answers an address if and only if the caller expects the revision and the domain
  the view carries and the index and component lie in the ghosted box of the field; a storage of
  another identity answers null.
\<close>

theorem view_accepted_iff_current:
  assumes "compile_layout mem schema requests = Inr lay"
    and "\<forall>rq \<in> set (span_list requests). int32_request rq"
    and "storage_allocate mem' blocks lay next_id = (Inr st, next')"
    and "storage_view st f replica rv dm = Inr v"
  shows "((\<exists>a. storage_checked_ptr st v i c rv' dm' = Some a) \<longleftrightarrow>
      rv' = rv \<and> dm' = dm \<and> (\<exists>l. storage_field_layout st f = Some l \<and> in_ghosted l i c)) \<and>
    (\<forall>st'. storage_checked_ptr st' v i c rv' dm' \<noteq> None \<longrightarrow> st_identity st' = st_identity st)"
proof -
  from assms(4) obtain l base ro where l: "storage_field_layout st f = Some l"
    "al_owner_index l < length (st_owners st)" "oa_owner (st_owners st ! al_owner_index l) = al_owner l"
    "oa_data (st_owners st ! al_owner_index l) = Some base" "replica < al_replicas l"
    "rv \<noteq> 0" "dm \<noteq> 0" "checked_multiply replica (al_replica_stride l) = Some ro"
    "v = \<lparr>fv_base = Some (base + int (unat (al_offset l)) + int (unat ro)),
      fv_interior = al_interior l, fv_ghosts = al_ghosts l, fv_components = al_components l,
      fv_stride_y = al_stride_y l, fv_stride_z = al_stride_z l,
      fv_component_stride = al_component_stride l, fv_replica = replica, fv_field = al_id l,
      fv_revision = rv, fv_storage_identity = st_identity st, fv_revision_domain = dm\<rparr>"
    by (auto simp: storage_view_def make_view_def split: option.splits if_splits)
  have "al_id l = f"
    using layout_inv_field [OF assms(1,2) storage_allocate_backs [OF assms(3)] l(1)]
    by (metis placed_def)
  with l have "(\<exists>a. storage_checked_ptr st v i c rv' dm' = Some a) \<longleftrightarrow>
      rv' = rv \<and> dm' = dm \<and> in_ghosted l i c"
    by (auto simp: storage_checked_ptr_def)
  moreover have "st_identity st' = st_identity st"
    if "storage_checked_ptr st' v i c rv' dm' \<noteq> None" for st'
    using that by (auto simp: storage_checked_ptr_def l(9) split: option.splits if_splits)
  ultimately show ?thesis using l(1) by simp
qed

theorem view_accepted_iff_current_witness:
  "storage_checked_ptr example_storage example_view \<lparr>x3 = 0, y3 = 0, z3 = 0\<rparr> 0 10 4 = None"
  using view_accepted_iff_current [OF example_layout_compiled example_requests_int32
      example_storage_allocated example_view_granted, of "\<lparr>x3 = 0, y3 = 0, z3 = 0\<rparr>" 0 10 4]
  by auto

end
