(* ===== verification/State_Layers.thy ===== *)
theory State_Layers
  imports Field_Storage Identities
begin

text \<open>
  \<^verbatim>\<open>StateLayers\<close> of \<^verbatim>\<open>core_arena.cpp\<close>: the arena whose state-layer fields have three replicas that
  play the roles accepted n, accepted n-1 and trial. Roles are handles to replicas, so a commit
  rotates three numbers and copies no field; every write grant is a fresh revision token.

  The flags \<^verbatim>\<open>state_fields_\<close> are booleans. \<open>revisions\<close> is indexed by replica and field as in the
  code; the invariant \<open>layers_wf\<close> shows that every index the code uses without a test is in range.
\<close>

section \<open>Data\<close>

datatype state_role = Accepted_n | Accepted_n_minus_one | Trial | Unnamed_role u8

fun role_slot :: "state_role \<Rightarrow> nat" where
  "role_slot Accepted_n = 0"
| "role_slot Accepted_n_minus_one = 1"
| "role_slot Trial = 2"
| "role_slot (Unnamed_role _) = 3"

record state_layers =
  sl_storage :: field_storage
  sl_revisions :: "revision_token list"
  sl_state_revisions :: "revision_token list"
  sl_state_fields :: "bool list"
  sl_field_count :: nat
  sl_handles :: "nat list"
  sl_next :: revision_token

definition empty_layers :: state_layers where
  "empty_layers = \<lparr>sl_storage = empty_storage, sl_revisions = [], sl_state_revisions = [0, 0, 0],
     sl_state_fields = [], sl_field_count = 0, sl_handles = [0, 1, 2], sl_next = 1\<rparr>"

section \<open>Allocation and moves\<close>

definition slot_of :: "state_layers \<Rightarrow> nat \<Rightarrow> nat \<Rightarrow> nat" where
  "slot_of sl replica i = replica * sl_field_count sl + i"

text \<open>A replica of a state field receives the next token.\<close>

definition issue_initial :: "nat \<Rightarrow> nat \<Rightarrow> state_layers \<Rightarrow> state_layers" where
  "issue_initial i replica sl =
     sl\<lparr>sl_revisions := (sl_revisions sl)[slot_of sl replica i := sl_next sl],
        sl_state_revisions := (sl_state_revisions sl)[replica := sl_next sl],
        sl_next := sl_next sl + 1\<rparr>"

definition allocate_field :: "arena_field_layout \<Rightarrow> state_layers \<Rightarrow> status + state_layers" where
  "allocate_field f sl =
     (let i = unat (al_id f) in
      if al_lifetime f = State_layer then
        if al_replicas f \<noteq> 3 then Inl (failed Invalid_plan 1)
        else Inr (fold (issue_initial i) [0, 1, 2]
               (sl\<lparr>sl_state_fields := (sl_state_fields sl)[i := True]\<rparr>))
      else if al_replicas f \<noteq> 1 \<or> sl_next sl = u64_max then Inl (failed Invalid_plan 1)
      else Inr (sl\<lparr>sl_revisions := (sl_revisions sl)[i := sl_next sl], sl_next := sl_next sl + 1\<rparr>))"

fun allocate_fields :: "arena_field_layout list \<Rightarrow> state_layers \<Rightarrow> status + state_layers" where
  "allocate_fields [] sl = Inr sl"
| "allocate_fields (f # fs) sl =
     (case allocate_field f sl of Inl e \<Rightarrow> Inl e | Inr sl' \<Rightarrow> allocate_fields fs sl')"

definition layers_allocate ::
  "bool \<Rightarrow> bool \<Rightarrow> nat list \<Rightarrow> arena_layout \<Rightarrow> u64 \<Rightarrow> (status + state_layers) \<times> u64" where
  "layers_allocate mem mem' blocks layout next_id =
     (case storage_allocate mem blocks layout next_id of
        (Inl e, next') \<Rightarrow> (Inl e, next')
      | (Inr st, next') \<Rightarrow>
          let n = length (lay_fields layout) in
          (case checked_multiply (of_nat n) 3 of
             None \<Rightarrow> Inl (failed Invalid_plan 4)
           | Some revision_count \<Rightarrow>
               if \<not> mem' then Inl (failed Allocation_failure 0)
               else case allocate_fields (lay_fields layout)
                 (empty_layers\<lparr>sl_storage := st, sl_field_count := n,
                   sl_revisions := replicate (unat revision_count) 0,
                   sl_state_fields := replicate n False\<rparr>) of
                 Inl e \<Rightarrow> Inl e
               | Inr candidate \<Rightarrow>
                   if \<not> (\<exists>f \<in> set (lay_fields layout). al_lifetime f = State_layer)
                   then Inl (failed Invalid_plan 1) else Inr candidate, next'))"

definition layers_move :: "state_layers \<Rightarrow> state_layers \<times> state_layers" where
  "layers_move other =
     (let (st, st_left) = storage_move (sl_storage other) in
      (other\<lparr>sl_storage := st\<rparr>, empty_layers\<lparr>sl_storage := st_left\<rparr>))"

definition layers_move_assign :: "state_layers \<Rightarrow> state_layers \<Rightarrow> state_layers \<times> state_layers" where
  "layers_move_assign self other =
     (let (st, st_left) = storage_move_assign (sl_storage self) (sl_storage other) in
      (other\<lparr>sl_storage := st\<rparr>, empty_layers\<lparr>sl_storage := st_left\<rparr>))"

section \<open>Roles, revisions and views\<close>

definition layers_handle :: "state_layers \<Rightarrow> state_role \<Rightarrow> nat" where
  "layers_handle sl role =
     (let slot = role_slot role in if slot < 3 then sl_handles sl ! slot else 3)"

definition layers_revision :: "state_layers \<Rightarrow> state_role \<Rightarrow> field_id \<Rightarrow> revision_token" where
  "layers_revision sl role f =
     (let i = unat f; replica = layers_handle sl role in
      if i \<ge> sl_field_count sl \<or> i \<ge> length (sl_state_fields sl) \<or> \<not> sl_state_fields sl ! i \<or>
         replica \<ge> 3
      then 0 else sl_revisions sl ! slot_of sl replica i)"

definition layers_state_revision :: "state_layers \<Rightarrow> state_role \<Rightarrow> revision_token" where
  "layers_state_revision sl role =
     (let replica = layers_handle sl role in
      if replica < 3 then sl_state_revisions sl ! replica else 0)"

definition layers_view :: "state_layers \<Rightarrow> state_role \<Rightarrow> field_id \<Rightarrow> status + field_view" where
  "layers_view sl role f =
     (let token = layers_revision sl role f in
      if token = 0 then Inl (failed Invalid_plan 6)
      else storage_view (sl_storage sl) f (of_nat (layers_handle sl role)) token
             (st_identity (sl_storage sl)))"

definition layers_checked_ptr ::
  "state_layers \<Rightarrow> state_role \<Rightarrow> field_view \<Rightarrow> int3 \<Rightarrow> u8 \<Rightarrow> pointer" where
  "layers_checked_ptr sl role view index component =
     storage_checked_ptr (sl_storage sl) view index component
       (layers_revision sl role (fv_field view)) (st_identity (sl_storage sl))"

text \<open>Runtime fields, of one replica.\<close>

definition runtime_unusable :: "state_layers \<Rightarrow> field_lifetime \<Rightarrow> field_id \<Rightarrow> bool" where
  "runtime_unusable sl lifetime f \<longleftrightarrow>
     lifetime = State_layer \<or>
     (case storage_field_layout (sl_storage sl) f of
        None \<Rightarrow> True | Some l \<Rightarrow> al_lifetime l \<noteq> lifetime \<or> al_replicas l \<noteq> 1) \<or>
     unat f \<ge> sl_field_count sl \<or> unat f \<ge> length (sl_revisions sl)"

definition runtime_revision :: "state_layers \<Rightarrow> field_lifetime \<Rightarrow> field_id \<Rightarrow> revision_token" where
  "runtime_revision sl lifetime f =
     (if runtime_unusable sl lifetime f then 0 else sl_revisions sl ! unat f)"

definition revise_runtime ::
  "field_lifetime \<Rightarrow> field_id \<Rightarrow> state_layers \<Rightarrow> status \<times> state_layers" where
  "revise_runtime lifetime f sl =
     (if runtime_unusable sl lifetime f \<or> unat f \<ge> length (sl_state_fields sl) \<or>
         sl_state_fields sl ! unat f \<or> sl_next sl = 0 \<or> sl_next sl = u64_max
      then (failed Invalid_plan 7, sl)
      else (status_ok, sl\<lparr>sl_revisions := (sl_revisions sl)[unat f := sl_next sl],
                          sl_next := sl_next sl + 1\<rparr>))"

definition runtime_view :: "state_layers \<Rightarrow> field_lifetime \<Rightarrow> field_id \<Rightarrow> status + field_view" where
  "runtime_view sl lifetime f =
     (let token = runtime_revision sl lifetime f in
      if token = 0 then Inl (failed Invalid_plan 6)
      else storage_view (sl_storage sl) f 0 token (st_identity (sl_storage sl)))"

definition issue_revision :: "nat \<Rightarrow> field_id \<Rightarrow> state_layers \<Rightarrow> status \<times> state_layers" where
  "issue_revision replica f sl =
     (let i = unat f in
      if replica \<ge> 3 \<or> i \<ge> sl_field_count sl \<or> \<not> sl_state_fields sl ! i \<or> sl_next sl = 0 \<or>
         sl_next sl = u64_max
      then (failed Invalid_plan 7, sl)
      else (status_ok,
        sl\<lparr>sl_revisions := (sl_revisions sl)[slot_of sl replica i := sl_next sl],
           sl_state_revisions := (sl_state_revisions sl)[replica := sl_next sl],
           sl_next := sl_next sl + 1\<rparr>))"

definition rotate_commit :: "state_layers \<Rightarrow> state_layers" where
  "rotate_commit sl =
     (let old_previous = sl_handles sl ! 1; h1 = (sl_handles sl)[1 := sl_handles sl ! 0];
          h2 = h1[0 := h1 ! 2] in
      sl\<lparr>sl_handles := h2[2 := old_previous]\<rparr>)"


section \<open>Well-formed layers\<close>

definition storage_ids :: "field_storage \<Rightarrow> bool" where
  "storage_ids st \<longleftrightarrow> (\<forall>k < length (st_fields st). unat (al_id (st_fields st ! k)) = k)"

definition handles_wf :: "nat list \<Rightarrow> bool" where
  "handles_wf hs \<longleftrightarrow> length hs = 3 \<and> set hs = {0, 1, 2}"

definition tokens_below :: "revision_token \<Rightarrow> revision_token list \<Rightarrow> bool" where
  "tokens_below n ts \<longleftrightarrow> (\<forall>t \<in> set ts. unat t < unat n)"

definition tokens_distinct :: "revision_token list \<Rightarrow> bool" where
  "tokens_distinct ts \<longleftrightarrow>
     (\<forall>j < length ts. \<forall>k < length ts. j \<noteq> k \<longrightarrow> ts ! j = ts ! k \<longrightarrow> ts ! j = 0)"

definition shape_wf :: "state_layers \<Rightarrow> bool" where
  "shape_wf sl \<longleftrightarrow>
     storage_ids (sl_storage sl) \<and> length (st_fields (sl_storage sl)) = sl_field_count sl \<and>
     length (sl_state_fields sl) = sl_field_count sl \<and>
     length (sl_revisions sl) = 3 * sl_field_count sl \<and> length (sl_state_revisions sl) = 3 \<and>
     handles_wf (sl_handles sl)"

definition layers_wf :: "state_layers \<Rightarrow> bool" where
  "layers_wf sl \<longleftrightarrow> shape_wf sl \<and> sl_next sl \<noteq> 0 \<and> tokens_below (sl_next sl) (sl_revisions sl) \<and>
     tokens_below (sl_next sl) (sl_state_revisions sl) \<and> tokens_distinct (sl_revisions sl)"

lemma tokens_below_update:
  "tokens_below n ts \<Longrightarrow> n \<noteq> u64_max \<Longrightarrow> tokens_below (n + 1) (ts[k := n])"
  unfolding tokens_below_def
  by (auto simp: unat_succ dest!: set_update_subset_insert [THEN subsetD] intro: less_SucI)

lemma tokens_below_succ: "tokens_below n ts \<Longrightarrow> n \<noteq> u64_max \<Longrightarrow> tokens_below (n + 1) ts"
  by (auto simp: tokens_below_def unat_succ intro: less_SucI)

lemma tokens_below_nth: "tokens_below n ts \<Longrightarrow> k < length ts \<Longrightarrow> ts ! k \<noteq> n"
  by (auto simp: tokens_below_def)

lemma tokens_distinct_update:
  "tokens_distinct ts \<Longrightarrow> tokens_below n ts \<Longrightarrow> tokens_distinct (ts[k := n])"
proof (cases "k < length ts")
  case True
  assume "tokens_distinct ts" "tokens_below n ts"
  with True show ?thesis
    unfolding tokens_distinct_def
    by (auto simp: nth_list_update dest: tokens_below_nth split: if_splits)
qed (simp add: list_update_beyond)

lemma handles_bound: "handles_wf hs \<Longrightarrow> k < 3 \<Longrightarrow> hs ! k < 3"
  using nth_mem [of k hs] by (auto simp: handles_wf_def)

lemma handles_distinct: "handles_wf hs \<Longrightarrow> distinct hs"
  by (auto simp: handles_wf_def intro: card_distinct)

lemma handle_bound: "shape_wf sl \<Longrightarrow> role_slot role < 3 \<Longrightarrow> layers_handle sl role < 3"
  by (auto simp: layers_handle_def shape_wf_def handles_bound)

lemma handle_inject:
  "shape_wf sl \<Longrightarrow> role_slot r < 3 \<Longrightarrow> role_slot r' < 3 \<Longrightarrow>
   layers_handle sl r = layers_handle sl r' \<longleftrightarrow> role_slot r = role_slot r'"
  by (auto simp: layers_handle_def shape_wf_def handles_wf_def nth_eq_iff_index_eq handles_distinct)

lemma slot_bound:
  "replica < 3 \<Longrightarrow> i < sl_field_count sl \<Longrightarrow> slot_of sl replica i < 3 * sl_field_count sl"
proof -
  assume "replica < 3" "i < sl_field_count sl"
  then have "replica * sl_field_count sl + i < Suc replica * sl_field_count sl" by simp
  also have "\<dots> \<le> 3 * sl_field_count sl" using \<open>replica < 3\<close> by (intro mult_le_mono1) simp
  finally show ?thesis by (simp add: slot_of_def)
qed

lemma slot_inject:
  "i < sl_field_count sl \<Longrightarrow> j < sl_field_count sl \<Longrightarrow>
   slot_of sl r i = slot_of sl r' j \<longleftrightarrow> r = r' \<and> i = j"
  using radix_unique [of i "sl_field_count sl" j r r'] by (auto simp: slot_of_def add.commute)

lemma layers_wf_grant:
  assumes "layers_wf sl" "sl_next sl \<noteq> u64_max"
  shows "layers_wf (sl\<lparr>sl_revisions := (sl_revisions sl)[k := sl_next sl], sl_next := sl_next sl + 1\<rparr>)"
    and "layers_wf (sl\<lparr>sl_revisions := (sl_revisions sl)[k := sl_next sl],
      sl_state_revisions := (sl_state_revisions sl)[r := sl_next sl], sl_next := sl_next sl + 1\<rparr>)"
  using assms by (auto simp: layers_wf_def shape_wf_def tokens_below_update tokens_below_succ
      tokens_distinct_update succ_nonzero)

lemma issue_revision_wf: "layers_wf sl \<Longrightarrow> layers_wf (snd (issue_revision r f sl))"
  by (simp add: issue_revision_def Let_def layers_wf_grant)

lemma revise_runtime_wf: "layers_wf sl \<Longrightarrow> layers_wf (snd (revise_runtime l f sl))"
  by (simp add: revise_runtime_def layers_wf_grant)

lemma handles_three: "handles_wf hs \<Longrightarrow> hs = [hs ! 0, hs ! 1, hs ! 2]"
  by (auto simp: handles_wf_def numeral_3_eq_3 length_Suc_conv)

lemma rotate_handles:
  assumes "handles_wf (sl_handles sl)"
  shows "sl_handles (rotate_commit sl) = [sl_handles sl ! 2, sl_handles sl ! 0, sl_handles sl ! 1]"
proof -
  from assms obtain a b c where "sl_handles sl = [a, b, c]"
    by (auto simp: handles_wf_def numeral_3_eq_3 length_Suc_conv)
  then show ?thesis by (simp add: rotate_commit_def Let_def)
qed

lemma rotate_wf: "layers_wf sl \<Longrightarrow> layers_wf (rotate_commit sl)"
proof -
  assume wf: "layers_wf sl"
  then have h: "handles_wf (sl_handles sl)" by (simp add: layers_wf_def shape_wf_def)
  from handles_three [OF h] have "handles_wf (sl_handles (rotate_commit sl))"
    using h unfolding rotate_handles [OF h] handles_wf_def
    by (metis insert_commute length_Cons list.set(1,2) list.size(3) numeral_3_eq_3)
  with wf show ?thesis by (simp add: layers_wf_def shape_wf_def rotate_commit_def Let_def)
qed


section \<open>Allocated layers\<close>

lemma issue_initial_wf:
  assumes "layers_wf sl" "unat (sl_next sl) + Suc k < 2 ^ 64"
  shows "layers_wf (issue_initial i r sl) \<and>
    unat (sl_next (issue_initial i r sl)) + k < 2 ^ 64 \<and>
    unat (sl_next (issue_initial i r sl)) = Suc (unat (sl_next sl))"
proof -
  have "sl_next sl \<noteq> u64_max" using assms(2) by auto
  with assms show ?thesis by (simp add: issue_initial_def layers_wf_grant unat_succ)
qed

lemma allocate_field_wf:
  assumes "allocate_field f sl = Inr sl'" "layers_wf sl" "unat (sl_next sl) + (k + 3) < 2 ^ 64"
  shows "layers_wf sl' \<and> unat (sl_next sl') + k < 2 ^ 64"
proof (cases "al_lifetime f = State_layer")
  case True
  let ?i = "unat (al_id f)" and ?s0 = "sl\<lparr>sl_state_fields := (sl_state_fields sl)[unat (al_id f) := True]\<rparr>"
  have w0: "layers_wf ?s0" using assms(2) by (simp add: layers_wf_def shape_wf_def)
  have "unat (sl_next ?s0) + Suc (Suc (Suc k)) < 2 ^ 64" using assms(3) by simp
  note w1 = issue_initial_wf [OF w0 this, of ?i 0]
  note w2 = issue_initial_wf [OF conjunct1 [OF w1] conjunct1 [OF conjunct2 [OF w1]], of ?i 1]
  note w3 = issue_initial_wf [OF conjunct1 [OF w2] conjunct1 [OF conjunct2 [OF w2]], of ?i 2]
  have "sl' = issue_initial ?i 2 (issue_initial ?i 1 (issue_initial ?i 0 ?s0))"
    using assms(1) True by (simp add: allocate_field_def Let_def split: if_splits)
  with w3 show ?thesis by simp
next
  case False
  with assms(1) have "sl_next sl \<noteq> u64_max"
      "sl' = sl\<lparr>sl_revisions := (sl_revisions sl)[unat (al_id f) := sl_next sl], sl_next := sl_next sl + 1\<rparr>"
    by (auto simp: allocate_field_def Let_def split: if_splits)
  with assms(2,3) show ?thesis by (simp add: layers_wf_grant unat_succ)
qed

lemma allocate_fields_wf:
  "allocate_fields fs sl = Inr sl' \<Longrightarrow> layers_wf sl \<Longrightarrow> unat (sl_next sl) + 3 * length fs < 2 ^ 64 \<Longrightarrow>
   layers_wf sl'"
proof (induction fs arbitrary: sl)
  case (Cons f fs)
  then obtain sl1 where s1: "allocate_field f sl = Inr sl1" "allocate_fields fs sl1 = Inr sl'"
    by (auto split: sum.splits)
  from Cons.prems(3) have "unat (sl_next sl) + (3 * length fs + 3) < 2 ^ 64" by simp
  from allocate_field_wf [OF s1(1) Cons.prems(2) this] show ?case using Cons.IH [OF s1(2)] by simp
qed simp

lemma allocate_fields_same:
  "allocate_fields fs sl = Inr sl' \<Longrightarrow>
   sl_storage sl' = sl_storage sl \<and> sl_handles sl' = sl_handles sl \<and>
   sl_field_count sl' = sl_field_count sl"
proof (induction fs arbitrary: sl)
  case (Cons f fs)
  then obtain sl1 where s1: "allocate_field f sl = Inr sl1" "allocate_fields fs sl1 = Inr sl'"
    by (auto split: sum.splits)
  have "sl_storage sl1 = sl_storage sl \<and> sl_handles sl1 = sl_handles sl \<and>
      sl_field_count sl1 = sl_field_count sl"
    using s1(1) by (auto simp: allocate_field_def issue_initial_def Let_def split: if_splits)
  with Cons.IH [OF s1(2)] show ?case by simp
qed simp

lemma layers_allocate_InrD:
  assumes "layers_allocate mem mem' blocks lay next_id = (Inr sl, next')"
  obtains st rc where "storage_allocate mem blocks lay next_id = (Inr st, next')"
    "checked_multiply (of_nat (length (lay_fields lay))) 3 = Some rc"
    "allocate_fields (lay_fields lay) (empty_layers\<lparr>sl_storage := st,
       sl_field_count := length (lay_fields lay), sl_revisions := replicate (unat rc) 0,
       sl_state_fields := replicate (length (lay_fields lay)) False\<rparr>) = Inr sl"
  using assms that
  by (auto simp: layers_allocate_def Let_def split: sum.splits prod.splits option.splits if_splits)

lemma compiled_fields:
  assumes "compile_layout mem schema requests = Inr lay"
    and "\<forall>rq \<in> set (span_list requests). int32_request rq"
  shows "length (lay_fields lay) \<le> 65536" and "\<forall>k < length (lay_fields lay). unat (al_id (lay_fields lay ! k)) = k"
proof -
  note inv = compiled_layout [OF assms]
  note c = compile_layout_InrD [OF assms(1)]
  have len: "length (lay_fields lay) = length schema" using inv by (simp add: layout_inv_def)
  have "distinct (map rq_id (span_list requests))" using c(2) by (simp add: check_requests_iff)
  from distinct_card [OF this] have "length (span_list requests) = card (set (map rq_id (span_list requests)))"
    by simp
  also have "\<dots> \<le> card (UNIV :: field_id set)" by (intro card_mono) simp_all
  finally show "length (lay_fields lay) \<le> 65536" using c(1) len by (simp add: card_word)
  show "\<forall>k < length (lay_fields lay). unat (al_id (lay_fields lay ! k)) = k"
  proof (intro allI impI)
    fix k assume "k < length (lay_fields lay)"
    with inv len obtain rq where rq: "rq \<in> set (span_list requests)" "unat (rq_id rq) = k" by metis
    with inv have "placed (schema ! k) rq (at_request (lay_fields lay) rq)" unfolding layout_inv_def by blast
    with rq(2) show "unat (al_id (lay_fields lay ! k)) = k" by (simp add: placed_def)
  qed
qed

lemma allocated_layers:
  assumes "compile_layout mem0 schema requests = Inr lay"
    and "\<forall>rq \<in> set (span_list requests). int32_request rq"
    and "layers_allocate mem mem' blocks lay next_id = (Inr sl, next')"
  shows "layers_wf sl \<and> backs lay (sl_storage sl)"
proof -
  from assms(3) obtain st rc where a: "storage_allocate mem blocks lay next_id = (Inr st, next')"
    "checked_multiply (of_nat (length (lay_fields lay))) 3 = Some rc"
    "allocate_fields (lay_fields lay) (empty_layers\<lparr>sl_storage := st,
       sl_field_count := length (lay_fields lay), sl_revisions := replicate (unat rc) 0,
       sl_state_fields := replicate (length (lay_fields lay)) False\<rparr>) = Inr sl"
    by (rule layers_allocate_InrD)
  let ?n = "length (lay_fields lay)"
  note b = storage_allocate_backs [OF a(1)] and f = compiled_fields [OF assms(1,2)]
  have n: "unat (of_nat ?n :: u64) = ?n" using f(1) by (simp add: unat_of_nat)
  have "unat rc = ?n * 3" using checked_multiply_SomeD [OF a(2)] n by simp
  with b f have "layers_wf (empty_layers\<lparr>sl_storage := st, sl_field_count := ?n,
      sl_revisions := replicate (unat rc) 0, sl_state_fields := replicate ?n False\<rparr>)"
    by (auto simp: layers_wf_def shape_wf_def empty_layers_def backs_def storage_ids_def handles_wf_def
        tokens_below_def tokens_distinct_def)
  from allocate_fields_wf [OF a(3) this] f(1) have "layers_wf sl" by (simp add: empty_layers_def)
  with b allocate_fields_same [OF a(3)] show ?thesis by simp
qed


section \<open>Grants as a token clock\<close>

datatype layers_op =
    Revise_state nat field_id
  | Revise_runtime field_lifetime field_id
  | Rotate

fun layers_apply :: "layers_op \<Rightarrow> state_layers \<Rightarrow> status \<times> state_layers" where
  "layers_apply (Revise_state replica f) sl = issue_revision replica f sl"
| "layers_apply (Revise_runtime l f) sl = revise_runtime l f sl"
| "layers_apply Rotate sl = (status_ok, rotate_commit sl)"

definition layers_run :: "layers_op list \<Rightarrow> state_layers \<Rightarrow> state_layers" where
  "layers_run ops sl = fold (\<lambda>op s. snd (layers_apply op s)) ops sl"

text \<open>A write grant: the token a successful revision stores.\<close>

definition grant :: "field_lifetime option \<times> nat \<times> field_id \<Rightarrow> state_layers \<Rightarrow> (u64 \<times> state_layers) option" where
  "grant a sl =
     (case a of (l, replica, f) \<Rightarrow>
       let (s, sl') = (case l of None \<Rightarrow> issue_revision replica f sl | Some l \<Rightarrow> revise_runtime l f sl) in
       if is_ok s then Some (sl_next sl, sl') else None)"

lemma grant_SomeD:
  "grant a sl = Some (t, sl') \<Longrightarrow>
   t = sl_next sl \<and> sl_next sl' = sl_next sl + 1 \<and> sl_next sl \<noteq> 0 \<and> sl_next sl \<noteq> u64_max"
  by (auto simp: grant_def issue_revision_def revise_runtime_def Let_def is_ok_def failed_def
      split: prod.splits option.splits if_splits)

interpretation grants: token_clock grant "\<lambda>sl. unat (sl_next sl)" "\<lambda>sl. sl_next sl \<noteq> 0"
  by unfold_locales (auto dest!: grant_SomeD simp: unat_succ succ_nonzero unat_gt_0)

section \<open>Freshness and staleness\<close>

lemma layers_apply_wf: "layers_wf sl \<Longrightarrow> layers_wf (snd (layers_apply op sl))"
  by (cases op) (simp_all add: issue_revision_wf revise_runtime_wf rotate_wf)

lemma layers_run_wf: "layers_wf sl \<Longrightarrow> layers_wf (layers_run ops sl)"
  unfolding layers_run_def by (induction ops arbitrary: sl) (simp_all add: layers_apply_wf)

lemma layers_apply_storage: "sl_storage (snd (layers_apply op sl)) = sl_storage sl"
  by (cases op) (auto simp: issue_revision_def revise_runtime_def rotate_commit_def Let_def)

lemma layers_run_storage: "sl_storage (layers_run ops sl) = sl_storage sl"
  unfolding layers_run_def by (induction ops arbitrary: sl) (simp_all add: layers_apply_storage)

lemma storage_view_InrD:
  "storage_view st f r t dm = Inr v \<Longrightarrow>
   \<exists>l. storage_field_layout st f = Some l \<and> fv_field v = al_id l \<and> fv_replica v = r \<and>
       fv_revision v = t \<and> r < al_replicas l"
  by (auto simp: storage_view_def make_view_def split: option.splits if_splits)

lemma layers_view_InrD:
  assumes "shape_wf sl" "layers_view sl role f = Inr v"
  shows "fv_field v = f" "fv_replica v = of_nat (layers_handle sl role)"
    "fv_revision v = layers_revision sl role f" "layers_revision sl role f \<noteq> 0" "role_slot role < 3"
    "unat f < sl_field_count sl" "sl_state_fields sl ! unat f"
proof -
  from assms(2) have nz: "layers_revision sl role f \<noteq> 0"
    and v: "storage_view (sl_storage sl) f (of_nat (layers_handle sl role)) (layers_revision sl role f)
      (st_identity (sl_storage sl)) = Inr v"
    by (auto simp: layers_view_def Let_def split: if_splits)
  from storage_view_InrD [OF v] obtain l where l: "storage_field_layout (sl_storage sl) f = Some l"
    "fv_field v = al_id l" by auto
  with assms(1) have "unat (al_id l) = unat f"
    by (auto simp: storage_field_layout_def shape_wf_def storage_ids_def split: if_splits)
  with l show "fv_field v = f" by (simp add: unat_inject)
  from storage_view_InrD [OF v] show "fv_replica v = of_nat (layers_handle sl role)"
    "fv_revision v = layers_revision sl role f" by auto
  show "layers_revision sl role f \<noteq> 0" by (rule nz)
  from nz show "unat f < sl_field_count sl" "sl_state_fields sl ! unat f"
    by (auto simp: layers_revision_def Let_def split: if_splits)
  from nz show "role_slot role < 3"
    by (auto simp: layers_revision_def layers_handle_def Let_def split: if_splits)
qed

lemma checked_ptr_revision:
  "storage_checked_ptr st v i c rv dm = Some a \<Longrightarrow> fv_revision v = rv"
  by (auto simp: storage_checked_ptr_def split: option.splits if_splits)

lemma layers_revision_slot:
  assumes "shape_wf sl" "role_slot role < 3" "unat f < sl_field_count sl" "sl_state_fields sl ! unat f"
  shows "layers_revision sl role f = sl_revisions sl ! slot_of sl (layers_handle sl role) (unat f)"
  using assms handle_bound [OF assms(1,2)] by (auto simp: layers_revision_def shape_wf_def Let_def)

lemma issue_revision_revisions:
  assumes "shape_wf sl" "issue_revision r f sl = (s, sl')" "is_ok s"
  shows "layers_revision sl' role g =
    (if layers_handle sl role = r \<and> g = f \<and> role_slot role < 3 then sl_next sl else layers_revision sl role g)"
proof -
  from assms(2,3) have r: "r < 3" "unat f < sl_field_count sl" "sl_state_fields sl ! unat f"
    and sl': "sl' = sl\<lparr>sl_revisions := (sl_revisions sl)[slot_of sl r (unat f) := sl_next sl],
       sl_state_revisions := (sl_state_revisions sl)[r := sl_next sl], sl_next := sl_next sl + 1\<rparr>"
    by (auto simp: issue_revision_def Let_def is_ok_def failed_def split: if_splits)
  have h: "layers_handle sl' role = layers_handle sl role" by (simp add: sl' layers_handle_def Let_def)
  have len: "length (sl_revisions sl) = 3 * sl_field_count sl" "length (sl_state_fields sl) = sl_field_count sl"
    using assms(1) by (simp_all add: shape_wf_def)
  have b: "slot_of sl r (unat f) < length (sl_revisions sl)" unfolding len by (rule slot_bound [OF r(1,2)])
  show ?thesis
  proof (cases "unat g < sl_field_count sl \<and> sl_state_fields sl ! unat g \<and> layers_handle sl role < 3")
    case True
    then have "layers_revision sl' role g
        = (sl_revisions sl)[slot_of sl r (unat f) := sl_next sl] ! slot_of sl (layers_handle sl role) (unat g)"
      using len by (simp add: layers_revision_def Let_def h) (simp add: sl' slot_of_def)
    moreover have "role_slot role < 3" using True by (auto simp: layers_handle_def Let_def split: if_splits)
    moreover have "layers_revision sl role g
        = sl_revisions sl ! slot_of sl (layers_handle sl role) (unat g)"
      using True \<open>role_slot role < 3\<close> by (intro layers_revision_slot [OF assms(1)]) simp_all
    ultimately show ?thesis
      using True slot_inject [of "unat f" sl "unat g" r "layers_handle sl role"] r(2)
      by (simp add: nth_list_update [OF b] unat_inject)
  next
    case False
    have f': "sl_state_fields sl' = sl_state_fields sl" "sl_field_count sl' = sl_field_count sl"
      by (simp_all add: sl')
    from False have "layers_revision sl role g = 0" "layers_revision sl' role g = 0"
      unfolding layers_revision_def h f' Let_def by auto
    moreover have "\<not> (layers_handle sl role = r \<and> g = f)" using False r by blast
    ultimately show ?thesis by auto
  qed
qed


lemma revision_below:
  assumes "layers_wf sl"
  shows "layers_revision sl role f \<noteq> sl_next sl"
proof (cases "layers_revision sl role f = 0")
  case True
  with assms show ?thesis by (simp add: layers_wf_def)
next
  case False
  then have r: "role_slot role < 3" "unat f < sl_field_count sl" "sl_state_fields sl ! unat f"
    by (auto simp: layers_revision_def layers_handle_def Let_def split: if_splits)
  have sh: "shape_wf sl" using assms by (simp add: layers_wf_def)
  note slot = slot_bound [OF handle_bound [OF sh r(1)] r(2)]
  with assms show ?thesis unfolding layers_revision_slot [OF sh r]
    by (intro tokens_below_nth) (simp_all add: layers_wf_def shape_wf_def)
qed

lemma revision_inject:
  assumes wf: "layers_wf sl" and eq: "layers_revision sl r f = layers_revision sl r' g"
    and nz: "layers_revision sl r f \<noteq> 0"
  shows "layers_handle sl r = layers_handle sl r' \<and> f = g"
proof -
  have sh: "shape_wf sl" using wf by (simp add: layers_wf_def)
  have in_range: "role_slot q < 3 \<and> unat h < sl_field_count sl \<and> sl_state_fields sl ! unat h"
    if "layers_revision sl q h \<noteq> 0" for q h
    using that by (auto simp: layers_revision_def layers_handle_def Let_def split: if_splits)
  from in_range [OF nz] have a: "role_slot r < 3" "unat f < sl_field_count sl" "sl_state_fields sl ! unat f"
    by auto
  from in_range [of r' g] nz eq have b: "role_slot r' < 3" "unat g < sl_field_count sl"
    "sl_state_fields sl ! unat g" by auto
  let ?j = "slot_of sl (layers_handle sl r) (unat f)" and ?k = "slot_of sl (layers_handle sl r') (unat g)"
  have "?j < length (sl_revisions sl)" "?k < length (sl_revisions sl)"
    using slot_bound [OF handle_bound [OF sh a(1)] a(2)] slot_bound [OF handle_bound [OF sh b(1)] b(2)] sh
    by (simp_all add: shape_wf_def)
  moreover have "tokens_distinct (sl_revisions sl)" using wf by (simp add: layers_wf_def)
  ultimately have "?j = ?k" using eq nz unfolding layers_revision_slot [OF sh a] layers_revision_slot [OF sh b]
    by (auto simp: tokens_distinct_def)
  with slot_inject [OF a(2) b(2)] show ?thesis by (simp add: unat_inject)
qed

section \<open>Properties\<close>

text \<open>
  Layers allocated from a compiled arena are well-formed after any sequence of revisions, of any
  outcome, and commits: the handles are a permutation of the three replicas, every table has its
  length, and the live tokens are pairwise distinct, non-zero where set and below the counter.
\<close>

theorem state_layers_invariant:
  assumes "compile_layout mem0 schema requests = Inr lay"
    and "\<forall>rq \<in> set (span_list requests). int32_request rq"
    and "layers_allocate mem mem' blocks lay next_id = (Inr sl, next')"
  shows "layers_wf (layers_run ops sl) \<and> sl_storage (layers_run ops sl) = sl_storage sl"
  using allocated_layers [OF assms] by (simp add: layers_run_wf layers_run_storage)

definition example_layers :: state_layers where
  "example_layers =
     \<lparr>sl_storage = example_storage, sl_revisions = [1, 2, 0, 3, 0, 4], sl_state_revisions = [2, 3, 4],
       sl_state_fields = [False, True], sl_field_count = 2, sl_handles = [0, 1, 2], sl_next = 5\<rparr>"

lemma example_layers_allocated:
  "layers_allocate True True [1000] example_layout 5 = (Inr example_layers, 6)"
  by code_simp

lemma example_layers_wf: "layers_wf example_layers"
  using allocated_layers [OF example_layout_compiled example_requests_int32 example_layers_allocated]
  by blast

theorem state_layers_invariant_witness:
  "layers_wf (layers_run [Revise_state 2 1, Revise_runtime Step_scratch 0, Rotate] example_layers)"
  using state_layers_invariant [OF example_layout_compiled example_requests_int32
      example_layers_allocated] by blast

text \<open>
  C18. A write grant makes exactly the views of its replica and field stale: after a successful
  revision no role accepts a view granted before for that replica and field, and a view granted for
  any other replica or field is accepted or refused as before.
\<close>

theorem revision_makes_stale:
  assumes "layers_wf sl" and "issue_revision (layers_handle sl role) f sl = (s, sl')" "is_ok s"
    and "layers_view sl role' g = Inr v"
  shows "(layers_handle sl role' = layers_handle sl role \<and> g = f \<longrightarrow>
      layers_checked_ptr sl' any v i c = None) \<and>
    (layers_handle sl role' \<noteq> layers_handle sl role \<or> g \<noteq> f \<longrightarrow>
      layers_checked_ptr sl' role' v i c = layers_checked_ptr sl role' v i c)"
proof -
  have sh: "shape_wf sl" using assms(1) by (simp add: layers_wf_def)
  note v = layers_view_InrD [OF sh assms(4)]
  note rev = issue_revision_revisions [OF sh assms(2,3)]
  have st: "sl_storage sl' = sl_storage sl"
    using layers_apply_storage [of "Revise_state (layers_handle sl role) f" sl] assms(2) by simp
  have "layers_checked_ptr sl' any v i c = None"
    if same: "layers_handle sl role' = layers_handle sl role" "g = f"
  proof (rule ccontr)
    assume "layers_checked_ptr sl' any v i c \<noteq> None"
    then obtain a where "layers_checked_ptr sl' any v i c = Some a" by blast
    then have eq: "layers_revision sl' any g = layers_revision sl role' g"
      using checked_ptr_revision v(1,3) by (fastforce simp: layers_checked_ptr_def)
    show False
    proof (cases "layers_handle sl any = layers_handle sl role \<and> role_slot any < 3")
      case True
      with rev [of any g] same eq revision_below [OF assms(1)] show False by metis
    next
      case False
      with rev [of any g] same eq have eq': "layers_revision sl role' g = layers_revision sl any g"
        by (simp split: if_splits)
      from revision_inject [OF assms(1) eq' v(4)] same False eq' v(4) show False
        by (auto simp: layers_revision_def layers_handle_def Let_def split: if_splits)
    qed
  qed
  moreover have "layers_checked_ptr sl' role' v i c = layers_checked_ptr sl role' v i c"
    if "layers_handle sl role' \<noteq> layers_handle sl role \<or> g \<noteq> f"
    using that v(1) rev [of role' g] st by (auto simp: layers_checked_ptr_def)
  ultimately show ?thesis by blast
qed

definition example_trial :: field_view where
  "example_trial = (case layers_view example_layers Trial 1 of Inr v \<Rightarrow> v | Inl e \<Rightarrow> example_view)"

lemma example_trial_granted: "layers_view example_layers Trial 1 = Inr example_trial"
  by code_simp

lemma example_revision:
  "issue_revision (layers_handle example_layers Trial) 1 example_layers =
    (status_ok, snd (layers_apply (Revise_state 2 1) example_layers))" "is_ok status_ok"
  by code_simp+

theorem revision_makes_stale_witness:
  "layers_checked_ptr (snd (layers_apply (Revise_state 2 1) example_layers)) Trial example_trial
    \<lparr>x3 = 0, y3 = 0, z3 = 0\<rparr> 0 = None"
  using revision_makes_stale [OF example_layers_wf example_revision example_trial_granted] by blast

text \<open>
  A commit renames and copies nothing: the trial state becomes accepted n, accepted n becomes
  accepted n-1, and the old n-1 replica becomes the next trial, with the same views, revisions and
  storage, so that views granted under the old role are accepted under the new one.
\<close>

theorem rotate_commit_renames:
  assumes "layers_wf sl"
  shows "(\<forall>(old, new) \<in> {(Trial, Accepted_n), (Accepted_n, Accepted_n_minus_one), (Accepted_n_minus_one, Trial)}.
      (\<forall>f. layers_view (rotate_commit sl) new f = layers_view sl old f \<and>
           layers_revision (rotate_commit sl) new f = layers_revision sl old f) \<and>
      (\<forall>v i c. layers_checked_ptr (rotate_commit sl) new v i c = layers_checked_ptr sl old v i c) \<and>
      layers_state_revision (rotate_commit sl) new = layers_state_revision sl old) \<and>
    sl_storage (rotate_commit sl) = sl_storage sl"
proof -
  have h: "sl_handles (rotate_commit sl) = [sl_handles sl ! 2, sl_handles sl ! 0, sl_handles sl ! 1]"
    using assms by (intro rotate_handles) (simp add: layers_wf_def shape_wf_def)
  have same: "sl_storage (rotate_commit sl) = sl_storage sl"
    "sl_revisions (rotate_commit sl) = sl_revisions sl" "sl_field_count (rotate_commit sl) = sl_field_count sl"
    "sl_state_fields (rotate_commit sl) = sl_state_fields sl"
    "sl_state_revisions (rotate_commit sl) = sl_state_revisions sl"
    by (simp_all add: rotate_commit_def Let_def)
  have hd: "layers_handle (rotate_commit sl) Accepted_n = layers_handle sl Trial"
    "layers_handle (rotate_commit sl) Accepted_n_minus_one = layers_handle sl Accepted_n"
    "layers_handle (rotate_commit sl) Trial = layers_handle sl Accepted_n_minus_one"
    by (simp_all add: layers_handle_def h Let_def)
  then have "\<And>f. layers_revision (rotate_commit sl) Accepted_n f = layers_revision sl Trial f"
    "\<And>f. layers_revision (rotate_commit sl) Accepted_n_minus_one f = layers_revision sl Accepted_n f"
    "\<And>f. layers_revision (rotate_commit sl) Trial f = layers_revision sl Accepted_n_minus_one f"
    by (simp_all add: layers_revision_def slot_of_def same Let_def)
  with hd same show ?thesis
    by (simp add: layers_view_def layers_checked_ptr_def layers_state_revision_def Let_def)
qed


theorem rotate_commit_renames_witness:
  "layers_view (rotate_commit example_layers) Accepted_n 1 = Inr example_trial"
  using rotate_commit_renames [OF example_layers_wf] example_trial_granted by simp

text \<open>
  C17. Writing the trial state cannot touch an accepted one: pointers obtained through views of two
  different roles, of the same or of different fields, are different addresses, after any sequence
  of revisions and commits.
\<close>

theorem roles_never_alias:
  assumes "compile_layout mem0 schema requests = Inr lay"
    and "\<forall>rq \<in> set (span_list requests). int32_request rq"
    and "layers_allocate mem mem' blocks lay next_id = (Inr sl, next')"
    and "blocks_disjoint (sl_storage sl)" and "now = layers_run ops sl"
    and "layers_view now role f = Inr v" "layers_view now role' g = Inr v'"
    and "role_slot role \<noteq> role_slot role'"
    and "layers_checked_ptr now role v i c = Some a" "layers_checked_ptr now role' v' i' c' = Some a'"
  shows "a \<noteq> a'"
proof
  assume eq: "a = a'"
  note al = allocated_layers [OF assms(1-3)]
  have wf: "layers_wf now" and st: "sl_storage now = sl_storage sl"
    using al by (simp_all add: assms(5) layers_run_wf layers_run_storage)
  then have sh: "shape_wf now" by (simp add: layers_wf_def)
  note v = layers_view_InrD [OF sh assms(6)] and v' = layers_view_InrD [OF sh assms(7)]
  have "fv_replica v = fv_replica v'"
    using granted_unaliased [OF assms(1,2) conjunct2 [OF al] assms(4)] assms(9,10) eq st
    unfolding layers_checked_ptr_def by metis
  then have "(of_nat (layers_handle now role) :: u64) = of_nat (layers_handle now role')"
    using v(2) v'(2) by simp
  moreover have unat_small: "unat (of_nat n :: u64) = n" if "n < 3" for n
    using that by (simp add: unat_of_nat)
  moreover have "layers_handle now role < 3" "layers_handle now role' < 3"
    using handle_bound [OF sh v(5)] handle_bound [OF sh v'(5)] by simp_all
  ultimately have "layers_handle now role = layers_handle now role'"
    using unat_small by metis
  with assms(8) handle_inject [OF sh v(5) v'(5)] show False by simp
qed


theorem roles_never_alias_witness:
  "\<exists>v v' a a'. layers_view example_layers Trial 1 = Inr v \<and> layers_view example_layers Accepted_n 1 = Inr v' \<and>
    layers_checked_ptr example_layers Trial v \<lparr>x3 = 0, y3 = 0, z3 = 0\<rparr> 0 = Some a \<and>
    layers_checked_ptr example_layers Accepted_n v' \<lparr>x3 = 0, y3 = 0, z3 = 0\<rparr> 0 = Some a' \<and> a \<noteq> a'"
proof -
  define v' where "v' = (case layers_view example_layers Accepted_n 1 of Inr v \<Rightarrow> v | Inl e \<Rightarrow> example_view)"
  have v': "layers_view example_layers Accepted_n 1 = Inr v'" unfolding v'_def by code_simp
  have p: "layers_checked_ptr example_layers Trial example_trial \<lparr>x3 = 0, y3 = 0, z3 = 0\<rparr> 0 = Some 5616"
    by code_simp
  have p': "layers_checked_ptr example_layers Accepted_n v' \<lparr>x3 = 0, y3 = 0, z3 = 0\<rparr> 0 = Some 1584"
    unfolding v'_def by code_simp
  have d: "blocks_disjoint (sl_storage example_layers)"
    using example_blocks_disjoint by (simp add: example_layers_def)
  have n: "example_layers = layers_run [] example_layers" by (simp add: layers_run_def)
  have r: "role_slot Trial \<noteq> role_slot Accepted_n" by simp
  from roles_never_alias [OF example_layout_compiled example_requests_int32 example_layers_allocated
      d n example_trial_granted v' r p p'] v' p p' example_trial_granted
  show ?thesis by blast
qed

end
