(* ===== verification/View_Intervals.thy ===== *)
theory View_Intervals
  imports Field_Storage
begin

text \<open>
  \<^verbatim>\<open>field_view_interval_detail.hpp\<close>: the byte interval a cell or face view can touch, computed with
  checked arithmetic from the metadata of an untrusted view, and the overlap tests built on it.

  A pointer counts doubles, so \<^verbatim>\<open>reinterpret_cast<std::uintptr_t>\<close> of it is eight times its value.
  \<open>addressable\<close> is what a C++ pointer guarantees: that number fits the address space. The lemmas
  show that an accepted view addresses pairwise distinct cells inside its interval, so two views
  the test separates share no cell.
\<close>

section \<open>Intervals\<close>

record interval =
  iv_begin :: u64
  iv_end :: u64

definition interval_checked_add :: "u64 \<Rightarrow> u64 \<Rightarrow> u64 option" where
  "interval_checked_add left right = (if left > u64_max - right then None else Some (left + right))"

definition interval_checked_multiply :: "u64 \<Rightarrow> u64 \<Rightarrow> u64 option" where
  "interval_checked_multiply left right =
     (if left \<noteq> 0 \<and> right > u64_max div left then None else Some (left * right))"

definition address_bits :: "int \<Rightarrow> u64" where
  "address_bits p = word_of_int (8 * p)"

definition addressable :: "int \<Rightarrow> bool" where
  "addressable p \<longleftrightarrow> 0 \<le> p \<and> 8 * p < 2 ^ 64"

definition guard :: "bool \<Rightarrow> unit option" where
  "guard b = (if b then Some () else None)"

text \<open>The \<^verbatim>\<open>std::size_t\<close> value of a positive \<^verbatim>\<open>std::int32_t\<close>.\<close>

abbreviation extent :: "int \<Rightarrow> u64" where
  "extent i \<equiv> word_of_int i"

section \<open>Cell views\<close>

definition field_padding :: "field_view \<Rightarrow> (u64 \<times> u64 \<times> u64) option" where
  "field_padding v = do {
     tx \<leftarrow> interval_checked_multiply (extent (x3 (fv_ghosts v))) 2;
     px \<leftarrow> interval_checked_add (extent (x3 (fv_interior v))) tx;
     ty \<leftarrow> interval_checked_multiply (extent (y3 (fv_ghosts v))) 2;
     py \<leftarrow> interval_checked_add (extent (y3 (fv_interior v))) ty;
     tz \<leftarrow> interval_checked_multiply (extent (z3 (fv_ghosts v))) 2;
     pz \<leftarrow> interval_checked_add (extent (z3 (fv_interior v))) tz;
     Some (px, py, pz)
   }"

definition field_span :: "field_view \<Rightarrow> u64 \<Rightarrow> u64 \<Rightarrow> u64 \<Rightarrow> u64 option" where
  "field_span v px py pz = do {
     guard (px \<le> fv_stride_y v);
     minimum_z \<leftarrow> interval_checked_multiply (fv_stride_y v) py;
     guard (minimum_z \<le> fv_stride_z v);
     minimum_c \<leftarrow> interval_checked_multiply (fv_stride_z v) pz;
     guard (minimum_c \<le> fv_component_stride v);
     interval_checked_multiply (fv_component_stride v) (ucast (fv_components v))
   }"

definition field_prefix :: "field_view \<Rightarrow> u64 option" where
  "field_prefix v = do {
     prefix_y \<leftarrow> interval_checked_multiply (extent (y3 (fv_ghosts v))) (fv_stride_y v);
     prefix_z \<leftarrow> interval_checked_multiply (extent (z3 (fv_ghosts v))) (fv_stride_z v);
     prefix \<leftarrow> interval_checked_add (extent (x3 (fv_ghosts v))) prefix_y;
     interval_checked_add prefix prefix_z
   }"

definition field_maximum :: "field_view \<Rightarrow> (u64 \<times> u64) option" where
  "field_maximum v = do {
     last_x \<leftarrow> interval_checked_add (extent (x3 (fv_interior v))) (extent (x3 (fv_ghosts v)));
     last_y_index \<leftarrow> interval_checked_add (extent (y3 (fv_interior v))) (extent (y3 (fv_ghosts v)));
     last_z_index \<leftarrow> interval_checked_add (extent (z3 (fv_interior v))) (extent (z3 (fv_ghosts v)));
     guard (last_x \<noteq> 0 \<and> last_y_index \<noteq> 0 \<and> last_z_index \<noteq> 0);
     last_y \<leftarrow> interval_checked_multiply (last_y_index - 1) (fv_stride_y v);
     last_z \<leftarrow> interval_checked_multiply (last_z_index - 1) (fv_stride_z v);
     last_c \<leftarrow> interval_checked_multiply (ucast (fv_components v - 1)) (fv_component_stride v);
     m1 \<leftarrow> interval_checked_add (last_x - 1) last_y;
     m2 \<leftarrow> interval_checked_add m1 last_z;
     maximum \<leftarrow> interval_checked_add m2 last_c;
     end_offset \<leftarrow> interval_checked_add maximum 1;
     Some (maximum, end_offset)
   }"

definition field_storage_interval :: "field_view \<Rightarrow> interval option" where
  "field_storage_interval v =
     (case fv_base v of None \<Rightarrow> None | Some base \<Rightarrow> do {
        guard (0 < x3 (fv_interior v) \<and> 0 < y3 (fv_interior v) \<and> 0 < z3 (fv_interior v) \<and>
          0 \<le> x3 (fv_ghosts v) \<and> 0 \<le> y3 (fv_ghosts v) \<and> 0 \<le> z3 (fv_ghosts v) \<and>
          fv_components v \<noteq> 0 \<and> fv_stride_y v \<noteq> 0 \<and> fv_stride_z v \<noteq> 0 \<and> fv_component_stride v \<noteq> 0);
        (px, py, pz) \<leftarrow> field_padding v;
        storage_span \<leftarrow> field_span v px py pz;
        prefix \<leftarrow> field_prefix v;
        (maximum, end_offset) \<leftarrow> field_maximum v;
        guard (fv_stride_y v \<le> ptrdiff_max \<and> fv_stride_z v \<le> ptrdiff_max \<and>
          fv_component_stride v \<le> ptrdiff_max \<and> prefix \<le> ptrdiff_max \<and> maximum \<le> ptrdiff_max \<and>
          storage_span \<noteq> 0);
        prefix_bytes \<leftarrow> interval_checked_multiply prefix 8;
        end_bytes \<leftarrow> interval_checked_multiply end_offset 8;
        guard (prefix_bytes \<le> address_bits base \<and> end_bytes \<le> u64_max - address_bits base);
        guard (address_bits base - prefix_bytes < address_bits base + end_bytes);
        Some \<lparr>iv_begin = address_bits base - prefix_bytes, iv_end = address_bits base + end_bytes\<rparr>
      })"

section \<open>Face views\<close>

datatype cartesian_axis = Axis_x | Axis_y | Axis_z | Unnamed_axis u8

record face_view =
  ff_base :: pointer
  ff_extents :: int3
  ff_stride_y :: u64
  ff_stride_z :: u64
  ff_axis :: cartesian_axis
  ff_storage_identity :: u64
  ff_revision_domain :: u64

definition face_storage_interval :: "face_view \<Rightarrow> interval option" where
  "face_storage_interval v =
     (case ff_base v of None \<Rightarrow> None | Some base \<Rightarrow> do {
        guard (0 < x3 (ff_extents v) \<and> 0 < y3 (ff_extents v) \<and> 0 < z3 (ff_extents v) \<and>
          ff_stride_y v \<noteq> 0 \<and> ff_stride_z v \<noteq> 0);
        guard (extent (x3 (ff_extents v)) \<le> ff_stride_y v);
        minimum_z \<leftarrow> interval_checked_multiply (ff_stride_y v) (extent (y3 (ff_extents v)));
        guard (minimum_z \<le> ff_stride_z v);
        storage_span \<leftarrow> interval_checked_multiply (ff_stride_z v) (extent (z3 (ff_extents v)));
        last_y \<leftarrow> interval_checked_multiply (extent (y3 (ff_extents v)) - 1) (ff_stride_y v);
        last_z \<leftarrow> interval_checked_multiply (extent (z3 (ff_extents v)) - 1) (ff_stride_z v);
        m1 \<leftarrow> interval_checked_add (extent (x3 (ff_extents v)) - 1) last_y;
        maximum \<leftarrow> interval_checked_add m1 last_z;
        end_offset \<leftarrow> interval_checked_add maximum 1;
        guard (ff_stride_y v \<le> ptrdiff_max \<and> ff_stride_z v \<le> ptrdiff_max \<and> maximum \<le> ptrdiff_max \<and>
          storage_span \<noteq> 0);
        end_bytes \<leftarrow> interval_checked_multiply end_offset 8;
        guard (end_bytes \<le> u64_max - address_bits base);
        guard (address_bits base < address_bits base + end_bytes);
        Some \<lparr>iv_begin = address_bits base, iv_end = address_bits base + end_bytes\<rparr>
      })"

section \<open>Overlap tests\<close>

definition intervals_overlap :: "interval \<Rightarrow> interval \<Rightarrow> bool" where
  "intervals_overlap left right \<longleftrightarrow> iv_begin left < iv_end right \<and> iv_begin right < iv_end left"

definition field_views_overlap :: "field_view \<Rightarrow> field_view \<Rightarrow> bool" where
  "field_views_overlap left right =
     (case (field_storage_interval left, field_storage_interval right) of
        (Some l, Some r) \<Rightarrow> intervals_overlap l r | _ \<Rightarrow> True)"

definition cell_face_views_overlap :: "field_view \<Rightarrow> face_view \<Rightarrow> bool" where
  "cell_face_views_overlap cell face =
     (case (field_storage_interval cell, face_storage_interval face) of
        (Some l, Some r) \<Rightarrow> intervals_overlap l r | _ \<Rightarrow> True)"

definition face_views_overlap :: "face_view \<Rightarrow> face_view \<Rightarrow> bool" where
  "face_views_overlap left right =
     (case (face_storage_interval left, face_storage_interval right) of
        (Some l, Some r) \<Rightarrow> intervals_overlap l r | _ \<Rightarrow> True)"

definition field_view_overlaps_storage :: "field_view \<Rightarrow> pointer \<Rightarrow> u64 \<Rightarrow> bool" where
  "field_view_overlaps_storage v storage storage_doubles =
     (case (field_storage_interval v, storage) of
        (Some l, Some p) \<Rightarrow>
          if storage_doubles = 0 \<or> storage_doubles > u64_max div 8 then True
          else let first_byte = address_bits p; bytes = storage_doubles * 8 in
            if bytes > u64_max - first_byte then True
            else intervals_overlap l \<lparr>iv_begin = first_byte, iv_end = first_byte + bytes\<rparr>
      | _ \<Rightarrow> True)"

text \<open>The address \<^verbatim>\<open>unchecked\<close> computes.\<close>

definition view_cell :: "field_view \<Rightarrow> int3 \<Rightarrow> u8 \<Rightarrow> int" where
  "view_cell v index component =
     the (fv_base v) + (x3 index + y3 index * int (unat (fv_stride_y v))
       + z3 index * int (unat (fv_stride_z v))
       + int (unat component) * int (unat (fv_component_stride v)))"

definition face_cell :: "face_view \<Rightarrow> int3 \<Rightarrow> int" where
  "face_cell v index =
     the (ff_base v) + (x3 index + y3 index * int (unat (ff_stride_y v))
       + z3 index * int (unat (ff_stride_z v)))"


section \<open>What an accepted view guarantees\<close>

lemma interval_checked_add_same: "interval_checked_add a b = checked_add b a"
  by (simp add: interval_checked_add_def checked_add_def add.commute)

lemma interval_checked_multiply_same: "interval_checked_multiply = checked_multiply"
  by (simp add: interval_checked_multiply_def checked_multiply_def fun_eq_iff)

lemma interval_add_SomeD: "interval_checked_add a b = Some c \<Longrightarrow> unat c = unat a + unat b"
  by (simp add: interval_checked_add_same checked_add_SomeD)

lemma interval_multiply_SomeD: "interval_checked_multiply a b = Some c \<Longrightarrow> unat c = unat a * unat b"
  by (simp add: interval_checked_multiply_same checked_multiply_SomeD)

lemma guard_Some [simp]: "guard b = Some u \<longleftrightarrow> b"
  by (simp add: guard_def)

definition int32_triple :: "int3 \<Rightarrow> bool" where
  "int32_triple t \<longleftrightarrow> is_int32 (x3 t) \<and> is_int32 (y3 t) \<and> is_int32 (z3 t)"

lemma unat_address_bits: "addressable p \<Longrightarrow> int (unat (address_bits p)) = 8 * p"
proof -
  assume p: "addressable p"
  then have "unat (word_of_int (8 * p) :: u64) = nat (8 * p)"
    by (intro unat_word_of_int64) (simp_all add: addressable_def)
  with p show ?thesis by (simp only: address_bits_def addressable_def) simp
qed

lemma unat_extent: "is_int32 i \<Longrightarrow> 0 \<le> i \<Longrightarrow> unat (extent i) = nat i"
  by (rule unat_word_of_int32)

lemma unat_minus_one_nat: "w \<noteq> 0 \<Longrightarrow> unat (w - 1 :: 'a::len word) = unat w - 1"
  by (simp add: unat_minus_one)

text \<open>The numbers behind an accepted cell view.\<close>

definition view_shape :: "field_view \<Rightarrow> nat \<Rightarrow> nat \<Rightarrow> bool" where
  "view_shape v prefix last_cell \<longleftrightarrow>
     (let gx = nat (x3 (fv_ghosts v)); gy = nat (y3 (fv_ghosts v)); gz = nat (z3 (fv_ghosts v));
          nx = nat (x3 (fv_interior v)); ny = nat (y3 (fv_interior v)); nz = nat (z3 (fv_interior v));
          sy = unat (fv_stride_y v); sz = unat (fv_stride_z v); sc = unat (fv_component_stride v) in
      0 < nx \<and> 0 < ny \<and> 0 < nz \<and> 0 \<le> x3 (fv_ghosts v) \<and> 0 \<le> y3 (fv_ghosts v) \<and> 0 \<le> z3 (fv_ghosts v) \<and>
      0 < unat (fv_components v) \<and>
      nx + 2 * gx \<le> sy \<and> sy * (ny + 2 * gy) \<le> sz \<and> sz * (nz + 2 * gz) \<le> sc \<and>
      prefix = gx + gy * sy + gz * sz \<and>
      last_cell = (nx + gx - 1) + (ny + gy - 1) * sy + (nz + gz - 1) * sz + (unat (fv_components v) - 1) * sc)"

lemma field_prefix_SomeD:
  assumes "field_prefix v = Some p" "int32_triple (fv_ghosts v)"
    and "0 \<le> x3 (fv_ghosts v)" "0 \<le> y3 (fv_ghosts v)" "0 \<le> z3 (fv_ghosts v)"
  shows "unat p = nat (x3 (fv_ghosts v)) + nat (y3 (fv_ghosts v)) * unat (fv_stride_y v)
    + nat (z3 (fv_ghosts v)) * unat (fv_stride_z v)"
  using assms
  by (auto simp: field_prefix_def int32_triple_def unat_extent bind_eq_Some_conv
      dest!: interval_add_SomeD interval_multiply_SomeD)

lemma field_maximum_SomeD:
  assumes "field_maximum v = Some (m, e)" "int32_triple (fv_ghosts v)" "int32_triple (fv_interior v)"
    and "0 \<le> x3 (fv_ghosts v)" "0 \<le> y3 (fv_ghosts v)" "0 \<le> z3 (fv_ghosts v)" "fv_components v \<noteq> 0"
    and "0 < x3 (fv_interior v)" "0 < y3 (fv_interior v)" "0 < z3 (fv_interior v)"
  shows "unat m = (nat (x3 (fv_interior v)) + nat (x3 (fv_ghosts v)) - 1)
      + (nat (y3 (fv_interior v)) + nat (y3 (fv_ghosts v)) - 1) * unat (fv_stride_y v)
      + (nat (z3 (fv_interior v)) + nat (z3 (fv_ghosts v)) - 1) * unat (fv_stride_z v)
      + (unat (fv_components v) - 1) * unat (fv_component_stride v)" and "unat e = unat m + 1"
proof -
  from assms(1) obtain lx ly lz oy oz oc m1 m2 where
    e: "interval_checked_add (extent (x3 (fv_interior v))) (extent (x3 (fv_ghosts v))) = Some lx"
    "interval_checked_add (extent (y3 (fv_interior v))) (extent (y3 (fv_ghosts v))) = Some ly"
    "interval_checked_add (extent (z3 (fv_interior v))) (extent (z3 (fv_ghosts v))) = Some lz"
    "lx \<noteq> 0" "ly \<noteq> 0" "lz \<noteq> 0"
    "interval_checked_multiply (ly - 1) (fv_stride_y v) = Some oy"
    "interval_checked_multiply (lz - 1) (fv_stride_z v) = Some oz"
    "interval_checked_multiply (ucast (fv_components v - 1)) (fv_component_stride v) = Some oc"
    "interval_checked_add (lx - 1) oy = Some m1" "interval_checked_add m1 oz = Some m2"
    "interval_checked_add m2 oc = Some m" "interval_checked_add m 1 = Some e"
    by (auto simp: field_maximum_def bind_eq_Some_conv)
  note n = e(1-3) [THEN interval_add_SomeD] e(7-9) [THEN interval_multiply_SomeD]
    e(10-13) [THEN interval_add_SomeD]
  show "unat e = unat m + 1" using n(10) by simp
  show "unat m = (nat (x3 (fv_interior v)) + nat (x3 (fv_ghosts v)) - 1)
      + (nat (y3 (fv_interior v)) + nat (y3 (fv_ghosts v)) - 1) * unat (fv_stride_y v)
      + (nat (z3 (fv_interior v)) + nat (z3 (fv_ghosts v)) - 1) * unat (fv_stride_z v)
      + (unat (fv_components v) - 1) * unat (fv_component_stride v)"
  proof -
    have "unat m = unat (lx - 1) + unat (ly - 1) * unat (fv_stride_y v)
        + unat (lz - 1) * unat (fv_stride_z v)
        + unat (ucast (fv_components v - 1) :: u64) * unat (fv_component_stride v)"
      by (simp only: n(4-9))
    moreover have "unat (lx - 1) = nat (x3 (fv_interior v)) + nat (x3 (fv_ghosts v)) - 1"
      "unat (ly - 1) = nat (y3 (fv_interior v)) + nat (y3 (fv_ghosts v)) - 1"
      "unat (lz - 1) = nat (z3 (fv_interior v)) + nat (z3 (fv_ghosts v)) - 1"
      using assms(2-6,8-10) unfolding unat_minus_one_nat [OF e(4)] unat_minus_one_nat [OF e(5)]
        unat_minus_one_nat [OF e(6)] n(1-3) by (simp_all add: int32_triple_def unat_extent)
    moreover have "unat (ucast (fv_components v - 1) :: u64) = unat (fv_components v) - 1"
      using unat_minus_one_nat [OF assms(7)] by simp
    ultimately show ?thesis by (simp only:)
  qed
qed

lemma field_interval_SomeD:
  assumes "field_storage_interval v = Some iv"
    and "int32_triple (fv_interior v)" "int32_triple (fv_ghosts v)" "addressable (the (fv_base v))"
  obtains prefix last_cell where "view_shape v prefix last_cell" "8 * int prefix \<le> 8 * the (fv_base v)"
    "int (unat (iv_begin iv)) = 8 * (the (fv_base v) - int prefix)"
    "int (unat (iv_end iv)) = 8 * (the (fv_base v) + int last_cell + 1)"
proof -
  from assms(1) obtain b px py pz sp prefix m e pb eb where
    s: "fv_base v = Some b" "0 < x3 (fv_interior v)" "0 < y3 (fv_interior v)" "0 < z3 (fv_interior v)"
      "0 \<le> x3 (fv_ghosts v)" "0 \<le> y3 (fv_ghosts v)" "0 \<le> z3 (fv_ghosts v)" "fv_components v \<noteq> 0"
    and f: "field_padding v = Some (px, py, pz)" "field_span v px py pz = Some sp"
      "field_prefix v = Some prefix" "field_maximum v = Some (m, e)"
    and g: "interval_checked_multiply prefix 8 = Some pb" "interval_checked_multiply e 8 = Some eb"
      "pb \<le> address_bits b" "eb \<le> u64_max - address_bits b"
    and iv: "iv = \<lparr>iv_begin = address_bits b - pb, iv_end = address_bits b + eb\<rparr>"
    by (auto simp: field_storage_interval_def bind_eq_Some_conv split: option.splits)
  note pr = field_prefix_SomeD [OF f(3) assms(3) s(5-7)]
    and mx = field_maximum_SomeD [OF f(4) assms(3,2) s(5-8) s(2-4)]
  have pad: "unat px = nat (x3 (fv_interior v)) + 2 * nat (x3 (fv_ghosts v))"
    "unat py = nat (y3 (fv_interior v)) + 2 * nat (y3 (fv_ghosts v))"
    "unat pz = nat (z3 (fv_interior v)) + 2 * nat (z3 (fv_ghosts v))"
    using f(1) assms(2,3) s(2-7)
    by (auto simp: field_padding_def bind_eq_Some_conv int32_triple_def unat_extent
        dest!: interval_add_SomeD interval_multiply_SomeD)
  have st: "unat px \<le> unat (fv_stride_y v)" "unat (fv_stride_y v) * unat py \<le> unat (fv_stride_z v)"
    "unat (fv_stride_z v) * unat pz \<le> unat (fv_component_stride v)"
    using f(2) by (auto simp: field_span_def bind_eq_Some_conv word_le_nat_alt dest!: interval_multiply_SomeD)
  have shape: "view_shape v (unat prefix) (unat m)"
    using s(2-8) st pr mx(1) unfolding view_shape_def Let_def pad by (simp add: unat_gt_0)
  have ad: "int (unat (address_bits b)) = 8 * b" using assms(4) s(1) by (simp add: unat_address_bits)
  have pb: "unat pb = unat prefix * 8" and eb: "unat eb = unat e * 8"
    using g(1,2) [THEN interval_multiply_SomeD] by simp_all
  have le: "unat pb \<le> unat (address_bits b)" using g(3) by (simp add: word_le_nat_alt)
  have b: "unat (iv_begin iv) = unat (address_bits b) - unat pb"
    using g(3) by (simp add: iv unat_sub)
  have "unat eb \<le> 2 ^ 64 - 1 - unat (address_bits b)"
    using g(4) unat_max_minus [of "address_bits b"] by (simp add: word_le_nat_alt)
  then have "unat (address_bits b) + unat eb < 2 ^ 64"
    using unat_u64_less [of "address_bits b"] by linarith
  then have e': "unat (iv_end iv) = unat (address_bits b) + unat eb"
    by (simp add: iv unat_word_ariths)
  show ?thesis
  proof (rule that [OF shape])
    show "8 * int (unat prefix) \<le> 8 * the (fv_base v)" using le ad pb s(1) by simp
    show "int (unat (iv_begin iv)) = 8 * (the (fv_base v) - int (unat prefix))"
      using b le ad pb s(1) by simp
    show "int (unat (iv_end iv)) = 8 * (the (fv_base v) + int (unat m) + 1)"
      using e' ad eb mx(2) s(1) by simp
  qed
qed


definition view_box :: "field_view \<Rightarrow> int3 \<Rightarrow> u8 \<Rightarrow> bool" where
  "view_box v i c \<longleftrightarrow>
     - x3 (fv_ghosts v) \<le> x3 i \<and> x3 i < x3 (fv_interior v) + x3 (fv_ghosts v) \<and>
     - y3 (fv_ghosts v) \<le> y3 i \<and> y3 i < y3 (fv_interior v) + y3 (fv_ghosts v) \<and>
     - z3 (fv_ghosts v) \<le> z3 i \<and> z3 i < z3 (fv_interior v) + z3 (fv_ghosts v) \<and>
     c < fv_components v"

definition view_ok :: "field_view \<Rightarrow> bool" where
  "view_ok v \<longleftrightarrow> int32_triple (fv_interior v) \<and> int32_triple (fv_ghosts v) \<and> addressable (the (fv_base v))"

definition covers :: "interval \<Rightarrow> int \<Rightarrow> bool" where
  "covers iv a \<longleftrightarrow> int (unat (iv_begin iv)) \<le> 8 * a \<and> 8 * a + 8 \<le> int (unat (iv_end iv))"

lemma covers_disjoint: "\<not> intervals_overlap l r \<Longrightarrow> covers l a \<Longrightarrow> covers r b \<Longrightarrow> a \<noteq> b"
  by (auto simp: intervals_overlap_def covers_def word_less_nat_alt)

lemma field_interval_covers:
  assumes "field_storage_interval v = Some iv" "view_ok v" "view_box v i c"
  shows "covers iv (view_cell v i c)"
proof -
  obtain prefix last_cell where s: "view_shape v prefix last_cell"
    and iv: "int (unat (iv_begin iv)) = 8 * (the (fv_base v) - int prefix)"
      "int (unat (iv_end iv)) = 8 * (the (fv_base v) + int last_cell + 1)"
    using field_interval_SomeD [OF assms(1)] assms(2) by (auto simp: view_ok_def)
  define gx gy gz nx ny nz sy sz sc c' where d: "gx = x3 (fv_ghosts v)" "gy = y3 (fv_ghosts v)"
    "gz = z3 (fv_ghosts v)" "nx = x3 (fv_interior v)" "ny = y3 (fv_interior v)" "nz = z3 (fv_interior v)"
    "sy = int (unat (fv_stride_y v))" "sz = int (unat (fv_stride_z v))"
    "sc = int (unat (fv_component_stride v))" "c' = int (unat c)"
  have pos: "0 < nx" "0 < ny" "0 < nz" "0 \<le> gx" "0 \<le> gy" "0 \<le> gz" "0 < unat (fv_components v)"
    using s by (simp_all add: view_shape_def Let_def d)
  then have p: "int prefix = gx + gy * sy + gz * sz" using s by (simp add: view_shape_def Let_def d)
  have t: "int last_cell = (nx + gx - 1) + (ny + gy - 1) * sy + (nz + gz - 1) * sz
      + (int (unat (fv_components v)) - 1) * sc"
  proof -
    have "last_cell = (nat nx + nat gx - 1) + (nat ny + nat gy - 1) * unat (fv_stride_y v)
        + (nat nz + nat gz - 1) * unat (fv_stride_z v)
        + (unat (fv_components v) - 1) * unat (fv_component_stride v)"
      using s by (simp add: view_shape_def Let_def d)
    moreover have "int (nat nx + nat gx - 1) = nx + gx - 1" "int (nat ny + nat gy - 1) = ny + gy - 1"
      "int (nat nz + nat gz - 1) = nz + gz - 1" "int (unat (fv_components v) - 1) = int (unat (fv_components v)) - 1"
      using pos by linarith+
    ultimately show ?thesis by (simp only: of_nat_add of_nat_mult d(7-9))
  qed
  have b: "- gx \<le> x3 i" "x3 i \<le> nx + gx - 1" "- gy \<le> y3 i" "y3 i \<le> ny + gy - 1" "- gz \<le> z3 i"
      "z3 i \<le> nz + gz - 1" "0 \<le> c'" "c' \<le> int (unat (fv_components v)) - 1"
    using assms(3) by (simp_all add: view_box_def d word_less_nat_alt)
  have st: "0 \<le> sy" "0 \<le> sz" "0 \<le> sc" by (simp_all add: d)
  have "- (gy * sy) \<le> y3 i * sy" "- (gz * sz) \<le> z3 i * sz" "0 \<le> c' * sc"
    using mult_right_mono [OF b(3) st(1)] mult_right_mono [OF b(5) st(2)] b(7) st(3) by simp_all
  moreover have "y3 i * sy \<le> (ny + gy - 1) * sy" "z3 i * sz \<le> (nz + gz - 1) * sz"
    "c' * sc \<le> (int (unat (fv_components v)) - 1) * sc"
    using mult_right_mono [OF b(4) st(1)] mult_right_mono [OF b(6) st(2)] mult_right_mono [OF b(8) st(3)]
    by simp_all
  ultimately have "- (gx + gy * sy + gz * sz) \<le> x3 i + y3 i * sy + z3 i * sz + c' * sc"
    "x3 i + y3 i * sy + z3 i * sz + c' * sc \<le> (nx + gx - 1) + (ny + gy - 1) * sy + (nz + gz - 1) * sz
      + (int (unat (fv_components v)) - 1) * sc"
    using b(1,2) by linarith+
  then show ?thesis
    unfolding covers_def iv view_cell_def p t d [symmetric] by simp
qed

text \<open>The numbers behind an accepted face view.\<close>

definition face_ok :: "face_view \<Rightarrow> bool" where
  "face_ok v \<longleftrightarrow> int32_triple (ff_extents v) \<and> addressable (the (ff_base v))"

definition face_box :: "int3 \<Rightarrow> int3 \<Rightarrow> bool" where
  "face_box e i \<longleftrightarrow> 0 \<le> x3 i \<and> x3 i < x3 e \<and> 0 \<le> y3 i \<and> y3 i < y3 e \<and> 0 \<le> z3 i \<and> z3 i < z3 e"

lemma face_interval_SomeD:
  assumes "face_storage_interval v = Some iv" "face_ok v"
  shows "0 < x3 (ff_extents v)" "0 < y3 (ff_extents v)" "0 < z3 (ff_extents v)"
    "nat (x3 (ff_extents v)) \<le> unat (ff_stride_y v)"
    "unat (ff_stride_y v) * nat (y3 (ff_extents v)) \<le> unat (ff_stride_z v)"
    "int (unat (iv_begin iv)) = 8 * the (ff_base v)"
    "unat (iv_end iv) = unat (iv_begin iv) + 8 * (nat (x3 (ff_extents v))
       + (nat (y3 (ff_extents v)) - 1) * unat (ff_stride_y v)
       + (nat (z3 (ff_extents v)) - 1) * unat (ff_stride_z v))"
    "ff_base v \<noteq> None"
proof -
  from assms(1) obtain b mz sp ly lz m1 m e eb where
    s: "ff_base v = Some b" "0 < x3 (ff_extents v)" "0 < y3 (ff_extents v)" "0 < z3 (ff_extents v)"
    and g: "extent (x3 (ff_extents v)) \<le> ff_stride_y v" "mz \<le> ff_stride_z v"
      "interval_checked_multiply (ff_stride_y v) (extent (y3 (ff_extents v))) = Some mz"
    and f: "interval_checked_multiply (extent (y3 (ff_extents v)) - 1) (ff_stride_y v) = Some ly"
      "interval_checked_multiply (extent (z3 (ff_extents v)) - 1) (ff_stride_z v) = Some lz"
      "interval_checked_add (extent (x3 (ff_extents v)) - 1) ly = Some m1"
      "interval_checked_add m1 lz = Some m" "interval_checked_add m 1 = Some e"
      "interval_checked_multiply e 8 = Some eb" "eb \<le> u64_max - address_bits b"
    and iv: "iv = \<lparr>iv_begin = address_bits b, iv_end = address_bits b + eb\<rparr>"
    by (auto simp: face_storage_interval_def bind_eq_Some_conv split: option.splits)
  have ext: "unat (extent (x3 (ff_extents v))) = nat (x3 (ff_extents v))"
    "unat (extent (y3 (ff_extents v))) = nat (y3 (ff_extents v))"
    "unat (extent (z3 (ff_extents v))) = nat (z3 (ff_extents v))"
    using assms(2) s(2-4) by (simp_all add: face_ok_def int32_triple_def unat_extent)
  then have nz: "extent (x3 (ff_extents v)) \<noteq> 0" "extent (y3 (ff_extents v)) \<noteq> 0"
    "extent (z3 (ff_extents v)) \<noteq> 0" using s(2-4) by (auto simp flip: unat_gt_0)
  note n = f(1,2,6) [THEN interval_multiply_SomeD] f(3-5) [THEN interval_add_SomeD]
  have "unat m = (nat (x3 (ff_extents v)) - 1) + (nat (y3 (ff_extents v)) - 1) * unat (ff_stride_y v)
      + (nat (z3 (ff_extents v)) - 1) * unat (ff_stride_z v)"
    by (simp only: n(1,2,4,5) unat_minus_one_nat [OF nz(1)] unat_minus_one_nat [OF nz(2)]
      unat_minus_one_nat [OF nz(3)] ext)
  then have eb: "unat eb = 8 * (nat (x3 (ff_extents v))
       + (nat (y3 (ff_extents v)) - 1) * unat (ff_stride_y v)
       + (nat (z3 (ff_extents v)) - 1) * unat (ff_stride_z v))"
    using n(3,6) s(2) by simp
  have "unat eb \<le> 2 ^ 64 - 1 - unat (address_bits b)"
    using f(7) unat_max_minus [of "address_bits b"] by (simp add: word_le_nat_alt)
  then have "unat (address_bits b) + unat eb < 2 ^ 64"
    using unat_u64_less [of "address_bits b"] by linarith
  then show "unat (iv_end iv) = unat (iv_begin iv) + 8 * (nat (x3 (ff_extents v))
       + (nat (y3 (ff_extents v)) - 1) * unat (ff_stride_y v)
       + (nat (z3 (ff_extents v)) - 1) * unat (ff_stride_z v))"
    by (simp add: iv unat_word_ariths eb)
  show "int (unat (iv_begin iv)) = 8 * the (ff_base v)"
    using assms(2) s(1) by (simp add: iv face_ok_def unat_address_bits)
  show "nat (x3 (ff_extents v)) \<le> unat (ff_stride_y v)"
    "unat (ff_stride_y v) * nat (y3 (ff_extents v)) \<le> unat (ff_stride_z v)"
    using g ext interval_multiply_SomeD [OF g(3)] by (simp_all add: word_le_nat_alt)
qed (use assms(1) in \<open>auto simp: face_storage_interval_def bind_eq_Some_conv split: option.splits\<close>)

lemma face_interval_covers:
  assumes "face_storage_interval v = Some iv" "face_ok v" "face_box (ff_extents v) i"
  shows "covers iv (face_cell v i)"
proof -
  note s = face_interval_SomeD [OF assms(1,2)]
  define ex ey ez sy sz where d: "ex = x3 (ff_extents v)" "ey = y3 (ff_extents v)" "ez = z3 (ff_extents v)"
    "sy = int (unat (ff_stride_y v))" "sz = int (unat (ff_stride_z v))"
  have b: "0 \<le> x3 i" "x3 i \<le> ex - 1" "0 \<le> y3 i" "y3 i \<le> ey - 1" "0 \<le> z3 i" "z3 i \<le> ez - 1"
    using assms(3) by (simp_all add: face_box_def d)
  have st: "0 \<le> sy" "0 \<le> sz" by (simp_all add: d)
  have e: "int (unat (iv_end iv)) = 8 * the (ff_base v) + 8 * (ex + (ey - 1) * sy + (ez - 1) * sz)"
    using s(1-3) unfolding s(7) by (simp add: s(6) d of_nat_diff)
  have "0 \<le> y3 i * sy" "0 \<le> z3 i * sz" using b st by simp_all
  moreover have "y3 i * sy \<le> (ey - 1) * sy" "z3 i * sz \<le> (ez - 1) * sz"
    using mult_right_mono [OF b(4) st(1)] mult_right_mono [OF b(6) st(2)] by simp_all
  ultimately have "0 \<le> x3 i + y3 i * sy + z3 i * sz"
    "x3 i + y3 i * sy + z3 i * sz \<le> (ex - 1) + (ey - 1) * sy + (ez - 1) * sz"
    using b(1,2) by linarith+
  then show ?thesis
    unfolding covers_def e s(6) face_cell_def d(4,5) [symmetric] by simp
qed


section \<open>Properties\<close>


definition example_other_view :: field_view where
  "example_other_view = example_view\<lparr>fv_base := Some 9000\<rparr>"


text \<open>The strides of a view keep its positions apart, whichever check has bounded them.\<close>

definition strides_apart :: "field_view \<Rightarrow> bool" where
  "strides_apart v \<longleftrightarrow> 0 \<le> x3 (fv_ghosts v) \<and> 0 \<le> y3 (fv_ghosts v) \<and> 0 \<le> z3 (fv_ghosts v) \<and>
     0 < x3 (fv_interior v) \<and> 0 < y3 (fv_interior v) \<and> 0 < z3 (fv_interior v) \<and>
     nat (x3 (fv_interior v)) + 2 * nat (x3 (fv_ghosts v)) \<le> unat (fv_stride_y v) \<and>
     unat (fv_stride_y v) * (nat (y3 (fv_interior v)) + 2 * nat (y3 (fv_ghosts v))) \<le> unat (fv_stride_z v) \<and>
     unat (fv_stride_z v) * (nat (z3 (fv_interior v)) + 2 * nat (z3 (fv_ghosts v))) \<le> unat (fv_component_stride v)"

lemma cells_apart:
  assumes "strides_apart v" "view_box v i c" "view_box v j d" "view_cell v i c = view_cell v j d"
  shows "i = j \<and> c = d"
proof -
  define gx gy gz where g: "gx = nat (x3 (fv_ghosts v))" "gy = nat (y3 (fv_ghosts v))"
    "gz = nat (z3 (fv_ghosts v))"
  define ny nz where n: "ny = nat (y3 (fv_interior v)) + 2 * gy" "nz = nat (z3 (fv_interior v)) + 2 * gz"
  define sy sz sc where st: "sy = unat (fv_stride_y v)" "sz = unat (fv_stride_z v)"
    "sc = unat (fv_component_stride v)"
  have sh: "0 \<le> x3 (fv_ghosts v)" "0 \<le> y3 (fv_ghosts v)" "0 \<le> z3 (fv_ghosts v)"
    "0 < x3 (fv_interior v)" "0 < y3 (fv_interior v)" "0 < z3 (fv_interior v)"
    "nat (x3 (fv_interior v)) + 2 * gx \<le> sy" "sy * ny \<le> sz" "sz * nz \<le> sc"
    using assms(1) by (simp_all add: strides_apart_def g n st)
  define X Y Z :: "int3 \<Rightarrow> nat" where xyz: "\<And>i. X i = nat (x3 i + int gx)" "\<And>i. Y i = nat (y3 i + int gy)"
    "\<And>i. Z i = nat (z3 i + int gz)"
  have box: "X i < sy \<and> Y i < ny \<and> Z i < nz \<and> int (X i) = x3 i + int gx \<and> int (Y i) = y3 i + int gy \<and>
      int (Z i) = z3 i + int gz" if "view_box v i c" for i c
  proof -
    have b: "- int gx \<le> x3 i" "x3 i < x3 (fv_interior v) + int gx" "- int gy \<le> y3 i"
      "y3 i < y3 (fv_interior v) + int gy" "- int gz \<le> z3 i" "z3 i < z3 (fv_interior v) + int gz"
      using that sh(1-3) by (simp_all add: view_box_def g)
    then show ?thesis using sh(4-7) unfolding n xyz by linarith
  qed
  have cell: "view_cell v i c + int gx + int gy * int sy + int gz * int sz =
      the (fv_base v) + int (X i + Y i * sy + Z i * sz + unat c * sc)" if "view_box v i c" for i c
    using box [OF that] by (simp add: view_cell_def st [symmetric] algebra_simps)
  from cell [OF assms(2)] cell [OF assms(3)] assms(4)
  have eq: "X i + Y i * sy + Z i * sz + unat c * sc = X j + Y j * sy + Z j * sz + unat d * sc" by linarith
  note bi = box [OF assms(2)] and bj = box [OF assms(3)]
  have xy: "X k + Y k * sy < sz" if "X k < sy" "Y k < ny" for k
    using radix_bound [OF that] sh(8) by simp
  have xyz': "X k + Y k * sy + Z k * sz < sc" if "X k < sy" "Y k < ny" "Z k < nz" for k
    using radix_bound [OF xy [OF that(1,2)] that(3)] sh(9) by simp
  from radix_unique [OF xyz' xyz' eq] bi bj have c: "unat c = unat d"
    "X i + Y i * sy + Z i * sz = X j + Y j * sy + Z j * sz" by blast+
  from radix_unique [OF xy xy c(2)] bi bj have z: "Z i = Z j" "X i + Y i * sy = X j + Y j * sy" by blast+
  from radix_unique [OF _ _ z(2)] bi bj have "X i = X j" "Y i = Y j" by blast+
  with z(1) bi bj have "x3 i = x3 j" "y3 i = y3 j" "z3 i = z3 j" by linarith+
  with c(1) show ?thesis by (simp add: int3.equality unat_inject)
qed

text \<open>
  C20. An accepted view is injective: two different positions of its ghosted box, or two different
  components, are different cells.
\<close>

theorem accepted_view_injective:
  assumes "field_storage_interval v = Some iv" "view_ok v" "view_box v i c" "view_box v j d"
    and "view_cell v i c = view_cell v j d"
  shows "i = j \<and> c = d"
proof -
  obtain prefix last_cell where "view_shape v prefix last_cell"
    using field_interval_SomeD [OF assms(1)] assms(2) unfolding view_ok_def by metis
  then have "strides_apart v" by (simp add: view_shape_def Let_def strides_apart_def)
  then show ?thesis using assms(3-5) by (rule cells_apart)
qed

theorem accepted_view_injective_witness:
  "view_cell example_view \<lparr>x3 = 0, y3 = 0, z3 = 0\<rparr> 0 \<noteq> view_cell example_view \<lparr>x3 = 0, y3 = 1, z3 = 0\<rparr> 0"
proof
  assume eq: "view_cell example_view \<lparr>x3 = 0, y3 = 0, z3 = 0\<rparr> 0 = view_cell example_view \<lparr>x3 = 0, y3 = 1, z3 = 0\<rparr> 0"
  have "field_storage_interval example_view = Some (the (field_storage_interval example_view))" by code_simp
  moreover have "view_ok example_view"
    by (simp add: view_ok_def example_view_def int32_triple_def is_int32_def addressable_def)
  moreover have "view_box example_view \<lparr>x3 = 0, y3 = 0, z3 = 0\<rparr> 0"
    "view_box example_view \<lparr>x3 = 0, y3 = 1, z3 = 0\<rparr> 0" by code_simp+
  ultimately show False using accepted_view_injective [OF _ _ _ _ eq] by simp
qed

end
