(* ===== verification/Attempt_State.thy ===== *)
theory Attempt_State
  imports State_Layers
begin

text \<open>
  \<^verbatim>\<open>AttemptTransaction\<close> of \<^verbatim>\<open>core_transaction.cpp\<close>, the operations that touch the transaction and
  its layers only: creation, the begin of an attempt, trial revisions, dependency certificates,
  cache publication and the local verdict of an attempt. What also reaches the flux writer or MPI
  is in \<open>Attempt_Finish\<close>.

  A pointer to another object is its address in a store, \<open>None\<close> for null. The operations take
  and return the transaction and the layers it points to; \<open>tx_layers\<close> is set exactly while an
  attempt is open, which \<open>attempt_open\<close> states.
\<close>

section \<open>Data\<close>

type_synonym revision_slot = u16
type_synonym revision_source = u32

record revision_dependency =
  rd_source :: revision_source
  rd_revision :: revision_token

record transaction =
  tx_layers :: "nat option"
  tx_active_caches :: "revision_token list"
  tx_pending_caches :: "revision_token list"
  tx_dep_revisions :: "revision_token list"
  tx_dep_sources :: "revision_source list"
  tx_dep_counts :: "nat list"
  tx_catalog :: "revision_dependency list"
  tx_catalog_count :: nat
  tx_dep_capacity :: nat
  tx_commit_buffer :: "revision_token list"
  tx_required :: "bool list"
  tx_writer_ids :: "u64 list"
  tx_revised :: "bool list"
  tx_bound :: u64
  tx_status :: status
  tx_attempt :: u64
  tx_mutation :: u64
  tx_writer_identity :: u64
  tx_writer :: "nat option"
  tx_active :: bool
  tx_finished :: bool
  tx_committed :: bool
  tx_lowest :: int

definition null_dependency :: revision_dependency where
  "null_dependency = \<lparr>rd_source = 0, rd_revision = 0\<rparr>"

definition empty_transaction :: transaction where
  "empty_transaction =
     \<lparr>tx_layers = None, tx_active_caches = [], tx_pending_caches = [], tx_dep_revisions = [],
       tx_dep_sources = [], tx_dep_counts = [], tx_catalog = [], tx_catalog_count = 0,
       tx_dep_capacity = 0, tx_commit_buffer = [], tx_required = [], tx_writer_ids = [],
       tx_revised = [], tx_bound = 0, tx_status = status_ok, tx_attempt = 0, tx_mutation = 0,
       tx_writer_identity = 0, tx_writer = None, tx_active = False, tx_finished = False,
       tx_committed = False, tx_lowest = - 1\<rparr>"

section \<open>Creation\<close>

text \<open>
  The capacities are word values; \<open>mem\<close> says whether the vectors can be allocated.
\<close>

definition transaction_create ::
  "bool \<Rightarrow> u64 \<Rightarrow> u64 \<Rightarrow> u64 \<Rightarrow> transaction \<Rightarrow> status \<times> transaction" where
  "transaction_create mem field_capacity slot_capacity source_capacity out =
     (if field_capacity = 0 \<or> field_capacity > 65536 \<or> slot_capacity > 65536 \<or>
         source_capacity < field_capacity \<or> source_capacity > 0xFFFFFFFF
      then (failed Invalid_plan 2, out)
      else if \<not> mem then (failed Allocation_failure 0, out)
      else if slot_capacity \<noteq> 0 \<and> source_capacity > u64_max div slot_capacity
      then (failed Invalid_plan 2, out)
      else if tx_active out \<or> tx_writer out \<noteq> None \<or> tx_writer_identity out \<noteq> 0
      then (failed Invalid_plan 1, out)
      else let slots = unat slot_capacity; deps = unat (slot_capacity * source_capacity) in
        (status_ok,
         out\<lparr>tx_active_caches := replicate slots 0, tx_pending_caches := replicate slots 0,
           tx_dep_revisions := replicate deps 0, tx_dep_sources := replicate deps 0,
           tx_dep_counts := replicate slots 0,
           tx_catalog := replicate (unat source_capacity) null_dependency, tx_catalog_count := 0,
           tx_dep_capacity := unat source_capacity, tx_commit_buffer := replicate slots 0,
           tx_required := replicate slots False, tx_writer_ids := replicate slots 0,
           tx_revised := replicate (unat field_capacity) False, tx_layers := None, tx_bound := 0,
           tx_active := False, tx_committed := False, tx_lowest := - 1, tx_status := status_ok,
           tx_attempt := 0, tx_mutation := 0, tx_writer_identity := 0, tx_writer := None,
           tx_finished := False\<rparr>))"

section \<open>Mutation counter and dependency certificates\<close>

definition advance_mutation :: "transaction \<Rightarrow> transaction" where
  "advance_mutation tx =
     (if tx_mutation tx = u64_max then tx\<lparr>tx_status := failed Invalid_plan 1\<rparr>
      else tx\<lparr>tx_mutation := tx_mutation tx + 1\<rparr>)"

text \<open>Latch a failure, as a violation inside an open attempt does.\<close>

definition latch :: "status \<Rightarrow> transaction \<Rightarrow> status \<times> transaction" where
  "latch s tx = (let tx' = advance_mutation (tx\<lparr>tx_status := s\<rparr>) in (tx_status tx', tx'))"

fun catalog_index :: "revision_source \<Rightarrow> revision_dependency list \<Rightarrow> nat option" where
  "catalog_index source [] = None"
| "catalog_index source (d # ds) =
     (if rd_source d = source then Some 0 else map_option Suc (catalog_index source ds))"

definition bound_dependencies :: "transaction \<Rightarrow> revision_dependency list" where
  "bound_dependencies tx = take (tx_catalog_count tx) (tx_catalog tx)"

definition bind_dependency :: "revision_dependency \<Rightarrow> transaction \<Rightarrow> status \<times> transaction" where
  "bind_dependency dep tx =
     (if \<not> tx_active tx \<or> tx_layers tx = None then (failed Invalid_plan 1, tx)
      else if \<not> is_ok (tx_status tx) then (tx_status tx, tx)
      else if rd_source dep = 0 \<or> rd_revision dep = 0 then latch (failed Invalid_plan 3) tx
      else case catalog_index (rd_source dep) (bound_dependencies tx) of
        Some k \<Rightarrow> (status_ok, advance_mutation (tx\<lparr>tx_catalog := (tx_catalog tx)[k := (tx_catalog tx ! k)
                    \<lparr>rd_revision := rd_revision dep\<rparr>]\<rparr>))
      | None \<Rightarrow>
          if tx_catalog_count tx \<ge> length (tx_catalog tx) then latch (failed Invalid_plan 3) tx
          else (status_ok, advance_mutation
            (tx\<lparr>tx_catalog := (tx_catalog tx)[tx_catalog_count tx := dep],
                tx_catalog_count := tx_catalog_count tx + 1\<rparr>)))"

definition field_revision_source :: "field_id \<Rightarrow> revision_source" where
  "field_revision_source f = ucast f + 1"

section \<open>Begin\<close>

text \<open>The number of state fields, as the checked count of the code.\<close>

fun count_required :: "bool list \<Rightarrow> revision_token \<Rightarrow> revision_token option" where
  "count_required [] required = Some required"
| "count_required (b # bs) required =
     (if b \<and> required = u64_max then None
      else count_required bs (required + (if b then 1 else 0)))"

fun issue_trials ::
  "nat list \<Rightarrow> nat \<Rightarrow> transaction \<Rightarrow> state_layers \<Rightarrow> status \<times> transaction \<times> state_layers" where
  "issue_trials [] replica tx sl = (status_ok, tx, sl)"
| "issue_trials (i # is) replica tx sl =
     (if sl_state_fields sl ! i then
        (case issue_revision replica (of_nat i) sl of (revised, sl') \<Rightarrow>
          if is_ok revised then issue_trials is replica tx sl'
          else (revised, tx\<lparr>tx_status := revised\<rparr>, sl'))
      else issue_trials is replica tx sl)"

fun bind_trials :: "nat list \<Rightarrow> state_layers \<Rightarrow> transaction \<Rightarrow> status \<times> transaction" where
  "bind_trials [] sl tx = (status_ok, tx)"
| "bind_trials (i # is) sl tx =
     (if sl_state_fields sl ! i then
        (case bind_dependency \<lparr>rd_source = field_revision_source (of_nat i),
             rd_revision = layers_revision sl Trial (of_nat i)\<rparr> tx of (bound, tx') \<Rightarrow>
          if is_ok bound then bind_trials is sl tx' else (bound, tx'))
      else bind_trials is sl tx)"

definition open_attempt :: "nat \<Rightarrow> u64 \<Rightarrow> transaction \<Rightarrow> transaction" where
  "open_attempt addr identity tx =
     tx\<lparr>tx_pending_caches := replicate (length (tx_pending_caches tx)) 0,
        tx_dep_counts := replicate (length (tx_pending_caches tx)) 0,
        tx_revised := replicate (length (tx_revised tx)) False, tx_catalog_count := 0,
        tx_layers := Some addr, tx_active := True, tx_finished := False, tx_committed := False,
        tx_attempt := identity, tx_mutation := 1, tx_lowest := - 1, tx_status := status_ok\<rparr>"

definition transaction_begin ::
  "nat \<Rightarrow> transaction \<Rightarrow> state_layers \<Rightarrow> u64 \<Rightarrow> (status \<times> transaction \<times> state_layers) \<times> u64" where
  "transaction_begin addr tx sl next_id =
     (if tx_active tx then (case latch (failed Invalid_plan 1) tx of (s, tx') \<Rightarrow> ((s, tx', sl), next_id))
      else let (identity, next') = issue_identity next_id in
        if identity = 0
        then ((failed Invalid_plan 1, tx\<lparr>tx_status := failed Invalid_plan 1\<rparr>, sl), next')
        else let tx1 = open_attempt addr identity tx;
                 refuse = (failed Invalid_plan 1, tx1\<lparr>tx_status := failed Invalid_plan 1\<rparr>, sl);
                 layers_identity = st_identity (sl_storage sl) in
          (if length (tx_revised tx1) \<noteq> sl_field_count sl then refuse
           else if layers_identity = 0 \<or> (tx_bound tx1 \<noteq> 0 \<and> tx_bound tx1 \<noteq> layers_identity)
           then refuse
           else case count_required (take (sl_field_count sl) (sl_state_fields sl)) 0 of
             None \<Rightarrow> refuse
           | Some required \<Rightarrow>
               if required = 0 \<or> sl_next sl = 0 \<or> required > u64_max - sl_next sl then refuse
               else case issue_trials [0 ..< sl_field_count sl] (layers_handle sl Trial)
                      (tx1\<lparr>tx_bound := layers_identity\<rparr>) sl of
                 (s, tx2, sl2) \<Rightarrow>
                   if \<not> is_ok s then (s, tx2, sl2)
                   else case bind_trials [0 ..< sl_field_count sl2] sl2 tx2 of
                     (s', tx3) \<Rightarrow> (s', tx3, sl2), next'))"

section \<open>Trial revisions\<close>

definition revise_trial ::
  "field_id \<Rightarrow> transaction \<Rightarrow> state_layers \<Rightarrow> status \<times> transaction \<times> state_layers" where
  "revise_trial f tx sl =
     (if \<not> tx_active tx \<or> tx_layers tx = None then (failed Invalid_plan 1, tx, sl)
      else if \<not> is_ok (tx_status tx) then (tx_status tx, tx, sl)
      else if unat f \<ge> length (tx_revised tx) \<or> \<not> sl_state_fields sl ! unat f
      then (case latch (failed Invalid_plan 1) tx of (s, tx') \<Rightarrow> (s, tx', sl))
      else case issue_revision (layers_handle sl Trial) f sl of (revised, sl') \<Rightarrow>
        if \<not> is_ok revised
        then (revised, advance_mutation (tx\<lparr>tx_status := revised\<rparr>), sl')
        else case bind_dependency \<lparr>rd_source = field_revision_source f,
               rd_revision = layers_revision sl' Trial f\<rparr>
               (tx\<lparr>tx_revised := (tx_revised tx)[unat f := True]\<rparr>) of (s, tx') \<Rightarrow> (s, tx', sl'))"

definition trial_revision :: "field_id \<Rightarrow> transaction \<Rightarrow> state_layers \<Rightarrow> revision_token" where
  "trial_revision f tx sl =
     (if \<not> tx_active tx \<or> tx_layers tx = None \<or> \<not> is_ok (tx_status tx) then 0
      else layers_revision sl Trial f)"


section \<open>The final flux writer's claim\<close>

definition claim_writer ::
  "revision_slot \<Rightarrow> u64 \<Rightarrow> nat \<Rightarrow> transaction \<Rightarrow> status \<times> transaction" where
  "claim_writer slot writer_identity writer tx =
     (let k = unat slot in
      if tx_active tx \<or> writer_identity = 0 \<or> k \<ge> length (tx_required tx) \<or>
         tx_writer_ids tx ! k \<noteq> 0 \<or> tx_writer_identity tx \<noteq> 0 \<or> tx_writer tx \<noteq> None
      then (failed Invalid_plan 2, tx)
      else (status_ok, tx\<lparr>tx_required := (tx_required tx)[k := True],
              tx_writer_ids := (tx_writer_ids tx)[k := writer_identity],
              tx_writer_identity := writer_identity, tx_writer := Some writer\<rparr>))"

definition invalidate_writer :: "nat \<Rightarrow> transaction \<Rightarrow> transaction" where
  "invalidate_writer writer tx =
     (if tx_writer tx = Some writer \<and> tx_active tx \<and> is_ok (tx_status tx)
      then advance_mutation (tx\<lparr>tx_status := failed Invalid_plan 5\<rparr>) else tx)"

section \<open>Cache publication\<close>

definition authorised :: "transaction \<Rightarrow> revision_dependency \<Rightarrow> bool" where
  "authorised tx d \<longleftrightarrow>
     (\<exists>b \<in> set (bound_dependencies tx). rd_source b = rd_source d \<and> rd_revision b = rd_revision d)"

fun certificates_ok :: "transaction \<Rightarrow> revision_dependency list \<Rightarrow> revision_dependency list \<Rightarrow> bool" where
  "certificates_ok tx prior [] = True"
| "certificates_ok tx prior (d # ds) =
     (if rd_source d = 0 \<or> rd_revision d = 0 \<or> \<not> authorised tx d then False
      else if rd_source d \<in> rd_source ` set prior then False
      else certificates_ok tx (prior @ [d]) ds)"

definition preflight_cache ::
  "revision_slot \<Rightarrow> revision_dependency span \<Rightarrow> revision_token \<Rightarrow> u64 \<Rightarrow> transaction \<Rightarrow> status" where
  "preflight_cache slot dependencies stamp writer_identity tx =
     (let k = unat slot in
      if \<not> tx_active tx \<or> tx_layers tx = None then failed Invalid_plan 1
      else if \<not> is_ok (tx_status tx) then tx_status tx
      else if k \<ge> length (tx_pending_caches tx) then failed Invalid_plan 2
      else if tx_writer_ids tx ! k \<noteq> writer_identity \<or> stamp = 0 \<or> span_null dependencies \<or>
              span_size dependencies = 0 \<or> span_size dependencies > tx_dep_capacity tx \<or>
              tx_pending_caches tx ! k \<noteq> 0
      then failed Invalid_plan 3
      else if \<not> certificates_ok tx [] (span_list dependencies) then failed Invalid_plan 3
      else status_ok)"

text \<open>The certificates of a slot, written from \<open>base\<close> on.\<close>

fun store_certificates :: "nat \<Rightarrow> revision_dependency list \<Rightarrow> transaction \<Rightarrow> transaction" where
  "store_certificates base [] tx = tx"
| "store_certificates base (d # ds) tx =
     store_certificates (base + 1) ds
       (tx\<lparr>tx_dep_sources := (tx_dep_sources tx)[base := rd_source d],
           tx_dep_revisions := (tx_dep_revisions tx)[base := rd_revision d]\<rparr>)"

definition publish_cache ::
  "revision_slot \<Rightarrow> revision_dependency span \<Rightarrow> revision_token \<Rightarrow> u64 \<Rightarrow> transaction \<Rightarrow>
   status \<times> transaction" where
  "publish_cache slot dependencies stamp writer_identity tx =
     (let preflight = preflight_cache slot dependencies stamp writer_identity tx in
      if \<not> is_ok preflight then
        (if tx_active tx \<and> tx_layers tx \<noteq> None \<and> is_ok (tx_status tx) then latch preflight tx
         else (preflight, tx))
      else let k = unat slot;
               tx1 = store_certificates (k * tx_dep_capacity tx) (span_list dependencies) tx in
        (status_ok, advance_mutation
          (tx1\<lparr>tx_pending_caches := (tx_pending_caches tx1)[k := stamp],
               tx_dep_counts := (tx_dep_counts tx1)[k := span_size dependencies]\<rparr>)))"

definition publish_pending_cache ::
  "revision_slot \<Rightarrow> revision_dependency span \<Rightarrow> revision_token \<Rightarrow> transaction \<Rightarrow> status \<times> transaction" where
  "publish_pending_cache slot dependencies stamp tx = publish_cache slot dependencies stamp 0 tx"

definition publish_flux_cache ::
  "revision_slot \<Rightarrow> revision_dependency span \<Rightarrow> revision_token \<Rightarrow> u64 \<Rightarrow> transaction \<Rightarrow>
   status \<times> transaction" where
  "publish_flux_cache slot dependencies stamp writer_identity tx =
     (if writer_identity = 0 then (failed Invalid_plan 2, tx)
      else publish_cache slot dependencies stamp writer_identity tx)"

definition preflight_flux_cache ::
  "revision_slot \<Rightarrow> revision_dependency span \<Rightarrow> revision_token \<Rightarrow> u64 \<Rightarrow> transaction \<Rightarrow> status" where
  "preflight_flux_cache slot dependencies stamp writer_identity tx =
     (if writer_identity = 0 then failed Invalid_plan 2
      else preflight_cache slot dependencies stamp writer_identity tx)"

section \<open>The local verdict of an attempt\<close>

fun valid_status_code :: "status_code \<Rightarrow> bool" where
  "valid_status_code (Unnamed_code _) = False"
| "valid_status_code _ = True"

definition required_published :: "transaction \<Rightarrow> bool" where
  "required_published tx \<longleftrightarrow>
     (\<forall>k < length (tx_required tx). tx_required tx ! k \<longrightarrow> tx_pending_caches tx ! k \<noteq> 0)"

definition all_revised :: "transaction \<Rightarrow> state_layers \<Rightarrow> bool" where
  "all_revised tx sl \<longleftrightarrow>
     (\<forall>i < length (tx_revised tx). sl_state_fields sl ! i \<longrightarrow> tx_revised tx ! i)"

definition recorded :: "transaction \<Rightarrow> nat \<Rightarrow> nat \<Rightarrow> revision_dependency" where
  "recorded tx k d =
     \<lparr>rd_source = tx_dep_sources tx ! (k * tx_dep_capacity tx + d),
      rd_revision = tx_dep_revisions tx ! (k * tx_dep_capacity tx + d)\<rparr>"

definition dependencies_current :: "transaction \<Rightarrow> bool" where
  "dependencies_current tx \<longleftrightarrow>
     (\<forall>k < length (tx_pending_caches tx). \<forall>d < tx_dep_counts tx ! k. authorised tx (recorded tx k d))"

text \<open>\<open>ready\<close> is the writer's \<^verbatim>\<open>ready_for_collective\<close>, \<open>sl\<close> the layers of an open attempt.\<close>

definition local_verdict :: "bool \<Rightarrow> status \<Rightarrow> transaction \<Rightarrow> state_layers \<Rightarrow> status" where
  "local_verdict ready reported tx sl =
     (let locally_active = tx_active tx \<and> tx_layers tx \<noteq> None;
          s0 = (if \<not> locally_active \<or> \<not> valid_status_code (scode reported)
                then failed Invalid_plan 1 else reported);
          s1 = (if locally_active \<and> \<not> is_ok (tx_status tx) then tx_status tx
                else if locally_active \<and> is_ok s0 \<and> tx_writer tx \<noteq> None \<and> \<not> ready
                then failed Invalid_plan 5
                else if locally_active \<and> is_ok s0
                then (if required_published tx then s0 else failed Invalid_plan 5)
                else s0) in
      if locally_active \<and> is_ok s1 then
        if \<not> all_revised tx sl then failed Invalid_plan 5
        else if \<not> dependencies_current tx then failed Invalid_plan 3
        else s1
      else s1)"

definition pending_cache_valid :: "revision_slot \<Rightarrow> transaction \<Rightarrow> bool" where
  "pending_cache_valid slot tx \<longleftrightarrow>
     unat slot < length (tx_active_caches tx) \<and> tx_active_caches tx ! unat slot \<noteq> 0"

definition pending_cache :: "revision_slot \<Rightarrow> transaction \<Rightarrow> revision_token" where
  "pending_cache slot tx =
     (if unat slot < length (tx_active_caches tx) then tx_active_caches tx ! unat slot else 0)"


section \<open>The catalogue as a map\<close>

definition dependency_pair :: "revision_dependency \<Rightarrow> revision_source \<times> revision_token" where
  "dependency_pair d = (rd_source d, rd_revision d)"

definition catalog_map :: "transaction \<Rightarrow> revision_source \<rightharpoonup> revision_token" where
  "catalog_map tx = map_of (map dependency_pair (bound_dependencies tx))"

lemma catalog_index_None: "catalog_index x ds = None \<longleftrightarrow> x \<notin> rd_source ` set ds"
  by (induction ds) auto

lemma catalog_index_SomeD: "catalog_index x ds = Some k \<Longrightarrow> k < length ds \<and> rd_source (ds ! k) = x"
  by (induction ds arbitrary: k) (auto split: if_splits)

lemma catalog_update_sources:
  "catalog_index x ds = Some k \<Longrightarrow> map rd_source (ds[k := (ds ! k)\<lparr>rd_revision := r\<rparr>]) = map rd_source ds"
  by (induction ds arbitrary: k) (auto split: if_splits)

lemma catalog_update_map:
  "catalog_index x ds = Some k \<Longrightarrow>
   map_of (map dependency_pair (ds[k := (ds ! k)\<lparr>rd_revision := r\<rparr>]))
     = (map_of (map dependency_pair ds))(x \<mapsto> r)"
  by (induction ds arbitrary: k) (auto simp: dependency_pair_def split: if_splits)

lemma catalog_snoc_map:
  "catalog_index (rd_source d) ds = None \<Longrightarrow>
   map_of (map dependency_pair (ds @ [d])) = (map_of (map dependency_pair ds))(rd_source d \<mapsto> rd_revision d)"
  by (induction ds) (auto simp: dependency_pair_def split: if_splits)

lemma map_of_pair_iff:
  "distinct (map rd_source ds) \<Longrightarrow>
   map_of (map dependency_pair ds) x = Some r \<longleftrightarrow> (\<exists>b \<in> set ds. rd_source b = x \<and> rd_revision b = r)"
  by (subst map_of_eq_Some_iff) (auto simp: dependency_pair_def comp_def)

section \<open>Well-formed transactions\<close>

definition catalog_wf :: "transaction \<Rightarrow> bool" where
  "catalog_wf tx \<longleftrightarrow> length (tx_catalog tx) = tx_dep_capacity tx \<and>
     tx_catalog_count tx \<le> tx_dep_capacity tx \<and> distinct (map rd_source (bound_dependencies tx)) \<and>
     (\<forall>d \<in> set (bound_dependencies tx). rd_source d \<noteq> 0 \<and> rd_revision d \<noteq> 0)"

definition slots_wf :: "transaction \<Rightarrow> bool" where
  "slots_wf tx \<longleftrightarrow> (let n = length (tx_pending_caches tx) in
     length (tx_active_caches tx) = n \<and> length (tx_commit_buffer tx) = n \<and>
     length (tx_dep_counts tx) = n \<and> length (tx_required tx) = n \<and> length (tx_writer_ids tx) = n \<and>
     length (tx_dep_sources tx) = n * tx_dep_capacity tx \<and>
     length (tx_dep_revisions tx) = n * tx_dep_capacity tx \<and>
     (\<forall>k < n. tx_dep_counts tx ! k \<le> tx_dep_capacity tx) \<and>
     length (tx_revised tx) \<le> tx_dep_capacity tx)"

definition tx_wf :: "transaction \<Rightarrow> bool" where
  "tx_wf tx \<longleftrightarrow> catalog_wf tx \<and> slots_wf tx"

definition attempt_open :: "transaction \<Rightarrow> bool" where
  "attempt_open tx \<longleftrightarrow> tx_active tx \<and> tx_layers tx \<noteq> None"

lemma authorised_iff:
  "catalog_wf tx \<Longrightarrow> authorised tx d \<longleftrightarrow> catalog_map tx (rd_source d) = Some (rd_revision d)"
  unfolding catalog_wf_def catalog_map_def authorised_def by (simp add: map_of_pair_iff)

lemma advance_mutation_simps [simp]:
  "tx_layers (advance_mutation tx) = tx_layers tx" "tx_active (advance_mutation tx) = tx_active tx"
  "tx_catalog (advance_mutation tx) = tx_catalog tx"
  "tx_catalog_count (advance_mutation tx) = tx_catalog_count tx"
  "tx_dep_capacity (advance_mutation tx) = tx_dep_capacity tx"
  "tx_active_caches (advance_mutation tx) = tx_active_caches tx"
  "tx_pending_caches (advance_mutation tx) = tx_pending_caches tx"
  "tx_dep_counts (advance_mutation tx) = tx_dep_counts tx"
  "tx_dep_sources (advance_mutation tx) = tx_dep_sources tx"
  "tx_dep_revisions (advance_mutation tx) = tx_dep_revisions tx"
  "tx_revised (advance_mutation tx) = tx_revised tx" "tx_required (advance_mutation tx) = tx_required tx"
  "tx_writer_ids (advance_mutation tx) = tx_writer_ids tx" "tx_writer (advance_mutation tx) = tx_writer tx"
  "tx_commit_buffer (advance_mutation tx) = tx_commit_buffer tx"
  "tx_attempt (advance_mutation tx) = tx_attempt tx" "tx_bound (advance_mutation tx) = tx_bound tx"
  "tx_writer_identity (advance_mutation tx) = tx_writer_identity tx"
  by (simp_all add: advance_mutation_def)

lemma advance_mutation_wf [simp]: "tx_wf (advance_mutation tx) = tx_wf tx"
  by (simp add: tx_wf_def catalog_wf_def slots_wf_def bound_dependencies_def)

lemma advance_mutation_status: "is_ok (tx_status (advance_mutation tx)) \<Longrightarrow> is_ok (tx_status tx)"
  by (auto simp: advance_mutation_def is_ok_def failed_def split: if_splits)

lemma latch_wf [simp]: "tx_wf (snd (latch s tx)) = tx_wf tx"
  by (simp add: latch_def Let_def)
    (simp add: tx_wf_def catalog_wf_def slots_wf_def bound_dependencies_def)

lemma bound_dependencies_advance [simp]: "bound_dependencies (advance_mutation tx) = bound_dependencies tx"
  by (simp add: bound_dependencies_def)

text \<open>A successful binding is a map update; everything else but the mutation counter stays.\<close>

lemma bind_dependency_ok:
  assumes "catalog_wf tx" "bind_dependency dep tx = (s, tx')" "is_ok s"
  shows "catalog_wf tx'" and "catalog_map tx' = (catalog_map tx)(rd_source dep \<mapsto> rd_revision dep)"
    and "\<exists>c n. tx' = advance_mutation (tx\<lparr>tx_catalog := c, tx_catalog_count := n\<rparr>)"
    and "attempt_open tx \<and> is_ok (tx_status tx) \<and> rd_source dep \<noteq> 0 \<and> rd_revision dep \<noteq> 0"
proof -
  have f: "\<not> is_ok (failed Invalid_plan c)" for c by (simp add: is_ok_def failed_def)
  have l: "\<not> is_ok (fst (latch (failed Invalid_plan c) tx))" for c
    by (auto simp: latch_def Let_def advance_mutation_def f)
  show ok: "attempt_open tx \<and> is_ok (tx_status tx) \<and> rd_source dep \<noteq> 0 \<and> rd_revision dep \<noteq> 0"
    using assms(2,3) f l [of 3]
    by (auto simp: bind_dependency_def attempt_open_def split: if_splits)
  let ?b = "bound_dependencies tx" and ?n = "tx_catalog_count tx"
  have n: "?n \<le> length (tx_catalog tx)" using assms(1) by (simp add: catalog_wf_def)
  have "catalog_wf tx' \<and> catalog_map tx' = (catalog_map tx)(rd_source dep \<mapsto> rd_revision dep) \<and>
    (\<exists>c n. tx' = advance_mutation (tx\<lparr>tx_catalog := c, tx_catalog_count := n\<rparr>))"
  proof (cases "catalog_index (rd_source dep) ?b")
    case (Some k)
    let ?t = "tx\<lparr>tx_catalog := (tx_catalog tx)[k := (tx_catalog tx ! k)\<lparr>rd_revision := rd_revision dep\<rparr>]\<rparr>"
    from Some ok assms(2) have tx': "tx' = advance_mutation ?t"
      by (auto simp: bind_dependency_def attempt_open_def)
    from catalog_index_SomeD [OF Some] have k: "k < ?n" by (simp add: bound_dependencies_def)
    then have b: "bound_dependencies ?t = ?b[k := (?b ! k)\<lparr>rd_revision := rd_revision dep\<rparr>]"
      by (simp add: bound_dependencies_def take_update_swap)
    have "catalog_wf ?t" using assms(1) ok catalog_update_sources [OF Some, of "rd_revision dep"]
      unfolding catalog_wf_def b by (auto dest!: set_update_subset_insert [THEN subsetD]
        simp: catalog_index_SomeD [OF Some])
    moreover have "catalog_map ?t = (catalog_map tx)(rd_source dep \<mapsto> rd_revision dep)"
      unfolding catalog_map_def b by (rule catalog_update_map [OF Some])
    moreover have "?t = tx\<lparr>tx_catalog := (tx_catalog tx)[k := (tx_catalog tx ! k)
        \<lparr>rd_revision := rd_revision dep\<rparr>], tx_catalog_count := ?n\<rparr>" by simp
    ultimately show ?thesis unfolding tx' by (metis advance_mutation_simps(3-5)
        bound_dependencies_advance catalog_map_def catalog_wf_def)
  next
    case None
    let ?t = "tx\<lparr>tx_catalog := (tx_catalog tx)[?n := dep], tx_catalog_count := ?n + 1\<rparr>"
    from None ok assms(2,3) l [of 3] have tx': "tx' = advance_mutation ?t" and lt: "?n < length (tx_catalog tx)"
      by (auto simp: bind_dependency_def attempt_open_def split: if_splits)
    then have b: "bound_dependencies ?t = ?b @ [dep]"
      by (simp add: bound_dependencies_def take_Suc_conv_app_nth)
    have "catalog_wf ?t" using assms(1) ok lt None
      unfolding catalog_wf_def b catalog_index_None by auto
    moreover have "catalog_map ?t = (catalog_map tx)(rd_source dep \<mapsto> rd_revision dep)"
      unfolding catalog_map_def b by (rule catalog_snoc_map [OF None])
    ultimately show ?thesis unfolding tx' by (metis advance_mutation_simps(3-5)
        bound_dependencies_advance catalog_map_def catalog_wf_def)
  qed
  then show "catalog_wf tx'" "catalog_map tx' = (catalog_map tx)(rd_source dep \<mapsto> rd_revision dep)"
    "\<exists>c n. tx' = advance_mutation (tx\<lparr>tx_catalog := c, tx_catalog_count := n\<rparr>)" by blast+
qed


section \<open>Publication\<close>

fun overwrite :: "nat \<Rightarrow> 'a list \<Rightarrow> 'a list \<Rightarrow> 'a list" where
  "overwrite base [] xs = xs"
| "overwrite base (v # vs) xs = overwrite (base + 1) vs (xs[base := v])"

lemma length_overwrite [simp]: "length (overwrite base vs xs) = length xs"
  by (induction base vs xs rule: overwrite.induct) simp_all

lemma overwrite_outside:
  "k < base \<or> base + length vs \<le> k \<Longrightarrow> overwrite base vs xs ! k = xs ! k"
  by (induction base vs xs rule: overwrite.induct) auto

lemma overwrite_inside:
  "d < length vs \<Longrightarrow> base + length vs \<le> length xs \<Longrightarrow> overwrite base vs xs ! (base + d) = vs ! d"
proof (induction base vs xs arbitrary: d rule: overwrite.induct)
  case (2 base v vs xs)
  then show ?case
  proof (cases d)
    case 0
    with 2 show ?thesis by (simp add: overwrite_outside)
  next
    case (Suc j)
    with 2 show ?thesis using "2.IH" [of j] by simp
  qed
qed simp

lemma store_certificates_eq:
  "store_certificates base ds tx =
     tx\<lparr>tx_dep_sources := overwrite base (map rd_source ds) (tx_dep_sources tx),
        tx_dep_revisions := overwrite base (map rd_revision ds) (tx_dep_revisions tx)\<rparr>"
  by (induction base ds tx rule: store_certificates.induct) simp_all

lemma certificates_ok_authorised:
  "certificates_ok tx prior ds \<Longrightarrow> d \<in> set ds \<Longrightarrow> authorised tx d"
  by (induction ds arbitrary: prior) (auto split: if_splits)

lemma publish_cache_ok:
  assumes "publish_cache slot deps stamp w tx = (s, tx')" "is_ok s"
  shows "attempt_open tx" "is_ok (tx_status tx)" "unat slot < length (tx_pending_caches tx)"
    "tx_pending_caches tx ! unat slot = 0" "stamp \<noteq> 0" "tx_writer_ids tx ! unat slot = w"
    "span_size deps = length (span_list deps)" "span_size deps \<le> tx_dep_capacity tx"
    "\<forall>d \<in> set (span_list deps). authorised tx d"
    "tx' = advance_mutation ((store_certificates (unat slot * tx_dep_capacity tx) (span_list deps) tx)
       \<lparr>tx_pending_caches := (tx_pending_caches tx)[unat slot := stamp],
        tx_dep_counts := (tx_dep_counts tx)[unat slot := span_size deps]\<rparr>)"
proof -
  have f: "\<not> is_ok (failed Invalid_plan c)" for c by (simp add: is_ok_def failed_def)
  have pf: "is_ok (preflight_cache slot deps stamp w tx)"
  proof (rule ccontr)
    assume n: "\<not> is_ok (preflight_cache slot deps stamp w tx)"
    then have "\<not> is_ok (fst (latch (preflight_cache slot deps stamp w tx) tx))"
      by (auto simp: latch_def Let_def advance_mutation_def f)
    with n assms show False by (auto simp: publish_cache_def Let_def split: if_splits)
  qed
  then show "attempt_open tx" "is_ok (tx_status tx)" "unat slot < length (tx_pending_caches tx)"
    "tx_pending_caches tx ! unat slot = 0" "stamp \<noteq> 0" "tx_writer_ids tx ! unat slot = w"
    "span_size deps \<le> tx_dep_capacity tx"
    by (auto simp: preflight_cache_def attempt_open_def Let_def f split: if_splits)
  from pf show "span_size deps = length (span_list deps)"
    by (cases deps) (auto simp: preflight_cache_def Let_def f split: if_splits)
  from pf have "certificates_ok tx [] (span_list deps)"
    by (auto simp: preflight_cache_def Let_def f split: if_splits)
  then show "\<forall>d \<in> set (span_list deps). authorised tx d" by (blast intro: certificates_ok_authorised)
  from pf assms(1) show "tx' = advance_mutation ((store_certificates (unat slot * tx_dep_capacity tx) (span_list deps) tx)
       \<lparr>tx_pending_caches := (tx_pending_caches tx)[unat slot := stamp],
        tx_dep_counts := (tx_dep_counts tx)[unat slot := span_size deps]\<rparr>)"
    by (auto simp: publish_cache_def Let_def store_certificates_eq)
qed

lemma publish_cache_failed:
  assumes "publish_cache slot deps stamp w tx = (s, tx')" "\<not> is_ok s"
  shows "tx' = tx \<or> (\<exists>s. tx' = snd (latch s tx) \<and> \<not> is_ok (tx_status tx'))"
proof -
  have f: "\<not> is_ok (failed Invalid_plan c)" for c by (simp add: is_ok_def failed_def)
  have l: "\<not> is_ok (tx_status (snd (latch s tx)))" if "\<not> is_ok s" for s
    using that by (auto simp: latch_def Let_def advance_mutation_def f)
  from assms show ?thesis
    by (auto simp: publish_cache_def Let_def status_ok_def is_ok_def [of "\<lparr>scode = Ok, sdetail = 0\<rparr>"]
        split: if_splits intro!: l) (metis l snd_conv)+
qed

lemma publish_cache_wf:
  assumes "tx_wf tx" "publish_cache slot deps stamp w tx = (s, tx')"
  shows "tx_wf tx'"
proof (cases "is_ok s")
  case True
  note o = publish_cache_ok [OF assms(2) True]
  show ?thesis using assms(1) o(3,8) unfolding o(10) store_certificates_eq
    by (auto simp: tx_wf_def catalog_wf_def slots_wf_def bound_dependencies_def Let_def nth_list_update)
next
  case False
  from publish_cache_failed [OF assms(2) False] assms(1) show ?thesis by auto
qed

lemma bind_dependency_wf:
  assumes "tx_wf tx" "bind_dependency dep tx = (s, tx')"
  shows "tx_wf tx'"
proof (cases "is_ok s")
  case True
  have c: "catalog_wf tx" using assms(1) by (simp add: tx_wf_def)
  from bind_dependency_ok(3) [OF c assms(2) True] obtain cs n where
    "tx' = advance_mutation (tx\<lparr>tx_catalog := cs, tx_catalog_count := n\<rparr>)" by blast
  with assms(1) have "slots_wf tx'" by (simp add: tx_wf_def slots_wf_def Let_def)
  with bind_dependency_ok(1) [OF c assms(2) True] show ?thesis by (simp add: tx_wf_def)
next
  case False
  have "tx' = tx \<or> tx' = snd (latch (failed Invalid_plan 3) tx)"
    using assms(2) False by (auto simp: bind_dependency_def status_ok_def is_ok_def split: if_splits option.splits)
  with assms(1) show ?thesis by auto
qed

end
