(* ===== verification/Attempt_Certificates.thy ===== *)
theory Attempt_Certificates
  imports Attempt_State
begin

text \<open>
  What an open attempt certifies. Operations of an attempt are sequenced explicitly; the invariant
  is that the catalogue of a healthy attempt holds, for every state field, the current trial
  revision of that field, so that a cache published from an older trial is refused at the verdict.
\<close>

section \<open>Sequences of operations\<close>

datatype attempt_op =
    Op_revise field_id
  | Op_bind revision_dependency
  | Op_publish revision_slot "revision_dependency span" revision_token u64

fun attempt_apply :: "attempt_op \<Rightarrow> transaction \<times> state_layers \<Rightarrow> transaction \<times> state_layers" where
  "attempt_apply (Op_revise f) (tx, sl) = snd (revise_trial f tx sl)"
| "attempt_apply (Op_bind dep) (tx, sl) = (snd (bind_dependency dep tx), sl)"
| "attempt_apply (Op_publish slot deps stamp w) (tx, sl) = (snd (publish_cache slot deps stamp w tx), sl)"

definition attempt_run ::
  "attempt_op list \<Rightarrow> transaction \<times> state_layers \<Rightarrow> transaction \<times> state_layers" where
  "attempt_run = fold attempt_apply"

text \<open>A client binds its own sources, above the range of the field sources.\<close>

fun foreign :: "attempt_op \<Rightarrow> bool" where
  "foreign (Op_bind dep) \<longleftrightarrow> unat (rd_source dep) > 65536"
| "foreign _ \<longleftrightarrow> True"

lemma attempt_run_simps [simp]:
  "attempt_run [] st = st" "attempt_run (op # ops) st = attempt_run ops (attempt_apply op st)"
  by (simp_all add: attempt_run_def)

section \<open>The catalogue follows the trial\<close>

definition trials_bound :: "transaction \<Rightarrow> state_layers \<Rightarrow> bool" where
  "trials_bound tx sl \<longleftrightarrow>
     (\<forall>f. unat f < sl_field_count sl \<longrightarrow> sl_state_fields sl ! unat f \<longrightarrow>
        catalog_map tx (field_revision_source f) = Some (layers_revision sl Trial f))"

definition attempt_inv :: "transaction \<Rightarrow> state_layers \<Rightarrow> bool" where
  "attempt_inv tx sl \<longleftrightarrow> tx_wf tx \<and> layers_wf sl \<and> (is_ok (tx_status tx) \<longrightarrow> trials_bound tx sl)"

lemma unat_u16: "unat (f :: u16) < 65536"
  using unsigned_less [of f] by simp

lemma tx_wf_status [simp]: "tx_wf (tx\<lparr>tx_status := r\<rparr>) = tx_wf tx"
  by (simp add: tx_wf_def catalog_wf_def slots_wf_def bound_dependencies_def)

lemma unat_field_revision_source: "unat (field_revision_source f) = Suc (unat f)"
proof -
  have "unat (ucast f :: u32) = unat f" by (simp add: unat_ucast_up)
  moreover have "unat f < 65536" using unsigned_less [of f] by simp
  ultimately show ?thesis unfolding field_revision_source_def
    by (simp add: unat_word_ariths)
qed

lemma field_revision_source_inject [simp]: "field_revision_source f = field_revision_source g \<longleftrightarrow> f = g"
  by (metis nat.inject unat_field_revision_source unat_inject)

lemma not_ok_failed [simp]: "\<not> is_ok (failed Invalid_plan c)"
  by (simp add: is_ok_def failed_def)

lemma latch_not_ok: "\<not> is_ok s \<Longrightarrow> \<not> is_ok (fst (latch s tx)) \<and> \<not> is_ok (tx_status (snd (latch s tx)))"
  by (auto simp: latch_def Let_def advance_mutation_def)

lemma issue_revision_frame:
  "issue_revision r f sl = (s, sl') \<Longrightarrow>
   sl_field_count sl' = sl_field_count sl \<and> sl_state_fields sl' = sl_state_fields sl \<and>
   sl_handles sl' = sl_handles sl \<and> sl_storage sl' = sl_storage sl"
  by (auto simp: issue_revision_def Let_def split: if_splits)

lemma issue_revision_wf': "layers_wf sl \<Longrightarrow> issue_revision r f sl = (s, sl') \<Longrightarrow> layers_wf sl'"
  using issue_revision_wf [of sl r f] by simp

lemma bind_dependency_not_ok:
  assumes "bind_dependency dep tx = (s, tx')" "\<not> is_ok s"
  shows "\<not> attempt_open tx \<and> tx' = tx \<or> \<not> is_ok (tx_status tx')"
  using assms latch_not_ok [of "failed Invalid_plan 3" tx]
  by (auto simp: bind_dependency_def attempt_open_def status_ok_def is_ok_def [of "\<lparr>scode = Ok, sdetail = 0\<rparr>"]
      split: if_splits option.splits)

lemma bind_dependency_inv:
  assumes "attempt_inv tx sl" "bind_dependency dep tx = (s, tx')" "unat (rd_source dep) > 65536"
  shows "attempt_inv tx' sl"
proof -
  have wf: "tx_wf tx'" using assms(1,2) by (auto simp: attempt_inv_def intro: bind_dependency_wf)
  have cw: "catalog_wf tx" using assms(1) by (simp add: attempt_inv_def tx_wf_def)
  show ?thesis
  proof (cases "is_ok s")
    case True
    have "field_revision_source f \<noteq> rd_source dep" for f
      using assms(3) unat_field_revision_source [of f] unat_u16 [of f] by auto
    then have "trials_bound tx' sl" if "trials_bound tx sl"
      using that bind_dependency_ok(2) [OF cw assms(2) True] by (auto simp: trials_bound_def)
    with bind_dependency_ok(4) [OF cw assms(2) True] wf assms(1) show ?thesis
      by (auto simp: attempt_inv_def)
  next
    case False
    from bind_dependency_not_ok [OF assms(2) False] wf assms(1) show ?thesis
      by (auto simp: attempt_inv_def)
  qed
qed

lemma publish_cache_inv:
  assumes "attempt_inv tx sl" "publish_cache slot deps stamp w tx = (s, tx')"
  shows "attempt_inv tx' sl"
proof -
  have wf: "tx_wf tx'" using assms by (auto simp: attempt_inv_def intro: publish_cache_wf)
  show ?thesis
  proof (cases "is_ok s")
    case True
    note o = publish_cache_ok [OF assms(2) True]
    have "catalog_map tx' = catalog_map tx"
      unfolding o(10) catalog_map_def store_certificates_eq by (simp add: bound_dependencies_def)
    with wf assms(1) o(2) show ?thesis by (simp add: attempt_inv_def trials_bound_def)
  next
    case False
    from publish_cache_failed [OF assms(2) False] wf assms(1) show ?thesis
      by (auto simp: attempt_inv_def)
  qed
qed

lemma revise_trial_cases:
  assumes "revise_trial f tx sl = (s, tx', sl')"
  shows "(sl' = sl \<and> (tx' = tx \<or> tx_wf tx' = tx_wf tx \<and> \<not> is_ok (tx_status tx'))) \<or>
    (\<exists>r. issue_revision (layers_handle sl Trial) f sl = (r, sl') \<and> attempt_open tx \<and>
      is_ok (tx_status tx) \<and> unat f < length (tx_revised tx) \<and>
      (\<not> is_ok r \<and> tx' = advance_mutation (tx\<lparr>tx_status := r\<rparr>) \<or>
       is_ok r \<and> bind_dependency \<lparr>rd_source = field_revision_source f, rd_revision = layers_revision sl' Trial f\<rparr>
         (tx\<lparr>tx_revised := (tx_revised tx)[unat f := True]\<rparr>) = (s, tx')))"
proof (cases "attempt_open tx \<and> is_ok (tx_status tx)")
  case False
  then show ?thesis using assms unfolding revise_trial_def attempt_open_def by (metis prod.inject)
next
  case open_attempt: True
  show ?thesis
  proof (cases "unat f \<ge> length (tx_revised tx) \<or> \<not> sl_state_fields sl ! unat f")
    case True
    then have "latch (failed Invalid_plan 1) tx = (s, tx')" "sl' = sl"
      using assms open_attempt by (auto simp: revise_trial_def attempt_open_def split: prod.splits)
    then show ?thesis
      using latch_not_ok [of "failed Invalid_plan 1" tx] latch_wf [of "failed Invalid_plan 1" tx] by simp
  next
    case False
    obtain r l where r: "issue_revision (layers_handle sl Trial) f sl = (r, l)" by (metis surj_pair)
    have "sl' = l \<and> (if \<not> is_ok r then tx' = advance_mutation (tx\<lparr>tx_status := r\<rparr>)
        else bind_dependency \<lparr>rd_source = field_revision_source f, rd_revision = layers_revision l Trial f\<rparr>
          (tx\<lparr>tx_revised := (tx_revised tx)[unat f := True]\<rparr>) = (s, tx'))"
      using assms open_attempt False unfolding revise_trial_def r attempt_open_def by (auto split: if_splits prod.splits)
    then show ?thesis using r open_attempt False by (auto split: if_splits)
  qed
qed

lemma revise_trial_inv:
  assumes "attempt_inv tx sl" "revise_trial f tx sl = (s, tx', sl')"
  shows "attempt_inv tx' sl'"
  using revise_trial_cases [OF assms(2)]
proof (elim disjE exE conjE)
  fix r
  let ?t = "tx\<lparr>tx_revised := (tx_revised tx)[unat f := True]\<rparr>"
  assume a: "issue_revision (layers_handle sl Trial) f sl = (r, sl')" "is_ok (tx_status tx)" "attempt_open tx"
    and r: "is_ok r" and b: "bind_dependency \<lparr>rd_source = field_revision_source f,
      rd_revision = layers_revision sl' Trial f\<rparr> ?t = (s, tx')"
  have wf: "tx_wf ?t" "layers_wf sl'" using assms(1) issue_revision_wf' [OF _ a(1)]
    by (auto simp: attempt_inv_def tx_wf_def catalog_wf_def slots_wf_def bound_dependencies_def Let_def)
  then have wf': "tx_wf tx'" using b by (blast intro: bind_dependency_wf)
  show ?thesis
  proof (cases "is_ok s")
    case True
    have "catalog_wf ?t" using wf by (simp add: tx_wf_def)
    from bind_dependency_ok(2) [OF this b True]
    have "catalog_map tx' = (catalog_map tx)(field_revision_source f \<mapsto> layers_revision sl' Trial f)"
      by (simp add: catalog_map_def bound_dependencies_def)
    moreover have "layers_revision sl' Trial g = layers_revision sl Trial g" if "g \<noteq> f" for g
      using issue_revision_revisions [OF _ a(1) r, of Trial g] that assms(1)
      by (auto simp: attempt_inv_def layers_wf_def)
    ultimately have "trials_bound tx' sl'"
      using assms(1) a(2) issue_revision_frame [OF a(1)] by (auto simp: attempt_inv_def trials_bound_def)
    with wf wf' show ?thesis by (simp add: attempt_inv_def)
  next
    case False
    from bind_dependency_not_ok [OF b False] wf wf' a(3) show ?thesis
      by (auto simp: attempt_inv_def attempt_open_def)
  qed
next
  fix r
  assume "issue_revision (layers_handle sl Trial) f sl = (r, sl')" "\<not> is_ok r"
    "tx' = advance_mutation (tx\<lparr>tx_status := r\<rparr>)"
  then show ?thesis using assms(1) issue_revision_wf' [of sl _ f r sl'] advance_mutation_status [of "tx\<lparr>tx_status := r\<rparr>"]
    by (auto simp: attempt_inv_def)
qed (use assms(1) in \<open>auto simp: attempt_inv_def\<close>)

lemma attempt_run_inv:
  "attempt_inv (fst st) (snd st) \<Longrightarrow> \<forall>op \<in> set ops. foreign op \<Longrightarrow>
   attempt_inv (fst (attempt_run ops st)) (snd (attempt_run ops st))"
proof (induction ops arbitrary: st)
  case (Cons op ops)
  obtain tx sl where st: "st = (tx, sl)" by (cases st)
  have "attempt_inv (fst (attempt_apply op st)) (snd (attempt_apply op st))"
  proof (cases op)
    case (Op_revise f)
    obtain s tx' sl' where r: "revise_trial f tx sl = (s, tx', sl')" by (metis prod.exhaust)
    with revise_trial_inv [OF _ r] Cons.prems(1) show ?thesis by (simp add: Op_revise st)
  next
    case (Op_bind dep)
    obtain s tx' where r: "bind_dependency dep tx = (s, tx')" by (metis prod.exhaust)
    with bind_dependency_inv [OF _ r] Cons.prems show ?thesis by (simp add: Op_bind st)
  next
    case (Op_publish slot deps stamp w)
    obtain s tx' where r: "publish_cache slot deps stamp w tx = (s, tx')" by (metis prod.exhaust)
    with publish_cache_inv [OF _ r] Cons.prems(1) show ?thesis by (simp add: Op_publish st)
  qed
  with Cons.IH Cons.prems(2) show ?case by simp
qed simp


section \<open>Begin\<close>

lemma issue_trials_frame:
  "issue_trials is r tx sl = (s, tx', sl') \<Longrightarrow> layers_wf sl \<Longrightarrow>
   layers_wf sl' \<and> sl_field_count sl' = sl_field_count sl \<and> sl_state_fields sl' = sl_state_fields sl \<and>
   (is_ok s \<longrightarrow> tx' = tx) \<and> (\<not> is_ok s \<longrightarrow> tx' = tx\<lparr>tx_status := s\<rparr>)"
proof (induction "is" r tx sl rule: issue_trials.induct)
  case (2 i "is" r tx sl)
  show ?case
  proof (cases "sl_state_fields sl ! i")
    case True
    obtain t sl1 where t: "issue_revision r (of_nat i) sl = (t, sl1)" by (metis prod.exhaust)
    note w = issue_revision_wf' [OF "2.prems"(2) t] and f = issue_revision_frame [OF t]
    show ?thesis using "2.prems"(1) "2.IH"(1) [OF True t [symmetric]] True t w f
      by (cases "is_ok t") auto
  next
    case False
    then show ?thesis using 2 by simp
  qed
qed (auto simp: status_ok_def is_ok_def)

lemma bind_dependency_frame:
  "bind_dependency dep tx = (s, tx') \<Longrightarrow>
   tx_active tx' = tx_active tx \<and> tx_layers tx' = tx_layers tx \<and> tx_revised tx' = tx_revised tx"
  by (auto simp: bind_dependency_def latch_def Let_def split: if_splits option.splits)

lemma bind_trials_frame:
  "bind_trials is sl tx = (s, tx') \<Longrightarrow>
   tx_active tx' = tx_active tx \<and> tx_layers tx' = tx_layers tx \<and> tx_revised tx' = tx_revised tx"
  by (induction "is" arbitrary: tx) (auto split: if_splits prod.splits dest!: bind_dependency_frame)

lemma bind_trials_map:
  "bind_trials is sl tx = (s, tx') \<Longrightarrow> tx_wf tx \<Longrightarrow> is_ok s \<Longrightarrow> distinct (map (of_nat :: nat \<Rightarrow> u16) is) \<Longrightarrow>
   tx_wf tx' \<and> (\<forall>i \<in> set is. sl_state_fields sl ! i \<longrightarrow>
     catalog_map tx' (field_revision_source (of_nat i)) = Some (layers_revision sl Trial (of_nat i))) \<and>
   (\<forall>f. f \<notin> of_nat ` set is \<longrightarrow>
     catalog_map tx' (field_revision_source f) = catalog_map tx (field_revision_source f))"
proof (induction "is" arbitrary: tx)
  case (Cons i "is")
  show ?case
  proof (cases "sl_state_fields sl ! i")
    case True
    let ?d = "\<lparr>rd_source = field_revision_source (of_nat i), rd_revision = layers_revision sl Trial (of_nat i)\<rparr>"
    obtain t tx1 where t: "bind_dependency ?d tx = (t, tx1)" by (metis prod.exhaust)
    with True Cons.prems have ok: "is_ok t" "bind_trials is sl tx1 = (s, tx')"
      by (auto split: if_splits)
    have "catalog_wf tx" using Cons.prems(2) by (simp add: tx_wf_def)
    from bind_dependency_ok(2) [OF this t ok(1)]
    have m: "catalog_map tx1 = (catalog_map tx)(field_revision_source (of_nat i) \<mapsto> layers_revision sl Trial (of_nat i))"
      by simp
    note ih = Cons.IH [OF ok(2) bind_dependency_wf [OF Cons.prems(2) t] Cons.prems(3)]
    from ih m Cons.prems(4) show ?thesis by auto
  next
    case False
    with Cons.prems have "bind_trials is sl tx = (s, tx')" by simp
    from Cons.IH [OF this Cons.prems(2,3)] Cons.prems(4) False show ?thesis by auto
  qed
qed simp

lemma shape_field_count: "shape_wf sl \<Longrightarrow> sl_field_count sl \<le> 65536"
proof (rule ccontr)
  assume wf: "shape_wf sl" and n: "\<not> sl_field_count sl \<le> 65536"
  then have "65536 < length (st_fields (sl_storage sl))" by (simp add: shape_wf_def)
  then have "unat (al_id (st_fields (sl_storage sl) ! 65536)) = 65536"
    using wf by (simp add: shape_wf_def storage_ids_def)
  with unat_u16 [of "al_id (st_fields (sl_storage sl) ! 65536)"] show False by simp
qed

lemma of_nat_u16_inject: "i < 65536 \<Longrightarrow> j < 65536 \<Longrightarrow> (of_nat i :: u16) = of_nat j \<longleftrightarrow> i = j"
  by (auto dest: arg_cong [where f = unat] simp: unat_of_nat)

lemma transaction_begin_inv:
  assumes "transaction_begin addr tx sl next_id = ((s, tx', sl'), next')" "is_ok s"
    and "tx_wf tx" "layers_wf sl" "\<not> tx_active tx"
  shows "attempt_inv tx' sl' \<and> attempt_open tx' \<and> sl_state_fields sl' = sl_state_fields sl \<and>
    sl_field_count sl' = sl_field_count sl \<and> length (tx_revised tx') = sl_field_count sl'"
proof -
  obtain identity n where id: "issue_identity next_id = (identity, n)" by (metis prod.exhaust)
  let ?t1 = "open_attempt addr identity tx"
  from assms(1,2,5) id obtain t tx2 where st:
    "length (tx_revised ?t1) = sl_field_count sl"
    "issue_trials [0 ..< sl_field_count sl] (layers_handle sl Trial)
       (?t1\<lparr>tx_bound := st_identity (sl_storage sl)\<rparr>) sl = (t, tx2, sl')" "is_ok t"
    "bind_trials [0 ..< sl_field_count sl'] sl' tx2 = (s, tx')"
    by (auto simp: transaction_begin_def Let_def split: if_splits option.splits prod.splits)
  have wf1: "tx_wf (?t1\<lparr>tx_bound := st_identity (sl_storage sl)\<rparr>)"
    using assms(3) by (auto simp: tx_wf_def catalog_wf_def slots_wf_def bound_dependencies_def
        open_attempt_def Let_def)
  from issue_trials_frame [OF st(2) assms(4)] st(3) have fr: "layers_wf sl'"
    "sl_field_count sl' = sl_field_count sl" "sl_state_fields sl' = sl_state_fields sl"
    "tx2 = ?t1\<lparr>tx_bound := st_identity (sl_storage sl)\<rparr>" by auto
  have le: "sl_field_count sl' \<le> 65536" using fr(1) by (simp add: layers_wf_def shape_field_count)
  have "distinct (map (of_nat :: nat \<Rightarrow> u16) [0 ..< sl_field_count sl'])"
    using le by (auto simp: distinct_map inj_on_def of_nat_u16_inject)
  from bind_trials_map [OF st(4) _ assms(2) this] wf1 fr(4)
  have b: "tx_wf tx'" "\<And>i. i < sl_field_count sl' \<Longrightarrow> sl_state_fields sl' ! i \<Longrightarrow>
      catalog_map tx' (field_revision_source (of_nat i)) = Some (layers_revision sl' Trial (of_nat i))"
    by auto
  have "trials_bound tx' sl'" unfolding trials_bound_def
    using b(2) [of "unat f" for f :: u16] by (simp add: of_nat_unat ucast_id)
  moreover have "attempt_open tx' \<and> length (tx_revised tx') = sl_field_count sl'"
    using bind_trials_frame [OF st(4)] fr st(1) by (simp add: attempt_open_def open_attempt_def)
  ultimately show ?thesis using b(1) fr by (simp add: attempt_inv_def)
qed


section \<open>The verdict\<close>

lemma local_verdict_ok_iff:
  "is_ok (local_verdict ready reported tx sl) \<longleftrightarrow>
     attempt_open tx \<and> is_ok (tx_status tx) \<and> is_ok reported \<and>
     (if tx_writer tx \<noteq> None \<and> \<not> ready then False else required_published tx) \<and>
     all_revised tx sl \<and> dependencies_current tx"
  by (cases "scode reported") (auto simp: local_verdict_def Let_def attempt_open_def is_ok_def failed_def)

lemma verdict_dependencies:
  assumes "attempt_inv tx sl" "is_ok (local_verdict ready reported tx sl)"
    and "k < length (tx_pending_caches tx)" "d < tx_dep_counts tx ! k"
  shows "catalog_map tx (tx_dep_sources tx ! (k * tx_dep_capacity tx + d))
    = Some (tx_dep_revisions tx ! (k * tx_dep_capacity tx + d))"
proof -
  have "catalog_wf tx" using assms(1) by (simp add: attempt_inv_def tx_wf_def)
  moreover have "authorised tx (recorded tx k d)"
    using assms(2-4) by (auto simp: local_verdict_ok_iff dependencies_current_def)
  ultimately show ?thesis by (simp add: authorised_iff recorded_def)
qed

lemma latched_run:
  "attempt_open tx \<Longrightarrow> \<not> is_ok (tx_status tx) \<Longrightarrow> attempt_run ops (tx, sl) = (tx, sl)"
proof (induction ops)
  case (Cons op ops)
  then have "attempt_apply op (tx, sl) = (tx, sl)"
    by (cases op) (auto simp: attempt_open_def revise_trial_def bind_dependency_def publish_cache_def
        preflight_cache_def Let_def)
  with Cons show ?case by simp
qed simp

section \<open>Properties\<close>


definition example_transaction :: transaction where
  "example_transaction = snd (transaction_create True 2 1 3 empty_transaction)"

definition example_begun :: "transaction \<times> state_layers" where
  "example_begun = (case transaction_begin 7 example_transaction example_layers 6 of
     ((s, tx, sl), n) \<Rightarrow> (tx, sl))"

definition example_ops :: "attempt_op list" where
  "example_ops = [Op_revise 1, Op_bind \<lparr>rd_source = 70000, rd_revision = 4\<rparr>,
     Op_publish 0 (Span [\<lparr>rd_source = 2, rd_revision = 6\<rparr>]) 9 0]"

lemma example_begin:
  "transaction_begin 7 example_transaction example_layers 6
    = ((status_ok, fst example_begun, snd example_begun), 7)"
  by code_simp

lemma example_transaction_wf: "tx_wf example_transaction \<and> \<not> tx_active example_transaction"
  by code_simp

lemma example_ops_foreign: "\<forall>op \<in> set example_ops. foreign op"
  by (simp add: example_ops_def)

lemma example_verdict:
  "is_ok (local_verdict False status_ok (fst (attempt_run example_ops example_begun))
     (snd (attempt_run example_ops example_begun)))"
  by code_simp


text \<open>
  A latched failure is final: once an open attempt has failed, no revision, binding or
  publication changes the transaction or the layers any more, and the verdict is that failure
  whatever the rank reports.
\<close>

theorem latched_failure_final:
  assumes "attempt_open tx" "\<not> is_ok (tx_status tx)"
  shows "attempt_run ops (tx, sl) = (tx, sl) \<and> local_verdict ready reported tx sl = tx_status tx"
  using assms latched_run [OF assms]
  by (auto simp: local_verdict_def Let_def attempt_open_def)

theorem latched_failure_final_witness:
  "attempt_run [Op_revise 1] (snd (latch (failed Invalid_plan 3) (fst example_begun)), example_layers)
    = (snd (latch (failed Invalid_plan 3) (fst example_begun)), example_layers)"
proof -
  have "attempt_open (snd (latch (failed Invalid_plan 3) (fst example_begun)))"
    "\<not> is_ok (tx_status (snd (latch (failed Invalid_plan 3) (fst example_begun))))" by code_simp+
  from latched_failure_final [OF this] show ?thesis by blast
qed

text \<open>
  Creation and every operation of an attempt keep the transaction well-formed: every table has
  the length its indices assume, no slot records more dependencies than it can hold, and the
  catalogue has one non-zero revision per source.
\<close>

theorem transaction_invariant:
  "(is_ok (fst (transaction_create mem fc sc src out)) \<longrightarrow>
      tx_wf (snd (transaction_create mem fc sc src out))) \<and>
   (tx_wf tx \<longrightarrow> tx_wf (snd (bind_dependency dep tx)) \<and>
      tx_wf (snd (publish_cache slot deps stamp w tx)) \<and> tx_wf (snd (claim_writer slot w a tx)) \<and>
      tx_wf (invalidate_writer a tx) \<and> tx_wf (fst (snd (revise_trial f tx sl))))"
proof -
  have "tx_wf (snd (transaction_create mem fc sc src out))" if ok: "is_ok (fst (transaction_create mem fc sc src out))"
  proof -
    from ok have b: "sc = 0 \<or> \<not> src > u64_max div sc" "fc \<le> src"
      by (auto simp: transaction_create_def is_ok_def failed_def Let_def split: if_splits)
    have "unat sc * unat src < 2 ^ 64"
    proof (cases "sc = 0")
      case False
      then have "unat src \<le> (2 ^ 64 - 1) div unat sc"
        using b(1) by (simp add: word_le_nat_alt unat_div not_less)
      then have "unat src * unat sc \<le> 2 ^ 64 - 1"
        using False by (simp add: less_eq_div_iff_mult_less_eq unat_gt_0)
      then show ?thesis by (simp add: mult.commute)
    qed simp
    then have "unat (sc * src) = unat sc * unat src" by (simp add: unat_word_ariths)
    moreover have "unat fc \<le> unat src" using b(2) by (simp add: word_le_nat_alt)
    ultimately show ?thesis using ok
      by (auto simp: transaction_create_def is_ok_def failed_def Let_def tx_wf_def catalog_wf_def
          slots_wf_def bound_dependencies_def split: if_splits)
  qed
  moreover have "tx_wf (snd (bind_dependency dep tx))" "tx_wf (snd (publish_cache slot deps stamp w tx))"
    if "tx_wf tx" using that bind_dependency_wf publish_cache_wf by (metis prod.collapse)+
  moreover have "tx_wf (snd (claim_writer slot w a tx)) \<and> tx_wf (invalidate_writer a tx)" if "tx_wf tx"
    using that by (auto simp: claim_writer_def invalidate_writer_def Let_def)
      (auto simp: tx_wf_def catalog_wf_def slots_wf_def bound_dependencies_def Let_def)
  moreover have "tx_wf (fst (snd (revise_trial f tx sl)))" if "tx_wf tx"
  proof -
    obtain s tx' sl' where r: "revise_trial f tx sl = (s, tx', sl')" by (metis prod.exhaust)
    have "tx_wf (tx\<lparr>tx_revised := (tx_revised tx)[unat f := True]\<rparr>)"
      using that by (simp add: tx_wf_def catalog_wf_def slots_wf_def bound_dependencies_def Let_def)
    with revise_trial_cases [OF r] that bind_dependency_wf show ?thesis by (auto simp: r)
  qed
  ultimately show ?thesis by blast
qed


theorem transaction_invariant_witness:
  "tx_wf (snd (transaction_create True 2 1 3 empty_transaction)) \<and>
   tx_wf (snd (bind_dependency \<lparr>rd_source = 1, rd_revision = 4\<rparr> example_transaction))"
proof -
  have "is_ok (fst (transaction_create True 2 1 3 empty_transaction))" by code_simp
  moreover have "tx_wf example_transaction" using example_transaction_wf by blast
  ultimately show ?thesis using transaction_invariant by blast
qed

end
