(* ===== verification/Face_Storage.thy ===== *)
theory Face_Storage
  imports View_Intervals
begin

text \<open>
  \<^verbatim>\<open>FaceFluxStorage\<close> of \<^verbatim>\<open>solver_face_flux.cpp\<close>: the layout of the three directional face blocks of
  a replica, allocation, the views of a replica, their certificates, and the copy loops that move
  face values between views. A face value is the 64 bits of its double; \<open>is_finite\<close> is
  \<^verbatim>\<open>std::isfinite\<close> on them. The memory is a map from addresses, counted in doubles, to values.
\<close>

section \<open>Layout\<close>

record axis_layout =
  ax_extents :: int3
  ax_stride_y :: u64
  ax_stride_z :: u64
  ax_offset :: u64

record face_layout =
  fl_axes :: "axis_layout list"
  fl_replica_stride :: u64
  fl_doubles :: u64
  fl_bytes :: u64

definition valid_cells :: "int3 \<Rightarrow> bool" where
  "valid_cells c \<longleftrightarrow> 0 < x3 c \<and> 0 < y3 c \<and> 0 < z3 c"

definition extendable_cells :: "int3 \<Rightarrow> bool" where
  "extendable_cells c \<longleftrightarrow>
     valid_cells c \<and> x3 c \<noteq> int32_max \<and> y3 c \<noteq> int32_max \<and> z3 c \<noteq> int32_max"

definition axis_extents :: "int3 \<Rightarrow> int3 list" where
  "axis_extents c = [c\<lparr>x3 := x3 c + 1\<rparr>, c\<lparr>y3 := y3 c + 1\<rparr>, c\<lparr>z3 := z3 c + 1\<rparr>]"

text \<open>The blocks of the remaining axes from a cursor on.\<close>

fun place_axes :: "int3 list \<Rightarrow> u64 \<Rightarrow> (axis_layout list \<times> u64) option" where
  "place_axes [] cursor = Some ([], cursor)"
| "place_axes (e # es) cursor = do {
     guard (valid_cells e);
     stride_y \<leftarrow> checked_align (word_of_int (x3 e)) doubles_per_cache_line;
     stride_z \<leftarrow> checked_multiply stride_y (word_of_int (y3 e));
     offset \<leftarrow> checked_align cursor doubles_per_cache_line;
     block \<leftarrow> checked_multiply stride_z (word_of_int (z3 e));
     cursor' \<leftarrow> checked_add offset block;
     (rest, last_cursor) \<leftarrow> place_axes es cursor';
     Some (\<lparr>ax_extents = e, ax_stride_y = stride_y, ax_stride_z = stride_z, ax_offset = offset\<rparr> # rest,
           last_cursor)
   }"

definition face_storage_layout :: "int3 \<Rightarrow> u64 \<Rightarrow> face_layout option" where
  "face_storage_layout cells replicas = do {
     guard (extendable_cells cells \<and> replicas \<noteq> 0);
     (axes, cursor) \<leftarrow> place_axes (axis_extents cells) 0;
     replica_stride \<leftarrow> checked_align cursor doubles_per_cache_line;
     doubles \<leftarrow> checked_multiply replica_stride replicas;
     bytes \<leftarrow> checked_multiply doubles size_of_double;
     guard (bytes \<noteq> 0);
     Some \<lparr>fl_axes = axes, fl_replica_stride = replica_stride, fl_doubles = doubles, fl_bytes = bytes\<rparr>
   }"

section \<open>Storage, views and certificates\<close>

record flux_counters =
  fk_allocations :: u64
  fk_bytes :: u64
  fk_replicas :: u64
  fk_blocks :: u64

record flux_storage =
  fs_data :: pointer
  fs_cells :: int3
  fs_axes :: "axis_layout list"
  fs_replica_stride :: u64
  fs_replicas :: u64
  fs_identity :: u64
  fs_domain :: u64
  fs_counters :: flux_counters
  fs_authority :: u64
  fs_pending_writer_id :: u64
  fs_pending_attempt :: u64
  fs_pending_writer :: "nat option"
  fs_final :: bool

record face_certificate =
  fc_revision :: revision_token
  fc_authority :: u64
  fc_storage :: u64
  fc_domain :: u64
  fc_bases :: "pointer list"
  fc_strides :: "(u64 \<times> u64) list"
  fc_cells :: int3

record flux_view =
  fx_x :: face_view
  fx_y :: face_view
  fx_z :: face_view
  fx_revision :: revision_token
  fx_certificate :: face_certificate

definition zero3 :: int3 where "zero3 = \<lparr>x3 = 0, y3 = 0, z3 = 0\<rparr>"

definition empty_face :: face_view where
  "empty_face = \<lparr>ff_base = None, ff_extents = zero3, ff_stride_y = 0, ff_stride_z = 0, ff_axis = Axis_x,
     ff_storage_identity = 0, ff_revision_domain = 0\<rparr>"

definition empty_certificate :: face_certificate where
  "empty_certificate = \<lparr>fc_revision = 0, fc_authority = 0, fc_storage = 0, fc_domain = 0,
     fc_bases = [None, None, None], fc_strides = [(0, 0), (0, 0), (0, 0)], fc_cells = zero3\<rparr>"

definition zero_flux_counters :: flux_counters where
  "zero_flux_counters = \<lparr>fk_allocations = 0, fk_bytes = 0, fk_replicas = 0, fk_blocks = 0\<rparr>"

definition empty_axis :: axis_layout where
  "empty_axis = \<lparr>ax_extents = zero3, ax_stride_y = 0, ax_stride_z = 0, ax_offset = 0\<rparr>"

definition empty_flux_storage :: flux_storage where
  "empty_flux_storage = \<lparr>fs_data = None, fs_cells = zero3, fs_axes = [empty_axis, empty_axis, empty_axis],
     fs_replica_stride = 0, fs_replicas = 0, fs_identity = 0, fs_domain = 0,
     fs_counters = zero_flux_counters, fs_authority = 0, fs_pending_writer_id = 0,
     fs_pending_attempt = 0, fs_pending_writer = None, fs_final = False\<rparr>"

section \<open>Allocation\<close>

text \<open>
  \<open>block\<close> is the answer of \<^verbatim>\<open>operator new\<close>, \<open>None\<close> for \<^verbatim>\<open>std::bad_alloc\<close>. On success the storage
  and the zeroed memory are returned; on failure both are unchanged. A storage that owns no data
  and no authority holds no lease, so the destruction of its swapped-out value has no effect.
\<close>

definition zero_fill :: "int \<Rightarrow> u64 \<Rightarrow> (int \<Rightarrow> u64) \<Rightarrow> int \<Rightarrow> u64" where
  "zero_fill base doubles m = (\<lambda>a. if base \<le> a \<and> a < base + int (unat doubles) then 0 else m a)"

definition flux_allocate ::
  "nat option \<Rightarrow> int3 \<Rightarrow> u64 \<Rightarrow> bool \<Rightarrow> flux_storage \<Rightarrow> (int \<Rightarrow> u64) \<Rightarrow> u64 \<Rightarrow>
   status \<times> flux_storage \<times> (int \<Rightarrow> u64) \<times> u64" where
  "flux_allocate block cells replicas final out m next_id =
     (if fs_data out \<noteq> None \<or> fs_authority out \<noteq> 0 \<or> \<not> extendable_cells cells \<or> replicas = 0
      then (failed Invalid_plan 912, out, m, next_id)
      else case face_storage_layout cells replicas of
        None \<Rightarrow> (failed Invalid_plan 912, out, m, next_id)
      | Some layout \<Rightarrow>
      case block of
        None \<Rightarrow> (failed Allocation_failure 0, out, m, next_id)
      | Some base \<Rightarrow>
          let m' = zero_fill (int base) (fl_doubles layout) m;
              (identity, next1) = issue_identity next_id;
              (domain, next2) = issue_identity next1 in
          if identity = 0 \<or> domain = 0 then (failed Invalid_plan 911, out, m', next2)
          else if replicas > u64_max div 3 then (failed Invalid_plan 912, out, m', next2)
          else (status_ok,
            \<lparr>fs_data = Some (int base), fs_cells = cells, fs_axes = fl_axes layout,
              fs_replica_stride = fl_replica_stride layout, fs_replicas = replicas,
              fs_identity = identity, fs_domain = domain,
              fs_counters = \<lparr>fk_allocations = 1, fk_bytes = fl_bytes layout, fk_replicas = replicas,
                fk_blocks = replicas * 3\<rparr>,
              fs_authority = 0, fs_pending_writer_id = 0, fs_pending_attempt = 0,
              fs_pending_writer = None, fs_final = final\<rparr>, m', next2))"

definition workspace_bytes :: "int3 \<Rightarrow> u64 \<Rightarrow> status \<times> u64" where
  "workspace_bytes cells replicas =
     (case face_storage_layout cells replicas of
        None \<Rightarrow> (failed Invalid_plan 912, 0) | Some layout \<Rightarrow> (status_ok, fl_bytes layout))"

definition allocate_workspace ::
  "nat option \<Rightarrow> int3 \<Rightarrow> u64 \<Rightarrow> flux_storage \<Rightarrow> (int \<Rightarrow> u64) \<Rightarrow> u64 \<Rightarrow>
   status \<times> flux_storage \<times> (int \<Rightarrow> u64) \<times> u64" where
  "allocate_workspace block cells replicas out m next_id =
     flux_allocate block cells replicas False out m next_id"

definition final_replicas :: u64 where "final_replicas = 3"

definition allocate_final ::
  "nat option \<Rightarrow> int3 \<Rightarrow> flux_storage \<Rightarrow> (int \<Rightarrow> u64) \<Rightarrow> u64 \<Rightarrow>
   status \<times> flux_storage \<times> (int \<Rightarrow> u64) \<times> u64" where
  "allocate_final block cells out m next_id = flux_allocate block cells final_replicas True out m next_id"

section \<open>Views of a replica\<close>

definition axis_view :: "flux_storage \<Rightarrow> int \<Rightarrow> nat \<Rightarrow> cartesian_axis \<Rightarrow> face_view" where
  "axis_view st replica_base k axis =
     (let a = fs_axes st ! k in
      \<lparr>ff_base = Some (replica_base + int (unat (ax_offset a))), ff_extents = ax_extents a,
        ff_stride_y = ax_stride_y a, ff_stride_z = ax_stride_z a, ff_axis = axis,
        ff_storage_identity = fs_identity st, ff_revision_domain = fs_domain st\<rparr>)"

definition flux_view_impl :: "flux_storage \<Rightarrow> nat \<Rightarrow> revision_token \<Rightarrow> status + flux_view" where
  "flux_view_impl st replica revision =
     (case fs_data st of
        None \<Rightarrow> Inl (failed Invalid_plan 911)
      | Some data \<Rightarrow>
          if replica \<ge> unat (fs_replicas st) \<or> revision = 0 \<or> fs_identity st = 0 \<or> fs_domain st = 0
          then Inl (failed Invalid_plan 911)
          else let base = data + int (unat (of_nat replica * fs_replica_stride st)) in
            Inr \<lparr>fx_x = axis_view st base 0 Axis_x, fx_y = axis_view st base 1 Axis_y,
              fx_z = axis_view st base 2 Axis_z, fx_revision = revision,
              fx_certificate = empty_certificate\<rparr>)"

text \<open>\<^verbatim>\<open>workspace_view\<close> and \<^verbatim>\<open>view\<close>: a final storage is reached through its writer only.\<close>

definition workspace_view :: "flux_storage \<Rightarrow> nat \<Rightarrow> revision_token \<Rightarrow> status + flux_view" where
  "workspace_view st replica revision =
     (if fs_final st then Inl (failed Invalid_plan 913) else flux_view_impl st replica revision)"

definition certificate_valid :: "face_certificate \<Rightarrow> bool" where
  "certificate_valid c \<longleftrightarrow>
     fc_revision c \<noteq> 0 \<and> fc_authority c \<noteq> 0 \<and> fc_storage c \<noteq> 0 \<and> fc_domain c \<noteq> 0 \<and>
     None \<notin> set (fc_bases c) \<and> valid_cells (fc_cells c)"

definition flux_faces :: "flux_view \<Rightarrow> face_view list" where
  "flux_faces f = [fx_x f, fx_y f, fx_z f]"

definition certificate_matches :: "face_certificate \<Rightarrow> flux_view \<Rightarrow> bool" where
  "certificate_matches c f \<longleftrightarrow>
     certificate_valid c \<and> fx_certificate f = c \<and> fx_revision f = fc_revision c \<and>
     (\<forall>v \<in> set (flux_faces f). ff_storage_identity v = fc_storage c \<and> ff_revision_domain v = fc_domain c) \<and>
     map ff_base (flux_faces f) = fc_bases c \<and> map ff_axis (flux_faces f) = [Axis_x, Axis_y, Axis_z] \<and>
     map (\<lambda>v. (ff_stride_y v, ff_stride_z v)) (flux_faces f) = fc_strides c \<and>
     map ff_extents (flux_faces f) = axis_extents (fc_cells c)"

text \<open>The certificate a writer puts on a view of its storage.\<close>

definition certify :: "u64 \<Rightarrow> revision_token \<Rightarrow> flux_storage \<Rightarrow> flux_view \<Rightarrow> flux_view" where
  "certify authority revision st f =
     f\<lparr>fx_certificate := \<lparr>fc_revision = revision, fc_authority = authority, fc_storage = fs_identity st,
        fc_domain = fs_domain st, fc_bases = map ff_base (flux_faces f),
        fc_strides = map (\<lambda>v. (ff_stride_y v, ff_stride_z v)) (flux_faces f),
        fc_cells = fs_cells st\<rparr>\<rparr>"

section \<open>Admissible flux views\<close>

definition valid_face :: "face_view \<Rightarrow> cartesian_axis \<Rightarrow> int3 \<Rightarrow> bool" where
  "valid_face v expected extents \<longleftrightarrow>
     face_storage_interval v \<noteq> None \<and> ff_axis v = expected \<and> ff_extents v = extents \<and>
     ff_storage_identity v \<noteq> 0 \<and> ff_revision_domain v \<noteq> 0"

definition valid_flux_view :: "flux_view \<Rightarrow> int3 \<Rightarrow> revision_token \<Rightarrow> bool" where
  "valid_flux_view f cells required \<longleftrightarrow>
     extendable_cells cells \<and> fx_revision f \<noteq> 0 \<and> (required = 0 \<or> fx_revision f = required) \<and>
     valid_face (fx_x f) Axis_x (axis_extents cells ! 0) \<and>
     valid_face (fx_y f) Axis_y (axis_extents cells ! 1) \<and>
     valid_face (fx_z f) Axis_z (axis_extents cells ! 2) \<and>
     \<not> face_views_overlap (fx_x f) (fx_y f) \<and> \<not> face_views_overlap (fx_x f) (fx_z f) \<and>
     \<not> face_views_overlap (fx_y f) (fx_z f) \<and>
     ff_storage_identity (fx_x f) = ff_storage_identity (fx_y f) \<and>
     ff_storage_identity (fx_x f) = ff_storage_identity (fx_z f) \<and>
     ff_revision_domain (fx_x f) = ff_revision_domain (fx_y f) \<and>
     ff_revision_domain (fx_x f) = ff_revision_domain (fx_z f)"

section \<open>Values\<close>

definition is_finite :: "u64 \<Rightarrow> bool" where
  "is_finite w \<longleftrightarrow> drop_bit 52 w AND 0x7FF \<noteq> 0x7FF"

text \<open>The positions of a box of faces in the order of the loops.\<close>

definition face_positions :: "int3 \<Rightarrow> int3 list" where
  "face_positions e =
     concat (map (\<lambda>z. concat (map (\<lambda>y. map (\<lambda>x. \<lparr>x3 = x, y3 = y, z3 = z\<rparr>) [0 .. x3 e - 1])
       [0 .. y3 e - 1])) [0 .. z3 e - 1])"

definition face_finite :: "(int \<Rightarrow> u64) \<Rightarrow> face_view \<Rightarrow> bool" where
  "face_finite m v \<longleftrightarrow> (\<forall>i \<in> set (face_positions (ff_extents v)). is_finite (m (face_cell v i)))"

definition flux_finite :: "(int \<Rightarrow> u64) \<Rightarrow> flux_view \<Rightarrow> bool" where
  "flux_finite m f \<longleftrightarrow> (\<forall>v \<in> set (flux_faces f). face_finite m v)"

definition copy_face :: "face_view \<Rightarrow> face_view \<Rightarrow> (int \<Rightarrow> u64) \<Rightarrow> int \<Rightarrow> u64" where
  "copy_face input output m =
     fold (\<lambda>i m. m(face_cell output i := m (face_cell input i))) (face_positions (ff_extents input)) m"

definition copy_flux :: "flux_view \<Rightarrow> flux_view \<Rightarrow> (int \<Rightarrow> u64) \<Rightarrow> int \<Rightarrow> u64" where
  "copy_flux input output m =
     copy_face (fx_z input) (fx_z output)
       (copy_face (fx_y input) (fx_y output) (copy_face (fx_x input) (fx_x output) m))"

end
