(* ===== verification/Face_Writer.thy ===== *)
theory Face_Writer
  imports Face_Storage Attempt_State
begin

text \<open>
  \<^verbatim>\<open>FinalFaceFluxWriter\<close>, \<^verbatim>\<open>FinalFaceFluxAuthority\<close>, \<^verbatim>\<open>PendingFaceFluxView\<close> and
  \<^verbatim>\<open>FaceFluxConsumer\<close> of \<^verbatim>\<open>solver_face_flux.cpp\<close>. These objects point at each other, at a
  transaction and at a storage, and most operations change several of them, so they live in one
  store: a \<open>world\<close> maps addresses to objects of each class, and holds the face values and the
  identity counter. An operation takes the addresses of its object and arguments.
\<close>

section \<open>The store\<close>

record pending_view =
  pv_x :: face_view
  pv_y :: face_view
  pv_z :: face_view
  pv_revision :: revision_token
  pv_writer_identity :: u64
  pv_attempt_identity :: u64
  pv_storage :: "nat option"
  pv_writer :: "nat option"

record flux_writer =
  fw_stage :: stage_id
  fw_slot :: revision_slot
  fw_fingerprint :: u64
  fw_active_revision :: revision_token
  fw_previous_revision :: revision_token
  fw_pending_revision :: revision_token
  fw_attempt :: u64
  fw_active_replica :: nat
  fw_previous_replica :: nat
  fw_pending_replica :: nat
  fw_authority_tx :: "nat option"
  fw_tx :: "nat option"
  fw_storage :: "nat option"
  fw_view :: "nat option"
  fw_bound_identity :: u64
  fw_bound_domain :: u64
  fw_bound_cells :: int3
  fw_issued :: bool
  fw_pending :: bool
  fw_published :: bool

record world =
  w_mem :: "int \<Rightarrow> u64"
  w_layers :: "nat \<Rightarrow> state_layers"
  w_txs :: "nat \<Rightarrow> transaction"
  w_writers :: "nat \<Rightarrow> flux_writer"
  w_storages :: "nat \<Rightarrow> flux_storage"
  w_views :: "nat \<Rightarrow> pending_view"
  w_next :: u64

definition empty_pending_view :: pending_view where
  "empty_pending_view = \<lparr>pv_x = empty_face, pv_y = empty_face, pv_z = empty_face, pv_revision = 0,
     pv_writer_identity = 0, pv_attempt_identity = 0, pv_storage = None, pv_writer = None\<rparr>"

definition empty_writer :: flux_writer where
  "empty_writer = \<lparr>fw_stage = 0, fw_slot = 0, fw_fingerprint = 0, fw_active_revision = 0,
     fw_previous_revision = 0, fw_pending_revision = 0, fw_attempt = 0, fw_active_replica = 0,
     fw_previous_replica = 0, fw_pending_replica = 1, fw_authority_tx = None, fw_tx = None,
     fw_storage = None, fw_view = None, fw_bound_identity = 0, fw_bound_domain = 0,
     fw_bound_cells = zero3, fw_issued = False, fw_pending = False, fw_published = False\<rparr>"

definition set_tx :: "nat \<Rightarrow> transaction \<Rightarrow> world \<Rightarrow> world" where
  "set_tx t tx w = w\<lparr>w_txs := (w_txs w)(t := tx)\<rparr>"

definition set_writer :: "nat \<Rightarrow> flux_writer \<Rightarrow> world \<Rightarrow> world" where
  "set_writer a wr w = w\<lparr>w_writers := (w_writers w)(a := wr)\<rparr>"

definition set_storage :: "nat \<Rightarrow> flux_storage \<Rightarrow> world \<Rightarrow> world" where
  "set_storage s st w = w\<lparr>w_storages := (w_storages w)(s := st)\<rparr>"

definition set_view :: "nat \<Rightarrow> pending_view \<Rightarrow> world \<Rightarrow> world" where
  "set_view v pv w = w\<lparr>w_views := (w_views w)(v := pv)\<rparr>"

section \<open>Leases\<close>

definition clear_storage_lease :: "nat \<Rightarrow> world \<Rightarrow> world" where
  "clear_storage_lease a w =
     (case fw_storage (w_writers w a) of
        None \<Rightarrow> w
      | Some s \<Rightarrow>
          if fs_pending_writer (w_storages w s) = Some a
          then set_storage s ((w_storages w s)\<lparr>fs_pending_writer_id := 0, fs_pending_attempt := 0,
                 fs_pending_writer := None\<rparr>) w
          else w)"

definition invalidate_pending_view :: "nat \<Rightarrow> world \<Rightarrow> world" where
  "invalidate_pending_view a w =
     (case fw_view (w_writers w a) of
        None \<Rightarrow> w
      | Some v \<Rightarrow> set_writer a ((w_writers w a)\<lparr>fw_view := None\<rparr>) (set_view v empty_pending_view w))"

definition drop_pending :: "flux_writer \<Rightarrow> flux_writer" where
  "drop_pending wr = wr\<lparr>fw_pending_revision := 0, fw_attempt := 0, fw_storage := None,
     fw_pending := False, fw_published := False\<rparr>"

definition detach_from_transaction :: "nat \<Rightarrow> nat \<Rightarrow> world \<Rightarrow> world" where
  "detach_from_transaction a t w =
     (let w1 = (if fw_tx (w_writers w a) = Some t
                then let w' = invalidate_pending_view a (clear_storage_lease a w) in
                  set_writer a ((drop_pending (w_writers w' a))\<lparr>fw_tx := None\<rparr>) w'
                else w) in
      if fw_authority_tx (w_writers w1 a) = Some t
      then set_writer a ((w_writers w1 a)\<lparr>fw_authority_tx := None\<rparr>) w1 else w1)"

definition invalidate_transaction_of :: "nat \<Rightarrow> world \<Rightarrow> world" where
  "invalidate_transaction_of a w =
     (case fw_tx (w_writers w a) of
        None \<Rightarrow> w | Some t \<Rightarrow> set_tx t (invalidate_writer a (w_txs w t)) w)"

definition detach_from_storage :: "nat \<Rightarrow> nat \<Rightarrow> world \<Rightarrow> world" where
  "detach_from_storage a s w =
     (if fw_storage (w_writers w a) \<noteq> Some s then w
      else let w' = invalidate_pending_view a (clear_storage_lease a (invalidate_transaction_of a w)) in
        set_writer a (drop_pending (w_writers w' a)) w')"

definition abandon_pending_view :: "nat \<Rightarrow> nat \<Rightarrow> world \<Rightarrow> world" where
  "abandon_pending_view a v w =
     (if fw_view (w_writers w a) \<noteq> Some v then w
      else let w' = clear_storage_lease a (invalidate_transaction_of a w) in
        set_view v empty_pending_view
          (set_writer a ((drop_pending (w_writers w' a))\<lparr>fw_view := None, fw_tx := None\<rparr>) w'))"

section \<open>Destruction of the other objects\<close>

definition view_destroy :: "nat \<Rightarrow> world \<Rightarrow> world" where
  "view_destroy v w =
     (case pv_writer (w_views w v) of None \<Rightarrow> w | Some a \<Rightarrow> abandon_pending_view a v w)"

definition flux_storage_release :: "nat \<Rightarrow> world \<Rightarrow> world" where
  "flux_storage_release s w =
     set_storage s empty_flux_storage
       (case fs_pending_writer (w_storages w s) of None \<Rightarrow> w | Some a \<Rightarrow> detach_from_storage a s w)"

definition detach_flux_writer :: "nat \<Rightarrow> nat \<Rightarrow> bool \<Rightarrow> world \<Rightarrow> world" where
  "detach_flux_writer t a fail_active w =
     (if tx_writer (w_txs w t) \<noteq> Some a then w
      else let tx = w_txs w t;
               tx1 = (if fail_active \<and> tx_active tx \<and> is_ok (tx_status tx)
                      then tx\<lparr>tx_status := failed Invalid_plan 5\<rparr> else tx);
               w2 = detach_from_transaction a t (set_tx t tx1 w);
               tx2 = (w_txs w2 t)\<lparr>tx_writer := None\<rparr> in
        set_tx t (if tx_active tx2 then advance_mutation tx2 else tx2) w2)"

definition writer_destroy :: "nat \<Rightarrow> world \<Rightarrow> world" where
  "writer_destroy a w =
     (case fw_authority_tx (w_writers w a) of
        Some t \<Rightarrow> detach_flux_writer t a True w
      | None \<Rightarrow>
          let w' = invalidate_pending_view a (clear_storage_lease a w) in
          set_writer a ((w_writers w' a)\<lparr>fw_tx := None, fw_storage := None, fw_pending := False,
            fw_published := False\<rparr>) w')"

definition transaction_destroy :: "nat \<Rightarrow> world \<Rightarrow> world" where
  "transaction_destroy t w =
     (let w' = (case tx_writer (w_txs w t) of None \<Rightarrow> w | Some a \<Rightarrow> detach_from_transaction a t w) in
      set_tx t ((w_txs w' t)\<lparr>tx_writer := None, tx_writer_identity := 0, tx_layers := None,
        tx_active := False\<rparr>) w')"

section \<open>Claim and begin\<close>

record flux_authority =
  fa_fingerprint :: u64
  fa_claimed :: bool

definition authority_claim ::
  "stage_id \<Rightarrow> revision_slot \<Rightarrow> nat \<Rightarrow> nat \<Rightarrow> flux_authority \<Rightarrow> world \<Rightarrow> status \<times> flux_authority \<times> world" where
  "authority_claim stage slot t a auth w =
     (if fa_claimed auth \<or> fw_issued (w_writers w a) \<or> stage = 0
      then (failed Invalid_plan 913, auth, w)
      else let (identity, next') = issue_identity (w_next w); w1 = w\<lparr>w_next := next'\<rparr> in
        if identity = 0 then (failed Invalid_plan 913, auth, w1)
        else case claim_writer slot identity a (w_txs w1 t) of (mandatory, tx') \<Rightarrow>
          if \<not> is_ok mandatory then (mandatory, auth, w1)
          else (status_ok, \<lparr>fa_fingerprint = identity, fa_claimed = True\<rparr>,
            set_writer a ((w_writers w1 a)\<lparr>fw_stage := stage, fw_slot := slot,
              fw_fingerprint := identity, fw_authority_tx := Some t, fw_issued := True\<rparr>)
              (set_tx t tx' w1)))"

definition pending_view_impl ::
  "nat \<Rightarrow> nat \<Rightarrow> revision_token \<Rightarrow> u64 \<Rightarrow> u64 \<Rightarrow> nat \<Rightarrow> world \<Rightarrow> status \<times> world" where
  "pending_view_impl s replica revision writer_identity attempt_identity v w =
     (case flux_view_impl (w_storages w s) replica revision of
        Inl e \<Rightarrow> (e, w)
      | Inr raw \<Rightarrow>
          if writer_identity = 0 \<or> attempt_identity = 0 \<or> \<not> fs_final (w_storages w s)
          then (failed Invalid_plan 913, w)
          else if pv_revision (w_views w v) \<noteq> 0 then (failed Invalid_plan 913, w)
          else (status_ok, set_view v ((w_views w v)\<lparr>pv_x := fx_x raw, pv_y := fx_y raw, pv_z := fx_z raw,
            pv_revision := revision, pv_writer_identity := writer_identity,
            pv_attempt_identity := attempt_identity, pv_storage := Some s\<rparr>) w))"

definition begin_refused :: "flux_writer \<Rightarrow> nat \<Rightarrow> transaction \<Rightarrow> flux_storage \<Rightarrow> bool" where
  "begin_refused wr t tx st \<longleftrightarrow>
     \<not> fw_issued wr \<or> fw_pending wr \<or> fw_authority_tx wr \<noteq> Some t \<or> \<not> tx_active tx \<or> tx_attempt tx = 0 \<or>
     fs_replicas st \<noteq> final_replicas \<or> \<not> fs_final st \<or> fw_storage wr \<noteq> None \<or> fw_tx wr \<noteq> None \<or>
     (fs_authority st \<noteq> 0 \<and> fs_authority st \<noteq> fw_fingerprint wr) \<or>
     (fw_bound_identity wr \<noteq> 0 \<and>
       (fw_bound_identity wr \<noteq> fs_identity st \<or> fw_bound_domain wr \<noteq> fs_domain st \<or>
        fw_bound_cells wr \<noteq> fs_cells st)) \<or>
     fw_pending_replica wr \<ge> 3 \<or> fw_pending_replica wr = fw_active_replica wr \<or>
     (fw_previous_revision wr \<noteq> 0 \<and> fw_pending_replica wr = fw_previous_replica wr)"

definition begin_pending :: "nat \<Rightarrow> nat \<Rightarrow> nat \<Rightarrow> nat \<Rightarrow> world \<Rightarrow> status \<times> world" where
  "begin_pending a t s v w =
     (let wr = w_writers w a; tx = w_txs w t; st = w_storages w s;
          candidate = (if fw_active_revision wr = 0 then 1 else fw_active_revision wr + 1) in
      if begin_refused wr t tx st \<or> candidate = 0 \<or> candidate \<le> fw_active_revision wr
      then (failed Invalid_plan 914, w)
      else case pending_view_impl s (fw_pending_replica wr) candidate (fw_fingerprint wr) (tx_attempt tx) v w of
        (viewed, w1) \<Rightarrow>
          if \<not> is_ok viewed then (viewed, w1)
          else (status_ok,
            set_storage s (st\<lparr>fs_pending_writer_id := fw_fingerprint wr, fs_pending_attempt := tx_attempt tx,
              fs_pending_writer := Some a, fs_authority := fw_fingerprint wr\<rparr>)
            (set_view v ((w_views w1 v)\<lparr>pv_writer := Some a\<rparr>)
            (set_writer a (wr\<lparr>fw_pending_revision := candidate, fw_attempt := tx_attempt tx,
               fw_tx := Some t, fw_storage := Some s, fw_view := Some v,
               fw_bound_identity := (if fw_bound_identity wr = 0 then fs_identity st else fw_bound_identity wr),
               fw_bound_domain := (if fw_bound_identity wr = 0 then fs_domain st else fw_bound_domain wr),
               fw_bound_cells := (if fw_bound_identity wr = 0 then fs_cells st else fw_bound_cells wr),
               fw_pending := True, fw_published := False\<rparr>) w1))))"


section \<open>Initial and restored states\<close>

text \<open>The refusals the initialisations share.\<close>

definition initial_refused :: "flux_writer \<Rightarrow> flux_storage \<Rightarrow> world \<Rightarrow> bool" where
  "initial_refused wr st w \<longleftrightarrow>
     \<not> fw_issued wr \<or> fw_active_revision wr \<noteq> 0 \<or> fw_previous_revision wr \<noteq> 0 \<or> fw_pending wr \<or>
     (case fw_authority_tx wr of None \<Rightarrow> True | Some t \<Rightarrow> tx_active (w_txs w t)) \<or>
     fs_replicas st \<noteq> final_replicas \<or> \<not> fs_final st \<or> fs_authority st \<noteq> 0 \<or>
     fs_pending_writer st \<noteq> None \<or> fw_storage wr \<noteq> None \<or> fw_tx wr \<noteq> None"

definition install ::
  "nat \<Rightarrow> nat \<Rightarrow> nat \<Rightarrow> nat \<Rightarrow> nat \<Rightarrow> revision_token \<Rightarrow> revision_token \<Rightarrow> world \<Rightarrow> world" where
  "install a s active previous pending active_revision previous_revision w =
     (let st = w_storages w s; wr = w_writers w a in
      set_storage s (st\<lparr>fs_authority := fw_fingerprint wr\<rparr>)
        (set_writer a (wr\<lparr>fw_active_replica := active, fw_previous_replica := previous,
           fw_pending_replica := pending, fw_active_revision := active_revision,
           fw_previous_revision := previous_revision, fw_bound_identity := fs_identity st,
           fw_bound_domain := fs_domain st, fw_bound_cells := fs_cells st\<rparr>) w))"

definition initialize_at ::
  "nat \<Rightarrow> nat \<Rightarrow> revision_token \<Rightarrow> flux_view \<Rightarrow> world \<Rightarrow> status \<times> world" where
  "initialize_at a s revision source w =
     (if \<not> flux_finite (w_mem w) source then (failed Numerical_failure 913, w)
      else case flux_view_impl (w_storages w s) 0 revision of
        Inl e \<Rightarrow> (e, w)
      | Inr destination \<Rightarrow>
          (status_ok, install a s 0 0 1 revision revision
             (w\<lparr>w_mem := copy_flux source destination (w_mem w)\<rparr>)))"

definition initialize_committed :: "nat \<Rightarrow> nat \<Rightarrow> flux_view \<Rightarrow> world \<Rightarrow> status \<times> world" where
  "initialize_committed a s source w =
     (if initial_refused (w_writers w a) (w_storages w s) w \<or>
         \<not> valid_flux_view source (fs_cells (w_storages w s)) (fx_revision source)
      then (failed Invalid_plan 913, w) else initialize_at a s 1 source w)"

definition initialize_restored :: "nat \<Rightarrow> nat \<Rightarrow> flux_view \<Rightarrow> world \<Rightarrow> status \<times> world" where
  "initialize_restored a s source w =
     (if initial_refused (w_writers w a) (w_storages w s) w \<or>
         fw_bound_identity (w_writers w a) \<noteq> 0 \<or> fw_bound_domain (w_writers w a) \<noteq> 0 \<or>
         \<not> valid_flux_view source (fs_cells (w_storages w s)) (fx_revision source)
      then (failed Invalid_plan 913, w) else initialize_at a s 2 source w)"

definition initialize_restored_history ::
  "nat \<Rightarrow> nat \<Rightarrow> flux_view \<Rightarrow> flux_view \<Rightarrow> world \<Rightarrow> status \<times> world" where
  "initialize_restored_history a s accepted previous w =
     (let st = w_storages w s in
      if initial_refused (w_writers w a) st w \<or>
         fw_bound_identity (w_writers w a) \<noteq> 0 \<or> fw_bound_domain (w_writers w a) \<noteq> 0 \<or>
         \<not> valid_flux_view accepted (fs_cells st) (fx_revision accepted) \<or>
         \<not> valid_flux_view previous (fs_cells st) (fx_revision previous) \<or>
         fx_revision previous \<ge> fx_revision accepted \<or> fx_revision accepted = u64_max
      then (failed Invalid_plan 913, w)
      else if \<not> flux_finite (w_mem w) previous \<or> \<not> flux_finite (w_mem w) accepted
      then (failed Numerical_failure 913, w)
      else case flux_view_impl st 0 (fx_revision previous) of
        Inl e \<Rightarrow> (e, w)
      | Inr d0 \<Rightarrow>
          let w1 = w\<lparr>w_mem := copy_flux previous d0 (w_mem w)\<rparr> in
          (case flux_view_impl st 1 (fx_revision accepted) of
             Inl e \<Rightarrow> (e, w1)
           | Inr d1 \<Rightarrow>
               (status_ok, install a s 1 0 2 (fx_revision accepted) (fx_revision previous)
                  (w1\<lparr>w_mem := copy_flux accepted d1 (w_mem w1)\<rparr>))))"

definition restore_committed :: "nat \<Rightarrow> nat \<Rightarrow> flux_view \<Rightarrow> world \<Rightarrow> status \<times> world" where
  "restore_committed a s source w =
     (let wr = w_writers w a; st = w_storages w s; restored = fw_active_revision wr + 1 in
      if \<not> fw_issued wr \<or> fw_active_revision wr = 0 \<or> fw_pending wr \<or>
         (case fw_authority_tx wr of None \<Rightarrow> True | Some t \<Rightarrow> tx_active (w_txs w t)) \<or>
         fs_replicas st \<noteq> final_replicas \<or> \<not> fs_final st \<or> fs_authority st \<noteq> fw_fingerprint wr \<or>
         fs_pending_writer st \<noteq> None \<or> fw_storage wr \<noteq> None \<or> fw_tx wr \<noteq> None \<or>
         fw_bound_identity wr \<noteq> fs_identity st \<or> fw_bound_domain wr \<noteq> fs_domain st \<or>
         fw_bound_cells wr \<noteq> fs_cells st \<or> \<not> valid_flux_view source (fs_cells st) (fx_revision source)
      then (failed Invalid_plan 913, w)
      else if \<not> flux_finite (w_mem w) source then (failed Numerical_failure 913, w)
      else if restored = 0 then (failed Invalid_plan 913, w)
      else case flux_view_impl st (fw_active_replica wr) restored of
        Inl e \<Rightarrow> (e, w)
      | Inr destination \<Rightarrow>
          (status_ok, set_writer a (wr\<lparr>fw_previous_replica := fw_active_replica wr,
             fw_previous_revision := restored, fw_active_revision := restored\<rparr>)
             (w\<lparr>w_mem := copy_flux source destination (w_mem w)\<rparr>)))"

section \<open>Pending flux\<close>

definition pending_flux :: "pending_view \<Rightarrow> flux_view" where
  "pending_flux pv = \<lparr>fx_x = pv_x pv, fx_y = pv_y pv, fx_z = pv_z pv, fx_revision = pv_revision pv,
     fx_certificate = empty_certificate\<rparr>"

definition lease_ok :: "nat \<Rightarrow> nat \<Rightarrow> nat \<Rightarrow> nat \<Rightarrow> world \<Rightarrow> bool" where
  "lease_ok a v t s w \<longleftrightarrow>
     (let wr = w_writers w a; pv = w_views w v; tx = w_txs w t; st = w_storages w s in
      fw_authority_tx wr = Some t \<and> fw_view wr = Some v \<and> pv_writer pv = Some a \<and>
      tx_writer tx = Some a \<and> tx_writer_identity tx = fw_fingerprint wr \<and> tx_active tx \<and>
      tx_attempt tx = fw_attempt wr \<and> pv_writer_identity pv = fw_fingerprint wr \<and>
      pv_attempt_identity pv = fw_attempt wr \<and> pv_storage pv = Some s \<and>
      fs_pending_writer st = Some a \<and> fs_pending_writer_id st = fw_fingerprint wr \<and>
      fs_pending_attempt st = fw_attempt wr \<and> fs_authority st = fw_fingerprint wr \<and>
      fw_bound_identity wr = fs_identity st \<and> fw_bound_domain wr = fs_domain st \<and>
      fw_bound_cells wr = fs_cells st \<and> pv_revision pv = fw_pending_revision wr \<and>
      fw_pending_revision wr \<noteq> 0 \<and>
      valid_flux_view (pending_flux pv) (fs_cells st) (pv_revision pv) \<and>
      ff_storage_identity (pv_x pv) = fs_identity st \<and> ff_revision_domain (pv_x pv) = fs_domain st)"

definition validate_pending_lease :: "nat \<Rightarrow> nat \<Rightarrow> world \<Rightarrow> status" where
  "validate_pending_lease a v w =
     (let wr = w_writers w a in
      if \<not> fw_issued wr \<or> \<not> fw_pending wr \<or> fw_published wr then failed Invalid_plan 914
      else case (fw_tx wr, fw_storage wr) of
        (Some t, Some s) \<Rightarrow> if lease_ok a v t s w then status_ok else failed Invalid_plan 914
      | _ \<Rightarrow> failed Invalid_plan 914)"

definition writer_storage :: "nat \<Rightarrow> world \<Rightarrow> flux_storage" where
  "writer_storage a w = w_storages w (the (fw_storage (w_writers w a)))"

definition writer_transaction :: "nat \<Rightarrow> world \<Rightarrow> transaction" where
  "writer_transaction a w = w_txs w (the (fw_tx (w_writers w a)))"

definition copy_pending :: "nat \<Rightarrow> flux_view \<Rightarrow> nat \<Rightarrow> world \<Rightarrow> status \<times> world" where
  "copy_pending a source v w =
     (let lease = validate_pending_lease a v w; st = writer_storage a w in
      if \<not> is_ok lease then (lease, w)
      else if fx_revision source = 0 \<or> \<not> valid_flux_view source (fs_cells st) (fx_revision source)
      then (failed Invalid_plan 913, w)
      else case find (\<lambda>f. ff_storage_identity f = fs_identity st \<or> \<not> face_finite (w_mem w) f)
                  (flux_faces source) of
        Some f \<Rightarrow> (if ff_storage_identity f = fs_identity st then failed Invalid_plan 913
                   else failed Numerical_failure 913, w)
      | None \<Rightarrow> (status_ok, w\<lparr>w_mem := copy_flux source (pending_flux (w_views w v)) (w_mem w)\<rparr>))"

definition preflight_publish :: "nat \<Rightarrow> revision_dependency span \<Rightarrow> nat \<Rightarrow> world \<Rightarrow> status" where
  "preflight_publish a deps v w =
     (let lease = validate_pending_lease a v w; wr = w_writers w a in
      if \<not> is_ok lease then lease
      else preflight_flux_cache (fw_slot wr) deps (fw_pending_revision wr) (fw_fingerprint wr)
             (writer_transaction a w))"

definition publish_through :: "nat \<Rightarrow> nat \<Rightarrow> revision_dependency span \<Rightarrow> world \<Rightarrow> status \<times> world" where
  "publish_through a t deps w =
     (let wr = w_writers w a in
      case publish_flux_cache (fw_slot wr) deps (fw_pending_revision wr) (fw_fingerprint wr) (w_txs w t) of
        (s, tx') \<Rightarrow> (s, set_tx t tx' w))"

definition publish_pending :: "nat \<Rightarrow> revision_dependency span \<Rightarrow> nat \<Rightarrow> world \<Rightarrow> status \<times> world" where
  "publish_pending a deps v w =
     (let preflight = preflight_publish a deps v w in
      case fw_tx (w_writers w a) of
        None \<Rightarrow> (preflight, w)
      | Some t \<Rightarrow>
          if \<not> is_ok preflight then
            (if sdetail preflight \<noteq> 914 then publish_through a t deps w else (preflight, w))
          else case publish_through a t deps w of (published, w1) \<Rightarrow>
            if is_ok published
            then (published, set_view v empty_pending_view
                   (set_writer a ((w_writers w1 a)\<lparr>fw_published := True, fw_view := None\<rparr>) w1))
            else (published, w1))"

section \<open>Collective readiness and completion\<close>

definition ready_for_collective :: "nat \<Rightarrow> nat \<Rightarrow> world \<Rightarrow> bool" where
  "ready_for_collective a t w \<longleftrightarrow>
     (let wr = w_writers w a; tx = w_txs w t in
      fw_pending wr \<and> fw_published wr \<and> fw_tx wr = Some t \<and>
      (case fw_storage wr of None \<Rightarrow> False | Some s \<Rightarrow>
         tx_active tx \<and> tx_attempt tx = fw_attempt wr \<and>
         fw_bound_identity wr = fs_identity (w_storages w s) \<and>
         fw_bound_domain wr = fs_domain (w_storages w s) \<and>
         fw_bound_cells wr = fs_cells (w_storages w s) \<and>
         tx_pending_caches tx ! unat (fw_slot wr) = fw_pending_revision wr))"

text \<open>The first replica that is neither active nor previous.\<close>

definition free_replica :: "nat \<Rightarrow> nat \<Rightarrow> nat \<Rightarrow> nat" where
  "free_replica active previous old =
     (case find (\<lambda>r. r \<noteq> active \<and> r \<noteq> previous) [0, 1, 2] of None \<Rightarrow> old | Some r \<Rightarrow> r)"

definition rotate_writer :: "flux_writer \<Rightarrow> flux_writer" where
  "rotate_writer wr =
     wr\<lparr>fw_previous_replica := fw_active_replica wr, fw_previous_revision := fw_active_revision wr,
        fw_active_replica := fw_pending_replica wr, fw_active_revision := fw_pending_revision wr,
        fw_pending_replica := free_replica (fw_pending_replica wr) (fw_active_replica wr)
          (fw_pending_replica wr)\<rparr>"

definition complete_from_transaction :: "nat \<Rightarrow> nat \<Rightarrow> bool \<Rightarrow> world \<Rightarrow> world" where
  "complete_from_transaction a t accepted w =
     (let wr = w_writers w a in
      if fw_tx wr \<noteq> Some t then w
      else let w1 = (if fw_pending wr \<and> accepted then set_writer a (rotate_writer wr) w else w);
               w2 = invalidate_pending_view a (clear_storage_lease a w1) in
        set_writer a ((drop_pending (w_writers w2 a))\<lparr>fw_tx := None\<rparr>) w2)"

section \<open>Reading\<close>

definition published_pending :: "nat \<Rightarrow> nat \<Rightarrow> world \<Rightarrow> status + flux_view" where
  "published_pending a t w =
     (let wr = w_writers w a; tx = w_txs w t; st = writer_storage a w in
      if \<not> fw_issued wr \<or> \<not> ready_for_collective a t w \<or> fw_authority_tx wr \<noteq> Some t \<or>
         fw_pending_revision wr = 0 \<or> tx_writer tx \<noteq> Some a \<or>
         tx_writer_identity tx \<noteq> fw_fingerprint wr \<or> fs_authority st \<noteq> fw_fingerprint wr \<or>
         fs_pending_writer st \<noteq> Some a \<or> fs_pending_writer_id st \<noteq> fw_fingerprint wr \<or>
         fs_pending_attempt st \<noteq> fw_attempt wr
      then Inl (failed Invalid_plan 913)
      else case flux_view_impl st (fw_pending_replica wr) (fw_pending_revision wr) of
        Inl e \<Rightarrow> Inl e
      | Inr f \<Rightarrow> Inr (certify (fw_fingerprint wr) (fw_pending_revision wr) st f))"

definition committed_at :: "flux_writer \<Rightarrow> flux_storage \<Rightarrow> nat \<Rightarrow> revision_token \<Rightarrow> status + flux_view" where
  "committed_at wr st replica revision =
     (if \<not> fw_issued wr \<or> revision = 0 \<or> fs_replicas st \<noteq> final_replicas \<or> \<not> fs_final st \<or>
         fw_bound_identity wr \<noteq> fs_identity st \<or> fw_bound_domain wr \<noteq> fs_domain st \<or>
         fw_bound_cells wr \<noteq> fs_cells st
      then Inl (failed Invalid_plan 913)
      else case flux_view_impl st replica revision of
        Inl e \<Rightarrow> Inl e | Inr f \<Rightarrow> Inr (certify (fw_fingerprint wr) revision st f))"

definition committed :: "flux_writer \<Rightarrow> flux_storage \<Rightarrow> status + flux_view" where
  "committed wr st = committed_at wr st (fw_active_replica wr) (fw_active_revision wr)"

definition committed_previous :: "flux_writer \<Rightarrow> flux_storage \<Rightarrow> status + flux_view" where
  "committed_previous wr st = committed_at wr st (fw_previous_replica wr) (fw_previous_revision wr)"

record flux_consumer =
  co_required :: face_certificate
  co_consumed :: revision_token

definition consumer_bind :: "face_certificate \<Rightarrow> flux_consumer \<Rightarrow> status \<times> flux_consumer" where
  "consumer_bind c co =
     (if \<not> certificate_valid c \<or> (certificate_valid (co_required co) \<and> co_consumed co = 0)
      then (failed Invalid_plan 913, co)
      else (status_ok, \<lparr>co_required = c, co_consumed = 0\<rparr>))"

definition consumer_consume :: "flux_view \<Rightarrow> flux_consumer \<Rightarrow> status \<times> flux_consumer" where
  "consumer_consume f co =
     (if \<not> certificate_matches (co_required co) f \<or> co_consumed co \<noteq> 0
      then (failed Invalid_plan 913, co)
      else (status_ok, co\<lparr>co_consumed := fx_revision f\<rparr>))"

end
