(* ===== verification/Attempt_Finish.thy ===== *)
theory Attempt_Finish
  imports Face_Writer
begin

text \<open>
  The end of an attempt in \<^verbatim>\<open>core_transaction.cpp\<close>: the collective decision, its certificate, and the
  commit or rejection it authorises. MPI is not part of the program: a rank takes the answers of
  its calls as a record, \<open>None\<close> for a call that does not return \<^verbatim>\<open>MPI_SUCCESS\<close>. What a conforming
  MPI answers to all ranks is stated in \<open>Collective\<close>.
\<close>

section \<open>Certificates of a decision\<close>

datatype finish_decision = Accept | Reject

record prepared =
  pf_owner :: "nat option"
  pf_layers :: "nat option"
  pf_writer :: "nat option"
  pf_bound :: u64
  pf_attempt :: u64
  pf_mutation :: u64
  pf_writer_identity :: u64
  pf_outcome :: status
  pf_lowest :: int
  pf_decision :: finish_decision
  pf_locally_active :: bool
  pf_valid :: bool
  pf_consumed :: bool

definition empty_prepared :: prepared where
  "empty_prepared = \<lparr>pf_owner = None, pf_layers = None, pf_writer = None, pf_bound = 0, pf_attempt = 0,
     pf_mutation = 0, pf_writer_identity = 0, pf_outcome = failed Invalid_plan 0, pf_lowest = - 1,
     pf_decision = Reject, pf_locally_active = False, pf_valid = False, pf_consumed = False\<rparr>"

definition prepared_usable :: "prepared \<Rightarrow> bool" where
  "prepared_usable p \<longleftrightarrow> pf_valid p \<and> \<not> pf_consumed p"

definition matches_prepared :: "nat \<Rightarrow> transaction \<Rightarrow> prepared \<Rightarrow> bool" where
  "matches_prepared t tx p \<longleftrightarrow>
     prepared_usable p \<and> pf_owner p = Some t \<and> pf_layers p = tx_layers tx \<and>
     pf_writer p = tx_writer tx \<and> pf_bound p = tx_bound tx \<and> pf_attempt p = tx_attempt tx \<and>
     pf_mutation p = tx_mutation tx \<and> pf_writer_identity p = tx_writer_identity tx \<and>
     pf_locally_active p = (tx_active tx \<and> tx_layers tx \<noteq> None)"

definition prepared_for ::
  "nat \<Rightarrow> transaction \<Rightarrow> status \<Rightarrow> int \<Rightarrow> finish_decision \<Rightarrow> bool \<Rightarrow> prepared" where
  "prepared_for t tx outcome lowest decision locally_active =
     \<lparr>pf_owner = Some t, pf_layers = tx_layers tx, pf_writer = tx_writer tx, pf_bound = tx_bound tx,
       pf_attempt = tx_attempt tx, pf_mutation = tx_mutation tx,
       pf_writer_identity = tx_writer_identity tx, pf_outcome = outcome, pf_lowest = lowest,
       pf_decision = decision, pf_locally_active = locally_active, pf_valid = True,
       pf_consumed = False\<rparr>"

section \<open>Discarding an attempt\<close>

definition complete_writer :: "nat \<Rightarrow> bool \<Rightarrow> world \<Rightarrow> world" where
  "complete_writer t accepted w =
     (case tx_writer (w_txs w t) of
        None \<Rightarrow> w | Some a \<Rightarrow> complete_from_transaction a t accepted w)"

definition discard_attempt :: "nat \<Rightarrow> world \<Rightarrow> world" where
  "discard_attempt t w =
     (let w1 = complete_writer t False w; tx = w_txs w1 t; n = length (tx_pending_caches tx) in
      set_tx t (tx\<lparr>tx_pending_caches := replicate n 0, tx_dep_counts := replicate n 0,
        tx_active := False, tx_layers := None, tx_finished := True, tx_committed := False\<rparr>) w1)"

section \<open>The collective decision\<close>

text \<open>
  The key by which the ranks select the failure to report: ranks that failed for good before ranks
  that may be retried, then the lowest rank; the largest word means no failure.
\<close>

definition retryable :: "status_code \<Rightarrow> bool" where
  "retryable c \<longleftrightarrow> c = Numerical_failure \<or> c = Rejected_step"

definition failure_selection_key :: "int \<Rightarrow> status_code \<Rightarrow> u64" where
  "failure_selection_key rank c =
     (if c = Ok then u64_max
      else push_bit 32 (if retryable c then 1 else 0) OR ucast (word_of_int rank :: u32))"

record mpi_answers =
  mp_null :: bool
  mp_rank :: "int option"
  mp_ranks :: "int option"
  mp_selected :: "u64 option"
  mp_wire :: "(u64 \<times> u64) option"

definition fail_prepare :: "nat \<Rightarrow> status \<Rightarrow> world \<Rightarrow> (status + prepared) \<times> world" where
  "fail_prepare t failure w =
     (let w1 = discard_attempt t w in
      (Inl failure, set_tx t ((w_txs w1 t)\<lparr>tx_lowest := - 1\<rparr>) w1))"

definition rank_verdict :: "nat \<Rightarrow> status \<Rightarrow> world \<Rightarrow> status" where
  "rank_verdict t reported w =
     (let tx = w_txs w t in
      local_verdict (case tx_writer tx of None \<Rightarrow> True | Some a \<Rightarrow> ready_for_collective a t w) reported tx
        (case tx_layers tx of None \<Rightarrow> empty_layers | Some l \<Rightarrow> w_layers w l))"

text \<open>What a rank contributes to the reduction, and to the broadcast when it is selected.\<close>

definition rank_candidate :: "int \<Rightarrow> status \<Rightarrow> u64" where
  "rank_candidate rank verdict = failure_selection_key rank (scode verdict)"

definition rank_wire :: "status \<Rightarrow> u64 \<times> u64" where
  "rank_wire verdict = (code_value (scode verdict), ucast (sdetail verdict))"

definition collective_prepare ::
  "nat \<Rightarrow> status \<Rightarrow> prepared \<Rightarrow> mpi_answers \<Rightarrow> world \<Rightarrow> (status + prepared) \<times> world" where
  "collective_prepare t reported out mpi w =
     (if prepared_usable out then fail_prepare t (failed Invalid_plan 1) w
      else let tx = w_txs w t; locally_active = (tx_active tx \<and> tx_layers tx \<noteq> None) in
      if mp_null mpi then fail_prepare t (failed Invalid_plan 4) w
      else case (mp_rank mpi, mp_ranks mpi) of
        (Some rank, Some ranks) \<Rightarrow>
          if ranks \<le> 0 then fail_prepare t (failed Mpi_failure 4) w
          else (case mp_selected mpi of
            None \<Rightarrow> fail_prepare t (failed Mpi_failure 4) w
          | Some selected \<Rightarrow>
              if selected = u64_max then
                (if tx_layers tx = None then fail_prepare t (failed Invalid_plan 1) w
                 else (Inr (prepared_for t tx status_ok (- 1) Accept locally_active), w))
              else let severity = drop_bit 32 selected; selected_rank = selected AND 0xFFFFFFFF in
                if severity > 1 \<or> selected_rank \<ge> word_of_int ranks
                then fail_prepare t (failed Mpi_failure 4) w
                else (case mp_wire mpi of
                  None \<Rightarrow> fail_prepare t (failed Mpi_failure 4) w
                | Some (code, detail) \<Rightarrow>
                    if code > 7 \<or> detail > 0xFFFFFFFF then fail_prepare t (failed Mpi_failure 4) w
                    else (Inr (prepared_for t tx
                            \<lparr>scode = code_of_value code, sdetail = ucast detail\<rparr>
                            (int (unat selected_rank)) Reject locally_active), w)))
      | _ \<Rightarrow> fail_prepare t (failed Mpi_failure 4) w)"

section \<open>Commit and rejection\<close>

definition consume :: "prepared \<Rightarrow> prepared" where
  "consume p = p\<lparr>pf_consumed := True, pf_valid := False\<rparr>"

definition commit_accept :: "nat \<Rightarrow> prepared \<Rightarrow> world \<Rightarrow> prepared \<times> world" where
  "commit_accept t p w =
     (let tx = w_txs w t in
      if \<not> (matches_prepared t tx p \<and> pf_decision p = Accept \<and> tx_active tx \<and> tx_layers tx \<noteq> None)
      then (p, w)
      else let l = the (tx_layers tx);
               tx1 = tx\<lparr>tx_active_caches := tx_pending_caches tx, tx_commit_buffer := tx_active_caches tx\<rparr>;
               w1 = complete_writer t True (set_tx t tx1 w);
               w2 = w1\<lparr>w_layers := (w_layers w1)(l := rotate_commit (w_layers w1 l))\<rparr> in
        (consume p, set_tx t ((w_txs w2 t)\<lparr>tx_active := False, tx_layers := None, tx_finished := True,
           tx_committed := True, tx_lowest := - 1\<rparr>) w2))"

definition commit_reject :: "nat \<Rightarrow> prepared \<Rightarrow> world \<Rightarrow> prepared \<times> world" where
  "commit_reject t p w =
     (if \<not> matches_prepared t (w_txs w t) p then (p, w)
      else let w1 = discard_attempt t w in
        (consume p, set_tx t ((w_txs w1 t)\<lparr>tx_lowest :=
           (if pf_decision p = Reject then pf_lowest p else - 1)\<rparr>) w1))"

definition collective_finish :: "nat \<Rightarrow> status \<Rightarrow> mpi_answers \<Rightarrow> world \<Rightarrow> status \<times> world" where
  "collective_finish t reported mpi w =
     (case collective_prepare t reported empty_prepared mpi w of
        (Inl failure, w1) \<Rightarrow>
          let w2 = discard_attempt t w1 in
          (failure, set_tx t ((w_txs w2 t)\<lparr>tx_lowest := - 1\<rparr>) w2)
      | (Inr p, w1) \<Rightarrow>
          if pf_decision p = Accept then (status_ok, snd (commit_accept t p w1))
          else (pf_outcome p, snd (commit_reject t p w1)))"

end
