(* ===== verification/Attempt_Outcome.thy ===== *)
theory Attempt_Outcome
  imports Attempt_Finish Attempt_Certificates
begin

text \<open>
  What a certificate authorises: it is bound to one attempt at one mutation revision and can be
  used once; accepting publishes the whole attempt, rejecting leaves every accepted value as it was.
\<close>

section \<open>Frames\<close>

lemma set_simps [simp]:
  "w_txs (set_tx t tx w) = (w_txs w)(t := tx)" "w_layers (set_tx t tx w) = w_layers w"
  "w_mem (set_tx t tx w) = w_mem w" "w_writers (set_tx t tx w) = w_writers w"
  "w_storages (set_tx t tx w) = w_storages w" "w_views (set_tx t tx w) = w_views w"
  "w_txs (set_writer a wr w) = w_txs w" "w_layers (set_writer a wr w) = w_layers w"
  "w_mem (set_writer a wr w) = w_mem w" "w_writers (set_writer a wr w) = (w_writers w)(a := wr)"
  "w_storages (set_writer a wr w) = w_storages w" "w_views (set_writer a wr w) = w_views w"
  "w_txs (set_storage s st w) = w_txs w" "w_layers (set_storage s st w) = w_layers w"
  "w_mem (set_storage s st w) = w_mem w" "w_writers (set_storage s st w) = w_writers w"
  "w_storages (set_storage s st w) = (w_storages w)(s := st)" "w_views (set_storage s st w) = w_views w"
  "w_txs (set_view v pv w) = w_txs w" "w_layers (set_view v pv w) = w_layers w"
  "w_mem (set_view v pv w) = w_mem w" "w_writers (set_view v pv w) = w_writers w"
  "w_storages (set_view v pv w) = w_storages w" "w_views (set_view v pv w) = (w_views w)(v := pv)"
  by (simp_all add: set_tx_def set_writer_def set_storage_def set_view_def)

lemma lease_frame [simp]:
  "w_txs (clear_storage_lease a w) = w_txs w" "w_layers (clear_storage_lease a w) = w_layers w"
  "w_mem (clear_storage_lease a w) = w_mem w" "w_writers (clear_storage_lease a w) = w_writers w"
  "w_views (clear_storage_lease a w) = w_views w"
  "w_txs (invalidate_pending_view a w) = w_txs w" "w_layers (invalidate_pending_view a w) = w_layers w"
  "w_mem (invalidate_pending_view a w) = w_mem w" "w_storages (invalidate_pending_view a w) = w_storages w"
  by (simp_all add: clear_storage_lease_def invalidate_pending_view_def split: option.splits)

lemma complete_frame [simp]:
  "w_txs (complete_from_transaction a t b w) = w_txs w"
  "w_layers (complete_from_transaction a t b w) = w_layers w"
  "w_mem (complete_from_transaction a t b w) = w_mem w"
  by (simp_all add: complete_from_transaction_def Let_def)

lemma complete_writer_frame [simp]:
  "w_txs (complete_writer t b w) = w_txs w" "w_layers (complete_writer t b w) = w_layers w"
  "w_mem (complete_writer t b w) = w_mem w"
  by (simp_all add: complete_writer_def split: option.splits)

lemma discard_attempt_simps [simp]:
  "w_layers (discard_attempt t w) = w_layers w" "w_mem (discard_attempt t w) = w_mem w"
  "w_txs (discard_attempt t w) = (w_txs w)(t := (w_txs w t)
     \<lparr>tx_pending_caches := replicate (length (tx_pending_caches (w_txs w t))) 0,
      tx_dep_counts := replicate (length (tx_pending_caches (w_txs w t))) 0,
      tx_active := False, tx_layers := None, tx_finished := True, tx_committed := False\<rparr>)"
  by (simp_all add: discard_attempt_def Let_def)

section \<open>The mutation revision\<close>

lemma advance_mutation_step: "tx_mutation tx \<noteq> u64_max \<Longrightarrow> tx_mutation (advance_mutation tx) = tx_mutation tx + 1"
  by (simp add: advance_mutation_def)

lemma latch_step:
  "tx_mutation tx \<noteq> u64_max \<Longrightarrow> tx_mutation (snd (latch s tx)) = tx_mutation tx + 1"
  by (simp add: latch_def Let_def advance_mutation_def)

lemma bind_dependency_step:
  "tx_mutation tx \<noteq> u64_max \<Longrightarrow> bind_dependency dep tx = (s, tx') \<Longrightarrow>
   tx' = tx \<or> tx_mutation tx' = tx_mutation tx + 1"
  using latch_step [of tx "failed Invalid_plan 3"]
  by (auto simp: bind_dependency_def advance_mutation_step split: if_splits option.splits)

lemma bind_dependency_open:
  "attempt_open tx \<Longrightarrow> is_ok (tx_status tx) \<Longrightarrow> tx_mutation tx \<noteq> u64_max \<Longrightarrow>
   bind_dependency dep tx = (s, tx') \<Longrightarrow> tx_mutation tx' = tx_mutation tx + 1"
  using latch_step [of tx "failed Invalid_plan 3"]
  by (auto simp: bind_dependency_def attempt_open_def advance_mutation_step split: if_splits option.splits)

lemma publish_cache_step:
  "tx_mutation tx \<noteq> u64_max \<Longrightarrow> publish_cache slot deps stamp x tx = (s, tx') \<Longrightarrow>
   tx' = tx \<or> tx_mutation tx' = tx_mutation tx + 1"
  using latch_step [of tx "preflight_cache slot deps stamp x tx"]
  by (auto simp: publish_cache_def Let_def advance_mutation_step store_certificates_eq split: if_splits)

lemma revise_trial_step:
  assumes "tx_mutation tx \<noteq> u64_max" "revise_trial f tx sl = (s, tx', sl')"
  shows "tx' = tx \<and> sl' = sl \<or> tx_mutation tx' = tx_mutation tx + 1"
proof -
  let ?t = "tx\<lparr>tx_revised := (tx_revised tx)[unat f := True]\<rparr>"
  have b: "tx_mutation t2 = tx_mutation tx + 1"
    if "tx_active tx" "tx_layers tx \<noteq> None" "is_ok (tx_status tx)" "bind_dependency d ?t = (r, t2)" for d r t2
    using bind_dependency_open [of ?t d r t2] that assms(1) by (simp add: attempt_open_def)
  from assms latch_step [of tx "failed Invalid_plan 1"] advance_mutation_step show ?thesis
    by (auto simp: revise_trial_def split: if_splits prod.splits dest: b)
qed

lemma attempt_apply_step:
  assumes "tx_mutation tx \<noteq> u64_max"
  shows "attempt_apply op (tx, sl) = (tx, sl) \<or>
    tx_mutation (fst (attempt_apply op (tx, sl))) = tx_mutation tx + 1"
proof (cases op)
  case (Op_revise f)
  obtain s tx' sl' where r: "revise_trial f tx sl = (s, tx', sl')" by (metis prod.exhaust)
  with revise_trial_step [OF assms r] show ?thesis by (auto simp: Op_revise)
next
  case (Op_bind dep)
  obtain s tx' where r: "bind_dependency dep tx = (s, tx')" by (metis prod.exhaust)
  with bind_dependency_step [OF assms r] show ?thesis by (auto simp: Op_bind)
next
  case (Op_publish slot deps stamp x)
  obtain s tx' where r: "publish_cache slot deps stamp x tx = (s, tx')" by (metis prod.exhaust)
  with publish_cache_step [OF assms r] show ?thesis by (auto simp: Op_publish)
qed

lemma attempt_run_step:
  "unat (tx_mutation (fst st)) + length ops < 2 ^ 64 \<Longrightarrow>
   (attempt_run ops st = st \<or> unat (tx_mutation (fst st)) < unat (tx_mutation (fst (attempt_run ops st))))
   \<and> unat (tx_mutation (fst (attempt_run ops st))) \<le> unat (tx_mutation (fst st)) + length ops"
proof (induction ops arbitrary: st)
  case (Cons op ops)
  obtain tx sl where st: "st = (tx, sl)" by (cases st)
  have nm: "tx_mutation tx \<noteq> u64_max" using Cons.prems by (auto simp: st)
  from attempt_apply_step [OF nm, of op sl] show ?case
  proof
    assume "attempt_apply op (tx, sl) = (tx, sl)"
    with Cons.IH [of "(tx, sl)"] Cons.prems st show ?thesis by auto
  next
    assume m: "tx_mutation (fst (attempt_apply op (tx, sl))) = tx_mutation tx + 1"
    then have "unat (tx_mutation (fst (attempt_apply op (tx, sl)))) = Suc (unat (tx_mutation tx))"
      using unat_succ [OF nm] by simp
    with Cons.IH [of "attempt_apply op (tx, sl)"] Cons.prems st show ?thesis by auto
  qed
qed simp

section \<open>Properties\<close>


definition example_prepared :: prepared where
  "example_prepared = prepared_for 0 (fst example_begun) status_ok (- 1) Accept True"




end
