(* ===== verification/Collective.thy ===== *)
theory Collective
  imports Attempt_Finish Attempt_Certificates
begin

text \<open>
  The ranks together. \<open>leader_selection\<close> is the contract of a key whose minimum over the ranks names
  the rank to report; \<open>conforming\<close> is what MPI documents for a minimum reduction followed by a
  broadcast from the selected rank. Under it every rank takes the same decision.
\<close>

section \<open>Keys that select a leader\<close>

definition low_rank :: "u64 \<Rightarrow> nat" where
  "low_rank selected = unat (selected AND 0xFFFFFFFF)"

locale leader_selection =
  fixes key :: "nat \<Rightarrow> 'v \<Rightarrow> u64"
    and fails :: "'v \<Rightarrow> bool"
    and severity :: "'v \<Rightarrow> nat"
  assumes key_value: "fails v \<Longrightarrow> r < 2 ^ 31 \<Longrightarrow> unat (key r v) = severity v * 2 ^ 32 + r"
    and key_quiet: "\<not> fails v \<Longrightarrow> key r v = u64_max"
    and severity_small: "severity v \<le> 1"
begin

lemma key_not_max:
  assumes "fails v" "r < 2 ^ 31"
  shows "key r v \<noteq> u64_max"
proof
  assume "key r v = u64_max"
  then have "unat (key r v) = 2 ^ 64 - 1" by simp
  moreover have "unat (key r v) \<le> 2 ^ 32 + 2 ^ 31"
    using key_value [OF assms] severity_small [of v] assms(2) by simp
  ultimately show False by simp
qed

lemma key_low_rank: "fails v \<Longrightarrow> r < 2 ^ 31 \<Longrightarrow> low_rank (key r v) = r"
proof -
  assume f: "fails v" "r < 2 ^ 31"
  have "key r v AND 0xFFFFFFFF = take_bit 32 (key r v)"
    by (simp add: take_bit_eq_mask mask_eq_exp_minus_1)
  then have "low_rank (key r v) = take_bit 32 (unat (key r v))"
    by (simp only: low_rank_def unsigned_take_bit_eq)
  then have "low_rank (key r v) = unat (key r v) mod 2 ^ 32" by (simp only: take_bit_eq_mod)
  with key_value [OF f] f(2) show ?thesis by simp
qed

lemma key_severity: "fails v \<Longrightarrow> r < 2 ^ 31 \<Longrightarrow> unat (drop_bit 32 (key r v)) = severity v"
  unfolding unat_drop_bit_eq by (simp add: drop_bit_eq_div key_value)

definition selected :: "nat \<Rightarrow> (nat \<Rightarrow> 'v) \<Rightarrow> u64" where
  "selected n vs = Min ((\<lambda>r. key r (vs r)) ` {..< n})"

lemma selected_quiet: "0 < n \<Longrightarrow> \<forall>r < n. \<not> fails (vs r) \<Longrightarrow> selected n vs = u64_max"
proof -
  assume "0 < n" "\<forall>r < n. \<not> fails (vs r)"
  then have "(\<lambda>r. key r (vs r)) ` {..< n} = {u64_max}" by (auto simp: key_quiet)
  then show ?thesis by (simp add: selected_def)
qed

lemma selected_attained: "0 < n \<Longrightarrow> \<exists>l < n. selected n vs = key l (vs l)"
proof -
  assume "0 < n"
  then have "selected n vs \<in> (\<lambda>r. key r (vs r)) ` {..< n}" unfolding selected_def by (intro Min_in) auto
  then show ?thesis by auto
qed

lemma selected_le: "r < n \<Longrightarrow> selected n vs \<le> key r (vs r)"
  unfolding selected_def by (intro Min_le) auto

text \<open>The selected rank fails, and no failing rank is more severe, or as severe and lower.\<close>

lemma leader:
  assumes n: "n < 2 ^ 31" and f: "r < n" "fails (vs r)"
  defines "l \<equiv> low_rank (selected n vs)"
  shows "l < n" and "fails (vs l)" and "selected n vs = key l (vs l)" and "selected n vs \<noteq> u64_max"
    and "\<forall>q < n. fails (vs q) \<longrightarrow> severity (vs l) < severity (vs q) \<or> severity (vs l) = severity (vs q) \<and> l \<le> q"
proof -
  have r: "r < 2 ^ 31" using n f(1) by simp
  obtain k where k: "k < n" "selected n vs = key k (vs k)" using selected_attained [of n vs] f(1) by auto
  have "selected n vs \<le> key r (vs r)" by (rule selected_le [OF f(1)])
  moreover have "key r (vs r) < u64_max"
    using key_not_max [OF f(2) r] by (simp add: u64_max_def word_order.not_eq_extremum)
  ultimately show nm: "selected n vs \<noteq> u64_max" by auto
  then have fk: "fails (vs k)" using k(2) key_quiet by metis
  then have lk: "l = k" unfolding l_def k(2) using k(1) n by (intro key_low_rank) auto
  show "l < n" "fails (vs l)" "selected n vs = key l (vs l)" using lk k fk by simp_all
  show "\<forall>q < n. fails (vs q) \<longrightarrow> severity (vs l) < severity (vs q) \<or> severity (vs l) = severity (vs q) \<and> l \<le> q"
  proof (intro allI impI)
    fix q assume q: "q < n" "fails (vs q)"
    have "unat (key k (vs k)) \<le> unat (key q (vs q))"
      using selected_le [OF q(1), of vs] k(2) by (simp add: word_le_nat_alt)
    then have "severity (vs k) * 2 ^ 32 + k \<le> severity (vs q) * 2 ^ 32 + q"
      using key_value [OF fk, of k] key_value [OF q(2), of q] k(1) q(1) n by simp
    then show "severity (vs l) < severity (vs q) \<or> severity (vs l) = severity (vs q) \<and> l \<le> q"
      using k(1) q(1) n unfolding lk by (cases "severity (vs k) = severity (vs q)") auto
  qed
qed

end

section \<open>The transaction's key\<close>

definition verdict_severity :: "status \<Rightarrow> nat" where
  "verdict_severity s = (if retryable (scode s) then 1 else 0)"

lemma unat_rank: "r < 2 ^ 31 \<Longrightarrow> unat (ucast (word_of_int (int r) :: u32) :: u64) = r"
  by (simp add: unat_of_nat)

lemma failure_key_value:
  assumes "\<not> is_ok v" "r < 2 ^ 31"
  shows "unat (rank_candidate (int r) v) = verdict_severity v * 2 ^ 32 + r"
proof -
  let ?r = "ucast (word_of_int (int r) :: u32) :: u64"
  have "uint ?r = int r" using unat_rank [OF assms(2)] by (simp only: uint_nat)
  moreover have "uint (0x100000000 :: u64) = 0x100000000" by simp
  ultimately have "uint (0x100000000 OR ?r) = 0x100000000 OR int r" by (simp only: unsigned_or_eq)
  also have "\<dots> = 0x100000000 + int r"
    using concat_bit_eq [of 32 "int r" 1] assms(2) by (simp add: concat_bit_def or.commute take_bit_int_eq_self)
  finally have "unat (0x100000000 OR ?r) = 2 ^ 32 + r" by (simp only: unat_eq_nat_uint) simp
  with unat_rank [OF assms(2)] assms(1) show ?thesis
    by (auto simp: rank_candidate_def failure_selection_key_def verdict_severity_def is_ok_def)
qed

interpretation finish: leader_selection "\<lambda>r. rank_candidate (int r)" "\<lambda>v. \<not> is_ok v" verdict_severity
proof (unfold_locales, goal_cases)
  case (1 v r)
  then show ?case by (rule failure_key_value)
qed (simp_all add: rank_candidate_def failure_selection_key_def is_ok_def verdict_severity_def)


section \<open>A conforming collective call\<close>

text \<open>
  \<^verbatim>\<open>MPI_Comm_rank\<close> and \<^verbatim>\<open>MPI_Comm_size\<close> number the ranks; \<^verbatim>\<open>MPI_Allreduce\<close> with \<^verbatim>\<open>MPI_MIN\<close> gives
  every rank the smallest contribution; \<^verbatim>\<open>MPI_Bcast\<close> gives every rank the root's buffer.
\<close>

definition conforming :: "nat \<Rightarrow> (nat \<Rightarrow> status) \<Rightarrow> (nat \<Rightarrow> mpi_answers) \<Rightarrow> bool" where
  "conforming n verdicts answers \<longleftrightarrow> 0 < n \<and> n < 2 ^ 31 \<and>
     (let sel = Min ((\<lambda>q. rank_candidate (int q) (verdicts q)) ` {..< n}) in
      \<forall>r < n. \<not> mp_null (answers r) \<and> mp_rank (answers r) = Some (int r) \<and>
        mp_ranks (answers r) = Some (int n) \<and> mp_selected (answers r) = Some sel \<and>
        (low_rank sel < n \<longrightarrow> mp_wire (answers r) = Some (rank_wire (verdicts (low_rank sel)))))"

definition leads :: "nat \<Rightarrow> (nat \<Rightarrow> status) \<Rightarrow> nat \<Rightarrow> bool" where
  "leads n verdicts l \<longleftrightarrow> l < n \<and> \<not> is_ok (verdicts l) \<and>
     (\<forall>q < n. \<not> is_ok (verdicts q) \<longrightarrow>
        (retryable (scode (verdicts l)) \<longrightarrow> retryable (scode (verdicts q))) \<and>
        (retryable (scode (verdicts l)) = retryable (scode (verdicts q)) \<longrightarrow> l \<le> q))"

definition locally_active :: "transaction \<Rightarrow> bool" where
  "locally_active tx \<longleftrightarrow> tx_active tx \<and> tx_layers tx \<noteq> None"

lemma local_verdict_named:
  "valid_status_code (scode (tx_status tx)) \<Longrightarrow>
   valid_status_code (scode (local_verdict ready reported tx sl))"
  by (auto simp: local_verdict_def Let_def failed_def)

lemma code_round_trip:
  "valid_status_code c \<Longrightarrow> code_of_value (code_value c) = c \<and> \<not> code_value c > 7"
  by (cases c) (auto simp: code_of_value_def)

lemma detail_round_trip: "ucast (ucast (d :: u32) :: u64) = d" "\<not> (ucast d :: u64) > 0xFFFFFFFF"
proof -
  show "ucast (ucast (d :: u32) :: u64) = d" by (rule bit_eqI) (simp add: bit_simps)
  have "unat (ucast d :: u64) < 2 ^ 32" using unsigned_less [of d] by simp
  then show "\<not> (ucast d :: u64) > 0xFFFFFFFF" by (simp add: word_less_nat_alt)
qed

lemma status_eta [simp]: "\<lparr>scode = scode s, sdetail = sdetail s\<rparr> = s" for s :: status
  by (cases s) simp

lemma reject_answers:
  assumes "conforming n verdicts answers" "r < n" "f < n" "\<not> is_ok (verdicts f)"
    and "\<not> prepared_usable out" "\<forall>q < n. valid_status_code (scode (verdicts q))"
  shows "let l = low_rank (Min ((\<lambda>q. rank_candidate (int q) (verdicts q)) ` {..< n})) in
    leads n verdicts l \<and>
    collective_prepare t reported out (answers r) w =
      (Inr (prepared_for t (w_txs w t) (verdicts l) (int l) Reject (locally_active (w_txs w t))), w)"
proof -
  let ?sel = "Min ((\<lambda>q. rank_candidate (int q) (verdicts q)) ` {..< n})"
  have sel: "?sel = finish.selected n verdicts" by (simp add: finish.selected_def)
  have n: "n < 2 ^ 31" "0 < n" using assms(1) by (simp_all add: conforming_def)
  note l = finish.leader [where vs = verdicts and r = f, OF n(1) assms(3,4), folded sel]
  let ?l = "low_rank ?sel" and ?key = "rank_candidate (int (low_rank ?sel)) (verdicts (low_rank ?sel))"
  have lt: "?l < 2 ^ 31" using l(1) n(1) by simp
  have a: "\<not> mp_null (answers r)" "mp_rank (answers r) = Some (int r)" "mp_ranks (answers r) = Some (int n)"
      "mp_selected (answers r) = Some ?sel" "mp_wire (answers r) = Some (rank_wire (verdicts ?l))"
    using assms(1,2) l(1) by (simp_all add: conforming_def Let_def)
  have "unat (drop_bit 32 ?sel) = verdict_severity (verdicts ?l)"
    using finish.key_severity [OF l(2) lt] l(3) by simp
  then have sev: "\<not> drop_bit 32 ?sel > 1" by (simp add: word_less_nat_alt verdict_severity_def)
  have rk: "unat (?sel AND 0xFFFFFFFF) = ?l" by (simp add: low_rank_def)
  have "unat (word_of_int (int n) :: u64) = n" using n by (subst unat_word_of_int64) simp_all
  then have ge: "\<not> ?sel AND 0xFFFFFFFF \<ge> word_of_int (int n)"
    using rk l(1) by (simp add: word_le_nat_alt)
  have "leads n verdicts ?l"
    using l(1,2,5) by (auto simp: leads_def verdict_severity_def split: if_splits)
  moreover have "collective_prepare t reported out (answers r) w =
      (Inr (prepared_for t (w_txs w t) (verdicts ?l) (int ?l) Reject (locally_active (w_txs w t))), w)"
    using assms(5,6) l(1,4) a sev ge rk code_round_trip [of "scode (verdicts ?l)"] n
    by (simp add: collective_prepare_def Let_def rank_wire_def detail_round_trip locally_active_def)
  ultimately show ?thesis by (simp only: Let_def)
qed

section \<open>Properties\<close>

text \<open>
  C1. Every rank of a conforming collective call reaches the same decision without changing its
  transaction: all accept exactly when every local verdict is ok; otherwise all reject with the same
  outcome and rank, those of the lowest rank among the failures that may not be retried if there is
  one, and of the lowest failing rank otherwise.
\<close>

theorem collective_agreement:
  assumes "conforming n verdicts answers"
    and "\<forall>r < n. verdicts r = rank_verdict (t r) (reported r) (w r)"
    and "\<forall>r < n. valid_status_code (scode (tx_status (w_txs (w r) (t r))))"
    and "\<forall>r < n. \<not> prepared_usable (out r)"
  shows "if \<forall>r < n. is_ok (verdicts r)
    then \<forall>r < n. collective_prepare (t r) (reported r) (out r) (answers r) (w r) =
      (Inr (prepared_for (t r) (w_txs (w r) (t r)) status_ok (- 1) Accept True), w r)
    else \<exists>l. leads n verdicts l \<and>
      (\<forall>r < n. collective_prepare (t r) (reported r) (out r) (answers r) (w r) =
        (Inr (prepared_for (t r) (w_txs (w r) (t r)) (verdicts l) (int l) Reject
           (locally_active (w_txs (w r) (t r)))), w r))"
proof (cases "\<forall>r < n. is_ok (verdicts r)")
  case True
  have sel: "Min ((\<lambda>q. rank_candidate (int q) (verdicts q)) ` {..< n}) = u64_max"
    using finish.selected_quiet [of n verdicts] True assms(1) by (simp add: finish.selected_def conforming_def)
  have "collective_prepare (t r) (reported r) (out r) (answers r) (w r) =
      (Inr (prepared_for (t r) (w_txs (w r) (t r)) status_ok (- 1) Accept True), w r)" if r: "r < n" for r
  proof -
    have "is_ok (rank_verdict (t r) (reported r) (w r))" using True assms(2) r by simp
    then have "attempt_open (w_txs (w r) (t r))"
      by (auto simp: rank_verdict_def Let_def local_verdict_ok_iff)
    then show ?thesis using assms(1,4) sel r
      by (auto simp: collective_prepare_def conforming_def Let_def attempt_open_def)
  qed
  with True show ?thesis by simp
next
  case False
  then obtain f where f: "f < n" "\<not> is_ok (verdicts f)" by blast
  have named: "\<forall>q < n. valid_status_code (scode (verdicts q))"
    using assms(2,3) by (simp add: rank_verdict_def Let_def local_verdict_named)
  have "let l = low_rank (Min ((\<lambda>q. rank_candidate (int q) (verdicts q)) ` {..< n})) in
      leads n verdicts l \<and> collective_prepare (t r) (reported r) (out r) (answers r) (w r) =
        (Inr (prepared_for (t r) (w_txs (w r) (t r)) (verdicts l) (int l) Reject
           (locally_active (w_txs (w r) (t r)))), w r)" if "r < n" for r
    using reject_answers [OF assms(1) that f _ named] assms(4) that by blast
  with False f(1) show ?thesis unfolding Let_def by auto
qed


definition example_world :: world where
  "example_world = \<lparr>w_mem = (\<lambda>a. 0), w_layers = (\<lambda>l. snd (attempt_run example_ops example_begun)),
     w_txs = (\<lambda>t. fst (attempt_run example_ops example_begun)), w_writers = (\<lambda>a. empty_writer),
     w_storages = (\<lambda>s. empty_flux_storage), w_views = (\<lambda>v. empty_pending_view), w_next = 7\<rparr>"

definition example_reported :: "nat \<Rightarrow> status" where
  "example_reported r = (if r = 1 then failed Numerical_failure 3
     else if r = 2 then failed Io_failure 4 else status_ok)"

definition example_answers :: "nat \<Rightarrow> mpi_answers" where
  "example_answers r = \<lparr>mp_null = False, mp_rank = Some (int r), mp_ranks = Some 3,
     mp_selected = Some 2, mp_wire = Some (7, 4)\<rparr>"

lemma example_verdicts:
  "rank_verdict 0 (example_reported 0) example_world = status_ok"
  "rank_verdict 0 (example_reported 1) example_world = failed Numerical_failure 3"
  "rank_verdict 0 (example_reported 2) example_world = failed Io_failure 4"
  by code_simp+

theorem collective_agreement_witness:
  "\<exists>l. leads 3 (\<lambda>r. rank_verdict 0 (example_reported r) example_world) l"
proof -
  let ?v = "\<lambda>r. rank_verdict 0 (example_reported r) example_world"
  have three: "{..< 3 :: nat} = {0, 1, 2}" by auto
  have "rank_candidate 0 (?v 0) = u64_max" "rank_candidate 1 (?v 1) = 0x100000001" "rank_candidate 2 (?v 2) = 2"
    unfolding example_verdicts by code_simp+
  then have sel: "Min ((\<lambda>q. rank_candidate (int q) (?v q)) ` {..< 3}) = 2"
    unfolding three by (simp add: u64_max_def)
  have "low_rank 2 = 2" by code_simp
  moreover have "rank_wire (?v 2) = (7, 4)" unfolding example_verdicts by code_simp
  ultimately have c: "conforming 3 ?v example_answers"
    using sel by (simp add: conforming_def Let_def example_answers_def)
  have tx: "valid_status_code (scode (tx_status (w_txs example_world 0)))" by code_simp
  have "\<not> prepared_usable empty_prepared" by (simp add: prepared_usable_def empty_prepared_def)
  with collective_agreement [OF c, of "\<lambda>r. 0" example_reported "\<lambda>r. example_world" "\<lambda>r. empty_prepared"] tx
  have "\<not> (\<forall>r < 3. is_ok (?v r)) \<longrightarrow> (\<exists>l. leads 3 ?v l)" by (auto split: if_splits)
  moreover have "\<not> is_ok (?v 2)" unfolding example_verdicts by (simp add: is_ok_def failed_def)
  then have "\<not> (\<forall>r < 3. is_ok (?v r))" by (auto intro!: exI [of _ 2])
  ultimately show ?thesis by blast
qed

end
