(* ===== verification/Face_Geometry.thy ===== *)
theory Face_Geometry
  imports Face_Storage
begin

text \<open>
  The addresses of a face flux storage. An allocated storage keeps the layout it was given
  (\<open>flux_ok\<close>); replicas, axes and positions are then the digits of an address inside the block, so
  two positions of the views of a storage are the same cell only if they are the same position.
  The copy loops move every value of a source that lies outside the destination.
\<close>

section \<open>Blocks\<close>

definition block_size :: "axis_layout \<Rightarrow> nat" where
  "block_size a = unat (ax_stride_z a) * nat (z3 (ax_extents a))"

definition axis_fits :: "int3 \<Rightarrow> axis_layout \<Rightarrow> bool" where
  "axis_fits e a \<longleftrightarrow> ax_extents a = e \<and> valid_cells e \<and> nat (x3 e) \<le> unat (ax_stride_y a) \<and>
     unat (ax_stride_z a) = unat (ax_stride_y a) * nat (y3 e)"

lemma place_axes_fit:
  assumes "place_axes es cursor = Some (axes, last_cursor)" "\<forall>e \<in> set es. int32_triple e"
  shows "length axes = length es \<and> unat cursor \<le> unat last_cursor \<and>
    (\<forall>k < length es. axis_fits (es ! k) (axes ! k) \<and> unat cursor \<le> unat (ax_offset (axes ! k)) \<and>
       unat (ax_offset (axes ! k)) + block_size (axes ! k) \<le> unat last_cursor \<and>
       (\<forall>j < k. unat (ax_offset (axes ! j)) + block_size (axes ! j) \<le> unat (ax_offset (axes ! k))))"
  using assms
proof (induction es arbitrary: cursor axes)
  case (Cons e es)
  from Cons.prems(1) obtain sy sz off blk cur rest where
    v: "valid_cells e" and s: "checked_align (word_of_int (x3 e)) doubles_per_cache_line = Some sy"
      "checked_multiply sy (word_of_int (y3 e)) = Some sz"
      "checked_align cursor doubles_per_cache_line = Some off"
      "checked_multiply sz (word_of_int (z3 e)) = Some blk" "checked_add off blk = Some cur"
    and r: "place_axes es cur = Some (rest, last_cursor)"
    and ax: "axes = \<lparr>ax_extents = e, ax_stride_y = sy, ax_stride_z = sz, ax_offset = off\<rparr> # rest"
    by (auto simp: bind_eq_Some_conv)
  have e: "unat (word_of_int (x3 e) :: u64) = nat (x3 e)" "unat (word_of_int (y3 e) :: u64) = nat (y3 e)"
    "unat (word_of_int (z3 e) :: u64) = nat (z3 e)"
    using Cons.prems(2) v by (auto simp: int32_triple_def valid_cells_def intro!: unat_word_of_int32)
  note n = checked_align_up8 [OF s(1)] checked_multiply_SomeD [OF s(2)] checked_align_up8 [OF s(3)]
    checked_multiply_SomeD [OF s(4)] checked_add_SomeD [OF s(5)]
  have fit: "axis_fits e (hd axes)" using v n(1,2) up8_ge [of "nat (x3 e)"] by (simp add: ax axis_fits_def e)
  have off: "unat cursor \<le> unat off" using n(3) up8_ge [of "unat cursor"] by simp
  have cur: "unat cur = unat off + block_size (hd axes)" using n(4,5) by (simp add: ax block_size_def e)
  note ih = Cons.IH [OF r] Cons.prems(2)
  have "axis_fits ((e # es) ! k) (axes ! k) \<and> unat cursor \<le> unat (ax_offset (axes ! k)) \<and>
       unat (ax_offset (axes ! k)) + block_size (axes ! k) \<le> unat last_cursor \<and>
       (\<forall>j < k. unat (ax_offset (axes ! j)) + block_size (axes ! j) \<le> unat (ax_offset (axes ! k)))"
    if "k < length (e # es)" for k
  proof (cases k)
    case 0
    with fit off cur ih show ?thesis by (simp add: ax)
  next
    case (Suc k')
    then have k': "k' < length es" using that by simp
    have h: "unat off + block_size (hd axes) \<le> unat (ax_offset (rest ! k'))"
      using ih k' cur by auto
    have "unat (ax_offset (axes ! j)) + block_size (axes ! j) \<le> unat (ax_offset (axes ! k))" if "j < k" for j
      using that ih k' h Suc by (cases j) (simp_all add: ax)
    with ih k' Suc off cur show ?thesis by (auto simp: ax)
  qed
  moreover have "length axes = length (e # es)" using ih by (simp add: ax)
  moreover have "unat cursor \<le> unat last_cursor" using ih off cur by simp
  ultimately show ?case by blast
qed simp

text \<open>A storage that carries the layout of its cells and replicas.\<close>

definition flux_ok :: "flux_storage \<Rightarrow> bool" where
  "flux_ok st \<longleftrightarrow> int32_triple (fs_cells st) \<and> fs_data st \<noteq> None \<and>
     (case face_storage_layout (fs_cells st) (fs_replicas st) of
        None \<Rightarrow> False
      | Some l \<Rightarrow> fs_axes st = fl_axes l \<and> fs_replica_stride st = fl_replica_stride l)"

lemma axis_extents_int32:
  "extendable_cells c \<Longrightarrow> int32_triple c \<Longrightarrow> \<forall>e \<in> set (axis_extents c). int32_triple e"
  by (auto simp: axis_extents_def int32_triple_def is_int32_def extendable_cells_def int32_max_def)

lemma flux_ok_layout:
  assumes "flux_ok st"
  shows "length (fs_axes st) = 3" and "0 < unat (fs_replicas st)"
    and "unat (fs_replica_stride st) * unat (fs_replicas st) * 8 < 2 ^ 64"
    and "k < 3 \<Longrightarrow> axis_fits (axis_extents (fs_cells st) ! k) (fs_axes st ! k) \<and>
      unat (ax_offset (fs_axes st ! k)) + block_size (fs_axes st ! k) \<le> unat (fs_replica_stride st) \<and>
      (\<forall>j < k. unat (ax_offset (fs_axes st ! j)) + block_size (fs_axes st ! j) \<le> unat (ax_offset (fs_axes st ! k)))"
proof -
  from assms obtain l where i: "int32_triple (fs_cells st)"
    and l: "face_storage_layout (fs_cells st) (fs_replicas st) = Some l"
    and st: "fs_axes st = fl_axes l" "fs_replica_stride st = fl_replica_stride l"
    by (auto simp: flux_ok_def split: option.splits)
  from l obtain axes cur rs d b where
    g: "extendable_cells (fs_cells st)" "fs_replicas st \<noteq> 0"
    and p: "place_axes (axis_extents (fs_cells st)) 0 = Some (axes, cur)"
    and n: "checked_align cur doubles_per_cache_line = Some rs"
      "checked_multiply rs (fs_replicas st) = Some d" "checked_multiply d size_of_double = Some b"
    and l': "fl_axes l = axes" "fl_replica_stride l = rs"
    by (auto simp: face_storage_layout_def bind_eq_Some_conv)
  have len: "length (axis_extents (fs_cells st)) = 3" by (simp add: axis_extents_def)
  note f = place_axes_fit [OF p axis_extents_int32 [OF g(1) i], unfolded len]
  have cur: "unat cur \<le> unat rs" using checked_align_up8 [OF n(1)] up8_ge [of "unat cur"] by simp
  show "length (fs_axes st) = 3" using f by (simp add: st l')
  show "0 < unat (fs_replicas st)" using g(2) by (simp add: unat_gt_0)
  have "unat d * 8 < 2 ^ 64"
    using checked_multiply_SomeD [OF n(3)] unat_u64_less [of b] by (simp add: size_of_double_def)
  then show "unat (fs_replica_stride st) * unat (fs_replicas st) * 8 < 2 ^ 64"
    using checked_multiply_SomeD [OF n(2)] by (simp add: st l')
  show "k < 3 \<Longrightarrow> axis_fits (axis_extents (fs_cells st) ! k) (fs_axes st ! k) \<and>
      unat (ax_offset (fs_axes st ! k)) + block_size (fs_axes st ! k) \<le> unat (fs_replica_stride st) \<and>
      (\<forall>j < k. unat (ax_offset (fs_axes st ! j)) + block_size (fs_axes st ! j) \<le> unat (ax_offset (fs_axes st ! k)))"
    using f cur unfolding st l' by (meson le_trans)
qed

lemma flux_allocate_ok:
  assumes "flux_allocate block cells replicas final out m next_id = (s, st, m', next')" "is_ok s"
    and "int32_triple cells"
  shows "flux_ok st \<and> fs_cells st = cells \<and> fs_replicas st = replicas \<and> fs_final st = final \<and>
    fs_identity st \<noteq> 0 \<and> fs_domain st \<noteq> 0 \<and> fs_authority st = 0"
  using assms
  by (auto simp: flux_allocate_def flux_ok_def Let_def is_ok_def failed_def
      split: if_splits option.splits prod.splits)

section \<open>Positions\<close>

definition face_offset :: "axis_layout \<Rightarrow> int3 \<Rightarrow> nat" where
  "face_offset a i = nat (x3 i) + nat (y3 i) * unat (ax_stride_y a) + nat (z3 i) * unat (ax_stride_z a)"

lemma face_offset_bound:
  assumes "axis_fits e a" "face_box e i"
  shows "face_offset a i < block_size a"
proof -
  have b: "nat (x3 i) < unat (ax_stride_y a)" "nat (y3 i) < nat (y3 e)" "nat (z3 i) < nat (z3 e)"
    using assms by (auto simp: axis_fits_def face_box_def)
  have "nat (x3 i) + nat (y3 i) * unat (ax_stride_y a) < unat (ax_stride_z a)"
    using radix_bound [OF b(1,2)] assms(1) by (simp add: axis_fits_def)
  from radix_bound [OF this b(3)] show ?thesis
    using assms(1) by (simp add: face_offset_def block_size_def axis_fits_def)
qed

lemma face_offset_inject:
  assumes "axis_fits e a" "face_box e i" "face_box e j" "face_offset a i = face_offset a j"
  shows "i = j"
proof -
  have b: "nat (x3 k) < unat (ax_stride_y a)" "nat (y3 k) < nat (y3 e)" if "face_box e k" for k
    using assms(1) that by (auto simp: axis_fits_def face_box_def)
  have z: "nat (x3 k) + nat (y3 k) * unat (ax_stride_y a) < unat (ax_stride_z a)" if "face_box e k" for k
    using radix_bound [OF b [OF that]] assms(1) by (simp add: axis_fits_def)
  note u = radix_unique [OF z [OF assms(2)] z [OF assms(3)] assms(4) [unfolded face_offset_def]]
  note v = radix_unique [OF b(1) [OF assms(2)] b(1) [OF assms(3)] conjunct1 [OF u]]
  from u v assms(2,3) have "x3 i = x3 j" "y3 i = y3 j" "z3 i = z3 j"
    by (auto simp: face_box_def)
  then show ?thesis by (simp add: int3.equality)
qed

text \<open>The faces of a replica's view and the address of a position.\<close>

definition replica_base :: "flux_storage \<Rightarrow> nat \<Rightarrow> int" where
  "replica_base st r = the (fs_data st) + int (unat (of_nat r * fs_replica_stride st))"

lemma flux_view_impl_InrD:
  assumes "flux_view_impl st r rv = Inr f"
  shows "fs_data st \<noteq> None" "r < unat (fs_replicas st)" "rv \<noteq> 0" "fs_identity st \<noteq> 0"
    "fs_domain st \<noteq> 0" "fx_revision f = rv" "fx_certificate f = empty_certificate"
    "flux_faces f = [axis_view st (replica_base st r) 0 Axis_x, axis_view st (replica_base st r) 1 Axis_y,
       axis_view st (replica_base st r) 2 Axis_z]"
  using assms
  by (auto simp: flux_view_impl_def flux_faces_def replica_base_def Let_def split: option.splits if_splits)

lemma flux_faces_length [simp]: "length (flux_faces f) = 3"
  by (simp add: flux_faces_def)

lemma less_3: "k < (3 :: nat) \<Longrightarrow> k = 0 \<or> k = 1 \<or> k = 2"
  by auto

definition position :: "flux_storage \<Rightarrow> nat \<Rightarrow> nat \<Rightarrow> int3 \<Rightarrow> nat" where
  "position st r k i = unat (ax_offset (fs_axes st ! k)) + face_offset (fs_axes st ! k) i
     + r * unat (fs_replica_stride st)"

lemma view_extents:
  assumes "flux_ok st" "flux_view_impl st r rv = Inr f" "k < 3"
  shows "ff_extents (flux_faces f ! k) = axis_extents (fs_cells st) ! k"
proof -
  have "ax_extents (fs_axes st ! k) = axis_extents (fs_cells st) ! k"
    using flux_ok_layout(4) [OF assms(1,3)] by (simp add: axis_fits_def)
  then show ?thesis unfolding flux_view_impl_InrD(8) [OF assms(2)]
    using less_3 [OF assms(3)] by (auto simp: axis_view_def Let_def)
qed

lemma view_address:
  assumes "flux_ok st" "flux_view_impl st r rv = Inr f" "k < 3"
    and "face_box (axis_extents (fs_cells st) ! k) i"
  shows "face_cell (flux_faces f ! k) i = the (fs_data st) + int (position st r k i)"
    and "position st r k i < unat (fs_replica_stride st) * unat (fs_replicas st)"
proof -
  note b = flux_view_impl_InrD [OF assms(2)]
  note lay = flux_ok_layout(4) [OF assms(1,3)]
  have "face_offset (fs_axes st ! k) i < block_size (fs_axes st ! k)"
    using lay assms(4) face_offset_bound by blast
  then have in_stride: "unat (ax_offset (fs_axes st ! k)) + face_offset (fs_axes st ! k) i
      < unat (fs_replica_stride st)" using lay by linarith
  from radix_bound [OF this b(2)]
  show bound: "position st r k i < unat (fs_replica_stride st) * unat (fs_replicas st)"
    by (simp add: position_def)
  have r: "unat (of_nat r :: u64) = r"
    using b(2) unat_u64_less [of "fs_replicas st"] by (simp add: unat_of_nat)
  have "r * unat (fs_replica_stride st) \<le> unat (fs_replica_stride st) * unat (fs_replicas st)"
    using b(2) by (simp add: mult.commute)
  also have "\<dots> < 2 ^ 64" using flux_ok_layout(3) [OF assms(1)] by linarith
  finally have "unat (of_nat r * fs_replica_stride st) = r * unat (fs_replica_stride st)"
    by (simp add: unat_word_ariths r)
  then have "face_cell (flux_faces f ! k) i = the (fs_data st) + int (r * unat (fs_replica_stride st))
      + int (unat (ax_offset (fs_axes st ! k)))
      + (x3 i + y3 i * int (unat (ax_stride_y (fs_axes st ! k)))
         + z3 i * int (unat (ax_stride_z (fs_axes st ! k))))"
    unfolding b(8) using less_3 [OF assms(3)] by (auto simp: face_cell_def axis_view_def replica_base_def Let_def)
  moreover have "0 \<le> x3 i" "0 \<le> y3 i" "0 \<le> z3 i" using assms(4) by (simp_all add: face_box_def)
  ultimately show "face_cell (flux_faces f ! k) i = the (fs_data st) + int (position st r k i)"
    by (simp add: position_def face_offset_def)
qed

lemma position_inject:
  assumes "flux_ok st" "k < 3" "l < 3"
    and "face_box (axis_extents (fs_cells st) ! k) i" "face_box (axis_extents (fs_cells st) ! l) j"
    and "position st r k i = position st q l j"
  shows "r = q \<and> k = l \<and> i = j"
proof -
  note lk = flux_ok_layout(4) [OF assms(1,2)] and ll = flux_ok_layout(4) [OF assms(1,3)]
  have ok: "face_offset (fs_axes st ! k) i < block_size (fs_axes st ! k)"
    using lk assms(4) face_offset_bound by blast
  have ol: "face_offset (fs_axes st ! l) j < block_size (fs_axes st ! l)"
    using ll assms(5) face_offset_bound by blast
  let ?a = "unat (ax_offset (fs_axes st ! k)) + face_offset (fs_axes st ! k) i"
  let ?b = "unat (ax_offset (fs_axes st ! l)) + face_offset (fs_axes st ! l) j"
  have "?a < unat (fs_replica_stride st)" "?b < unat (fs_replica_stride st)"
    using lk ll ok ol by linarith+
  note u = radix_unique [OF this assms(6) [unfolded position_def]]
  have kl: "k = l"
  proof (rule ccontr)
    assume "k \<noteq> l"
    then consider "k < l" | "l < k" by linarith
    then show False
    proof cases
      case 1
      then have "unat (ax_offset (fs_axes st ! k)) + block_size (fs_axes st ! k) \<le> unat (ax_offset (fs_axes st ! l))"
        using ll by blast
      with u ok show False by linarith
    next
      case 2
      then have "unat (ax_offset (fs_axes st ! l)) + block_size (fs_axes st ! l) \<le> unat (ax_offset (fs_axes st ! k))"
        using lk by blast
      with u ol show False by linarith
    qed
  qed
  have "i = j"
    using face_offset_inject [of "axis_extents (fs_cells st) ! k" "fs_axes st ! k" i j] lk assms(4,5) u kl by auto
  with u kl show ?thesis by blast
qed

end
