(* ===== verification/Face_Copy.thy ===== *)
theory Face_Copy
  imports Face_Geometry
begin

text \<open>
  What the copy loops of \<^verbatim>\<open>solver_face_flux.cpp\<close> do to the memory: every face of the destination
  receives the value of the same face of the source, and no other address changes, provided the
  destination is injective and the source lies outside it.
\<close>

lemma face_positions_iff: "i \<in> set (face_positions e) \<longleftrightarrow> face_box e i"
proof
  assume "face_box e i"
  then have b: "x3 i \<in> set [0..x3 e - 1]" "y3 i \<in> set [0..y3 e - 1]" "z3 i \<in> set [0..z3 e - 1]"
    by (simp_all add: face_box_def)
  have "\<lparr>x3 = x3 i, y3 = y3 i, z3 = z3 i\<rparr> \<in> set (face_positions e)"
    using b by (fastforce simp: face_positions_def)
  then show "i \<in> set (face_positions e)" by (cases i) simp
qed (auto simp: face_positions_def face_box_def)

text \<open>The three loops of a flux view as one pass over the faces of the three axes.\<close>

type_synonym face = "nat \<times> int3"

definition flux_positions :: "flux_view \<Rightarrow> face list" where
  "flux_positions f = concat (map (\<lambda>k. map (Pair k) (face_positions (ff_extents (flux_faces f ! k)))) [0, 1, 2])"

definition face_address :: "flux_view \<Rightarrow> face \<Rightarrow> int" where
  "face_address f p = face_cell (flux_faces f ! fst p) (snd p)"

lemma flux_positions_iff:
  "(k, i) \<in> set (flux_positions f) \<longleftrightarrow> k < 3 \<and> face_box (ff_extents (flux_faces f ! k)) i"
  using less_3 [of k] by (auto simp: flux_positions_def face_positions_iff)

lemma copy_flux_fold:
  "copy_flux input output m =
     fold (\<lambda>p m. m(face_address output p := m (face_address input p))) (flux_positions input) m"
  by (simp add: copy_flux_def copy_face_def flux_positions_def fold_map comp_def face_address_def flux_faces_def)

lemma fold_copy:
  assumes "inj_on g (set ps)" "\<forall>p \<in> set ps. \<forall>q \<in> set ps. f p \<noteq> g q"
  shows "(\<forall>p \<in> set ps. fold (\<lambda>p m. m(g p := m (f p))) ps m (g p) = m (f p)) \<and>
    (\<forall>a. a \<notin> g ` set ps \<longrightarrow> fold (\<lambda>p m. m(g p := m (f p))) ps m a = m a)"
  using assms
proof (induction ps arbitrary: m)
  case (Cons p ps)
  let ?m = "m(g p := m (f p))"
  have "inj_on g (set ps)" "\<forall>p \<in> set ps. \<forall>q \<in> set ps. f p \<noteq> g q"
    using Cons.prems by (auto simp: inj_on_def)
  from Cons.IH [OF this, of ?m] have ih: "\<forall>q \<in> set ps. fold (\<lambda>p m. m(g p := m (f p))) ps ?m (g q) = ?m (f q)"
    "\<forall>a. a \<notin> g ` set ps \<longrightarrow> fold (\<lambda>p m. m(g p := m (f p))) ps ?m a = ?m a"
    by blast+
  have "fold (\<lambda>p m. m(g p := m (f p))) ps ?m (g p) = m (f p)"
  proof (cases "p \<in> set ps")
    case True
    then show ?thesis using ih(1) Cons.prems(2) by simp
  next
    case False
    then have "g p \<notin> g ` set ps" using Cons.prems(1) by (auto simp: inj_on_def)
    then show ?thesis using ih(2) by simp
  qed
  moreover have "fold (\<lambda>p m. m(g p := m (f p))) ps ?m (g q) = m (f q)" if "q \<in> set ps" for q
    using ih(1) that Cons.prems(2) by auto
  moreover have "fold (\<lambda>p m. m(g p := m (f p))) ps ?m a = m a" if "a \<notin> g ` set (p # ps)" for a
    using ih(2) that by simp
  ultimately show ?case by (simp del: fun_upd_apply)
qed simp

text \<open>The values a view shows.\<close>

definition flux_value :: "(int \<Rightarrow> u64) \<Rightarrow> flux_view \<Rightarrow> nat \<Rightarrow> int3 \<Rightarrow> u64" where
  "flux_value m f k i = m (face_cell (flux_faces f ! k) i)"

definition in_flux :: "flux_storage \<Rightarrow> int \<Rightarrow> bool" where
  "in_flux st a \<longleftrightarrow> the (fs_data st) \<le> a \<and>
     a < the (fs_data st) + int (unat (fs_replica_stride st) * unat (fs_replicas st))"

definition flux_box :: "int3 \<Rightarrow> nat \<Rightarrow> int3 \<Rightarrow> bool" where
  "flux_box cells k i \<longleftrightarrow> k < 3 \<and> face_box (axis_extents cells ! k) i"

text \<open>A source of the right shape that lies outside the storage.\<close>

definition outside_source :: "flux_storage \<Rightarrow> flux_view \<Rightarrow> bool" where
  "outside_source st f \<longleftrightarrow> (\<forall>k i. flux_box (fs_cells st) k i \<longrightarrow> \<not> in_flux st (face_cell (flux_faces f ! k) i))"

lemma view_in_flux:
  assumes "flux_ok st" "flux_view_impl st r rv = Inr f" "flux_box (fs_cells st) k i"
  shows "in_flux st (face_cell (flux_faces f ! k) i)"
  using view_address [OF assms(1,2)] assms(3) by (simp add: flux_box_def in_flux_def del: of_nat_mult)

lemma view_inject:
  assumes "flux_ok st" "flux_view_impl st r rv = Inr f" "flux_view_impl st q rw = Inr g"
    and "flux_box (fs_cells st) k i" "flux_box (fs_cells st) l j"
    and "face_cell (flux_faces f ! k) i = face_cell (flux_faces g ! l) j"
  shows "r = q \<and> k = l \<and> i = j"
  using view_address(1) [OF assms(1,2)] view_address(1) [OF assms(1,3)] position_inject [OF assms(1)] assms(4-6)
  by (metis flux_box_def add_left_cancel of_nat_eq_iff)

lemma valid_source_shape:
  "valid_flux_view f cells rv \<Longrightarrow> k < 3 \<Longrightarrow> ff_extents (flux_faces f ! k) = axis_extents cells ! k"
  using less_3 [of k] by (auto simp: valid_flux_view_def valid_face_def flux_faces_def)

lemma copy_flux_values:
  assumes "flux_ok st" "flux_view_impl st r rv = Inr d" "valid_flux_view f (fs_cells st) rw"
    and "outside_source st f"
  shows "flux_box (fs_cells st) k i \<Longrightarrow> flux_value (copy_flux f d m) d k i = flux_value m f k i"
    and "\<not> in_flux st a \<Longrightarrow> copy_flux f d m a = m a"
    and "flux_view_impl st q rq = Inr g \<Longrightarrow> q \<noteq> r \<Longrightarrow> flux_box (fs_cells st) k i \<Longrightarrow>
      flux_value (copy_flux f d m) g k i = flux_value m g k i"
proof -
  have pos: "(k, i) \<in> set (flux_positions f) \<longleftrightarrow> flux_box (fs_cells st) k i" for k i
    using valid_source_shape [OF assms(3)] by (auto simp: flux_positions_iff flux_box_def)
  have "inj_on (face_address d) (set (flux_positions f))"
  proof (rule inj_onI)
    fix p q
    assume "p \<in> set (flux_positions f)" "q \<in> set (flux_positions f)" "face_address d p = face_address d q"
    then show "p = q"
      using view_inject [OF assms(1,2,2)] pos [of "fst p" "snd p"] pos [of "fst q" "snd q"]
      by (auto simp: face_address_def intro!: prod_eqI)
  qed
  moreover have "\<forall>p \<in> set (flux_positions f). \<forall>q \<in> set (flux_positions f). face_address f p \<noteq> face_address d q"
    using view_in_flux [OF assms(1,2)] assms(4) pos
    by (fastforce simp: face_address_def outside_source_def)
  ultimately have c: "\<forall>p \<in> set (flux_positions f). copy_flux f d m (face_address d p) = m (face_address f p)"
    "\<forall>a. a \<notin> face_address d ` set (flux_positions f) \<longrightarrow> copy_flux f d m a = m a"
    using fold_copy unfolding copy_flux_fold by blast+
  show "flux_box (fs_cells st) k i \<Longrightarrow> flux_value (copy_flux f d m) d k i = flux_value m f k i"
    using c(1) pos by (fastforce simp: flux_value_def face_address_def)
  have out: "a \<notin> face_address d ` set (flux_positions f)"
    if "\<And>k i. flux_box (fs_cells st) k i \<Longrightarrow> a \<noteq> face_cell (flux_faces d ! k) i" for a
  proof
    assume "a \<in> face_address d ` set (flux_positions f)"
    then obtain p where "p \<in> set (flux_positions f)" "a = face_address d p" by blast
    with that [of "fst p" "snd p"] pos [of "fst p" "snd p"] show False by (simp add: face_address_def)
  qed
  show "\<not> in_flux st a \<Longrightarrow> copy_flux f d m a = m a"
    using c(2) out view_in_flux [OF assms(1,2)] by metis
  show "flux_view_impl st q rq = Inr g \<Longrightarrow> q \<noteq> r \<Longrightarrow> flux_box (fs_cells st) k i \<Longrightarrow>
      flux_value (copy_flux f d m) g k i = flux_value m g k i"
    unfolding flux_value_def using c(2) out view_inject [OF assms(1) _ assms(2)] by metis
qed

end
