(* ===== verification/Face_Commit.thy ===== *)
theory Face_Commit
  imports Face_Copy Attempt_Outcome
begin

text \<open>
  The life of a final face flux: begun, filled, published and committed with its attempt. A writer
  keeps three replicas apart (\<open>writer_wf\<close>); the lemmas give the store after each successful step,
  and the properties follow the values from the source to the committed view.
\<close>

section \<open>The replicas of a writer\<close>

definition writer_wf :: "flux_writer \<Rightarrow> bool" where
  "writer_wf wr \<longleftrightarrow> fw_active_replica wr < 3 \<and> fw_previous_replica wr < 3 \<and> fw_pending_replica wr < 3 \<and>
     fw_pending_replica wr \<noteq> fw_active_replica wr \<and> fw_pending_replica wr \<noteq> fw_previous_replica wr"

lemma empty_writer_wf: "writer_wf empty_writer"
  by (simp add: writer_wf_def empty_writer_def)

lemma free_replica_free:
  "free_replica x y z < 3 \<and> free_replica x y z \<noteq> x \<and> free_replica x y z \<noteq> y"
  by (auto simp: free_replica_def)

lemma rotate_writer_wf: "writer_wf wr \<Longrightarrow> writer_wf (rotate_writer wr)"
  using free_replica_free [of "fw_pending_replica wr" "fw_active_replica wr" "fw_pending_replica wr"]
  by (simp add: writer_wf_def rotate_writer_def)

lemma drop_pending_sel [simp]:
  "fw_active_replica (drop_pending wr) = fw_active_replica wr"
  "fw_previous_replica (drop_pending wr) = fw_previous_replica wr"
  "fw_pending_replica (drop_pending wr) = fw_pending_replica wr"
  "fw_active_revision (drop_pending wr) = fw_active_revision wr"
  "fw_previous_revision (drop_pending wr) = fw_previous_revision wr"
  "fw_issued (drop_pending wr) = fw_issued wr" "fw_fingerprint (drop_pending wr) = fw_fingerprint wr"
  "fw_bound_identity (drop_pending wr) = fw_bound_identity wr"
  "fw_bound_domain (drop_pending wr) = fw_bound_domain wr"
  "fw_bound_cells (drop_pending wr) = fw_bound_cells wr"
  by (simp_all add: drop_pending_def)

text \<open>The operations that move face values or replicas keep the replicas apart.\<close>

datatype writer_op =
  Op_begin nat nat nat
| Op_copy flux_view nat
| Op_publish_flux "revision_dependency span" nat
| Op_initialize nat flux_view
| Op_restored nat flux_view
| Op_restored_history nat flux_view flux_view
| Op_restore nat flux_view
| Op_complete nat bool
| Op_abandon nat
| Op_detach nat

fun writer_apply :: "nat \<Rightarrow> writer_op \<Rightarrow> world \<Rightarrow> world" where
  "writer_apply a (Op_begin t s v) w = snd (begin_pending a t s v w)"
| "writer_apply a (Op_copy f v) w = snd (copy_pending a f v w)"
| "writer_apply a (Op_publish_flux deps v) w = snd (publish_pending a deps v w)"
| "writer_apply a (Op_initialize s f) w = snd (initialize_committed a s f w)"
| "writer_apply a (Op_restored s f) w = snd (initialize_restored a s f w)"
| "writer_apply a (Op_restored_history s f g) w = snd (initialize_restored_history a s f g w)"
| "writer_apply a (Op_restore s f) w = snd (restore_committed a s f w)"
| "writer_apply a (Op_complete t accepted) w = complete_from_transaction a t accepted w"
| "writer_apply a (Op_abandon v) w = abandon_pending_view a v w"
| "writer_apply a (Op_detach t) w = detach_from_transaction a t w"

lemma invalidate_writers:
  "w_writers (invalidate_pending_view a w) =
     (w_writers w)(a := (w_writers w a)\<lparr>fw_view := None\<rparr>)"
  by (auto simp: invalidate_pending_view_def split: option.splits)

lemma invalidate_transaction_frame [simp]:
  "w_writers (invalidate_transaction_of a w) = w_writers w"
  "w_storages (invalidate_transaction_of a w) = w_storages w"
  "w_mem (invalidate_transaction_of a w) = w_mem w"
  by (simp_all add: invalidate_transaction_of_def split: option.splits)

lemma pending_view_impl_frame:
  "w_writers (snd (pending_view_impl s r rv i j v w)) = w_writers w"
  "w_storages (snd (pending_view_impl s r rv i j v w)) = w_storages w"
  "w_txs (snd (pending_view_impl s r rv i j v w)) = w_txs w"
  "w_mem (snd (pending_view_impl s r rv i j v w)) = w_mem w"
  by (simp_all add: pending_view_impl_def split: sum.splits)

lemma writer_apply_wf: "writer_wf (w_writers w a) \<Longrightarrow> writer_wf (w_writers (writer_apply a op w) a)"
  using rotate_writer_wf [of "w_writers w a"]
proof (cases op)
qed (auto simp: writer_wf_def begin_pending_def Let_def copy_pending_def publish_pending_def publish_through_def
   initialize_committed_def initialize_restored_def initialize_at_def initialize_restored_history_def install_def
   restore_committed_def complete_from_transaction_def abandon_pending_view_def detach_from_transaction_def
   invalidate_writers pending_view_impl_frame
   split: option.splits sum.splits prod.splits if_splits dest!: arg_cong [of _ _ snd])


lemma writer_run_wf:
  "writer_wf (w_writers w a) \<Longrightarrow> writer_wf (w_writers (fold (writer_apply a) ops w) a)"
  by (induction ops arbitrary: w) (simp_all add: writer_apply_wf)

section \<open>Successful steps\<close>

text \<open>The storage keeps its memory and identity while leases come and go.\<close>

definition same_block :: "flux_storage \<Rightarrow> flux_storage \<Rightarrow> bool" where
  "same_block st st' \<longleftrightarrow> fs_data st' = fs_data st \<and> fs_cells st' = fs_cells st \<and> fs_axes st' = fs_axes st \<and>
     fs_replica_stride st' = fs_replica_stride st \<and> fs_replicas st' = fs_replicas st \<and>
     fs_identity st' = fs_identity st \<and> fs_domain st' = fs_domain st \<and> fs_final st' = fs_final st"

lemma same_block_view: "same_block st st' \<Longrightarrow> flux_view_impl st' = flux_view_impl st"
  by (intro ext) (simp add: same_block_def flux_view_impl_def axis_view_def Let_def split: option.splits)

lemma same_block_committed:
  assumes "same_block st st'"
  shows "committed_at wr st' = committed_at wr st"
proof -
  have c: "certify i rv st' = certify i rv st" for i rv
    using assms by (intro ext) (simp add: certify_def same_block_def)
  have f: "fs_replicas st' = fs_replicas st" "fs_final st' = fs_final st" "fs_identity st' = fs_identity st"
    "fs_domain st' = fs_domain st" "fs_cells st' = fs_cells st"
    using assms by (simp_all add: same_block_def)
  show ?thesis unfolding fun_eq_iff committed_at_def same_block_view [OF assms] c f by simp
qed

lemma same_block_lease:
  "same_block (w_storages w s) (w_storages (clear_storage_lease a w) s)"
  by (simp add: clear_storage_lease_def same_block_def split: option.splits)

lemma pending_view_implD:
  assumes "is_ok (fst (pending_view_impl s r rv i j v w))"
  obtains raw where "flux_view_impl (w_storages w s) r rv = Inr raw"
    and "pending_view_impl s r rv i j v w =
      (status_ok, set_view v ((w_views w v)\<lparr>pv_x := fx_x raw, pv_y := fx_y raw, pv_z := fx_z raw,
         pv_revision := rv, pv_writer_identity := i, pv_attempt_identity := j, pv_storage := Some s\<rparr>) w)"
proof (cases "flux_view_impl (w_storages w s) r rv")
  case (Inl e)
  then have "\<not> is_ok e"
    by (auto simp: flux_view_impl_def Let_def split: option.splits if_splits)
  with Inl assms show ?thesis by (simp add: pending_view_impl_def)
next
  case (Inr raw)
  with assms that show ?thesis by (auto simp: pending_view_impl_def split: if_splits)
qed

lemma begin_pendingD:
  assumes "begin_pending a t s v w = (r, w1)" "is_ok r"
  obtains raw where "\<not> begin_refused (w_writers w a) t (w_txs w t) (w_storages w s)"
    and "fw_active_revision (w_writers w a) + 1 \<noteq> 0"
    and "flux_view_impl (w_storages w s) (fw_pending_replica (w_writers w a))
           (fw_active_revision (w_writers w a) + 1) = Inr raw"
    and "w_mem w1 = w_mem w" "w_txs w1 = w_txs w" "same_block (w_storages w s) (w_storages w1 s)"
    and "fw_tx (w_writers w1 a) = Some t" "fw_storage (w_writers w1 a) = Some s"
    and "pending_flux (w_views w1 v) = raw"
    and "w_writers w1 a = (w_writers w a)
           \<lparr>fw_pending_revision := fw_active_revision (w_writers w a) + 1,
            fw_attempt := tx_attempt (w_txs w t), fw_tx := Some t, fw_storage := Some s,
            fw_view := Some v, fw_bound_identity := fs_identity (w_storages w s),
            fw_bound_domain := fs_domain (w_storages w s), fw_bound_cells := fs_cells (w_storages w s),
            fw_pending := True, fw_published := False\<rparr>"
proof -
  let ?wr = "w_writers w a" and ?tx = "w_txs w t" and ?st = "w_storages w s"
  let ?c = "fw_active_revision ?wr + 1"
  let ?p = "pending_view_impl s (fw_pending_replica ?wr) ?c (fw_fingerprint ?wr) (tx_attempt ?tx) v w"
  have c: "(if fw_active_revision ?wr = 0 then 1 else ?c) = ?c" by simp
  from assms have g: "\<not> begin_refused ?wr t ?tx ?st" "?c \<noteq> 0" "\<not> ?c \<le> fw_active_revision ?wr"
    and i: "is_ok (fst ?p)"
    unfolding begin_pending_def Let_def c by (auto split: if_splits prod.splits)
  from i obtain raw where raw: "flux_view_impl ?st (fw_pending_replica ?wr) ?c = Inr raw"
    and p: "?p = (status_ok, set_view v ((w_views w v)\<lparr>pv_x := fx_x raw, pv_y := fx_y raw, pv_z := fx_z raw,
         pv_revision := ?c, pv_writer_identity := fw_fingerprint ?wr,
         pv_attempt_identity := tx_attempt ?tx, pv_storage := Some s\<rparr>) w)"
    by (rule pending_view_implD)
  from g(1) have b: "fw_bound_identity ?wr \<noteq> 0 \<Longrightarrow> fw_bound_identity ?wr = fs_identity ?st \<and>
      fw_bound_domain ?wr = fs_domain ?st \<and> fw_bound_cells ?wr = fs_cells ?st"
    by (auto simp: begin_refused_def)
  from assms g p have w1: "w1 = set_storage s (?st\<lparr>fs_pending_writer_id := fw_fingerprint ?wr,
        fs_pending_attempt := tx_attempt ?tx, fs_pending_writer := Some a, fs_authority := fw_fingerprint ?wr\<rparr>)
      (set_view v ((w_views w v)\<lparr>pv_x := fx_x raw, pv_y := fx_y raw, pv_z := fx_z raw,
         pv_revision := ?c, pv_writer_identity := fw_fingerprint ?wr,
         pv_attempt_identity := tx_attempt ?tx, pv_storage := Some s, pv_writer := Some a\<rparr>)
      (set_writer a (?wr\<lparr>fw_pending_revision := ?c, fw_attempt := tx_attempt ?tx,
         fw_tx := Some t, fw_storage := Some s, fw_view := Some v,
         fw_bound_identity := (if fw_bound_identity ?wr = 0 then fs_identity ?st else fw_bound_identity ?wr),
         fw_bound_domain := (if fw_bound_identity ?wr = 0 then fs_domain ?st else fw_bound_domain ?wr),
         fw_bound_cells := (if fw_bound_identity ?wr = 0 then fs_cells ?st else fw_bound_cells ?wr),
         fw_pending := True, fw_published := False\<rparr>) (snd ?p)))"
    unfolding begin_pending_def Let_def c by simp
  show ?thesis
  proof (rule that [OF g(1,2) raw])
    show "pending_flux (w_views w1 v) = raw"
      using flux_view_impl_InrD(6,7) [OF raw] by (simp add: w1 pending_flux_def)
    show "w_writers w1 a = ?wr
           \<lparr>fw_pending_revision := ?c, fw_attempt := tx_attempt ?tx, fw_tx := Some t, fw_storage := Some s,
            fw_view := Some v, fw_bound_identity := fs_identity ?st,
            fw_bound_domain := fs_domain ?st, fw_bound_cells := fs_cells ?st,
            fw_pending := True, fw_published := False\<rparr>"
      using b by (cases "fw_bound_identity ?wr = 0") (simp_all add: w1 p)
  qed (simp_all add: w1 p same_block_def)
qed

lemma copy_pendingD:
  assumes "copy_pending a f v w = (r, w1)" "is_ok r"
  shows "valid_flux_view f (fs_cells (writer_storage a w)) (fx_revision f)"
    and "w1 = w\<lparr>w_mem := copy_flux f (pending_flux (w_views w v)) (w_mem w)\<rparr>"
  using assms by (auto simp: copy_pending_def Let_def split: if_splits option.splits)

lemma latch_failure: "\<not> is_ok s \<Longrightarrow> \<not> is_ok (fst (latch s tx))"
  by (simp add: latch_def Let_def advance_mutation_def)

lemma preflight_flux_publish:
  "is_ok (fst (publish_flux_cache k deps rv i tx)) \<longleftrightarrow> is_ok (preflight_flux_cache k deps rv i tx)"
  by (simp add: publish_flux_cache_def preflight_flux_cache_def publish_cache_def Let_def latch_failure)

lemma publish_flux_frame:
  "publish_flux_cache k deps rv i tx = (r, tx') \<Longrightarrow> is_ok r \<Longrightarrow>
   tx_writer tx' = tx_writer tx \<and> tx_layers tx' = tx_layers tx"
  by (auto simp: publish_flux_cache_def publish_cache_def store_certificates_eq Let_def advance_mutation_def
      latch_def split: if_splits)

lemma publish_pendingD:
  assumes "publish_pending a deps v w = (r, w1)" "is_ok r"
  obtains t s tx' where "fw_tx (w_writers w a) = Some t" "fw_storage (w_writers w a) = Some s"
    and "lease_ok a v t s w" "tx_writer tx' = tx_writer (w_txs w t)"
    and "w_mem w1 = w_mem w" "w_storages w1 = w_storages w" "w_txs w1 = (w_txs w)(t := tx')"
    and "w_writers w1 a = (w_writers w a)\<lparr>fw_published := True, fw_view := None\<rparr>"
proof -
  let ?wr = "w_writers w a"
  obtain t where t: "fw_tx ?wr = Some t"
    using assms by (auto simp: publish_pending_def preflight_publish_def validate_pending_lease_def Let_def
      split: option.splits if_splits)
  have fail: "\<not> is_ok (fst (publish_through a t deps w))"
    if "\<not> is_ok (preflight_publish a deps v w)" "sdetail (preflight_publish a deps v w) \<noteq> 914"
  proof -
    from that have "\<not> is_ok (preflight_flux_cache (fw_slot ?wr) deps (fw_pending_revision ?wr)
        (fw_fingerprint ?wr) (w_txs w t))"
      using t by (auto simp: preflight_publish_def Let_def validate_pending_lease_def writer_transaction_def
        split: if_splits option.splits)
    then show ?thesis
      unfolding preflight_flux_publish [symmetric] by (auto simp: publish_through_def Let_def split: prod.splits)
  qed
  have pre: "is_ok (preflight_publish a deps v w)"
    using assms fail t by (auto simp: publish_pending_def Let_def split: if_splits)
  then obtain s where s: "fw_storage ?wr = Some s" "lease_ok a v t s w"
    using t by (auto simp: preflight_publish_def validate_pending_lease_def Let_def split: if_splits option.splits)
  obtain q tx' where q: "publish_flux_cache (fw_slot ?wr) deps (fw_pending_revision ?wr) (fw_fingerprint ?wr)
      (w_txs w t) = (q, tx')" by (metis prod.exhaust)
  with assms pre t have "is_ok q" and w1: "w1 = set_view v empty_pending_view
      (set_writer a (?wr\<lparr>fw_published := True, fw_view := None\<rparr>) (set_tx t tx' w))"
    by (auto simp: publish_pending_def publish_through_def Let_def split: if_splits)
  with publish_flux_frame [OF q] have "tx_writer tx' = tx_writer (w_txs w t)" by simp
  then show ?thesis by (intro that [OF t s]) (simp_all add: w1)
qed

section \<open>Completion\<close>

text \<open>The fields a committed view depends on.\<close>

definition same_authority :: "flux_writer \<Rightarrow> flux_writer \<Rightarrow> bool" where
  "same_authority wr wr' \<longleftrightarrow> fw_issued wr' = fw_issued wr \<and> fw_fingerprint wr' = fw_fingerprint wr \<and>
     fw_bound_identity wr' = fw_bound_identity wr \<and> fw_bound_domain wr' = fw_bound_domain wr \<and>
     fw_bound_cells wr' = fw_bound_cells wr"

definition same_replicas :: "flux_writer \<Rightarrow> flux_writer \<Rightarrow> bool" where
  "same_replicas wr wr' \<longleftrightarrow> fw_active_replica wr' = fw_active_replica wr \<and>
     fw_active_revision wr' = fw_active_revision wr \<and> fw_previous_replica wr' = fw_previous_replica wr \<and>
     fw_previous_revision wr' = fw_previous_revision wr"

lemma committed_at_authority: "same_authority wr wr' \<Longrightarrow> committed_at wr' = committed_at wr"
  by (intro ext) (simp add: committed_at_def same_authority_def split: sum.split)

lemma committed_same:
  assumes "same_authority wr wr'" "same_replicas wr wr'" "same_block st st'"
  shows "committed wr' st' = committed wr st" and "committed_previous wr' st' = committed_previous wr st"
  using assms committed_at_authority [OF assms(1)] same_block_committed [OF assms(3)]
  by (simp_all add: committed_def committed_previous_def same_replicas_def)

lemma complete_same:
  "same_block (w_storages w s) (w_storages (complete_from_transaction b t accepted w) s)"
  "same_authority (w_writers w a) (w_writers (complete_from_transaction b t accepted w) a)"
  "\<not> accepted \<Longrightarrow> same_replicas (w_writers w a) (w_writers (complete_from_transaction b t accepted w) a)"
  using same_block_lease [of w s b] same_block_lease [of "set_writer b (rotate_writer (w_writers w b)) w" s b]
  by (auto simp: complete_from_transaction_def Let_def same_authority_def same_replicas_def rotate_writer_def
      invalidate_writers same_block_def)

lemma complete_accepts:
  assumes "fw_tx (w_writers w a) = Some t" "fw_pending (w_writers w a)"
  shows "same_replicas (rotate_writer (w_writers w a)) (w_writers (complete_from_transaction a t True w) a)"
  using assms
  by (auto simp: complete_from_transaction_def Let_def same_replicas_def invalidate_writers)

lemma complete_writer_same:
  "same_block (w_storages w s) (w_storages (complete_writer t False w) s)"
  "same_authority (w_writers w a) (w_writers (complete_writer t False w) a)"
  "same_replicas (w_writers w a) (w_writers (complete_writer t False w) a)"
  by (simp_all add: complete_writer_def complete_same split: option.splits)
     (simp_all add: same_block_def same_authority_def same_replicas_def)

lemma same_trans:
  "same_block x y \<Longrightarrow> same_block y z \<Longrightarrow> same_block x z"
  "same_authority p q \<Longrightarrow> same_authority q r \<Longrightarrow> same_authority p r"
  "same_replicas p q \<Longrightarrow> same_replicas q r \<Longrightarrow> same_replicas p r"
  by (simp_all add: same_block_def same_authority_def same_replicas_def)

lemma commit_accept_flux:
  assumes "matches_prepared t (w_txs w t) p" "pf_decision p = Accept" "pf_locally_active p"
    and "tx_writer (w_txs w t) = Some a" "fw_tx (w_writers w a) = Some t" "fw_pending (w_writers w a)"
    and "commit_accept t p w = (p', w')"
  shows "w_mem w' = w_mem w" "same_block (w_storages w s) (w_storages w' s)"
    "same_authority (w_writers w a) (w_writers w' a)"
    "same_replicas (rotate_writer (w_writers w a)) (w_writers w' a)"
proof -
  let ?tx = "(w_txs w t)\<lparr>tx_active_caches := tx_pending_caches (w_txs w t),
    tx_commit_buffer := tx_active_caches (w_txs w t)\<rparr>"
  let ?w = "complete_from_transaction a t True (set_tx t ?tx w)"
  have "tx_active (w_txs w t)" "tx_layers (w_txs w t) \<noteq> None"
    using assms(1,3) by (auto simp: matches_prepared_def)
  with assms have w': "w_mem w' = w_mem ?w" "w_storages w' = w_storages ?w" "w_writers w' = w_writers ?w"
    by (auto simp: commit_accept_def Let_def complete_writer_def)
  show "w_mem w' = w_mem w" "same_block (w_storages w s) (w_storages w' s)"
    "same_authority (w_writers w a) (w_writers w' a)"
    "same_replicas (rotate_writer (w_writers w a)) (w_writers w' a)"
    using complete_same(1,2) [of "set_tx t ?tx w"] complete_accepts [of "set_tx t ?tx w" a t] assms(5,6)
    by (simp_all add: w')
qed

section \<open>Properties\<close>

text \<open>
  C6. The face flux of an accepted attempt is exactly the flux that was copied into it: after begin,
  copy, publish and an authorised acceptance the committed view has the next revision and shows,
  face by face, the values of the source; the view that was committed before is the previous one
  now, with its revision, its certificate and every value as they were.
\<close>

theorem flux_commit_shows_source:
  assumes "writer_wf (w_writers w a)" "flux_ok (w_storages w s)" "outside_source (w_storages w s) f"
    and "begin_pending a t s v w = (r1, w1)" "is_ok r1" "copy_pending a f v w1 = (r2, w2)" "is_ok r2"
    and "publish_pending a deps v w2 = (r3, w3)" "is_ok r3"
    and "matches_prepared t (w_txs w3 t) p" "pf_decision p = Accept" "pf_locally_active p"
    and "commit_accept t p w3 = (p', w4)"
  shows "(\<exists>g. committed (w_writers w4 a) (w_storages w4 s) = Inr g \<and>
      fx_revision g = fw_active_revision (w_writers w a) + 1 \<and>
      (\<forall>k i. flux_box (fs_cells (w_storages w s)) k i \<longrightarrow>
         flux_value (w_mem w4) g k i = flux_value (w_mem w) f k i)) \<and>
    (\<forall>h. committed (w_writers w a) (w_storages w s) = Inr h \<longrightarrow>
      committed_previous (w_writers w4 a) (w_storages w4 s) = Inr h \<and>
      (\<forall>k i. flux_box (fs_cells (w_storages w s)) k i \<longrightarrow>
         flux_value (w_mem w4) h k i = flux_value (w_mem w) h k i))"
proof -
  let ?wr = "w_writers w a" and ?st = "w_storages w s"
  let ?rv = "fw_active_revision ?wr + 1"
  from assms(4,5) obtain raw where b: "\<not> begin_refused ?wr t (w_txs w t) ?st" "?rv \<noteq> 0"
    "flux_view_impl ?st (fw_pending_replica ?wr) ?rv = Inr raw"
    "w_mem w1 = w_mem w" "w_txs w1 = w_txs w" "same_block ?st (w_storages w1 s)"
    "fw_tx (w_writers w1 a) = Some t" "fw_storage (w_writers w1 a) = Some s" "pending_flux (w_views w1 v) = raw"
    and wr1: "w_writers w1 a = ?wr\<lparr>fw_pending_revision := ?rv,
            fw_attempt := tx_attempt (w_txs w t), fw_tx := Some t, fw_storage := Some s,
            fw_view := Some v, fw_bound_identity := fs_identity ?st,
            fw_bound_domain := fs_domain ?st, fw_bound_cells := fs_cells ?st,
            fw_pending := True, fw_published := False\<rparr>"
    by (rule begin_pendingD)
  note c = copy_pendingD [OF assms(6,7)]
  from assms(8,9) obtain t' s' tx' where q: "fw_tx (w_writers w2 a) = Some t'" "fw_storage (w_writers w2 a) = Some s'"
    "lease_ok a v t' s' w2" "tx_writer tx' = tx_writer (w_txs w2 t')"
    "w_mem w3 = w_mem w2" "w_storages w3 = w_storages w2" "w_txs w3 = (w_txs w2)(t' := tx')"
    "w_writers w3 a = (w_writers w2 a)\<lparr>fw_published := True, fw_view := None\<rparr>"
    by (rule publish_pendingD)
  have [simp]: "t' = t" using q(1) b(7) c(2) by simp
  have wr3: "fw_tx (w_writers w3 a) = Some t" "fw_pending (w_writers w3 a)"
    "tx_writer (w_txs w3 t) = Some a"
    using q c(2) wr1 by (auto simp: lease_ok_def Let_def)
  note d = commit_accept_flux [OF assms(10-12) wr3(3,1,2) assms(13)]
  have blk: "same_block ?st (w_storages w4 s)"
    using same_trans(1) [OF b(6)] d(2) [of s] q(6) c(2) by simp
  have cells: "fs_cells (writer_storage a w1) = fs_cells ?st"
    using b(6,8) by (simp add: writer_storage_def same_block_def)
  have src: "valid_flux_view f (fs_cells ?st) (fx_revision f)" using c(1) by (simp add: cells)
  have mem: "w_mem w4 = copy_flux f raw (w_mem w)" using d(1) q(5) c(2) b(4,9) by simp
  have com: "committed_at (w_writers w4 a) (w_storages w4 s) = committed_at (w_writers w1 a) ?st"
    using committed_at_authority [OF d(3)] same_block_committed [OF blk] q(8) c(2)
      committed_at_authority [of "w_writers w1 a" "w_writers w3 a"]
    by (simp add: same_authority_def)
  have rot: "fw_active_replica (w_writers w4 a) = fw_pending_replica ?wr" "fw_active_revision (w_writers w4 a) = ?rv"
    "fw_previous_replica (w_writers w4 a) = fw_active_replica ?wr"
    "fw_previous_revision (w_writers w4 a) = fw_active_revision ?wr"
    using d(4) q(8) c(2) wr1 by (simp_all add: same_replicas_def rotate_writer_def)
  have ref: "fw_issued ?wr" "fs_replicas ?st = final_replicas" "fs_final ?st"
    using b(1) by (simp_all add: begin_refused_def)
  let ?g = "certify (fw_fingerprint ?wr) ?rv ?st raw"
  have g: "committed (w_writers w4 a) (w_storages w4 s) = Inr ?g"
    using ref b(2,3) by (simp add: committed_def rot com committed_at_def wr1)
  have val: "flux_value m (certify i rv st x) = flux_value m x" for m i rv st x
    by (intro ext) (simp add: flux_value_def certify_def flux_faces_def)
  have "\<forall>k i. flux_box (fs_cells ?st) k i \<longrightarrow> flux_value (w_mem w4) ?g k i = flux_value (w_mem w) f k i"
    using copy_flux_values(1) [OF assms(2) b(3) src assms(3)] by (simp add: val mem)
  moreover have "fx_revision ?g = ?rv" using flux_view_impl_InrD(6) [OF b(3)] by (simp add: certify_def)
  moreover have "committed_previous (w_writers w4 a) (w_storages w4 s) = Inr h \<and>
      (\<forall>k i. flux_box (fs_cells ?st) k i \<longrightarrow> flux_value (w_mem w4) h k i = flux_value (w_mem w) h k i)"
    if "committed ?wr ?st = Inr h" for h
  proof -
    from that obtain x where x: "flux_view_impl ?st (fw_active_replica ?wr) (fw_active_revision ?wr) = Inr x"
      and h: "h = certify (fw_fingerprint ?wr) (fw_active_revision ?wr) ?st x"
      and "fw_active_revision ?wr \<noteq> 0"
      by (auto simp: committed_def committed_at_def split: if_splits sum.splits)
    then have "committed_previous (w_writers w4 a) (w_storages w4 s) = Inr h"
      using ref by (simp add: committed_previous_def rot com committed_at_def wr1)
    moreover have "fw_active_replica ?wr \<noteq> fw_pending_replica ?wr" using assms(1) by (auto simp: writer_wf_def)
    ultimately show ?thesis
      using copy_flux_values(3) [OF assms(2) b(3) src assms(3) x] by (simp add: h val mem)
  qed
  ultimately show ?thesis using g by blast
qed

lemma copy_pending_frame:
  assumes "copy_pending a f v w = (r, w')"
  shows "w_writers w' = w_writers w" "w_storages w' = w_storages w" "w_txs w' = w_txs w"
    and "w_mem w' = w_mem w \<or> is_ok r"
  using assms by (auto simp: copy_pending_def Let_def split: if_splits option.splits)

lemma publish_pending_frame:
  assumes "publish_pending a deps v w = (r, w')"
  shows "w_storages w' = w_storages w" "w_mem w' = w_mem w"
    "same_authority (w_writers w a) (w_writers w' a)" "same_replicas (w_writers w a) (w_writers w' a)"
  using assms
  by (auto simp: publish_pending_def publish_through_def Let_def same_authority_def same_replicas_def
      split: if_splits option.splits prod.splits)

text \<open>
  C21. A rejected attempt leaves the committed flux as it was: whatever became of the copy and of the
  publication, after an authorised rejection the committed and the previous view are the views they
  were before the attempt, and every face of them has its old value.
\<close>

theorem flux_reject_keeps_committed:
  assumes "writer_wf (w_writers w a)" "flux_ok (w_storages w s)" "outside_source (w_storages w s) f"
    and "begin_pending a t s v w = (r1, w1)" "is_ok r1" "copy_pending a f v w1 = (r2, w2)"
    and "publish_pending a deps v w2 = (r3, w3)"
    and "matches_prepared t (w_txs w3 t) p" "commit_reject t p w3 = (p', w4)"
    and "committed (w_writers w a) (w_storages w s) = Inr h"
  shows "committed (w_writers w4 a) (w_storages w4 s) = Inr h \<and>
    committed_previous (w_writers w4 a) (w_storages w4 s) = committed_previous (w_writers w a) (w_storages w s) \<and>
    (\<forall>g k i. g = h \<or> committed_previous (w_writers w a) (w_storages w s) = Inr g \<longrightarrow>
       flux_box (fs_cells (w_storages w s)) k i \<longrightarrow>
       flux_value (w_mem w4) g k i = flux_value (w_mem w) g k i)"
proof -
  let ?wr = "w_writers w a" and ?st = "w_storages w s"
  from assms(4,5) obtain raw where b:
    "flux_view_impl ?st (fw_pending_replica ?wr) (fw_active_revision ?wr + 1) = Inr raw"
    "w_mem w1 = w_mem w" "same_block ?st (w_storages w1 s)" "fw_storage (w_writers w1 a) = Some s"
    "pending_flux (w_views w1 v) = raw"
    and wr1: "w_writers w1 a = ?wr\<lparr>fw_pending_revision := fw_active_revision ?wr + 1,
            fw_attempt := tx_attempt (w_txs w t), fw_tx := Some t, fw_storage := Some s,
            fw_view := Some v, fw_bound_identity := fs_identity ?st,
            fw_bound_domain := fs_domain ?st, fw_bound_cells := fs_cells ?st,
            fw_pending := True, fw_published := False\<rparr>"
    by (rule begin_pendingD)
  note fc = copy_pending_frame [OF assms(6)] and fp = publish_pending_frame [OF assms(7)]
  have w4: "w_mem w4 = w_mem w3" "w_storages w4 = w_storages (complete_writer t False w3)"
    "w_writers w4 = w_writers (complete_writer t False w3)"
    using assms(8,9) by (auto simp: commit_reject_def Let_def discard_attempt_def)
  note fd = complete_writer_same [of w3 s t] complete_writer_same(2,3) [of w3 a t]
  have fld: "fw_issued ?wr" "fw_bound_identity ?wr = fs_identity ?st" "fw_bound_domain ?wr = fs_domain ?st"
    "fw_bound_cells ?wr = fs_cells ?st"
    using assms(10) by (auto simp: committed_def committed_at_def split: if_splits)
  have "same_authority ?wr (w_writers w1 a)" "same_replicas ?wr (w_writers w1 a)"
    using fld by (simp_all add: wr1 same_authority_def same_replicas_def)
  then have "same_authority ?wr (w_writers w4 a)" "same_replicas ?wr (w_writers w4 a)"
    using same_trans(2,3) fp(3,4) fd(4,5) fc(1) w4(3) by metis+
  moreover have "same_block ?st (w_storages w4 s)"
    using same_trans(1) b(3) fd(1) fc(2) fp(1) w4(2) by metis
  ultimately have com: "committed (w_writers w4 a) (w_storages w4 s) = committed ?wr ?st"
    "committed_previous (w_writers w4 a) (w_storages w4 s) = committed_previous ?wr ?st"
    by (rule committed_same)+
  have val: "flux_value m (certify i rv st x) = flux_value m x" for m i rv st x
    by (intro ext) (simp add: flux_value_def certify_def flux_faces_def)
  have "flux_value (w_mem w4) g k i = flux_value (w_mem w) g k i"
    if g: "g = h \<or> committed_previous ?wr ?st = Inr g" and box: "flux_box (fs_cells ?st) k i" for g k i
  proof (cases "is_ok r2")
    case False
    then show ?thesis using fc(4) fp(2) b(2) w4(1) by (simp add: flux_value_def)
  next
    case True
    note c = copy_pendingD [OF assms(6) True]
    have "fs_cells (writer_storage a w1) = fs_cells ?st"
      using b(3,4) by (simp add: writer_storage_def same_block_def)
    then have src: "valid_flux_view f (fs_cells ?st) (fx_revision f)" using c(1) by simp
    have mem: "w_mem w4 = copy_flux f raw (w_mem w)" using fp(2) c(2) b(2,5) w4(1) by simp
    obtain q rv x where q: "q = fw_active_replica ?wr \<or> q = fw_previous_replica ?wr"
      and x: "flux_view_impl ?st q rv = Inr x" and "g = certify (fw_fingerprint ?wr) rv ?st x"
      using g assms(10) by (auto simp: committed_def committed_previous_def committed_at_def split: if_splits sum.splits)
    moreover have "q \<noteq> fw_pending_replica ?wr" using q assms(1) by (auto simp: writer_wf_def)
    ultimately show ?thesis
      using copy_flux_values(3) [OF assms(2) b(1) src assms(3) x _ box] by (simp add: val mem)
  qed
  with com assms(10) show ?thesis by auto
qed

text \<open>A run on a box of one cell: the source is a workspace storage, the target a final storage.\<close>

definition example_cells :: int3 where
  "example_cells = \<lparr>x3 = 1, y3 = 1, z3 = 1\<rparr>"

definition example_memory :: "int \<Rightarrow> u64" where
  "example_memory a = (if a = 5000 then 0x3FF0000000000000 else 0)"

definition example_final :: flux_storage where
  "example_final = fst (snd (allocate_final (Some 1000) example_cells empty_flux_storage example_memory 10))"

definition example_workspace :: flux_storage where
  "example_workspace = fst (snd (allocate_workspace (Some 5000) example_cells 1 empty_flux_storage example_memory 20))"

definition example_source :: flux_view where
  "example_source = projr (workspace_view example_workspace 0 7)"

definition example_idle :: world where
  "example_idle = \<lparr>w_mem = example_memory, w_layers = (\<lambda>l. example_layers), w_txs = (\<lambda>t. example_transaction),
     w_writers = (\<lambda>a. empty_writer), w_storages = (\<lambda>s. example_final), w_views = (\<lambda>v. empty_pending_view),
     w_next = 30\<rparr>"

definition example_claimed :: world where
  "example_claimed = snd (snd (authority_claim 1 0 0 0 \<lparr>fa_fingerprint = 0, fa_claimed = False\<rparr> example_idle))"

definition example_writer :: flux_writer where "example_writer = w_writers example_claimed 0"

definition example_attempt :: transaction where
  "example_attempt = (case transaction_begin 7 (w_txs example_claimed 0) example_layers 40 of
     ((s, tx, sl), n) \<Rightarrow>
       fst (attempt_run [Op_revise 1, Op_bind \<lparr>rd_source = 70000, rd_revision = 4\<rparr>] (tx, sl)))"

definition example_started :: world where
  "example_started = example_idle\<lparr>w_txs := (\<lambda>t. example_attempt), w_writers := (\<lambda>a. example_writer)\<rparr>"

definition example_deps :: "revision_dependency span" where
  "example_deps = Span [\<lparr>rd_source = 2, rd_revision = 6\<rparr>]"

text \<open>The values of these constants, used in place of their definitions from here on.\<close>

lemma example_final_code [code]:
  "example_final = \<lparr>fs_data = Some 1000, fs_cells = \<lparr>x3 = 1, y3 = 1, z3 = 1\<rparr>,
    fs_axes =
      [\<lparr>ax_extents = \<lparr>x3 = 2, y3 = 1, z3 = 1\<rparr>, ax_stride_y = 8, ax_stride_z = 8, ax_offset = 0\<rparr>,
       \<lparr>ax_extents = \<lparr>x3 = 1, y3 = 2, z3 = 1\<rparr>, ax_stride_y = 8, ax_stride_z = 16, ax_offset = 8\<rparr>,
       \<lparr>ax_extents = \<lparr>x3 = 1, y3 = 1, z3 = 2\<rparr>, ax_stride_y = 8, ax_stride_z = 8, ax_offset = 24\<rparr>],
    fs_replica_stride = 40, fs_replicas = 3, fs_identity = 10, fs_domain = 11,
    fs_counters = \<lparr>fk_allocations = 1, fk_bytes = 960, fk_replicas = 3, fk_blocks = 9\<rparr>,
    fs_authority = 0, fs_pending_writer_id = 0, fs_pending_attempt = 0,
    fs_pending_writer = None, fs_final = True\<rparr>"
  by code_simp

lemma example_source_code [code]:
  "example_source = \<lparr>fx_x = \<lparr>ff_base = Some 5000, ff_extents = \<lparr>x3 = 2, y3 = 1, z3 = 1\<rparr>,
       ff_stride_y = 8, ff_stride_z = 8, ff_axis = Axis_x, ff_storage_identity = 20, ff_revision_domain = 21\<rparr>,
    fx_y = \<lparr>ff_base = Some 5008, ff_extents = \<lparr>x3 = 1, y3 = 2, z3 = 1\<rparr>,
         ff_stride_y = 8, ff_stride_z = 16, ff_axis = Axis_y, ff_storage_identity = 20, ff_revision_domain = 21\<rparr>,
    fx_z = \<lparr>ff_base = Some 5024, ff_extents = \<lparr>x3 = 1, y3 = 1, z3 = 2\<rparr>,
         ff_stride_y = 8, ff_stride_z = 8, ff_axis = Axis_z, ff_storage_identity = 20, ff_revision_domain = 21\<rparr>,
    fx_revision = 7, fx_certificate = empty_certificate\<rparr>"
  by code_simp

lemma example_writer_code [code]:
  "example_writer = empty_writer\<lparr>fw_stage := 1, fw_slot := 0, fw_fingerprint := 30,
     fw_authority_tx := Some 0, fw_issued := True\<rparr>"
  by code_simp

lemma example_attempt_code [code]:
  "example_attempt = \<lparr>tx_layers = Some 7, tx_active_caches = [0], tx_pending_caches = [0],
    tx_dep_revisions = [0, 0, 0], tx_dep_sources = [0, 0, 0], tx_dep_counts = [0],
    tx_catalog = [\<lparr>rd_source = 2, rd_revision = 6\<rparr>, \<lparr>rd_source = 70000, rd_revision = 4\<rparr>,
       \<lparr>rd_source = 0, rd_revision = 0\<rparr>],
    tx_catalog_count = 2, tx_dep_capacity = 3, tx_commit_buffer = [0],
    tx_required = [True], tx_writer_ids = [30], tx_revised = [False, True],
    tx_bound = 5, tx_status = \<lparr>scode = Ok, sdetail = 0\<rparr>, tx_attempt = 40,
    tx_mutation = 4, tx_writer_identity = 30, tx_writer = Some 0,
    tx_active = True, tx_finished = False, tx_committed = False, tx_lowest = - 1\<rparr>"
  by code_simp

definition example_opened :: world where "example_opened = snd (begin_pending 0 0 0 0 example_started)"
definition example_filled :: world where "example_filled = snd (copy_pending 0 example_source 0 example_opened)"
definition example_published :: world where
  "example_published = snd (publish_pending 0 example_deps 0 example_filled)"
definition example_accept :: prepared where
  "example_accept = prepared_for 0 (w_txs example_published 0) status_ok (- 1) Accept True"
definition example_committed :: world where
  "example_committed = snd (commit_accept 0 example_accept example_published)"

lemma example_begin_ok: "is_ok (fst (begin_pending 0 0 0 0 example_started))"
  by code_simp

lemma example_copy_ok: "is_ok (fst (copy_pending 0 example_source 0 example_opened))"
  by code_simp

lemma example_publish_ok: "is_ok (fst (publish_pending 0 example_deps 0 example_filled))"
  by code_simp

lemma example_accept_matches: "matches_prepared 0 (w_txs example_published 0) example_accept"
  by code_simp

lemmas example_steps = example_begin_ok example_copy_ok example_publish_ok example_accept_matches

lemma example_started_ok:
  "writer_wf (w_writers example_started 0)" "flux_ok (w_storages example_started 0)"
  by code_simp+

lemma example_outside: "outside_source (w_storages example_started 0) example_source"
proof -
  have "\<not> in_flux example_final (face_cell (flux_faces example_source ! k) i)"
    if "flux_box (fs_cells example_final) k i" for k i
  proof -
    have b: "k < 3" "0 \<le> x3 i" "0 \<le> y3 i" "0 \<le> z3 i"
      using that by (auto simp: flux_box_def face_box_def)
    then have "5000 \<le> face_cell (flux_faces example_source ! k) i"
      using less_3 [OF b(1)] by (auto simp: flux_faces_def example_source_code face_cell_def)
    then show ?thesis by (simp add: in_flux_def example_final_code)
  qed
  then show ?thesis by (simp add: outside_source_def example_started_def example_idle_def)
qed

theorem flux_commit_shows_source_witness:
  "\<exists>g. committed (w_writers example_committed 0) (w_storages example_committed 0) = Inr g \<and>
     fx_revision g = 1 \<and> flux_value (w_mem example_committed) g 0 zero3 = 0x3FF0000000000000"
proof -
  have d: "pf_decision example_accept = Accept" "pf_locally_active example_accept"
    by (simp_all add: example_accept_def prepared_for_def)
  have r: "begin_pending 0 0 0 0 example_started = (fst (begin_pending 0 0 0 0 example_started), example_opened)"
    "copy_pending 0 example_source 0 example_opened
       = (fst (copy_pending 0 example_source 0 example_opened), example_filled)"
    "publish_pending 0 example_deps 0 example_filled
       = (fst (publish_pending 0 example_deps 0 example_filled), example_published)"
    "commit_accept 0 example_accept example_published
       = (fst (commit_accept 0 example_accept example_published), example_committed)"
    by (simp_all add: example_opened_def example_filled_def example_published_def example_committed_def)
  have v: "fw_active_revision (w_writers example_started 0) = 0"
    "flux_box (fs_cells (w_storages example_started 0)) 0 zero3"
    "flux_value (w_mem example_started) example_source 0 zero3 = 0x3FF0000000000000"
    by code_simp+
  from flux_commit_shows_source [OF example_started_ok example_outside r(1) example_steps(1) r(2)
      example_steps(2) r(3) example_steps(3,4) d r(4)] v
  show ?thesis by auto
qed

definition example_restarted :: world where
  "example_restarted = install 0 0 0 0 1 1 1 example_started"

lemma example_restart_ok: "is_ok (fst (begin_pending 0 0 0 0 example_restarted))"
  by code_simp

theorem flux_reject_keeps_committed_witness:
  "let w1 = snd (begin_pending 0 0 0 0 example_restarted); w2 = snd (copy_pending 0 example_source 0 w1);
       w3 = snd (publish_pending 0 (Span []) 0 w2);
       p = prepared_for 0 (w_txs w3 0) (failed Rejected_step 1) 0 Reject
             (tx_active (w_txs w3 0) \<and> tx_layers (w_txs w3 0) \<noteq> None);
       w4 = snd (commit_reject 0 p w3)
   in \<exists>h. committed (w_writers w4 0) (w_storages w4 0) = Inr h \<and>
        flux_value (w_mem w4) h 0 zero3 = flux_value example_memory h 0 zero3"
proof -
  define w1 w2 w3 where w: "w1 = snd (begin_pending 0 0 0 0 example_restarted)"
    "w2 = snd (copy_pending 0 example_source 0 w1)" "w3 = snd (publish_pending 0 (Span []) 0 w2)"
  define p where p: "p = prepared_for 0 (w_txs w3 0) (failed Rejected_step 1) 0 Reject
             (tx_active (w_txs w3 0) \<and> tx_layers (w_txs w3 0) \<noteq> None)"
  define w4 where w4: "w4 = snd (commit_reject 0 p w3)"
  have r: "begin_pending 0 0 0 0 example_restarted = (fst (begin_pending 0 0 0 0 example_restarted), w1)"
    "copy_pending 0 example_source 0 w1 = (fst (copy_pending 0 example_source 0 w1), w2)"
    "publish_pending 0 (Span []) 0 w2 = (fst (publish_pending 0 (Span []) 0 w2), w3)"
    "commit_reject 0 p w3 = (fst (commit_reject 0 p w3), w4)"
    by (simp_all add: w w4)
  have m: "matches_prepared 0 (w_txs w3 0) p"
    by (simp add: p matches_prepared_def prepared_for_def prepared_usable_def)
  have blk: "same_block (w_storages example_started 0) (w_storages example_restarted 0)"
    by (simp add: example_restarted_def install_def Let_def same_block_def)
  have st: "writer_wf (w_writers example_restarted 0)" "flux_ok (w_storages example_restarted 0)"
    by code_simp+
  have out: "outside_source (w_storages example_restarted 0) example_source"
    using example_outside blk by (simp add: outside_source_def in_flux_def same_block_def)
  have com: "committed (w_writers example_restarted 0) (w_storages example_restarted 0)
      = Inr (projr (committed (w_writers example_restarted 0) (w_storages example_restarted 0)))"
    by code_simp
  have box: "flux_box (fs_cells (w_storages example_restarted 0)) 0 zero3" by code_simp
  have mem: "w_mem example_restarted = example_memory"
    by (simp add: example_restarted_def install_def Let_def example_started_def example_idle_def)
  from flux_reject_keeps_committed [OF st out r(1) example_restart_ok r(2,3) m r(4) com] box mem
  have "\<exists>h. committed (w_writers w4 0) (w_storages w4 0) = Inr h \<and>
        flux_value (w_mem w4) h 0 zero3 = flux_value example_memory h 0 zero3"
    by auto
  then show ?thesis by (simp add: Let_def w w4 p)
qed



text \<open>
  C23. The faces of a flux storage never coincide: in the views of any replicas of an allocated
  storage two faces are at the same address only if replica, axis and position are the same.
\<close>

theorem flux_faces_never_alias:
  assumes "flux_allocate block cells replicas final out m next_id = (s, st, m', next')" "is_ok s"
    and "int32_triple cells" "flux_view_impl st r rv = Inr f" "flux_view_impl st q rw = Inr g"
    and "flux_box cells k i" "flux_box cells l j"
  shows "face_cell (flux_faces f ! k) i = face_cell (flux_faces g ! l) j \<longleftrightarrow> r = q \<and> k = l \<and> i = j"
proof -
  have ok: "flux_ok st" "fs_cells st = cells" using flux_allocate_ok [OF assms(1-3)] by simp_all
  have "face_cell (flux_faces f ! k) i = face_cell (flux_faces g ! l) j" if "r = q" "k = l" "i = j"
    using view_address(1) [OF ok(1) assms(4)] view_address(1) [OF ok(1) assms(5)] assms(6) that
    by (simp add: flux_box_def ok(2))
  with view_inject [OF ok(1) assms(4,5), unfolded ok(2), OF assms(6,7)] show ?thesis by blast
qed

theorem flux_faces_never_alias_witness:
  "face_cell (fx_x (projr (flux_view_impl example_final 0 1))) zero3
     \<noteq> face_cell (fx_x (projr (flux_view_impl example_final 1 1))) zero3"
proof -
  let ?r = "allocate_final (Some 1000) example_cells empty_flux_storage example_memory 10"
  have a: "flux_allocate (Some 1000) example_cells final_replicas True empty_flux_storage example_memory 10
      = (fst ?r, example_final, fst (snd (snd ?r)), snd (snd (snd ?r)))"
    by (simp add: allocate_final_def example_final_def)
  have "is_ok (fst ?r)" by code_simp
  moreover have "int32_triple example_cells"
    by (simp add: int32_triple_def is_int32_def example_cells_def)
  moreover have "flux_view_impl example_final 0 1 = Inr (projr (flux_view_impl example_final 0 1))"
    "flux_view_impl example_final 1 1 = Inr (projr (flux_view_impl example_final 1 1))" by code_simp+
  moreover have "flux_box example_cells 0 zero3" by code_simp
  ultimately show ?thesis
    using flux_faces_never_alias [OF a, of 0 1 _ 1 1 _ 0 zero3 0 zero3] by (simp add: flux_faces_def)
qed

end
