(* ===== verification/Graph_Workspace.thy ===== *)
theory Graph_Workspace
  imports Prelude
begin

text \<open>
  The workspace allocator of \<^verbatim>\<open>core_execution_graph.cpp\<close>: a stage asks for a block of bytes that is
  live over a range of stages, at a fixed offset or at the first offset that collides with no block
  live at the same time. The search loop has no counter of its own: it ends because a collision
  moves it past the end of a block that overlaps it.
\<close>

section \<open>Intervals\<close>

record workspace_interval =
  wi_begin :: nat
  wi_end :: nat
  wi_offset :: u64
  wi_bytes :: u64
  wi_byte_end :: u64

definition stages_overlap :: "workspace_interval \<Rightarrow> workspace_interval \<Rightarrow> bool" where
  "stages_overlap left right \<longleftrightarrow> wi_begin left \<le> wi_end right \<and> wi_begin right \<le> wi_end left"

definition byte_ranges_overlap :: "workspace_interval \<Rightarrow> workspace_interval \<Rightarrow> bool" where
  "byte_ranges_overlap left right \<longleftrightarrow>
     wi_bytes left \<noteq> 0 \<and> wi_bytes right \<noteq> 0 \<and>
     wi_offset left < wi_byte_end right \<and> wi_offset right < wi_byte_end left"

definition valid_alignment :: "u64 \<Rightarrow> bool" where
  "valid_alignment a \<longleftrightarrow> a \<noteq> 0 \<and> a AND (a - 1) = 0"

text \<open>The candidate placed at an offset, if its end is representable, and what it collides with.\<close>

definition place_at :: "u64 \<Rightarrow> workspace_interval \<Rightarrow> workspace_interval option" where
  "place_at offset c =
     (case checked_add offset (wi_bytes c) of
        None \<Rightarrow> None | Some e \<Rightarrow> Some (c\<lparr>wi_offset := offset, wi_byte_end := e\<rparr>))"

definition collision :: "workspace_interval list \<Rightarrow> workspace_interval \<Rightarrow> workspace_interval option" where
  "collision active c = find (\<lambda>prior. stages_overlap c prior \<and> byte_ranges_overlap c prior) active"

section \<open>The search\<close>

lemma collision_advances:
  assumes "checked_align search alignment = Some offset" "place_at offset c = Some p"
    and "collision active p = Some prior"
  shows "unat search < unat (wi_byte_end prior)"
proof -
  have "offset < wi_byte_end prior"
    using assms(2,3) by (auto simp: place_at_def collision_def byte_ranges_overlap_def find_Some_iff
      split: option.splits)
  with checked_align_bounds(1) [OF assms(1)] show ?thesis by (simp add: word_less_nat_alt)
qed

text \<open>\<open>None\<close> is the overflow error of the loop.\<close>

function first_fit :: "workspace_interval list \<Rightarrow> u64 \<Rightarrow> workspace_interval \<Rightarrow> u64 \<Rightarrow> workspace_interval option" where
  "first_fit active alignment c search =
     (case checked_align search alignment of
        None \<Rightarrow> None
      | Some offset \<Rightarrow>
          (case place_at offset c of
             None \<Rightarrow> None
           | Some p \<Rightarrow>
               (case collision active p of
                  None \<Rightarrow> Some p
                | Some prior \<Rightarrow> first_fit active alignment c (wi_byte_end prior))))"
  by pat_completeness auto
termination
proof (relation "measure (\<lambda>(active, alignment, c, search). 2 ^ 64 - unat search)")
  fix active alignment c search offset p prior
  assume "checked_align search alignment = Some offset" "place_at offset c = Some p"
    "collision active p = Some prior"
  from collision_advances [OF this] unat_u64_less [of search]
  show "((active, alignment, c, wi_byte_end prior), active, alignment, c, search)
      \<in> measure (\<lambda>(active, alignment, c, search). 2 ^ 64 - unat search)"
    by auto
qed simp

declare first_fit.simps [simp del]

section \<open>Allocation\<close>

record workspace_request =
  wr_bytes :: u64
  wr_alignment :: u64
  wr_fixed :: "u64 option"

text \<open>
  The offset, the intervals and the high-water mark after a stage's allocation. The fixed offset of
  the code is a value with a flag; here it is an option.
\<close>

definition graph_workspace_error :: u32 where "graph_workspace_error = 947"
definition graph_overflow_error :: u32 where "graph_overflow_error = 948"

definition allocate_graph_workspace ::
  "workspace_request \<Rightarrow> nat \<Rightarrow> nat \<Rightarrow> workspace_interval list \<Rightarrow> u64 \<Rightarrow>
   status + u64 \<times> workspace_interval list \<times> u64" where
  "allocate_graph_workspace r registration live_through active high_water =
     (if wr_bytes r = 0 then Inr (0, active, high_water)
      else if live_through < registration \<or> \<not> valid_alignment (wr_alignment r)
      then Inl (failed Invalid_plan graph_workspace_error)
      else
        let c = \<lparr>wi_begin = registration, wi_end = live_through, wi_offset = 0, wi_bytes = wr_bytes r,
                 wi_byte_end = 0\<rparr>;
            done_with = (\<lambda>p. Inr (wi_offset p, active @ [p], max high_water (wi_byte_end p))) in
        (case wr_fixed r of
           Some offset \<Rightarrow>
             if offset mod wr_alignment r \<noteq> 0 then Inl (failed Invalid_plan graph_workspace_error)
             else (case place_at offset c of
               None \<Rightarrow> Inl (failed Invalid_plan graph_overflow_error)
             | Some p \<Rightarrow>
                 if collision active p \<noteq> None then Inl (failed Invalid_plan graph_workspace_error)
                 else done_with p)
         | None \<Rightarrow>
             (case first_fit active (wr_alignment r) c 0 of
                None \<Rightarrow> Inl (failed Invalid_plan graph_overflow_error)
              | Some p \<Rightarrow> done_with p)))"

section \<open>What the search finds\<close>

text \<open>An offset the candidate could take.\<close>

definition admissible :: "workspace_interval list \<Rightarrow> u64 \<Rightarrow> workspace_interval \<Rightarrow> u64 \<Rightarrow> bool" where
  "admissible active alignment c offset \<longleftrightarrow> unat alignment dvd unat offset \<and>
     (\<exists>p. place_at offset c = Some p \<and> collision active p = None)"

lemma place_at_SomeD:
  "place_at offset c = Some p \<Longrightarrow>
   wi_offset p = offset \<and> wi_bytes p = wi_bytes c \<and> wi_begin p = wi_begin c \<and> wi_end p = wi_end c \<and>
   unat (wi_byte_end p) = unat offset + unat (wi_bytes c)"
  by (auto simp: place_at_def split: option.splits dest: checked_add_SomeD)

lemma place_at_None: "place_at offset c = None \<longleftrightarrow> 2 ^ 64 \<le> unat offset + unat (wi_bytes c)"
  by (auto simp: place_at_def checked_add_eq split: option.splits)

lemma multiple_above:
  assumes "checked_align search a = Some offset" "unat a dvd n" "unat search \<le> n"
  shows "unat offset \<le> n"
proof (rule ccontr)
  assume n: "\<not> unat offset \<le> n"
  note b = checked_align_bounds [OF assms(1)]
  obtain i j where ij: "unat offset = unat a * i" "n = unat a * j" using b(3) assms(2) by (auto elim!: dvdE)
  with n have "j + 1 \<le> i" by simp
  then have "unat a * j + unat a \<le> unat offset" unfolding ij(1) by (metis mult.commute add_mult_distrib mult_1 mult_le_mono1)
  with b(2) assms(3) ij(2) show False by linarith
qed

lemma align_overflow:
  assumes "checked_align search a = None" "valid_alignment a" "unat a dvd n" "unat search \<le> n"
  shows "2 ^ 64 \<le> n"
proof -
  have v: "a \<noteq> 0" "a AND (a - 1) = 0" using assms(2) by (simp_all add: valid_alignment_def)
  obtain k where k: "unat a = 2 ^ k" "k < 64" using alignment_power [OF v] by blast
  have "checked_add search (a - 1) = None"
    using assms(1) v by (auto simp: checked_align_def split: option.splits)
  then have o: "2 ^ 64 \<le> unat search + (unat a - 1)"
    using unat_minus_one [OF v(1)] by (auto simp: checked_add_eq split: if_splits)
  have d: "unat a dvd 2 ^ 64" unfolding k(1) by (rule le_imp_power_dvd) (use k(2) in simp)
  obtain i j where ij: "(2::nat) ^ 64 = unat a * i" "n = unat a * j" using d assms(3) unfolding dvd_def by blast
  show ?thesis
  proof (rule ccontr)
    assume "\<not> 2 ^ 64 \<le> n"
    then have "unat a * j < unat a * i" using ij by simp
    then have "j + 1 \<le> i" by simp
    then have "unat a * j + unat a \<le> 2 ^ 64" unfolding ij(1) by (metis mult.commute add_mult_distrib mult_1 mult_le_mono1)
    moreover have "0 < unat a" using k(1) by simp
    ultimately show False using o assms(4) ij(2) by linarith
  qed
qed

text \<open>A collision excludes every offset up to the end of the block it is with.\<close>

lemma collision_excludes:
  assumes "place_at offset c = Some p" "collision active p = Some prior"
    and "unat offset \<le> unat o'" "unat o' < unat (wi_byte_end prior)"
  shows "\<not> admissible active alignment c o'"
proof
  assume "admissible active alignment c o'"
  then obtain q where q: "place_at o' c = Some q" "collision active q = None"
    by (auto simp: admissible_def)
  note pp = place_at_SomeD [OF assms(1)] and qq = place_at_SomeD [OF q(1)]
  from assms(2) have prior: "prior \<in> set active" "stages_overlap p prior" "byte_ranges_overlap p prior"
    by (auto simp: collision_def find_Some_iff dest: nth_mem)
  have "stages_overlap q prior" using prior(2) pp qq by (simp add: stages_overlap_def)
  moreover have "byte_ranges_overlap q prior"
    using prior(3) pp qq assms(3,4) by (auto simp: byte_ranges_overlap_def word_less_nat_alt)
  ultimately show False using q(2) prior(1) by (auto simp: collision_def find_None_iff)
qed

lemma first_fit_least:
  assumes "valid_alignment alignment"
  shows "(\<forall>p. first_fit active alignment c search = Some p \<longrightarrow>
      place_at (wi_offset p) c = Some p \<and> admissible active alignment c (wi_offset p) \<and> search \<le> wi_offset p) \<and>
    (\<forall>o'. admissible active alignment c o' \<longrightarrow> search \<le> o' \<longrightarrow>
      (\<exists>p. first_fit active alignment c search = Some p \<and> wi_offset p \<le> o'))"
  using assms
proof (induction active alignment c search rule: first_fit.induct)
  case (1 active alignment c search)
  note assms = "1.prems"
  note eq = first_fit.simps [of active alignment c search]
  show ?case
  proof (cases "checked_align search alignment")
    case None
    have "\<not> search \<le> o'" if "admissible active alignment c o'" for o'
      using align_overflow [OF None assms, of "unat o'"] that unat_u64_less [of o']
      by (auto simp: admissible_def word_le_nat_alt)
    then show ?thesis using None eq by auto
  next
    case (Some offset)
    note al = Some and b = checked_align_bounds [OF Some]
    have below: "unat offset \<le> unat o'" if "admissible active alignment c o'" "search \<le> o'" for o'
      using multiple_above [OF al, of "unat o'"] that by (simp add: admissible_def word_le_nat_alt)
    show ?thesis
    proof (cases "place_at offset c")
      case None
      have "\<not> search \<le> o'" if "admissible active alignment c o'" for o'
      proof
        assume "search \<le> o'"
        with below that have "unat offset \<le> unat o'" by simp
        with None have "place_at o' c = None" by (simp add: place_at_None)
        with that show False by (simp add: admissible_def)
      qed
      then show ?thesis using None al eq by auto
    next
      case (Some p)
      note pl = Some and pp = place_at_SomeD [OF Some]
      show ?thesis
      proof (cases "collision active p")
        case None
        then have "first_fit active alignment c search = Some p" using al pl eq by simp
        moreover have "admissible active alignment c offset" using b(3) pl None by (auto simp: admissible_def)
        ultimately show ?thesis using pp pl b(1) below by (auto simp: word_le_nat_alt)
      next
        case (Some prior)
        have r: "first_fit active alignment c search = first_fit active alignment c (wi_byte_end prior)"
          using al pl Some eq by simp
        note ih = "1.IH" [OF al pl Some assms]
        have adv: "search \<le> wi_byte_end prior"
          using collision_advances [OF al pl Some] by (simp add: word_le_nat_alt)
        have "wi_byte_end prior \<le> o'" if "admissible active alignment c o'" "search \<le> o'" for o'
          using collision_excludes [OF pl Some below [OF that], of alignment] that(1)
          by (auto simp: word_le_nat_alt not_le [symmetric])
        with ih adv show ?thesis unfolding r by (meson order_trans)
      qed
    qed
  qed
qed

section \<open>Blocks that are live together\<close>

definition interval_ok :: "u64 \<Rightarrow> workspace_interval \<Rightarrow> bool" where
  "interval_ok high_water w \<longleftrightarrow> wi_bytes w \<noteq> 0 \<and>
     unat (wi_byte_end w) = unat (wi_offset w) + unat (wi_bytes w) \<and> wi_byte_end w \<le> high_water"

definition workspaces_ok :: "workspace_interval list \<Rightarrow> u64 \<Rightarrow> bool" where
  "workspaces_ok active high_water \<longleftrightarrow> (\<forall>w \<in> set active. interval_ok high_water w) \<and>
     (\<forall>i < length active. \<forall>j < i. stages_overlap (active ! i) (active ! j) \<longrightarrow>
        \<not> byte_ranges_overlap (active ! i) (active ! j))"

lemma workspaces_ok_Nil: "workspaces_ok [] h"
  by (simp add: workspaces_ok_def)

lemma workspaces_ok_snoc:
  assumes "workspaces_ok active h" "collision active p = None" "place_at offset c = Some p" "wi_bytes c \<noteq> 0"
  shows "workspaces_ok (active @ [p]) (max h (wi_byte_end p))"
proof -
  have "interval_ok (max h (wi_byte_end p)) w" if "w \<in> set (active @ [p])" for w
    using that assms(1,4) place_at_SomeD [OF assms(3)] by (auto simp: workspaces_ok_def interval_ok_def max_def)
  moreover have "\<not> byte_ranges_overlap p (active ! j)" if "j < length active" "stages_overlap p (active ! j)" for j
    using assms(2) that by (auto simp: collision_def find_None_iff)
  ultimately show ?thesis
    using assms(1) by (auto simp: workspaces_ok_def nth_append less_Suc_eq)
qed

lemma allocate_InrD:
  assumes "allocate_graph_workspace r registration live_through active h = Inr (offset, active', h')"
  shows "wr_bytes r = 0 \<and> offset = 0 \<and> active' = active \<and> h' = h \<or>
    (\<exists>p. active' = active @ [p] \<and> h' = max h (wi_byte_end p) \<and> wi_offset p = offset \<and>
       wi_begin p = registration \<and> wi_end p = live_through \<and> wi_bytes p = wr_bytes r \<and> wr_bytes r \<noteq> 0 \<and>
       registration \<le> live_through \<and> unat (wr_alignment r) dvd unat offset \<and>
       (\<forall>o'. wr_fixed r = Some o' \<longrightarrow> offset = o') \<and>
       collision active p = None \<and> (\<exists>c. place_at offset c = Some p \<and> wi_bytes c = wr_bytes r))"
proof (cases "wr_bytes r = 0")
  case False
  let ?c = "\<lparr>wi_begin = registration, wi_end = live_through, wi_offset = 0, wi_bytes = wr_bytes r,
                 wi_byte_end = 0\<rparr>"
  from assms False have v: "valid_alignment (wr_alignment r)" "registration \<le> live_through"
    by (auto simp: allocate_graph_workspace_def not_less split: if_splits)
  obtain p where p: "place_at offset ?c = Some p" "collision active p = None" "active' = active @ [p]"
    "h' = max h (wi_byte_end p)" "unat (wr_alignment r) dvd unat offset"
    and f: "\<And>o'. wr_fixed r = Some o' \<Longrightarrow> offset = o'"
  proof (cases "wr_fixed r")
    case None
    with assms False v obtain p where q: "first_fit active (wr_alignment r) ?c 0 = Some p"
      "active' = active @ [p]" "h' = max h (wi_byte_end p)" "offset = wi_offset p"
      by (auto simp: allocate_graph_workspace_def Let_def split: option.splits)
    with first_fit_least [OF v(1), of active ?c 0] show ?thesis
      by (intro that [of p]) (auto simp: admissible_def None)
  next
    case (Some o')
    with assms False v obtain p where q: "place_at o' ?c = Some p" "collision active p = None"
      "active' = active @ [p]" "h' = max h (wi_byte_end p)" "offset = wi_offset p" "o' mod wr_alignment r = 0"
      by (auto simp: allocate_graph_workspace_def Let_def split: option.splits if_splits)
    moreover have "offset = o'" using q(1,5) place_at_SomeD by blast
    moreover have "unat (wr_alignment r) dvd unat o'"
      using arg_cong [OF q(6), of unat] by (simp add: unat_mod dvd_eq_mod_eq_0)
    ultimately show ?thesis by (intro that [of p]) (auto simp: Some)
  qed
  with v False place_at_SomeD [OF p(1)] show ?thesis by auto
qed (use assms in \<open>simp add: allocate_graph_workspace_def\<close>)

lemma allocate_keeps_ok:
  "allocate_graph_workspace r b e active h = Inr (offset, active', h') \<Longrightarrow> workspaces_ok active h \<Longrightarrow>
   workspaces_ok active' h'"
  using allocate_InrD [of r b e active h offset active' h'] workspaces_ok_snoc by auto

section \<open>Properties\<close>

text \<open>
  C28. The search for a workspace block ends and is first fit: it returns the least aligned offset at
  which the block fits below the end of the address space and shares no byte with a block that is
  live at the same time, and it reports an overflow only if there is no such offset at all.
\<close>

theorem workspace_is_first_fit:
  assumes "wr_bytes r \<noteq> 0" "wr_fixed r = None" "valid_alignment (wr_alignment r)" "registration \<le> live_through"
  shows "let c = \<lparr>wi_begin = registration, wi_end = live_through, wi_offset = 0, wi_bytes = wr_bytes r,
                 wi_byte_end = 0\<rparr> in
    case allocate_graph_workspace r registration live_through active high_water of
      Inl e \<Rightarrow> e = failed Invalid_plan graph_overflow_error \<and> (\<forall>o'. \<not> admissible active (wr_alignment r) c o')
    | Inr (offset, active', high_water') \<Rightarrow> admissible active (wr_alignment r) c offset \<and>
        (\<forall>o'. admissible active (wr_alignment r) c o' \<longrightarrow> offset \<le> o')"
proof -
  let ?c = "\<lparr>wi_begin = registration, wi_end = live_through, wi_offset = 0, wi_bytes = wr_bytes r,
                 wi_byte_end = 0\<rparr>"
  have "allocate_graph_workspace r registration live_through active high_water =
      (case first_fit active (wr_alignment r) ?c 0 of
         None \<Rightarrow> Inl (failed Invalid_plan graph_overflow_error)
       | Some p \<Rightarrow> Inr (wi_offset p, active @ [p], max high_water (wi_byte_end p)))"
    using assms by (simp add: allocate_graph_workspace_def Let_def)
  with first_fit_least [OF assms(3), of active ?c 0] show ?thesis
    by (auto simp: Let_def split: option.splits)
qed

definition example_active :: "workspace_interval list" where
  "example_active = [\<lparr>wi_begin = 0, wi_end = 2, wi_offset = 0, wi_bytes = 100, wi_byte_end = 100\<rparr>,
     \<lparr>wi_begin = 1, wi_end = 1, wi_offset = 128, wi_bytes = 64, wi_byte_end = 192\<rparr>]"

theorem workspace_is_first_fit_witness:
  "case allocate_graph_workspace \<lparr>wr_bytes = 32, wr_alignment = 64, wr_fixed = None\<rparr> 2 2 example_active 192 of
     Inl e \<Rightarrow> False | Inr (offset, active', high_water') \<Rightarrow> offset \<le> 128"
proof -
  have "admissible example_active 64
      \<lparr>wi_begin = 2, wi_end = 2, wi_offset = 0, wi_bytes = 32, wi_byte_end = 0\<rparr> 128"
  proof -
    let ?p = "\<lparr>wi_begin = 2, wi_end = 2, wi_offset = 128, wi_bytes = 32, wi_byte_end = 160\<rparr>"
    have "place_at 128 \<lparr>wi_begin = 2, wi_end = 2, wi_offset = 0, wi_bytes = 32, wi_byte_end = 0\<rparr> = Some ?p"
      "collision example_active ?p = None" by code_simp+
    then show ?thesis by (auto simp: admissible_def)
  qed
  moreover have "valid_alignment 64" by code_simp
  ultimately show ?thesis
    using workspace_is_first_fit [of "\<lparr>wr_bytes = 32, wr_alignment = 64, wr_fixed = None\<rparr>" 2 2 example_active 192]
    by (auto simp: Let_def split: sum.splits)
qed

end
