(* ===== verification/Execution_Graph.thy ===== *)
theory Execution_Graph
  imports Resource_Contract Graph_Workspace
begin

text \<open>
  \<^verbatim>\<open>ExecutionGraphCompiler\<close> and \<^verbatim>\<open>FrozenExecutionGraph\<close> of \<^verbatim>\<open>core_execution_graph.cpp\<close> and
  \<^verbatim>\<open>v04_execution.hpp\<close>: the fields and stages a compiler is given, the checks of a registration, and
  the freeze, which turns the registered stages into nodes, edges, workspace offsets and resource
  totals. The loop body of the freeze is one function per concern of the code, composed in
  \<open>freeze_stage\<close> in the order of the code.
\<close>

section \<open>Data\<close>

datatype state_visibility =
  Vis_accepted | Vis_trial | Vis_pending | Vis_committed_snapshot | Vis_workspace | Unnamed_visibility u8

datatype stage_kind = Kind_compute | Kind_service | Kind_commit | Unnamed_kind u8

datatype node_kind =
  Node_compute | Node_halo_begin | Node_compute_interior | Node_halo_finish | Node_compute_boundary
| Node_service | Node_collective_consensus | Node_commit

fun visibility_value :: "state_visibility \<Rightarrow> u64" where
  "visibility_value Vis_accepted = 0"
| "visibility_value Vis_trial = 1"
| "visibility_value Vis_pending = 2"
| "visibility_value Vis_committed_snapshot = 3"
| "visibility_value Vis_workspace = 4"
| "visibility_value (Unnamed_visibility v) = ucast v"

fun stage_kind_value :: "stage_kind \<Rightarrow> u64" where
  "stage_kind_value Kind_compute = 0"
| "stage_kind_value Kind_service = 1"
| "stage_kind_value Kind_commit = 2"
| "stage_kind_value (Unnamed_kind v) = ucast v"

fun node_kind_value :: "node_kind \<Rightarrow> u64" where
  "node_kind_value Node_compute = 0"
| "node_kind_value Node_halo_begin = 1"
| "node_kind_value Node_compute_interior = 2"
| "node_kind_value Node_halo_finish = 3"
| "node_kind_value Node_compute_boundary = 4"
| "node_kind_value Node_service = 5"
| "node_kind_value Node_collective_consensus = 6"
| "node_kind_value Node_commit = 7"

record field_access =
  ac_field :: field_id
  ac_visibility :: state_visibility

record graph_field =
  gf_access :: field_access
  gf_ghost_capacity :: u8
  gf_initially_available :: bool

record stage_resources =
  sr_halo_messages :: u64
  sr_halo_bytes :: u64
  sr_numeric_refills :: u64
  sr_hierarchy_rebuilds :: u64
  sr_cache_publishes :: u64
  sr_linear_iterations :: u64
  sr_stage_wall_nanoseconds :: u64

record stage_spec =
  sp_id :: stage_id
  sp_reads :: "field_access span"
  sp_writes :: "field_access span"
  sp_ghosts :: "field_access span"
  sp_ghost_widths :: "u8 span"
  sp_invalidates :: "field_access span"
  sp_workspace_bytes :: u64
  sp_workspace_alignment :: u64
  sp_workspace_live_through :: stage_id
  sp_fixed_workspace_offset :: u64
  sp_resources :: stage_resources
  sp_kind :: stage_kind
  sp_has_fixed_workspace_offset :: bool
  sp_collective_consensus :: bool

record owned_stage =
  os_id :: stage_id
  os_reads :: "field_access list"
  os_writes :: "field_access list"
  os_ghosts :: "field_access list"
  os_ghost_widths :: "u8 list"
  os_invalidates :: "field_access list"
  os_workspace_bytes :: u64
  os_workspace_alignment :: u64
  os_workspace_live_through :: stage_id
  os_fixed_workspace_offset :: u64
  os_resources :: stage_resources
  os_kind :: stage_kind
  os_has_fixed_workspace_offset :: bool
  os_collective_consensus :: bool

record frozen_stage =
  fr_id :: stage_id
  fr_kind :: stage_kind
  fr_ordinal :: u32
  fr_node_begin :: u32
  fr_node_count :: u16
  fr_read_begin :: u32
  fr_read_count :: u16
  fr_write_begin :: u32
  fr_write_count :: u16
  fr_ghost_begin :: u32
  fr_ghost_count :: u16
  fr_invalidation_begin :: u32
  fr_invalidation_count :: u16
  fr_workspace_offset :: u64
  fr_workspace_bytes :: u64
  fr_workspace_alignment :: u64
  fr_workspace_live_through :: stage_id
  fr_resources :: stage_resources
  fr_collective_consensus :: bool

record graph_node =
  gn_stage :: stage_id
  gn_kind :: node_kind
  gn_ordinal :: u32

record graph_edge =
  ge_from :: u32
  ge_to :: u32

record frozen_graph =
  fg_stages :: "frozen_stage list"
  fg_nodes :: "graph_node list"
  fg_edges :: "graph_edge list"
  fg_reads :: "field_access list"
  fg_writes :: "field_access list"
  fg_ghosts :: "field_access list"
  fg_ghost_widths :: "u8 list"
  fg_invalidations :: "field_access list"
  fg_resources :: resource_contract
  fg_fingerprint :: plan_fingerprint

record graph_compiler =
  gc_fields :: "graph_field list"
  gc_stages :: "owned_stage list"
  gc_configured :: bool
  gc_frozen :: bool

definition no_resources :: resource_contract where
  "no_resources = \<lparr>max_live_workspace_bytes = 0, allocation_allowance = 0, lim_halo_messages = 0,
     lim_halo_bytes = 0, lim_numeric_refills = 0, lim_hierarchy_rebuilds = 0, lim_cache_publishes = 0,
     lim_linear_iterations = 0, lim_stage_wall_nanoseconds = 0\<rparr>"

definition empty_graph :: frozen_graph where
  "empty_graph = \<lparr>fg_stages = [], fg_nodes = [], fg_edges = [], fg_reads = [], fg_writes = [],
     fg_ghosts = [], fg_ghost_widths = [], fg_invalidations = [], fg_resources = no_resources,
     fg_fingerprint = 0\<rparr>"

definition empty_compiler :: graph_compiler where
  "empty_compiler = \<lparr>gc_fields = [], gc_stages = [], gc_configured = False, gc_frozen = False\<rparr>"

definition graph_configure_error :: u32 where "graph_configure_error = 941"
definition graph_stage_error :: u32 where "graph_stage_error = 942"
definition graph_access_error :: u32 where "graph_access_error = 943"
definition graph_ghost_error :: u32 where "graph_ghost_error = 944"
definition graph_invalidation_error :: u32 where "graph_invalidation_error = 945"
definition graph_consensus_error :: u32 where "graph_consensus_error = 946"

section \<open>Lookups\<close>

definition graph_stage :: "stage_id \<Rightarrow> frozen_graph \<Rightarrow> frozen_stage option" where
  "graph_stage i g = find (\<lambda>s. fr_id s = i) (fg_stages g)"

text \<open>The part of a table a stage owns; an empty part is the null span.\<close>

definition table_slice :: "'a list \<Rightarrow> u32 \<Rightarrow> u16 \<Rightarrow> 'a span" where
  "table_slice table first count =
     (let b = unat first; n = unat count in
      if b > length table \<or> n > length table - b \<or> n = 0 then Null_span 0
      else Span (take n (drop b table)))"

definition graph_reads :: "stage_id \<Rightarrow> frozen_graph \<Rightarrow> field_access span" where
  "graph_reads i g = (case graph_stage i g of
     None \<Rightarrow> Null_span 0 | Some s \<Rightarrow> table_slice (fg_reads g) (fr_read_begin s) (fr_read_count s))"

definition graph_writes :: "stage_id \<Rightarrow> frozen_graph \<Rightarrow> field_access span" where
  "graph_writes i g = (case graph_stage i g of
     None \<Rightarrow> Null_span 0 | Some s \<Rightarrow> table_slice (fg_writes g) (fr_write_begin s) (fr_write_count s))"

definition graph_ghosts :: "stage_id \<Rightarrow> frozen_graph \<Rightarrow> field_access span" where
  "graph_ghosts i g = (case graph_stage i g of
     None \<Rightarrow> Null_span 0 | Some s \<Rightarrow> table_slice (fg_ghosts g) (fr_ghost_begin s) (fr_ghost_count s))"

definition graph_ghost_widths :: "stage_id \<Rightarrow> frozen_graph \<Rightarrow> u8 span" where
  "graph_ghost_widths i g = (case graph_stage i g of
     None \<Rightarrow> Null_span 0 | Some s \<Rightarrow> table_slice (fg_ghost_widths g) (fr_ghost_begin s) (fr_ghost_count s))"

definition graph_invalidations :: "stage_id \<Rightarrow> frozen_graph \<Rightarrow> field_access span" where
  "graph_invalidations i g = (case graph_stage i g of
     None \<Rightarrow> Null_span 0
   | Some s \<Rightarrow> table_slice (fg_invalidations g) (fr_invalidation_begin s) (fr_invalidation_count s))"

section \<open>Configuration\<close>

definition valid_visibility :: "state_visibility \<Rightarrow> bool" where
  "valid_visibility v \<longleftrightarrow> visibility_value v \<le> 4"

definition valid_stage_kind :: "stage_kind \<Rightarrow> bool" where
  "valid_stage_kind k \<longleftrightarrow> stage_kind_value k \<le> 2"

definition span_shape_valid :: "'a span \<Rightarrow> bool" where
  "span_shape_valid s \<longleftrightarrow> span_size s = 0 \<or> \<not> span_null s"

definition configure_graph :: "bool \<Rightarrow> graph_field span \<Rightarrow> graph_compiler \<Rightarrow> status \<times> graph_compiler" where
  "configure_graph mem specs gc =
     (if gc_configured gc \<or> gc_frozen gc \<or> \<not> span_shape_valid specs \<or> span_size specs = 0
      then (failed Invalid_plan graph_configure_error, gc)
      else if \<not> mem then (failed Allocation_failure 0, gc)
      else let candidate = span_list specs in
        if list_all (\<lambda>f. valid_visibility (ac_visibility (gf_access f))) candidate \<and>
           distinct (map gf_access candidate)
        then (status_ok, gc\<lparr>gc_fields := candidate, gc_configured := True\<rparr>)
        else (failed Invalid_plan graph_configure_error, gc))"

section \<open>Registration\<close>

definition valid_access_span :: "graph_field list \<Rightarrow> field_access span \<Rightarrow> bool" where
  "valid_access_span specs s \<longleftrightarrow>
     list_all (\<lambda>a. valid_visibility (ac_visibility a) \<and> list_ex (\<lambda>f. gf_access f = a) specs) (span_list s) \<and>
     distinct (span_list s)"

definition ghost_ok :: "graph_field list \<Rightarrow> field_access list \<Rightarrow> field_access \<times> u8 \<Rightarrow> bool" where
  "ghost_ok specs reads g \<longleftrightarrow> fst g \<in> set reads \<and> snd g \<noteq> 0 \<and>
     (case find (\<lambda>f. gf_access f = fst g) specs of
        None \<Rightarrow> False | Some declared \<Rightarrow> snd g \<le> gf_ghost_capacity declared)"

definition numeric_resources_zero :: "stage_resources \<Rightarrow> bool" where
  "numeric_resources_zero r \<longleftrightarrow> sr_halo_messages r = 0 \<and> sr_halo_bytes r = 0 \<and> sr_numeric_refills r = 0 \<and>
     sr_hierarchy_rebuilds r = 0 \<and> sr_cache_publishes r = 0 \<and> sr_linear_iterations r = 0"

definition stage_malformed :: "stage_spec \<Rightarrow> graph_compiler \<Rightarrow> bool" where
  "stage_malformed s gc \<longleftrightarrow>
     \<not> gc_configured gc \<or> gc_frozen gc \<or> sp_id s = 0 \<or> \<not> valid_stage_kind (sp_kind s) \<or>
     \<not> span_shape_valid (sp_reads s) \<or> \<not> span_shape_valid (sp_writes s) \<or> \<not> span_shape_valid (sp_ghosts s) \<or>
     \<not> span_shape_valid (sp_ghost_widths s) \<or> \<not> span_shape_valid (sp_invalidates s) \<or>
     span_size (sp_ghosts s) \<noteq> span_size (sp_ghost_widths s) \<or>
     (sp_workspace_bytes s \<noteq> 0 \<and> \<not> valid_alignment (sp_workspace_alignment s))"

text \<open>A service reads committed snapshots only and changes nothing.\<close>

definition service_ok :: "stage_spec \<Rightarrow> bool" where
  "service_ok s \<longleftrightarrow>
     list_all (\<lambda>a. ac_visibility a = Vis_committed_snapshot) (span_list (sp_reads s)) \<and>
     span_size (sp_writes s) = 0 \<and> span_size (sp_invalidates s) = 0 \<and> span_size (sp_ghosts s) = 0 \<and>
     numeric_resources_zero (sp_resources s)"

text \<open>A commit carries no work of its own.\<close>

definition commit_ok :: "stage_spec \<Rightarrow> bool" where
  "commit_ok s \<longleftrightarrow>
     span_size (sp_reads s) = 0 \<and> span_size (sp_writes s) = 0 \<and> span_size (sp_invalidates s) = 0 \<and>
     span_size (sp_ghosts s) = 0 \<and> numeric_resources_zero (sp_resources s) \<and>
     sr_stage_wall_nanoseconds (sp_resources s) = 0 \<and> sp_workspace_bytes s = 0 \<and>
     sp_workspace_alignment s = 64 \<and> sp_workspace_live_through s = 0 \<and> sp_fixed_workspace_offset s = 0 \<and>
     \<not> sp_has_fixed_workspace_offset s \<and> \<not> sp_collective_consensus s"

definition own_stage :: "stage_spec \<Rightarrow> owned_stage" where
  "own_stage s = \<lparr>os_id = sp_id s, os_reads = span_list (sp_reads s), os_writes = span_list (sp_writes s),
     os_ghosts = span_list (sp_ghosts s), os_ghost_widths = span_list (sp_ghost_widths s),
     os_invalidates = span_list (sp_invalidates s), os_workspace_bytes = sp_workspace_bytes s,
     os_workspace_alignment = sp_workspace_alignment s,
     os_workspace_live_through = sp_workspace_live_through s,
     os_fixed_workspace_offset = sp_fixed_workspace_offset s, os_resources = sp_resources s,
     os_kind = sp_kind s, os_has_fixed_workspace_offset = sp_has_fixed_workspace_offset s,
     os_collective_consensus = sp_collective_consensus s\<rparr>"

definition register_stage :: "bool \<Rightarrow> stage_spec \<Rightarrow> graph_compiler \<Rightarrow> status \<times> graph_compiler" where
  "register_stage mem s gc =
     (if stage_malformed s gc \<or> list_ex (\<lambda>prior. os_id prior = sp_id s) (gc_stages gc)
      then (failed Invalid_plan graph_stage_error, gc)
      else if \<not> valid_access_span (gc_fields gc) (sp_reads s) \<or> \<not> valid_access_span (gc_fields gc) (sp_writes s) \<or>
              \<not> valid_access_span (gc_fields gc) (sp_ghosts s) \<or>
              \<not> valid_access_span (gc_fields gc) (sp_invalidates s)
      then (failed Invalid_plan graph_access_error, gc)
      else if \<not> list_all (ghost_ok (gc_fields gc) (span_list (sp_reads s)))
                (zip (span_list (sp_ghosts s)) (span_list (sp_ghost_widths s)))
      then (failed Invalid_plan graph_ghost_error, gc)
      else if sp_kind s = Kind_service \<and> \<not> service_ok s then (failed Invalid_plan graph_access_error, gc)
      else if sp_kind s = Kind_commit \<and> \<not> commit_ok s then (failed Invalid_plan graph_stage_error, gc)
      else if \<not> mem then (failed Allocation_failure 0, gc)
      else (status_ok, gc\<lparr>gc_stages := gc_stages gc @ [own_stage s]\<rparr>))"

section \<open>Freezing\<close>

record field_state =
  fst_access :: field_access
  fst_available :: bool
  fst_initialized :: bool
  fst_invalidated :: bool

record freeze_state =
  fz_graph :: frozen_graph
  fz_states :: "field_state list"
  fz_workspaces :: "workspace_interval list"
  fz_high_water :: u64
  fz_last_node :: u32
  fz_unconsensed :: bool
  fz_has_consensus :: bool
  fz_seen_commit :: bool
  fz_resources :: resource_contract

definition u32_max :: u32 where "u32_max = - 1"
definition u32_limit :: nat where "u32_limit = 2 ^ 32 - 1"
definition u16_limit :: nat where "u16_limit = 2 ^ 16 - 1"

definition find_state :: "field_state list \<Rightarrow> field_access \<Rightarrow> field_state option" where
  "find_state states a = find (\<lambda>s. fst_access s = a) states"

text \<open>Mutation of the first state of an access.\<close>

fun update_state :: "(field_state \<Rightarrow> field_state) \<Rightarrow> field_access \<Rightarrow> field_state list \<Rightarrow> field_state list" where
  "update_state f a [] = []"
| "update_state f a (s # ss) = (if fst_access s = a then f s # ss else s # update_state f a ss)"

definition order_violated :: "nat \<Rightarrow> owned_stage \<Rightarrow> freeze_state \<Rightarrow> bool" where
  "order_violated ordinal r z \<longleftrightarrow>
     ordinal > u32_limit \<or> (fz_seen_commit z \<and> os_kind r \<noteq> Kind_service) \<or>
     (os_kind r = Kind_commit \<and> (fz_seen_commit z \<or> fz_unconsensed z \<or> \<not> fz_has_consensus z))"

definition readable :: "field_state list \<Rightarrow> field_access \<Rightarrow> bool" where
  "readable states a \<longleftrightarrow> (case find_state states a of
     None \<Rightarrow> False | Some s \<Rightarrow> fst_available s \<and> \<not> fst_invalidated s)"

definition invalidation_ok :: "field_state list \<Rightarrow> owned_stage \<Rightarrow> field_access \<Rightarrow> bool" where
  "invalidation_ok states r a \<longleftrightarrow> readable states a \<and> a \<in> set (os_reads r) \<and> a \<in> set (os_writes r)"

definition write_ok :: "field_state list \<Rightarrow> owned_stage \<Rightarrow> field_access \<Rightarrow> bool" where
  "write_ok states r a \<longleftrightarrow> (case find_state states a of
     None \<Rightarrow> False
   | Some s \<Rightarrow> \<not> (fst_initialized s \<and> (a \<notin> set (os_reads r) \<or> a \<notin> set (os_invalidates r))))"

text \<open>The ordinal of the stage a workspace lives through: the first one from this stage on with that
  identifier; zero means this stage.\<close>

definition live_through_ordinal :: "owned_stage list \<Rightarrow> nat \<Rightarrow> stage_id \<Rightarrow> nat option" where
  "live_through_ordinal stages ordinal i =
     (if i = 0 then Some ordinal
      else find (\<lambda>k. os_id (stages ! k) = i) [ordinal ..< length stages])"

definition append_edge :: "graph_edge list \<Rightarrow> u32 \<Rightarrow> u32 \<Rightarrow> graph_edge list" where
  "append_edge edges f t =
     (if f = t then edges
      else if edges \<noteq> [] \<and> last edges = \<lparr>ge_from = f, ge_to = t\<rparr> then edges
      else edges @ [\<lparr>ge_from = f, ge_to = t\<rparr>])"

definition add_node :: "stage_id \<Rightarrow> nat \<Rightarrow> node_kind \<Rightarrow> freeze_state \<Rightarrow> freeze_state option" where
  "add_node i ordinal kind z =
     (let g = fz_graph z; n = length (fg_nodes g); index = (of_nat n :: u32) in
      if n \<ge> u32_limit then None
      else Some (z\<lparr>fz_graph := g\<lparr>fg_nodes := fg_nodes g @ [\<lparr>gn_stage = i, gn_kind = kind, gn_ordinal = of_nat ordinal\<rparr>],
          fg_edges := (if fz_last_node z \<noteq> u32_max then append_edge (fg_edges g) (fz_last_node z) index
                       else fg_edges g)\<rparr>,
        fz_last_node := index\<rparr>))"

fun add_nodes :: "stage_id \<Rightarrow> nat \<Rightarrow> node_kind list \<Rightarrow> freeze_state \<Rightarrow> freeze_state option" where
  "add_nodes i ordinal [] z = Some z"
| "add_nodes i ordinal (k # ks) z =
     (case add_node i ordinal k z of None \<Rightarrow> None | Some z' \<Rightarrow> add_nodes i ordinal ks z')"

definition stage_nodes :: "owned_stage \<Rightarrow> node_kind list" where
  "stage_nodes r =
     (if os_ghosts r \<noteq> [] then [Node_halo_begin, Node_compute_interior, Node_halo_finish, Node_compute_boundary]
      else if os_kind r = Kind_service then [Node_service]
      else if os_kind r = Kind_commit then [Node_commit] else [Node_compute])"

definition advance_states :: "owned_stage \<Rightarrow> field_state list \<Rightarrow> field_state list" where
  "advance_states r states =
     fold (update_state (\<lambda>s. s\<lparr>fst_available := True, fst_initialized := True, fst_invalidated := False\<rparr>)) (os_writes r)
       (fold (update_state (\<lambda>s. s\<lparr>fst_invalidated := True\<rparr>)) (os_invalidates r) states)"

definition may_fail_or_mutate :: "owned_stage \<Rightarrow> bool" where
  "may_fail_or_mutate r \<longleftrightarrow> os_kind r \<noteq> Kind_commit \<or> os_writes r \<noteq> [] \<or> os_invalidates r \<noteq> [] \<or>
     sr_numeric_refills (os_resources r) \<noteq> 0 \<or> sr_hierarchy_rebuilds (os_resources r) \<noteq> 0 \<or>
     sr_cache_publishes (os_resources r) \<noteq> 0"

definition add_consensus :: "owned_stage \<Rightarrow> nat \<Rightarrow> freeze_state \<Rightarrow> freeze_state option" where
  "add_consensus r ordinal z =
     (let z1 = (if may_fail_or_mutate r then z\<lparr>fz_unconsensed := True\<rparr> else z) in
      if os_collective_consensus r
      then map_option (\<lambda>z. z\<lparr>fz_unconsensed := False, fz_has_consensus := True\<rparr>)
             (add_node (os_id r) ordinal Node_collective_consensus z1)
      else Some z1)"

definition fits_appended :: "'a list \<Rightarrow> 'a list \<Rightarrow> bool" where
  "fits_appended table appended \<longleftrightarrow> length table \<le> u32_limit \<and> length appended \<le> u32_limit - length table"

definition tables_overflow :: "owned_stage \<Rightarrow> nat \<Rightarrow> frozen_graph \<Rightarrow> bool" where
  "tables_overflow r node_begin g \<longleftrightarrow>
     \<not> fits_appended (fg_reads g) (os_reads r) \<or> \<not> fits_appended (fg_writes g) (os_writes r) \<or>
     \<not> fits_appended (fg_ghosts g) (os_ghosts r) \<or> \<not> fits_appended (fg_invalidations g) (os_invalidates r) \<or>
     length (os_reads r) > u16_limit \<or> length (os_writes r) > u16_limit \<or> length (os_ghosts r) > u16_limit \<or>
     length (os_invalidates r) > u16_limit \<or> length (fg_nodes g) - node_begin > u16_limit"

definition append_stage :: "owned_stage \<Rightarrow> nat \<Rightarrow> nat \<Rightarrow> u64 \<Rightarrow> frozen_graph \<Rightarrow> frozen_graph" where
  "append_stage r ordinal node_begin offset g =
     g\<lparr>fg_stages := fg_stages g @ [\<lparr>fr_id = os_id r, fr_kind = os_kind r, fr_ordinal = of_nat ordinal,
          fr_node_begin = of_nat node_begin, fr_node_count = of_nat (length (fg_nodes g) - node_begin),
          fr_read_begin = of_nat (length (fg_reads g)), fr_read_count = of_nat (length (os_reads r)),
          fr_write_begin = of_nat (length (fg_writes g)), fr_write_count = of_nat (length (os_writes r)),
          fr_ghost_begin = of_nat (length (fg_ghosts g)), fr_ghost_count = of_nat (length (os_ghosts r)),
          fr_invalidation_begin = of_nat (length (fg_invalidations g)),
          fr_invalidation_count = of_nat (length (os_invalidates r)),
          fr_workspace_offset = offset, fr_workspace_bytes = os_workspace_bytes r,
          fr_workspace_alignment = os_workspace_alignment r,
          fr_workspace_live_through = os_workspace_live_through r, fr_resources = os_resources r,
          fr_collective_consensus = os_collective_consensus r\<rparr>],
       fg_reads := fg_reads g @ os_reads r, fg_writes := fg_writes g @ os_writes r,
       fg_ghosts := fg_ghosts g @ os_ghosts r, fg_ghost_widths := fg_ghost_widths g @ os_ghost_widths r,
       fg_invalidations := fg_invalidations g @ os_invalidates r\<rparr>"

definition add_stage_resources :: "stage_resources \<Rightarrow> resource_contract \<Rightarrow> resource_contract option" where
  "add_stage_resources r c =
     (case (checked_add (lim_halo_messages c) (sr_halo_messages r), checked_add (lim_halo_bytes c) (sr_halo_bytes r),
            checked_add (lim_numeric_refills c) (sr_numeric_refills r),
            checked_add (lim_hierarchy_rebuilds c) (sr_hierarchy_rebuilds r),
            checked_add (lim_cache_publishes c) (sr_cache_publishes r),
            checked_add (lim_linear_iterations c) (sr_linear_iterations r),
            checked_add (lim_stage_wall_nanoseconds c) (sr_stage_wall_nanoseconds r)) of
        (Some a, Some b, Some d, Some e, Some f, Some h, Some i) \<Rightarrow>
          Some (c\<lparr>lim_halo_messages := a, lim_halo_bytes := b, lim_numeric_refills := d,
            lim_hierarchy_rebuilds := e, lim_cache_publishes := f, lim_linear_iterations := h,
            lim_stage_wall_nanoseconds := i\<rparr>)
      | _ \<Rightarrow> None)"

definition stage_workspace :: "owned_stage \<Rightarrow> workspace_request" where
  "stage_workspace r = \<lparr>wr_bytes = os_workspace_bytes r, wr_alignment = os_workspace_alignment r,
     wr_fixed = (if os_has_fixed_workspace_offset r then Some (os_fixed_workspace_offset r) else None)\<rparr>"

definition freeze_stage :: "owned_stage list \<Rightarrow> nat \<Rightarrow> freeze_state \<Rightarrow> status + freeze_state" where
  "freeze_stage stages ordinal z =
     (let r = stages ! ordinal; states = fz_states z; node_begin = length (fg_nodes (fz_graph z)) in
      if order_violated ordinal r z then Inl (failed Invalid_plan graph_consensus_error)
      else if \<not> list_all (readable states) (os_reads r) then Inl (failed Invalid_plan graph_access_error)
      else if \<not> list_all (invalidation_ok states r) (os_invalidates r)
      then Inl (failed Invalid_plan graph_invalidation_error)
      else if \<not> list_all (write_ok states r) (os_writes r) then Inl (failed Invalid_plan graph_access_error)
      else case live_through_ordinal stages ordinal (os_workspace_live_through r) of
        None \<Rightarrow> Inl (failed Invalid_plan graph_workspace_error)
      | Some live_through \<Rightarrow>
      case allocate_graph_workspace (stage_workspace r) ordinal live_through (fz_workspaces z) (fz_high_water z) of
        Inl e \<Rightarrow> Inl e
      | Inr (offset, workspaces, high_water) \<Rightarrow>
      case add_nodes (os_id r) ordinal (stage_nodes r) (z\<lparr>fz_workspaces := workspaces, fz_high_water := high_water\<rparr>) of
        None \<Rightarrow> Inl (failed Invalid_plan graph_overflow_error)
      | Some z1 \<Rightarrow>
      case add_consensus r ordinal (z1\<lparr>fz_states := advance_states r states\<rparr>) of
        None \<Rightarrow> Inl (failed Invalid_plan graph_overflow_error)
      | Some z2 \<Rightarrow>
          if tables_overflow r node_begin (fz_graph z2) then Inl (failed Invalid_plan graph_overflow_error)
          else case add_stage_resources (os_resources r) (fz_resources z2) of
            None \<Rightarrow> Inl (failed Invalid_plan graph_overflow_error)
          | Some resources \<Rightarrow>
              Inr (z2\<lparr>fz_graph := append_stage r ordinal node_begin offset (fz_graph z2),
                fz_seen_commit := fz_seen_commit z2 \<or> os_kind r = Kind_commit, fz_resources := resources\<rparr>))"

fun freeze_stages :: "owned_stage list \<Rightarrow> nat list \<Rightarrow> freeze_state \<Rightarrow> status + freeze_state" where
  "freeze_stages stages [] z = Inr z"
| "freeze_stages stages (k # ks) z =
     (case freeze_stage stages k z of Inl e \<Rightarrow> Inl e | Inr z' \<Rightarrow> freeze_stages stages ks z')"

definition initial_freeze :: "graph_field list \<Rightarrow> freeze_state" where
  "initial_freeze specs = \<lparr>fz_graph = empty_graph,
     fz_states = map (\<lambda>f. \<lparr>fst_access = gf_access f, fst_available = gf_initially_available f,
       fst_initialized = gf_initially_available f, fst_invalidated = False\<rparr>) specs,
     fz_workspaces = [], fz_high_water = 0, fz_last_node = u32_max, fz_unconsensed = False,
     fz_has_consensus = False, fz_seen_commit = False, fz_resources = no_resources\<rparr>"

section \<open>The fingerprint\<close>

text \<open>The words the fingerprint mixes, in order; the large constants spell the section names.\<close>

definition access_words :: "field_access \<Rightarrow> u64 list" where
  "access_words a = [ucast (ac_field a), visibility_value (ac_visibility a)]"

definition bool_word :: "bool \<Rightarrow> u64" where "bool_word b = (if b then 1 else 0)"

definition field_words :: "graph_field list \<Rightarrow> u64 list" where
  "field_words specs = [0x6669656c6473, of_nat (length specs)] @
     concat (map (\<lambda>f. access_words (gf_access f) @ [ucast (gf_ghost_capacity f), bool_word (gf_initially_available f)]) specs)"

definition resource_words :: "stage_resources \<Rightarrow> u64 list" where
  "resource_words r = [sr_halo_messages r, sr_halo_bytes r, sr_numeric_refills r, sr_hierarchy_rebuilds r,
     sr_cache_publishes r, sr_linear_iterations r, sr_stage_wall_nanoseconds r]"

definition stage_words :: "frozen_graph \<Rightarrow> frozen_stage \<Rightarrow> u64 list" where
  "stage_words g s =
     [ucast (fr_id s), stage_kind_value (fr_kind s), ucast (fr_ordinal s), ucast (fr_node_begin s),
      ucast (fr_node_count s), fr_workspace_offset s, fr_workspace_bytes s, fr_workspace_alignment s,
      ucast (fr_workspace_live_through s), bool_word (fr_collective_consensus s)] @
     resource_words (fr_resources s) @
     [0x7265616473, ucast (fr_read_count s)] @ concat (map access_words (span_list (graph_reads (fr_id s) g))) @
     [0x777269746573, ucast (fr_write_count s)] @ concat (map access_words (span_list (graph_writes (fr_id s) g))) @
     [0x67686f737473, ucast (fr_ghost_count s)] @
     concat (map (\<lambda>(a, w). access_words a @ [ucast w])
       (zip (span_list (graph_ghosts (fr_id s) g)) (span_list (graph_ghost_widths (fr_id s) g)))) @
     [0x696e76616c6964, ucast (fr_invalidation_count s)] @
     concat (map access_words (span_list (graph_invalidations (fr_id s) g)))"

definition contract_words :: "resource_contract \<Rightarrow> u64 list" where
  "contract_words c = [0x7265736f75726365, max_live_workspace_bytes c, allocation_allowance c, lim_halo_messages c,
     lim_halo_bytes c, lim_numeric_refills c, lim_hierarchy_rebuilds c, lim_cache_publishes c,
     lim_linear_iterations c, lim_stage_wall_nanoseconds c]"

definition graph_words :: "graph_field list \<Rightarrow> frozen_graph \<Rightarrow> u64 list" where
  "graph_words specs g = field_words specs @
     [0x737461676573, of_nat (length (fg_stages g))] @ concat (map (stage_words g) (fg_stages g)) @
     [0x6e6f646573, of_nat (length (fg_nodes g))] @
     concat (map (\<lambda>n. [ucast (gn_stage n), node_kind_value (gn_kind n), ucast (gn_ordinal n)]) (fg_nodes g)) @
     [0x6564676573, of_nat (length (fg_edges g))] @ concat (map (\<lambda>e. [ucast (ge_from e), ucast (ge_to e)]) (fg_edges g)) @
     contract_words (fg_resources g)"

definition graph_fingerprint :: "graph_field list \<Rightarrow> frozen_graph \<Rightarrow> plan_fingerprint" where
  "graph_fingerprint specs g = publish_hash (foldl hash_mix fnv_offset (graph_words specs g))"

text \<open>
  The freeze. \<open>mem\<close> is the reservation the code makes first; a later allocation failure likewise
  leaves compiler and output unchanged.
\<close>

definition freeze_graph ::
  "bool \<Rightarrow> frozen_graph \<Rightarrow> graph_compiler \<Rightarrow> status \<times> frozen_graph \<times> graph_compiler" where
  "freeze_graph mem out gc =
     (if \<not> gc_configured gc \<or> gc_frozen gc \<or> gc_stages gc = [] \<or> fg_fingerprint out \<noteq> 0 \<or>
         fg_stages out \<noteq> [] \<or> fg_nodes out \<noteq> [] \<or> fg_edges out \<noteq> []
      then (failed Invalid_plan graph_configure_error, out, gc)
      else if \<not> mem then (failed Allocation_failure 0, out, gc)
      else case freeze_stages (gc_stages gc) [0 ..< length (gc_stages gc)] (initial_freeze (gc_fields gc)) of
        Inl e \<Rightarrow> (e, out, gc)
      | Inr z \<Rightarrow>
          if fz_unconsensed z then (failed Invalid_plan graph_consensus_error, out, gc)
          else let g = (fz_graph z)\<lparr>fg_resources := (fz_resources z)
                     \<lparr>max_live_workspace_bytes := fz_high_water z, allocation_allowance := 0\<rparr>\<rparr> in
            (status_ok, g\<lparr>fg_fingerprint := graph_fingerprint (gc_fields gc) g\<rparr>, gc\<lparr>gc_frozen := True\<rparr>))"

end
