(* ===== verification/Graph_Freeze.thy ===== *)
theory Graph_Freeze
  imports Execution_Graph
begin

text \<open>
  What a successful freeze establishes. \<open>compiled\<close> is the set of compilers the operations can
  build; each invariant of the freeze loop (tables, chain of nodes, field states, consensus flags,
  workspaces) is one predicate over the number of stages done and the loop state, kept by
  \<open>freeze_stage\<close> and lifted to the loop by one rule.
\<close>

section \<open>Compilers the operations build\<close>

inductive compiled :: "graph_compiler \<Rightarrow> bool" where
  start: "compiled empty_compiler"
| configure: "compiled gc \<Longrightarrow> compiled (snd (configure_graph mem specs gc))"
| register: "compiled gc \<Longrightarrow> compiled (snd (register_stage mem s gc))"
| freeze: "compiled gc \<Longrightarrow> compiled (snd (snd (freeze_graph mem out gc)))"

definition plain_commit :: "owned_stage \<Rightarrow> bool" where
  "plain_commit r \<longleftrightarrow> os_kind r = Kind_commit \<longrightarrow>
     \<not> may_fail_or_mutate r \<and> \<not> os_collective_consensus r \<and> os_ghosts r = []"

definition stages_ok :: "owned_stage list \<Rightarrow> bool" where
  "stages_ok stages \<longleftrightarrow> distinct (map os_id stages) \<and> 0 \<notin> set (map os_id stages) \<and>
     (\<forall>r \<in> set stages. length (os_ghost_widths r) = length (os_ghosts r) \<and> plain_commit r \<and>
        set (os_ghosts r) \<subseteq> set (os_reads r))"

definition compiler_ok :: "graph_compiler \<Rightarrow> bool" where
  "compiler_ok gc \<longleftrightarrow> distinct (map gf_access (gc_fields gc)) \<and> stages_ok (gc_stages gc)"

lemma span_list_size: "span_shape_valid s \<Longrightarrow> span_size s = length (span_list s)"
  by (cases s) (auto simp: span_shape_valid_def)

lemma register_stage_ok:
  assumes "compiler_ok gc" "is_ok (fst (register_stage mem s gc))"
  shows "compiler_ok (snd (register_stage mem s gc))"
proof -
  from assms(2) have ok: "\<not> stage_malformed s gc" "\<not> list_ex (\<lambda>prior. os_id prior = sp_id s) (gc_stages gc)"
    "list_all (ghost_ok (gc_fields gc) (span_list (sp_reads s))) (zip (span_list (sp_ghosts s)) (span_list (sp_ghost_widths s)))"
    "sp_kind s = Kind_commit \<Longrightarrow> commit_ok s"
    and gc': "snd (register_stage mem s gc) = gc\<lparr>gc_stages := gc_stages gc @ [own_stage s]\<rparr>"
    by (auto simp: register_stage_def split: if_splits)
  have sh: "span_shape_valid (sp_writes s)" "span_shape_valid (sp_ghosts s)" "span_shape_valid (sp_ghost_widths s)"
    "span_shape_valid (sp_invalidates s)"
    "span_size (sp_ghosts s) = span_size (sp_ghost_widths s)" "sp_id s \<noteq> 0"
    using ok(1) by (simp_all add: stage_malformed_def)
  have widths: "length (span_list (sp_ghost_widths s)) = length (span_list (sp_ghosts s))"
    using sh(5) span_list_size [OF sh(2)] span_list_size [OF sh(3)] by simp
  have "x \<in> set (span_list (sp_reads s))" if "x \<in> set (span_list (sp_ghosts s))" for x
  proof -
    from that widths obtain w where "(x, w) \<in> set (zip (span_list (sp_ghosts s)) (span_list (sp_ghost_widths s)))"
      by (metis in_set_impl_in_set_zip1)
    with ok(3) show ?thesis by (auto simp: list_all_iff ghost_ok_def)
  qed
  moreover have "plain_commit (own_stage s)"
  proof (cases "sp_kind s = Kind_commit")
    case True
    with ok(4) have c: "commit_ok s" by simp
    then have "span_list (sp_writes s) = []" "span_list (sp_invalidates s) = []" "span_list (sp_ghosts s) = []"
      using span_list_size [OF sh(1)] span_list_size [OF sh(2)] span_list_size [OF sh(4)]
      by (simp_all add: commit_ok_def)
    with c show ?thesis
      by (auto simp: plain_commit_def own_stage_def may_fail_or_mutate_def commit_ok_def numeric_resources_zero_def)
  qed (simp add: plain_commit_def own_stage_def)
  ultimately show ?thesis
    using assms(1) ok(2) sh(6) widths unfolding gc'
    by (auto simp: compiler_ok_def stages_ok_def own_stage_def list_ex_iff)
qed

lemma failed_unchanged:
  "\<not> is_ok (fst (register_stage mem s gc)) \<Longrightarrow> snd (register_stage mem s gc) = gc"
  "\<not> is_ok (fst (configure_graph mem specs gc)) \<Longrightarrow> snd (configure_graph mem specs gc) = gc"
  by (auto simp: register_stage_def configure_graph_def Let_def split: if_splits)

lemma compiled_ok: "compiled gc \<Longrightarrow> compiler_ok gc \<and> (\<not> gc_configured gc \<longrightarrow> gc_stages gc = [])"
proof (induction rule: compiled.induct)
  case start
  show ?case by (simp add: empty_compiler_def compiler_ok_def stages_ok_def)
next
  case (configure gc mem specs)
  then show ?case
    by (auto simp: configure_graph_def compiler_ok_def Let_def stages_ok_def split: if_splits)
next
  case (register gc mem s)
  show ?case
  proof (cases "is_ok (fst (register_stage mem s gc))")
    case True
    then have "gc_configured gc" by (auto simp: register_stage_def stage_malformed_def split: if_splits)
    then have "gc_configured (snd (register_stage mem s gc))"
      by (auto simp: register_stage_def split: if_splits)
    with register_stage_ok [of gc mem s] register True show ?thesis by simp
  qed (use failed_unchanged register in simp)
next
  case (freeze gc mem out)
  then show ?case
    by (auto simp: freeze_graph_def compiler_ok_def Let_def split: if_splits sum.splits)
qed

section \<open>One stage\<close>

text \<open>All nodes of a stage, and the nodes of the first stages in registration order.\<close>

definition all_nodes :: "owned_stage \<Rightarrow> node_kind list" where
  "all_nodes r = stage_nodes r @ (if os_collective_consensus r then [Node_collective_consensus] else [])"

definition nodes_of :: "owned_stage list \<Rightarrow> nat \<Rightarrow> graph_node list" where
  "nodes_of stages j = map (\<lambda>k. \<lparr>gn_stage = os_id (stages ! j), gn_kind = k, gn_ordinal = of_nat j\<rparr>)
     (all_nodes (stages ! j))"

text \<open>The parts of a loop state that only nodes and edges belong to.\<close>

definition chain :: "nat \<Rightarrow> graph_edge list" where
  "chain n = map (\<lambda>i. \<lparr>ge_from = of_nat i, ge_to = of_nat (i + 1)\<rparr>) [0 ..< n - 1]"

definition chained :: "freeze_state \<Rightarrow> bool" where
  "chained z \<longleftrightarrow> (let n = length (fg_nodes (fz_graph z)) in n \<le> u32_limit \<and> fg_edges (fz_graph z) = chain n \<and>
     fz_last_node z = (if n = 0 then u32_max else of_nat (n - 1)))"

lemma u32_nat: "n \<le> u32_limit \<Longrightarrow> unat (of_nat n :: u32) = n"
  by (simp add: unat_of_nat u32_limit_def)

lemma u16_nat: "n \<le> u16_limit \<Longrightarrow> unat (of_nat n :: u16) = n"
  by (simp add: unat_of_nat u16_limit_def)

lemma u32_max_neq: "n < u32_limit \<Longrightarrow> (of_nat n :: u32) \<noteq> u32_max"
proof
  assume n: "n < u32_limit" and "(of_nat n :: u32) = u32_max"
  then have "unat (of_nat n :: u32) = unat u32_max" by simp
  moreover have "unat u32_max = u32_limit"
    by (simp add: u32_max_def u32_limit_def unsigned_minus_1_eq_mask mask_eq_exp_minus_1)
  ultimately show False using n u32_nat [of n] by simp
qed

lemma u32_eq: "m \<le> u32_limit \<Longrightarrow> n \<le> u32_limit \<Longrightarrow> (of_nat m :: u32) = of_nat n \<longleftrightarrow> m = n"
  using u32_nat [of m] u32_nat [of n] by (metis)

lemma chain_Suc: "0 < n \<Longrightarrow> chain (Suc n) = chain n @ [\<lparr>ge_from = of_nat (n - 1), ge_to = of_nat n\<rparr>]"
  by (cases n) (simp_all add: chain_def)

lemma chain_last:
  assumes "0 < n" "n < u32_limit"
  shows "append_edge (chain n) (of_nat (n - 1)) (of_nat n) = chain (Suc n)"
proof -
  have neq: "(of_nat (n - 1) :: u32) \<noteq> of_nat n" using assms u32_eq [of "n - 1" n] by simp
  have "last (chain n) \<noteq> \<lparr>ge_from = of_nat (n - 1), ge_to = of_nat n\<rparr>" if "chain n \<noteq> []"
  proof -
    from that have n: "2 \<le> n" by (simp add: chain_def)
    then obtain m where "n = Suc (Suc m)" by (metis add_2_eq_Suc le_Suc_ex)
    then have "last (chain n) = \<lparr>ge_from = of_nat (n - 2), ge_to = of_nat (n - 1)\<rparr>"
      by (simp add: chain_def)
    moreover have "(of_nat (n - 1) :: u32) \<noteq> of_nat n" by (rule neq)
    ultimately show ?thesis by simp
  qed
  with neq show ?thesis using chain_Suc [OF assms(1)] by (auto simp: append_edge_def)
qed

lemma add_node_chained:
  assumes "add_node i k kind z = Some z'" "chained z"
  shows "chained z'"
proof -
  let ?n = "length (fg_nodes (fz_graph z))"
  have n: "?n < u32_limit" using assms(1) by (auto simp: add_node_def Let_def split: if_splits)
  have z: "fg_edges (fz_graph z) = chain ?n" "fz_last_node z = (if ?n = 0 then u32_max else of_nat (?n - 1))"
    using assms(2) by (simp_all add: chained_def Let_def)
  have z': "z' = z\<lparr>fz_graph := (fz_graph z)\<lparr>fg_nodes := fg_nodes (fz_graph z) @ [\<lparr>gn_stage = i, gn_kind = kind, gn_ordinal = of_nat k\<rparr>],
        fg_edges := (if fz_last_node z \<noteq> u32_max then append_edge (fg_edges (fz_graph z)) (fz_last_node z) (of_nat ?n)
                     else fg_edges (fz_graph z))\<rparr>,
      fz_last_node := of_nat ?n\<rparr>"
    using assms(1) n by (simp add: add_node_def Let_def)
  show ?thesis
  proof (cases "?n = 0")
    case True
    then show ?thesis using z n by (simp add: z' chained_def chain_def)
  next
    case False
    then have "fz_last_node z \<noteq> u32_max" using z(2) u32_max_neq [of "?n - 1"] n by simp
    moreover have "append_edge (fg_edges (fz_graph z)) (fz_last_node z) (of_nat ?n) = chain (Suc ?n)"
      using z False chain_last [of ?n] n by simp
    ultimately show ?thesis using n by (simp add: z' chained_def Let_def)
  qed
qed

lemma add_node_eq:
  assumes "add_node i k kind z = Some z'"
  obtains e l where "z' = z\<lparr>fz_graph := (fz_graph z)
     \<lparr>fg_nodes := fg_nodes (fz_graph z) @ [\<lparr>gn_stage = i, gn_kind = kind, gn_ordinal = of_nat k\<rparr>], fg_edges := e\<rparr>,
     fz_last_node := l\<rparr>"
proof (rule that)
  let ?n = "length (fg_nodes (fz_graph z))"
  from assms have "\<not> u32_limit \<le> ?n" by (auto simp: add_node_def Let_def)
  with assms show "z' = z\<lparr>fz_graph := (fz_graph z)
     \<lparr>fg_nodes := fg_nodes (fz_graph z) @ [\<lparr>gn_stage = i, gn_kind = kind, gn_ordinal = of_nat k\<rparr>],
      fg_edges := (if fz_last_node z \<noteq> u32_max then append_edge (fg_edges (fz_graph z)) (fz_last_node z) (of_nat ?n)
                   else fg_edges (fz_graph z))\<rparr>, fz_last_node := of_nat ?n\<rparr>"
    by (simp add: add_node_def Let_def)
qed

lemma add_nodes_eq:
  assumes "add_nodes i k kinds z = Some z'" "chained z"
  shows "chained z' \<and> (\<exists>e l. z' = z\<lparr>fz_graph := (fz_graph z)
     \<lparr>fg_nodes := fg_nodes (fz_graph z) @ map (\<lambda>kind. \<lparr>gn_stage = i, gn_kind = kind, gn_ordinal = of_nat k\<rparr>) kinds,
      fg_edges := e\<rparr>, fz_last_node := l\<rparr>)"
  using assms
proof (induction kinds arbitrary: z)
  case Nil
  have "z = z\<lparr>fz_graph := (fz_graph z)\<lparr>fg_nodes := fg_nodes (fz_graph z), fg_edges := fg_edges (fz_graph z)\<rparr>,
      fz_last_node := fz_last_node z\<rparr>" by simp
  with Nil show ?case by (metis add_nodes.simps(1) list.simps(8) append_Nil2 option.inject)
next
  case (Cons kind kinds)
  then obtain z1 where z1: "add_node i k kind z = Some z1" "add_nodes i k kinds z1 = Some z'"
    by (auto split: option.splits)
  obtain e l where e: "z1 = z\<lparr>fz_graph := (fz_graph z)
     \<lparr>fg_nodes := fg_nodes (fz_graph z) @ [\<lparr>gn_stage = i, gn_kind = kind, gn_ordinal = of_nat k\<rparr>], fg_edges := e\<rparr>,
     fz_last_node := l\<rparr>" by (rule add_node_eq [OF z1(1)])
  from Cons.IH [OF z1(2) add_node_chained [OF z1(1) Cons.prems(2)]] show ?case by (auto simp: e)
qed

definition consensus_flags :: "owned_stage \<Rightarrow> bool \<Rightarrow> bool" where
  "consensus_flags r unconsensed \<longleftrightarrow>
     \<not> os_collective_consensus r \<and> (may_fail_or_mutate r \<or> unconsensed)"

lemma add_consensus_eq:
  assumes "add_consensus r k z = Some z'" "chained z"
  shows "chained z' \<and> (\<exists>e l. z' = z\<lparr>fz_graph := (fz_graph z)
     \<lparr>fg_nodes := fg_nodes (fz_graph z) @ (if os_collective_consensus r
        then [\<lparr>gn_stage = os_id r, gn_kind = Node_collective_consensus, gn_ordinal = of_nat k\<rparr>] else []),
      fg_edges := e\<rparr>, fz_last_node := l, fz_unconsensed := consensus_flags r (fz_unconsensed z),
      fz_has_consensus := fz_has_consensus z \<or> os_collective_consensus r\<rparr>)"
proof (cases "os_collective_consensus r")
  case True
  let ?z = "if may_fail_or_mutate r then z\<lparr>fz_unconsensed := True\<rparr> else z"
  from assms(1) True obtain z1 where z1: "add_node (os_id r) k Node_collective_consensus ?z = Some z1"
    "z' = z1\<lparr>fz_unconsensed := False, fz_has_consensus := True\<rparr>"
    by (auto simp: add_consensus_def Let_def)
  have "chained ?z" using assms(2) by (simp add: chained_def)
  with add_node_chained [OF z1(1)] have "chained z'" by (simp add: z1(2) chained_def)
  moreover obtain e l where "z1 = ?z\<lparr>fz_graph := (fz_graph ?z)\<lparr>fg_nodes := fg_nodes (fz_graph ?z) @
      [\<lparr>gn_stage = os_id r, gn_kind = Node_collective_consensus, gn_ordinal = of_nat k\<rparr>], fg_edges := e\<rparr>,
     fz_last_node := l\<rparr>" by (rule add_node_eq [OF z1(1)])
  then have "z' = z\<lparr>fz_graph := (fz_graph z)
     \<lparr>fg_nodes := fg_nodes (fz_graph z) @ [\<lparr>gn_stage = os_id r, gn_kind = Node_collective_consensus, gn_ordinal = of_nat k\<rparr>],
      fg_edges := e\<rparr>, fz_last_node := l, fz_unconsensed := False, fz_has_consensus := True\<rparr>"
    by (simp add: z1(2))
  ultimately show ?thesis using True by (auto simp: consensus_flags_def)
next
  case False
  let ?u = "consensus_flags r (fz_unconsensed z)"
  from assms(1) False have "z' = z\<lparr>fz_unconsensed := ?u\<rparr>"
    by (auto simp: add_consensus_def Let_def consensus_flags_def)
  then have "z' = z\<lparr>fz_graph := (fz_graph z)\<lparr>fg_nodes := fg_nodes (fz_graph z) @ [], fg_edges := fg_edges (fz_graph z)\<rparr>,
      fz_last_node := fz_last_node z, fz_unconsensed := ?u, fz_has_consensus := fz_has_consensus z \<or> False\<rparr>"
    by simp
  moreover have "chained z'" using assms(2) \<open>z' = z\<lparr>fz_unconsensed := ?u\<rparr>\<close> by (simp add: chained_def)
  ultimately show ?thesis using False by (simp only: if_False) blast
qed

lemma freeze_stageD:
  assumes "freeze_stage stages k z = Inr z'" "chained z"
  obtains live offset ws hw e l res where
    "\<not> order_violated k (stages ! k) z" "list_all (readable (fz_states z)) (os_reads (stages ! k))"
    "list_all (invalidation_ok (fz_states z) (stages ! k)) (os_invalidates (stages ! k))"
    "list_all (write_ok (fz_states z) (stages ! k)) (os_writes (stages ! k))"
    "live_through_ordinal stages k (os_workspace_live_through (stages ! k)) = Some live"
    "allocate_graph_workspace (stage_workspace (stages ! k)) k live (fz_workspaces z) (fz_high_water z)
       = Inr (offset, ws, hw)"
    "\<not> tables_overflow (stages ! k) (length (fg_nodes (fz_graph z)))
       ((fz_graph z)\<lparr>fg_nodes := fg_nodes (fz_graph z) @ nodes_of stages k, fg_edges := e\<rparr>)"
    "add_stage_resources (os_resources (stages ! k)) (fz_resources z) = Some res"
    "chained z'"
    "z' = z\<lparr>fz_graph := append_stage (stages ! k) k (length (fg_nodes (fz_graph z))) offset
         ((fz_graph z)\<lparr>fg_nodes := fg_nodes (fz_graph z) @ nodes_of stages k, fg_edges := e\<rparr>),
       fz_states := advance_states (stages ! k) (fz_states z), fz_workspaces := ws, fz_high_water := hw,
       fz_last_node := l, fz_unconsensed := consensus_flags (stages ! k) (fz_unconsensed z),
       fz_has_consensus := fz_has_consensus z \<or> os_collective_consensus (stages ! k),
       fz_seen_commit := fz_seen_commit z \<or> os_kind (stages ! k) = Kind_commit, fz_resources := res\<rparr>"
proof -
  let ?r = "stages ! k"
  from assms(1) obtain live offset ws hw z1 z2 res where
    g: "\<not> order_violated k ?r z" "list_all (readable (fz_states z)) (os_reads ?r)"
      "list_all (invalidation_ok (fz_states z) ?r) (os_invalidates ?r)" "list_all (write_ok (fz_states z) ?r) (os_writes ?r)"
      "live_through_ordinal stages k (os_workspace_live_through ?r) = Some live"
      "allocate_graph_workspace (stage_workspace ?r) k live (fz_workspaces z) (fz_high_water z) = Inr (offset, ws, hw)"
    and a: "add_nodes (os_id ?r) k (stage_nodes ?r) (z\<lparr>fz_workspaces := ws, fz_high_water := hw\<rparr>) = Some z1"
    and b: "add_consensus ?r k (z1\<lparr>fz_states := advance_states ?r (fz_states z)\<rparr>) = Some z2"
    and t: "\<not> tables_overflow ?r (length (fg_nodes (fz_graph z))) (fz_graph z2)"
      "add_stage_resources (os_resources ?r) (fz_resources z2) = Some res"
    and z': "z' = z2\<lparr>fz_graph := append_stage ?r k (length (fg_nodes (fz_graph z))) offset (fz_graph z2),
        fz_seen_commit := fz_seen_commit z2 \<or> os_kind ?r = Kind_commit, fz_resources := res\<rparr>"
    by (auto simp: freeze_stage_def Let_def split: if_splits option.splits sum.splits prod.splits)
  have "chained (z\<lparr>fz_workspaces := ws, fz_high_water := hw\<rparr>)" using assms(2) by (simp add: chained_def)
  note c1 = add_nodes_eq [OF a this]
  then have "chained (z1\<lparr>fz_states := advance_states ?r (fz_states z)\<rparr>)" by (simp add: chained_def)
  note c2 = add_consensus_eq [OF b this]
  from c1 obtain e1 l1 where z1: "z1 = z\<lparr>fz_workspaces := ws, fz_high_water := hw, fz_graph := (fz_graph z)
     \<lparr>fg_nodes := fg_nodes (fz_graph z) @ map (\<lambda>kind. \<lparr>gn_stage = os_id ?r, gn_kind = kind, gn_ordinal = of_nat k\<rparr>)
        (stage_nodes ?r), fg_edges := e1\<rparr>, fz_last_node := l1\<rparr>" by auto
  from c2 obtain e l where z2': "z2 = (z1\<lparr>fz_states := advance_states ?r (fz_states z)\<rparr>)
     \<lparr>fz_graph := (fz_graph (z1\<lparr>fz_states := advance_states ?r (fz_states z)\<rparr>))
        \<lparr>fg_nodes := fg_nodes (fz_graph (z1\<lparr>fz_states := advance_states ?r (fz_states z)\<rparr>)) @
           (if os_collective_consensus ?r
            then [\<lparr>gn_stage = os_id ?r, gn_kind = Node_collective_consensus, gn_ordinal = of_nat k\<rparr>] else []),
         fg_edges := e\<rparr>, fz_last_node := l,
      fz_unconsensed := consensus_flags ?r (fz_unconsensed (z1\<lparr>fz_states := advance_states ?r (fz_states z)\<rparr>)),
      fz_has_consensus := fz_has_consensus (z1\<lparr>fz_states := advance_states ?r (fz_states z)\<rparr>) \<or> os_collective_consensus ?r\<rparr>"
    by blast
  have z2: "z2 = z\<lparr>fz_graph := (fz_graph z)\<lparr>fg_nodes := fg_nodes (fz_graph z) @ nodes_of stages k, fg_edges := e\<rparr>,
     fz_states := advance_states ?r (fz_states z), fz_workspaces := ws, fz_high_water := hw, fz_last_node := l,
     fz_unconsensed := consensus_flags ?r (fz_unconsensed z),
     fz_has_consensus := fz_has_consensus z \<or> os_collective_consensus ?r\<rparr>"
    unfolding z2' z1 by (rule freeze_state.equality) (simp_all add: nodes_of_def all_nodes_def)
  have "chained z'" using c2 by (simp add: z' chained_def append_stage_def)
  with g t show ?thesis
    by (intro that [of live offset ws hw e res l]) (simp_all add: z' z2)
qed

text \<open>An invariant of one stage is one of the loop.\<close>

lemma freeze_stages_induct:
  assumes "freeze_stages stages [i ..< n] z = Inr z'" "i \<le> n" "P i z"
    and "\<And>k z z'. i \<le> k \<Longrightarrow> k < n \<Longrightarrow> P k z \<Longrightarrow> freeze_stage stages k z = Inr z' \<Longrightarrow> P (Suc k) z'"
  shows "P n z'"
  using assms
proof (induction "n - i" arbitrary: i z)
  case (Suc d)
  then have "[i ..< n] = i # [Suc i ..< n]" by (simp add: upt_conv_Cons)
  with Suc.prems(1) obtain z1 where z1: "freeze_stage stages i z = Inr z1" "freeze_stages stages [Suc i ..< n] z1 = Inr z'"
    by (auto split: sum.splits)
  with Suc.prems Suc.hyps show ?case by (intro Suc.hyps(1) [of "Suc i" z1]) auto
qed simp

end
