(* ===== verification/Graph_Schedule.thy ===== *)
theory Graph_Schedule
  imports Graph_Freeze
begin

text \<open>
  The contract of a frozen execution graph: its tables are the registered stages, its nodes are one
  chain in registration order, a field is read only after it exists and overwritten only by a stage
  that declares it, workspaces that are live together are disjoint, and a commit follows a consensus.
\<close>

section \<open>Tables\<close>

definition flat :: "('s \<Rightarrow> 'a list) \<Rightarrow> 's list \<Rightarrow> nat \<Rightarrow> 'a list" where
  "flat h xs k = concat (map h (take k xs))"

lemma flat_0 [simp]: "flat h xs 0 = []"
  by (simp add: flat_def)

lemma flat_Suc: "k < length xs \<Longrightarrow> flat h xs (Suc k) = flat h xs k @ h (xs ! k)"
  by (simp add: flat_def take_Suc_conv_app_nth)

lemma flat_slice:
  assumes "j < k" "k \<le> length xs"
  shows "take (length (h (xs ! j))) (drop (length (flat h xs j)) (flat h xs k)) = h (xs ! j)"
    and "length (flat h xs j) + length (h (xs ! j)) \<le> length (flat h xs k)"
proof -
  have "\<exists>rest. flat h xs k = flat h xs j @ h (xs ! j) @ rest"
    using assms
  proof (induction k)
    case (Suc k)
    show ?case
    proof (cases "j = k")
      case True
      then show ?thesis using Suc.prems flat_Suc [of k xs h] by simp
    next
      case False
      with Suc obtain rest where "flat h xs k = flat h xs j @ h (xs ! j) @ rest" by fastforce
      then show ?thesis using flat_Suc [of k xs h] Suc.prems by simp
    qed
  qed simp
  then obtain rest where r: "flat h xs k = flat h xs j @ h (xs ! j) @ rest" by blast
  then show "take (length (h (xs ! j))) (drop (length (flat h xs j)) (flat h xs k)) = h (xs ! j)"
    "length (flat h xs j) + length (h (xs ! j)) \<le> length (flat h xs k)" by simp_all
qed

lemma find_unique:
  assumes "distinct (map f xs)" "j < length xs"
  shows "find (\<lambda>x. f x = f (xs ! j)) xs = Some (xs ! j)"
proof -
  have "f (xs ! i) \<noteq> f (xs ! j)" if "i < j" for i
    using assms that by (auto simp: distinct_conv_nth)
  then show ?thesis using assms(2) by (auto simp: find_Some_iff)
qed

definition stage_entry :: "owned_stage list \<Rightarrow> nat \<Rightarrow> frozen_stage \<Rightarrow> bool" where
  "stage_entry stages j s \<longleftrightarrow> (let r = stages ! j in
     fr_id s = os_id r \<and> fr_kind s = os_kind r \<and> unat (fr_ordinal s) = j \<and>
     unat (fr_node_begin s) = length (concat (map (nodes_of stages) [0 ..< j])) \<and>
     unat (fr_node_count s) = length (nodes_of stages j) \<and>
     unat (fr_read_begin s) = length (flat os_reads stages j) \<and> unat (fr_read_count s) = length (os_reads r) \<and>
     unat (fr_write_begin s) = length (flat os_writes stages j) \<and> unat (fr_write_count s) = length (os_writes r) \<and>
     unat (fr_ghost_begin s) = length (flat os_ghosts stages j) \<and> unat (fr_ghost_count s) = length (os_ghosts r) \<and>
     unat (fr_invalidation_begin s) = length (flat os_invalidates stages j) \<and>
     unat (fr_invalidation_count s) = length (os_invalidates r) \<and>
     fr_workspace_bytes s = os_workspace_bytes r \<and> fr_workspace_alignment s = os_workspace_alignment r \<and>
     fr_workspace_live_through s = os_workspace_live_through r \<and> fr_resources s = os_resources r \<and>
     fr_collective_consensus s = os_collective_consensus r)"

definition tables_inv :: "owned_stage list \<Rightarrow> nat \<Rightarrow> freeze_state \<Rightarrow> bool" where
  "tables_inv stages k z \<longleftrightarrow> chained z \<and> (let g = fz_graph z in
     fg_reads g = flat os_reads stages k \<and> fg_writes g = flat os_writes stages k \<and>
     fg_ghosts g = flat os_ghosts stages k \<and> fg_ghost_widths g = flat os_ghost_widths stages k \<and>
     fg_invalidations g = flat os_invalidates stages k \<and>
     fg_nodes g = concat (map (nodes_of stages) [0 ..< k]) \<and> length (fg_stages g) = k \<and>
     (\<forall>j < k. stage_entry stages j (fg_stages g ! j)))"

lemma freeze_stage_tables:
  assumes "freeze_stage stages k z = Inr z'" "chained z"
  obtains offset e where "\<not> order_violated k (stages ! k) z"
    "\<not> tables_overflow (stages ! k) (length (fg_nodes (fz_graph z)))
       ((fz_graph z)\<lparr>fg_nodes := fg_nodes (fz_graph z) @ nodes_of stages k, fg_edges := e\<rparr>)"
    "chained z'"
    "fz_graph z' = append_stage (stages ! k) k (length (fg_nodes (fz_graph z))) offset
       ((fz_graph z)\<lparr>fg_nodes := fg_nodes (fz_graph z) @ nodes_of stages k, fg_edges := e\<rparr>)"
  by (rule freeze_stageD [OF assms]) (rule that; simp)

lemma tables_inv_0: "tables_inv stages 0 (initial_freeze specs)"
  by (simp add: tables_inv_def initial_freeze_def empty_graph_def chained_def chain_def)

lemma fits_appendedD: "fits_appended t a \<Longrightarrow> length t \<le> u32_limit"
  by (simp add: fits_appended_def)

lemma tables_inv_Suc:
  assumes "tables_inv stages k z" "k < length stages" "freeze_stage stages k z = Inr z'"
  shows "tables_inv stages (Suc k) z'"
proof -
  let ?r = "stages ! k" and ?g = "fz_graph z"
  have ch: "chained z" using assms(1) by (simp add: tables_inv_def)
  obtain offset e where
    o: "\<not> order_violated k ?r z"
    and t: "\<not> tables_overflow ?r (length (fg_nodes ?g))
       (?g\<lparr>fg_nodes := fg_nodes ?g @ nodes_of stages k, fg_edges := e\<rparr>)"
    and c: "chained z'"
    and g: "fz_graph z' = append_stage ?r k (length (fg_nodes ?g)) offset
         (?g\<lparr>fg_nodes := fg_nodes ?g @ nodes_of stages k, fg_edges := e\<rparr>)"
    by (rule freeze_stage_tables [OF assms(3) ch])
  have inv: "fg_reads ?g = flat os_reads stages k" "fg_writes ?g = flat os_writes stages k"
    "fg_ghosts ?g = flat os_ghosts stages k" "fg_ghost_widths ?g = flat os_ghost_widths stages k"
    "fg_invalidations ?g = flat os_invalidates stages k"
    "fg_nodes ?g = concat (map (nodes_of stages) [0 ..< k])" "length (fg_stages ?g) = k"
    "\<forall>j < k. stage_entry stages j (fg_stages ?g ! j)"
    using assms(1) by (simp_all add: tables_inv_def Let_def)
  have lim: "k \<le> u32_limit" "length (fg_nodes ?g) \<le> u32_limit"
    using o ch by (auto simp: order_violated_def chained_def Let_def)
  from t have fit: "length (flat os_reads stages k) \<le> u32_limit" "length (flat os_writes stages k) \<le> u32_limit"
    "length (flat os_ghosts stages k) \<le> u32_limit" "length (flat os_invalidates stages k) \<le> u32_limit"
    "length (os_reads ?r) \<le> u16_limit" "length (os_writes ?r) \<le> u16_limit" "length (os_ghosts ?r) \<le> u16_limit"
    "length (os_invalidates ?r) \<le> u16_limit" "length (nodes_of stages k) \<le> u16_limit"
    by (auto simp: tables_overflow_def inv(1-5) dest: fits_appendedD)
  have "stage_entry stages j (fg_stages (fz_graph z') ! j)" if "j < Suc k" for j
  proof (cases "j = k")
    case True
    then show ?thesis
      using fit lim inv(6,7)
      by (simp add: g append_stage_def stage_entry_def Let_def nth_append inv(1-5) u32_nat u16_nat)
  next
    case False
    with that inv(7,8) show ?thesis by (simp add: g append_stage_def nth_append)
  qed
  then show ?thesis
    using c inv assms(2) by (simp add: tables_inv_def Let_def g append_stage_def flat_Suc)
qed

section \<open>Fields\<close>

definition initially_available :: "graph_field list \<Rightarrow> field_access \<Rightarrow> bool" where
  "initially_available specs a \<longleftrightarrow> (\<exists>f \<in> set specs. gf_access f = a \<and> gf_initially_available f)"

definition written_before :: "owned_stage list \<Rightarrow> nat \<Rightarrow> field_access \<Rightarrow> bool" where
  "written_before stages k a \<longleftrightarrow> (\<exists>j < k. a \<in> set (os_writes (stages ! j)))"

text \<open>The reference: a field exists at a stage if it is given or an earlier stage has written it.\<close>

definition exists_at :: "graph_field list \<Rightarrow> owned_stage list \<Rightarrow> nat \<Rightarrow> field_access \<Rightarrow> bool" where
  "exists_at specs stages k a \<longleftrightarrow> initially_available specs a \<or> written_before stages k a"

definition flow_ok :: "graph_field list \<Rightarrow> owned_stage list \<Rightarrow> nat \<Rightarrow> bool" where
  "flow_ok specs stages k \<longleftrightarrow> (let r = stages ! k in
     (\<forall>a \<in> set (os_reads r). exists_at specs stages k a) \<and>
     (\<forall>a \<in> set (os_writes r). exists_at specs stages k a \<longrightarrow> a \<in> set (os_reads r) \<and> a \<in> set (os_invalidates r)) \<and>
     (\<forall>a \<in> set (os_invalidates r). exists_at specs stages k a \<and> a \<in> set (os_reads r) \<and> a \<in> set (os_writes r)))"

definition states_inv :: "graph_field list \<Rightarrow> owned_stage list \<Rightarrow> nat \<Rightarrow> freeze_state \<Rightarrow> bool" where
  "states_inv specs stages k z \<longleftrightarrow> map fst_access (fz_states z) = map gf_access specs \<and>
     (\<forall>s \<in> set (fz_states z). \<not> fst_invalidated s \<and> fst_available s = exists_at specs stages k (fst_access s) \<and>
        fst_initialized s = exists_at specs stages k (fst_access s)) \<and>
     (\<forall>j < k. flow_ok specs stages j)"

lemma update_state_map:
  "distinct (map fst_access ss) \<Longrightarrow>
   update_state f a ss = map (\<lambda>s. if fst_access s = a then f s else s) ss"
proof (induction ss)
  case (Cons s ss)
  then have "\<forall>t \<in> set ss. fst_access t \<noteq> fst_access s" by (auto simp: image_iff)
  then have "map (\<lambda>t. if fst_access t = fst_access s then f t else t) ss = ss" by (simp add: map_idI)
  with Cons show ?case by auto
qed simp

lemma update_states_map:
  assumes "distinct (map fst_access ss)" "\<And>s. fst_access (f s) = fst_access s" "\<And>s. f (f s) = f s"
  shows "fold (update_state f) as ss = map (\<lambda>s. if fst_access s \<in> set as then f s else s) ss"
  using assms(1)
proof (induction as arbitrary: ss)
  case (Cons a as)
  have "map fst_access (update_state f a ss) = map fst_access ss"
    using assms(2) by (simp add: update_state_map [OF Cons.prems])
  with Cons have "fold (update_state f) as (update_state f a ss)
      = map (\<lambda>s. if fst_access s \<in> set as then f s else s) (update_state f a ss)" by simp
  then show ?case using assms(2,3) by (auto simp: update_state_map [OF Cons.prems])
qed simp

lemma advance_states_map:
  assumes "distinct (map fst_access ss)" "set (os_invalidates r) \<subseteq> set (os_writes r)"
  shows "advance_states r ss = map (\<lambda>s. if fst_access s \<in> set (os_writes r)
    then s\<lparr>fst_available := True, fst_initialized := True, fst_invalidated := False\<rparr> else s) ss"
proof -
  let ?i = "\<lambda>s. if fst_access s \<in> set (os_invalidates r) then s\<lparr>fst_invalidated := True\<rparr> else s"
  have i: "fold (update_state (\<lambda>s. s\<lparr>fst_invalidated := True\<rparr>)) (os_invalidates r) ss = map ?i ss"
    by (rule update_states_map [OF assms(1)]) simp_all
  have "map fst_access (map ?i ss) = map fst_access ss" by simp
  with assms(1) have "distinct (map fst_access (map ?i ss))" by metis
  from update_states_map [OF this, of "\<lambda>s. s\<lparr>fst_available := True, fst_initialized := True, fst_invalidated := False\<rparr>"]
  show ?thesis using assms(2) by (auto simp: advance_states_def i)
qed

lemma freeze_stage_flow:
  assumes "freeze_stage stages k z = Inr z'" "chained z"
  shows "list_all (readable (fz_states z)) (os_reads (stages ! k))"
    "list_all (invalidation_ok (fz_states z) (stages ! k)) (os_invalidates (stages ! k))"
    "list_all (write_ok (fz_states z) (stages ! k)) (os_writes (stages ! k))"
    "fz_states z' = advance_states (stages ! k) (fz_states z)" "chained z'"
  by (rule freeze_stageD [OF assms]; simp)+

lemma states_inv_0:
  assumes "distinct (map gf_access specs)"
  shows "states_inv specs stages 0 (initial_freeze specs)"
proof -
  have "initially_available specs (gf_access f) = gf_initially_available f" if "f \<in> set specs" for f
    using assms that by (auto simp: initially_available_def distinct_map inj_on_def)
  then show ?thesis
    by (auto simp: states_inv_def initial_freeze_def exists_at_def written_before_def)
qed

lemma states_inv_Suc:
  assumes "states_inv specs stages k z" "distinct (map gf_access specs)" "freeze_stage stages k z = Inr z'" "chained z"
  shows "states_inv specs stages (Suc k) z'"
proof -
  let ?r = "stages ! k"
  note f = freeze_stage_flow [OF assms(3,4)]
  have acc: "map fst_access (fz_states z) = map gf_access specs"
    and st: "\<forall>s \<in> set (fz_states z). \<not> fst_invalidated s \<and> fst_available s = exists_at specs stages k (fst_access s) \<and>
        fst_initialized s = exists_at specs stages k (fst_access s)"
    using assms(1) by (simp_all add: states_inv_def)
  have found: "s \<in> set (fz_states z) \<and> fst_access s = a" if "find_state (fz_states z) a = Some s" for a s
    using that by (auto simp: find_state_def find_Some_iff dest: nth_mem)
  have read: "exists_at specs stages k a" if "readable (fz_states z) a" for a
    using that st found by (auto simp: readable_def split: option.splits)
  have "flow_ok specs stages k"
    using f(1-3) read st found
    by (auto simp: flow_ok_def Let_def list_all_iff invalidation_ok_def write_ok_def split: option.splits)
  moreover have sub: "set (os_invalidates ?r) \<subseteq> set (os_writes ?r)"
    using f(2) by (auto simp: list_all_iff invalidation_ok_def)
  moreover have d: "distinct (map fst_access (fz_states z))" using acc assms(2) by simp
  have e: "exists_at specs stages (Suc k) a \<longleftrightarrow> exists_at specs stages k a \<or> a \<in> set (os_writes ?r)" for a
    by (auto simp: exists_at_def written_before_def less_Suc_eq)
  have "map fst_access (fz_states z') = map fst_access (fz_states z)"
    by (auto simp: f(4) advance_states_map [OF d sub])
  ultimately show ?thesis
    using assms(1) acc st by (auto simp: states_inv_def f(4) advance_states_map [OF d sub] e less_Suc_eq)
qed

section \<open>Consensus\<close>

definition flags_inv :: "owned_stage list \<Rightarrow> nat \<Rightarrow> freeze_state \<Rightarrow> bool" where
  "flags_inv stages k z \<longleftrightarrow>
     (fz_unconsensed z \<longleftrightarrow> 0 < k \<and> os_kind (stages ! (k - 1)) \<noteq> Kind_commit \<and>
        \<not> os_collective_consensus (stages ! (k - 1))) \<and>
     (fz_has_consensus z \<longrightarrow> 0 < k) \<and>
     (fz_seen_commit z \<longleftrightarrow> (\<exists>j < k. os_kind (stages ! j) = Kind_commit)) \<and>
     (\<forall>j < k. os_kind (stages ! j) = Kind_commit \<longrightarrow>
        0 < j \<and> os_collective_consensus (stages ! (j - 1)) \<and> (\<forall>i < j. os_kind (stages ! i) \<noteq> Kind_commit)) \<and>
     (\<forall>j < k. \<forall>i < j. os_kind (stages ! i) = Kind_commit \<longrightarrow> os_kind (stages ! j) = Kind_service)"

lemma freeze_stage_flags:
  assumes "freeze_stage stages k z = Inr z'" "chained z"
  shows "\<not> order_violated k (stages ! k) z"
    "fz_unconsensed z' = consensus_flags (stages ! k) (fz_unconsensed z)"
    "fz_has_consensus z' = (fz_has_consensus z \<or> os_collective_consensus (stages ! k))"
    "fz_seen_commit z' = (fz_seen_commit z \<or> os_kind (stages ! k) = Kind_commit)"
  by (rule freeze_stageD [OF assms]; simp)+

lemma flags_inv_0: "flags_inv stages 0 (initial_freeze specs)"
  by (simp add: flags_inv_def initial_freeze_def)

lemma flags_inv_Suc:
  assumes "flags_inv stages k z" "plain_commit (stages ! k)" "freeze_stage stages k z = Inr z'" "chained z"
  shows "flags_inv stages (Suc k) z'"
proof -
  note f = freeze_stage_flags [OF assms(3,4)]
  show ?thesis
  proof (cases "os_kind (stages ! k) = Kind_commit")
    case True
    with f(1) have o: "\<not> fz_seen_commit z" "\<not> fz_unconsensed z" "fz_has_consensus z"
      by (auto simp: order_violated_def)
    with assms(1) have b: "0 < k" "\<forall>j < k. os_kind (stages ! j) \<noteq> Kind_commit"
      by (auto simp: flags_inv_def)
    with assms(1) o(2) have "os_collective_consensus (stages ! (k - 1))" by (auto simp: flags_inv_def)
    moreover have "\<not> fz_unconsensed z'"
      using True o(2) assms(2) by (simp add: f(2) consensus_flags_def plain_commit_def)
    ultimately show ?thesis
      using b True f(3,4) o assms(1) by (auto simp: flags_inv_def less_Suc_eq)
  next
    case False
    then have "may_fail_or_mutate (stages ! k)" by (simp add: may_fail_or_mutate_def)
    then have u: "fz_unconsensed z' \<longleftrightarrow> \<not> os_collective_consensus (stages ! k)"
      by (simp add: f(2) consensus_flags_def)
    have seen: "fz_seen_commit z \<longleftrightarrow> (\<exists>j < k. os_kind (stages ! j) = Kind_commit)"
      using assms(1) by (simp add: flags_inv_def)
    moreover have "fz_seen_commit z \<longrightarrow> os_kind (stages ! k) = Kind_service"
      using f(1) by (auto simp: order_violated_def)
    ultimately have "\<forall>i < k. os_kind (stages ! i) = Kind_commit \<longrightarrow> os_kind (stages ! k) = Kind_service"
      by blast
    moreover have "\<forall>j < k. \<forall>i < j. os_kind (stages ! i) = Kind_commit \<longrightarrow> os_kind (stages ! j) = Kind_service"
      using assms(1) unfolding flags_inv_def by (elim conjE)
    ultimately have late: "\<forall>j < Suc k. \<forall>i < j. os_kind (stages ! i) = Kind_commit \<longrightarrow> os_kind (stages ! j) = Kind_service"
      unfolding less_Suc_eq by blast
    have early: "\<forall>j < Suc k. os_kind (stages ! j) = Kind_commit \<longrightarrow>
        0 < j \<and> os_collective_consensus (stages ! (j - 1)) \<and> (\<forall>i < j. os_kind (stages ! i) \<noteq> Kind_commit)"
      using assms(1) False unfolding flags_inv_def less_Suc_eq by blast
    have "fz_seen_commit z' \<longleftrightarrow> (\<exists>j < Suc k. os_kind (stages ! j) = Kind_commit)"
      using seen False by (auto simp: f(4) less_Suc_eq)
    then show ?thesis
      unfolding flags_inv_def by (intro conjI early late) (use False u in simp_all)
  qed
qed

section \<open>Workspaces\<close>

definition workspace_entry :: "owned_stage list \<Rightarrow> freeze_state \<Rightarrow> nat \<Rightarrow> workspace_interval \<Rightarrow> bool" where
  "workspace_entry stages z j w \<longleftrightarrow> (let r = stages ! j; s = fg_stages (fz_graph z) ! j in
     wi_begin w = j \<and> live_through_ordinal stages j (os_workspace_live_through r) = Some (wi_end w) \<and>
     wi_offset w = fr_workspace_offset s \<and> wi_bytes w = os_workspace_bytes r \<and>
     unat (os_workspace_alignment r) dvd unat (wi_offset w))"

definition blocks_inv :: "owned_stage list \<Rightarrow> nat \<Rightarrow> freeze_state \<Rightarrow> bool" where
  "blocks_inv stages k z \<longleftrightarrow> workspaces_ok (fz_workspaces z) (fz_high_water z) \<and>
     (\<forall>j < k. os_workspace_bytes (stages ! j) \<noteq> 0 \<longrightarrow>
        (\<exists>w \<in> set (fz_workspaces z). workspace_entry stages z j w))"

lemma freeze_stage_blocks:
  assumes "freeze_stage stages k z = Inr z'" "chained z"
  obtains live offset where
    "live_through_ordinal stages k (os_workspace_live_through (stages ! k)) = Some live"
    "allocate_graph_workspace (stage_workspace (stages ! k)) k live (fz_workspaces z) (fz_high_water z)
       = Inr (offset, fz_workspaces z', fz_high_water z')"
    "\<exists>s. fg_stages (fz_graph z') = fg_stages (fz_graph z) @ [s] \<and> fr_workspace_offset s = offset"
  by (rule freeze_stageD [OF assms]) (rule that; simp add: append_stage_def)

lemma blocks_inv_Suc:
  assumes "blocks_inv stages k z" "freeze_stage stages k z = Inr z'" "chained z" "length (fg_stages (fz_graph z)) = k"
  shows "blocks_inv stages (Suc k) z'"
proof -
  let ?r = "stages ! k"
  obtain live offset where l: "live_through_ordinal stages k (os_workspace_live_through ?r) = Some live"
    and a: "allocate_graph_workspace (stage_workspace ?r) k live (fz_workspaces z) (fz_high_water z)
       = Inr (offset, fz_workspaces z', fz_high_water z')"
    and s: "\<exists>s. fg_stages (fz_graph z') = fg_stages (fz_graph z) @ [s] \<and> fr_workspace_offset s = offset"
    by (rule freeze_stage_blocks [OF assms(2,3)])
  have old: "workspace_entry stages z' j w" if "workspace_entry stages z j w" "j < k" for j w
    using that s assms(4) by (auto simp: workspace_entry_def Let_def nth_append)
  have mono: "set (fz_workspaces z) \<subseteq> set (fz_workspaces z')"
    using allocate_InrD [OF a] by auto
  have new: "\<exists>w \<in> set (fz_workspaces z'). workspace_entry stages z' k w" if "os_workspace_bytes ?r \<noteq> 0"
    using allocate_InrD [OF a] that l s assms(4)
    by (auto simp: workspace_entry_def Let_def nth_append stage_workspace_def)
  from assms(1) allocate_keeps_ok [OF a] have "workspaces_ok (fz_workspaces z') (fz_high_water z')"
    by (simp add: blocks_inv_def)
  with assms(1) old mono new show ?thesis by (fastforce simp: blocks_inv_def less_Suc_eq)
qed

end
