(* ===== verification/Graph_Contract.thy ===== *)
theory Graph_Contract
  imports Graph_Schedule
begin

text \<open>The contract of a frozen execution graph, read off the invariants of the freeze loop.\<close>

section \<open>What a successful freeze has\<close>

lemma freeze_graphD:
  assumes "freeze_graph mem out gc = (s, g, gc')" "is_ok s"
  obtains z where "freeze_stages (gc_stages gc) [0 ..< length (gc_stages gc)] (initial_freeze (gc_fields gc)) = Inr z"
    "\<not> fz_unconsensed z" "gc_stages gc \<noteq> []" "gc' = gc\<lparr>gc_frozen := True\<rparr>" "fg_fingerprint g \<noteq> 0"
    "\<exists>fp. g = (fz_graph z)\<lparr>fg_resources := (fz_resources z)\<lparr>max_live_workspace_bytes := fz_high_water z,
       allocation_allowance := 0\<rparr>, fg_fingerprint := fp\<rparr>"
proof -
  let ?run = "freeze_stages (gc_stages gc) [0 ..< length (gc_stages gc)] (initial_freeze (gc_fields gc))"
  have failing: "\<not> is_ok e" if "freeze_stages stages ks z = Inl e" for stages ks z e
    using that
  proof (induction ks arbitrary: z)
    case (Cons k ks)
    show ?case
    proof (cases "freeze_stage stages k z")
      case (Inl d)
      then have "\<not> is_ok d"
        by (auto simp: freeze_stage_def allocate_graph_workspace_def Let_def
            split: if_splits option.splits sum.splits)
      with Cons.prems Inl show ?thesis by simp
    qed (use Cons in simp)
  qed simp
  from assms have "gc_stages gc \<noteq> []" by (auto simp: freeze_graph_def split: if_splits)
  moreover obtain z where "?run = Inr z"
    using assms failing by (cases ?run) (auto simp: freeze_graph_def split: if_splits)
  ultimately show ?thesis
    using assms by (intro that [of z]) (auto simp: freeze_graph_def graph_fingerprint_def Let_def split: if_splits)
qed

definition frozen_from :: "graph_compiler \<Rightarrow> freeze_state \<Rightarrow> bool" where
  "frozen_from gc z \<longleftrightarrow> (let n = length (gc_stages gc) in
     tables_inv (gc_stages gc) n z \<and> states_inv (gc_fields gc) (gc_stages gc) n z \<and>
     flags_inv (gc_stages gc) n z \<and> blocks_inv (gc_stages gc) n z)"

lemma freeze_establishes:
  assumes "compiler_ok gc"
    and "freeze_stages (gc_stages gc) [0 ..< length (gc_stages gc)] (initial_freeze (gc_fields gc)) = Inr z"
  shows "frozen_from gc z"
proof -
  let ?s = "gc_stages gc" and ?f = "gc_fields gc"
  let ?P = "\<lambda>k z. tables_inv ?s k z \<and> states_inv ?f ?s k z \<and> flags_inv ?s k z \<and> blocks_inv ?s k z"
  have d: "distinct (map gf_access ?f)" and p: "\<And>k. k < length ?s \<Longrightarrow> plain_commit (?s ! k)"
    using assms(1) by (simp_all add: compiler_ok_def stages_ok_def)
  have "?P (length ?s) z"
  proof (rule freeze_stages_induct [where P = ?P, OF assms(2)])
    show "?P 0 (initial_freeze ?f)"
      using tables_inv_0 states_inv_0 [OF d] flags_inv_0 workspaces_ok_Nil
      by (simp add: blocks_inv_def initial_freeze_def)
  next
    fix k z z'
    assume k: "k < length ?s" and P: "?P k z" and step: "freeze_stage ?s k z = Inr z'"
    then have c: "chained z" "length (fg_stages (fz_graph z)) = k" by (auto simp: tables_inv_def Let_def)
    show "?P (Suc k) z'"
      using P tables_inv_Suc [OF _ k step] states_inv_Suc [OF _ d step c(1)] flags_inv_Suc [OF _ p [OF k] step c(1)]
        blocks_inv_Suc [OF _ step c] by blast
  qed simp
  then show ?thesis by (simp add: frozen_from_def Let_def)
qed

lemma compiled_freeze:
  assumes "compiled gc" "freeze_graph mem out gc = (s, g, gc')" "is_ok s"
  obtains z where "frozen_from gc z" "\<not> fz_unconsensed z" "gc_stages gc \<noteq> []"
    "fg_stages g = fg_stages (fz_graph z)" "fg_nodes g = fg_nodes (fz_graph z)" "fg_edges g = fg_edges (fz_graph z)"
    "fg_reads g = fg_reads (fz_graph z)" "fg_writes g = fg_writes (fz_graph z)" "fg_ghosts g = fg_ghosts (fz_graph z)"
    "fg_ghost_widths g = fg_ghost_widths (fz_graph z)" "fg_invalidations g = fg_invalidations (fz_graph z)"
    "max_live_workspace_bytes (fg_resources g) = fz_high_water z"
proof -
  obtain z where z: "freeze_stages (gc_stages gc) [0 ..< length (gc_stages gc)] (initial_freeze (gc_fields gc)) = Inr z"
    "\<not> fz_unconsensed z" "gc_stages gc \<noteq> []"
    and g: "\<exists>fp. g = (fz_graph z)\<lparr>fg_resources := (fz_resources z)\<lparr>max_live_workspace_bytes := fz_high_water z,
       allocation_allowance := 0\<rparr>, fg_fingerprint := fp\<rparr>"
    by (rule freeze_graphD [OF assms(2,3)])
  have "frozen_from gc z" using freeze_establishes z(1) compiled_ok [OF assms(1)] by blast
  with z(2,3) g show ?thesis by (intro that [of z]) auto
qed

section \<open>Lookups\<close>

lemma table_slice_flat:
  assumes "j < k" "k \<le> length xs" "unat b = length (flat h xs j)" "unat c = length (h (xs ! j))"
  shows "span_list (table_slice (flat h xs k) b c) = h (xs ! j)"
  using flat_slice [OF assms(1,2), of h] assms(3,4) by (auto simp: table_slice_def Let_def)

lemma flat_widths:
  assumes "\<forall>r \<in> set xs. length (f r) = length (h r)"
  shows "length (flat f xs j) = length (flat h xs j)"
proof -
  have "map (\<lambda>r. length (f r)) (take j xs) = map (\<lambda>r. length (h r)) (take j xs)"
    using assms by (auto dest: in_set_takeD)
  then show ?thesis by (simp only: flat_def length_concat map_map comp_def)
qed

lemma frozen_stage_lookup:
  assumes "frozen_from gc z" "compiler_ok gc" "j < length (gc_stages gc)" "fg_stages g = fg_stages (fz_graph z)"
  shows "graph_stage (os_id (gc_stages gc ! j)) g = Some (fg_stages g ! j) \<and>
    stage_entry (gc_stages gc) j (fg_stages g ! j)"
proof -
  let ?s = "gc_stages gc" and ?t = "fg_stages g"
  have e: "length ?t = length ?s" "\<And>i. i < length ?s \<Longrightarrow> stage_entry ?s i (?t ! i)"
    using assms(1,4) by (auto simp: frozen_from_def tables_inv_def Let_def)
  then have "map fr_id ?t = map os_id ?s"
    by (intro nth_equalityI) (auto simp: stage_entry_def Let_def)
  moreover have "distinct (map os_id ?s)" using assms(2) by (simp add: compiler_ok_def stages_ok_def)
  ultimately have "distinct (map fr_id ?t)" by simp
  from find_unique [OF this, of j] e assms(3) show ?thesis
    by (simp add: graph_stage_def stage_entry_def Let_def)
qed

section \<open>An example\<close>

definition zero_resources :: stage_resources where
  "zero_resources = \<lparr>sr_halo_messages = 0, sr_halo_bytes = 0, sr_numeric_refills = 0, sr_hierarchy_rebuilds = 0,
     sr_cache_publishes = 0, sr_linear_iterations = 0, sr_stage_wall_nanoseconds = 0\<rparr>"

definition plain_spec :: "stage_id \<Rightarrow> stage_kind \<Rightarrow> stage_spec" where
  "plain_spec i kind = \<lparr>sp_id = i, sp_reads = Null_span 0, sp_writes = Null_span 0, sp_ghosts = Null_span 0,
     sp_ghost_widths = Null_span 0, sp_invalidates = Null_span 0, sp_workspace_bytes = 0,
     sp_workspace_alignment = 64, sp_workspace_live_through = 0, sp_fixed_workspace_offset = 0,
     sp_resources = zero_resources, sp_kind = kind, sp_has_fixed_workspace_offset = False,
     sp_collective_consensus = False\<rparr>"

definition example_velocity :: field_access where
  "example_velocity = \<lparr>ac_field = 1, ac_visibility = Vis_accepted\<rparr>"
definition example_predictor :: field_access where
  "example_predictor = \<lparr>ac_field = 1, ac_visibility = Vis_trial\<rparr>"

definition example_fields :: "graph_field list" where
  "example_fields = [\<lparr>gf_access = example_velocity, gf_ghost_capacity = 2, gf_initially_available = True\<rparr>,
     \<lparr>gf_access = example_predictor, gf_ghost_capacity = 2, gf_initially_available = False\<rparr>]"

definition example_predict :: stage_spec where
  "example_predict = (plain_spec 1 Kind_compute)\<lparr>sp_reads := Span [example_velocity],
     sp_writes := Span [example_predictor], sp_ghosts := Span [example_velocity], sp_ghost_widths := Span [2],
     sp_workspace_bytes := 100, sp_workspace_live_through := 2\<rparr>"

definition example_correct :: stage_spec where
  "example_correct = (plain_spec 2 Kind_compute)\<lparr>sp_reads := Span [example_predictor],
     sp_writes := Span [example_predictor], sp_invalidates := Span [example_predictor],
     sp_workspace_bytes := 40, sp_collective_consensus := True\<rparr>"

definition example_compiler :: graph_compiler where
  "example_compiler =
     snd (register_stage True (plain_spec 3 Kind_commit)
     (snd (register_stage True example_correct
     (snd (register_stage True example_predict
     (snd (configure_graph True (Span example_fields) empty_compiler)))))))"

lemma example_compiled: "compiled example_compiler"
  unfolding example_compiler_def by (intro compiled.intros)

lemma example_stages: "gc_stages example_compiler = map own_stage [example_predict, example_correct, plain_spec 3 Kind_commit]"
  by code_simp

lemma example_workspace:
  "allocate_graph_workspace \<lparr>wr_bytes = 100, wr_alignment = 64, wr_fixed = None\<rparr> 0 1 [] 0
     = Inr (0, [\<lparr>wi_begin = 0, wi_end = 1, wi_offset = 0, wi_bytes = 100, wi_byte_end = 100\<rparr>], 100)"
  "allocate_graph_workspace \<lparr>wr_bytes = 40, wr_alignment = 64, wr_fixed = None\<rparr> 1 1
     [\<lparr>wi_begin = 0, wi_end = 1, wi_offset = 0, wi_bytes = 100, wi_byte_end = 100\<rparr>] 100
     = Inr (128, [\<lparr>wi_begin = 0, wi_end = 1, wi_offset = 0, wi_bytes = 100, wi_byte_end = 100\<rparr>,
                  \<lparr>wi_begin = 1, wi_end = 1, wi_offset = 128, wi_bytes = 40, wi_byte_end = 168\<rparr>], 168)"
  by code_simp+

lemma example_freezes:
  "case freeze_stages (gc_stages example_compiler) [0 ..< length (gc_stages example_compiler)]
     (initial_freeze (gc_fields example_compiler)) of Inl e \<Rightarrow> False | Inr z \<Rightarrow> \<not> fz_unconsensed z"
proof -
  have f: "gc_fields example_compiler = example_fields" by code_simp
  have l: "length (gc_stages example_compiler) = 3" by (simp add: example_stages)
  have u: "[0 ..< 3 :: nat] = [0, 1, 2]" by (simp add: upt_rec)
  show ?thesis
    unfolding f l u
    by (simp add: example_stages own_stage_def example_predict_def example_correct_def plain_spec_def example_fields_def
        example_velocity_def example_predictor_def initial_freeze_def freeze_stage_def Let_def order_violated_def
        u32_limit_def u16_limit_def readable_def find_state_def invalidation_ok_def write_ok_def
        live_through_ordinal_def stage_workspace_def example_workspace [simplified] add_node_def append_edge_def stage_nodes_def
        advance_states_def add_consensus_def may_fail_or_mutate_def tables_overflow_def fits_appended_def
        append_stage_def add_stage_resources_def zero_resources_def checked_add_def no_resources_def empty_graph_def
        u32_max_def upt_rec allocate_graph_workspace_def [of "\<lparr>wr_bytes = 0, wr_alignment = a, wr_fixed = f\<rparr>" for a f])
qed

lemma example_freeze_ok: "is_ok (fst (freeze_graph True empty_graph example_compiler))"
proof -
  have "gc_configured example_compiler" "\<not> gc_frozen example_compiler" by code_simp+
  with example_freezes example_stages show ?thesis
    by (auto simp: freeze_graph_def empty_graph_def Let_def split: sum.splits)
qed

definition example_graph :: frozen_graph where
  "example_graph = fst (snd (freeze_graph True empty_graph example_compiler))"

lemma example_freeze:
  "freeze_graph True empty_graph example_compiler =
     (fst (freeze_graph True empty_graph example_compiler), example_graph,
      snd (snd (freeze_graph True empty_graph example_compiler)))"
  by (simp add: example_graph_def)

section \<open>Properties\<close>



text \<open>
  A frozen graph is one chain in registration order: its nodes are the nodes of the stages one
  after the other, with the halo exchange opened before the interior and finished before the boundary
  of a stage with ghosts and the consensus last, and its edges lead from each node to the next and
  nowhere else, so the execution order is total and has no cycle.
\<close>

theorem graph_is_registration_chain:
  assumes "compiled gc" "freeze_graph mem out gc = (s, g, gc')" "is_ok s"
  shows "fg_nodes g = concat (map (nodes_of (gc_stages gc)) [0 ..< length (gc_stages gc)]) \<and>
    fg_edges g = map (\<lambda>i. \<lparr>ge_from = of_nat i, ge_to = of_nat (i + 1)\<rparr>) [0 ..< length (fg_nodes g) - 1] \<and>
    (\<forall>e \<in> set (fg_edges g). unat (ge_from e) < unat (ge_to e) \<and> unat (ge_to e) < length (fg_nodes g)) \<and>
    (\<forall>r \<in> set (gc_stages gc). os_ghosts r \<noteq> [] \<longrightarrow>
       take 4 (all_nodes r) = [Node_halo_begin, Node_compute_interior, Node_halo_finish, Node_compute_boundary])"
proof -
  obtain z where z: "frozen_from gc z" "fg_nodes g = fg_nodes (fz_graph z)" "fg_edges g = fg_edges (fz_graph z)"
    by (rule compiled_freeze [OF assms(1-3)])
  then have n: "fg_nodes g = concat (map (nodes_of (gc_stages gc)) [0 ..< length (gc_stages gc)])"
    and c: "length (fg_nodes g) \<le> u32_limit" "fg_edges g = chain (length (fg_nodes g))"
  proof -
    have t: "tables_inv (gc_stages gc) (length (gc_stages gc)) z"
      using z(1) unfolding frozen_from_def Let_def by blast
    then show "fg_nodes g = concat (map (nodes_of (gc_stages gc)) [0 ..< length (gc_stages gc)])"
      using z(2) unfolding tables_inv_def Let_def by metis
    have "chained z" using t unfolding tables_inv_def by blast
    then show "length (fg_nodes g) \<le> u32_limit" "fg_edges g = chain (length (fg_nodes g))"
      using z(2,3) unfolding chained_def Let_def by simp_all
  qed
  have "unat (of_nat i :: u32) < unat (of_nat (i + 1) :: u32) \<and> unat (of_nat (i + 1) :: u32) < length (fg_nodes g)"
    if "i < length (fg_nodes g) - 1" for i
    using that c(1) u32_nat [of i] u32_nat [of "i + 1"] by simp
  with c(2) have "\<forall>e \<in> set (fg_edges g). unat (ge_from e) < unat (ge_to e) \<and> unat (ge_to e) < length (fg_nodes g)"
    by (auto simp: chain_def)
  with n c(2) show ?thesis by (simp add: chain_def all_nodes_def stage_nodes_def)
qed

theorem graph_is_registration_chain_witness:
  "map gn_kind (fg_nodes example_graph) = [Node_halo_begin, Node_compute_interior, Node_halo_finish,
     Node_compute_boundary, Node_compute, Node_collective_consensus, Node_commit]"
  using graph_is_registration_chain [OF example_compiled example_freeze example_freeze_ok]
  by (simp add: example_stages nodes_of_def all_nodes_def stage_nodes_def own_stage_def example_predict_def
      example_correct_def plain_spec_def upt_rec)

text \<open>
  C26. No stage of a frozen graph reads a field before it exists: every field a stage reads was given
  as available or is written by an earlier stage, and a stage overwrites an existing field only if it
  reads it and declares its invalidation; an invalidated field is always one the stage itself renews.
\<close>

theorem graph_dataflow_sound:
  assumes "compiled gc" "freeze_graph mem out gc = (s, g, gc')" "is_ok s" "k < length (gc_stages gc)"
  shows "(\<forall>a \<in> set (os_reads (gc_stages gc ! k)). exists_at (gc_fields gc) (gc_stages gc) k a) \<and>
    (\<forall>a \<in> set (os_writes (gc_stages gc ! k)). exists_at (gc_fields gc) (gc_stages gc) k a \<longrightarrow>
       a \<in> set (os_reads (gc_stages gc ! k)) \<and> a \<in> set (os_invalidates (gc_stages gc ! k))) \<and>
    (\<forall>a \<in> set (os_invalidates (gc_stages gc ! k)). exists_at (gc_fields gc) (gc_stages gc) k a \<and>
       a \<in> set (os_writes (gc_stages gc ! k)))"
proof -
  obtain z where "frozen_from gc z" by (rule compiled_freeze [OF assms(1-3)])
  then have "flow_ok (gc_fields gc) (gc_stages gc) k"
    using assms(4) unfolding frozen_from_def states_inv_def Let_def by blast
  then show ?thesis unfolding flow_ok_def Let_def by blast
qed

theorem graph_dataflow_sound_witness:
  "exists_at (gc_fields example_compiler) (gc_stages example_compiler) 1 example_predictor"
  using graph_dataflow_sound [OF example_compiled example_freeze example_freeze_ok, of 1]
  by (simp add: example_stages own_stage_def example_correct_def plain_spec_def)

text \<open>
  C25. A commit is always agreed: a frozen graph has at most one commit stage, the stage right before
  it ends with a collective consensus, only services follow it, and the last stage is the commit or
  ends with a consensus, so no work is left that the ranks have not agreed on.
\<close>

theorem graph_commit_follows_consensus:
  assumes "compiled gc" "freeze_graph mem out gc = (s, g, gc')" "is_ok s"
  shows "(\<forall>j < length (gc_stages gc). os_kind (gc_stages gc ! j) = Kind_commit \<longrightarrow>
      0 < j \<and> os_collective_consensus (gc_stages gc ! (j - 1)) \<and>
      (\<forall>i < length (gc_stages gc). i \<noteq> j \<longrightarrow> os_kind (gc_stages gc ! i) \<noteq> Kind_commit) \<and>
      (\<forall>i < length (gc_stages gc). j < i \<longrightarrow> os_kind (gc_stages gc ! i) = Kind_service)) \<and>
    (os_kind (last (gc_stages gc)) = Kind_commit \<or> os_collective_consensus (last (gc_stages gc)))"
proof -
  obtain z where z: "frozen_from gc z" "\<not> fz_unconsensed z" "gc_stages gc \<noteq> []"
    by (rule compiled_freeze [OF assms(1-3)])
  let ?s = "gc_stages gc"
  have f: "fz_unconsensed z \<longleftrightarrow> 0 < length ?s \<and> os_kind (?s ! (length ?s - 1)) \<noteq> Kind_commit \<and>
        \<not> os_collective_consensus (?s ! (length ?s - 1))"
    "\<forall>j < length ?s. os_kind (?s ! j) = Kind_commit \<longrightarrow>
        0 < j \<and> os_collective_consensus (?s ! (j - 1)) \<and> (\<forall>i < j. os_kind (?s ! i) \<noteq> Kind_commit)"
    "\<forall>j < length ?s. \<forall>i < j. os_kind (?s ! i) = Kind_commit \<longrightarrow> os_kind (?s ! j) = Kind_service"
    using z(1) unfolding frozen_from_def Let_def flags_inv_def by blast+
  have "os_kind (?s ! i) \<noteq> Kind_commit" if "j < length ?s" "os_kind (?s ! j) = Kind_commit" "i < length ?s" "i \<noteq> j" for i j
    using f(2,3) that by (metis nat_neq_iff stage_kind.distinct(5))
  moreover have "os_kind (last ?s) = Kind_commit \<or> os_collective_consensus (last ?s)"
    using f(1) z(2,3) by (simp add: last_conv_nth)
  ultimately show ?thesis using f(2,3) by blast
qed

theorem graph_commit_follows_consensus_witness:
  "os_kind (gc_stages example_compiler ! 2) = Kind_commit \<and> os_collective_consensus (gc_stages example_compiler ! 1)"
proof -
  have "os_kind (gc_stages example_compiler ! 2) = Kind_commit" "length (gc_stages example_compiler) = 3"
    by (simp_all add: example_stages own_stage_def plain_spec_def)
  with graph_commit_follows_consensus [OF example_compiled example_freeze example_freeze_ok]
  have "os_collective_consensus (gc_stages example_compiler ! (2 - 1))"
    by (metis lessI numeral_3_eq_3 numeral_2_eq_2)
  with \<open>os_kind (gc_stages example_compiler ! 2) = Kind_commit\<close> show ?thesis by simp
qed

text \<open>
  C24. Workspaces that are live together are disjoint: if a stage registers a workspace and a later
  stage, no later than the last stage the first workspace lives through, registers one too, the two
  byte ranges of the frozen graph share no byte; every workspace is aligned as requested and lies
  below the live maximum the resource contract publishes.
\<close>

theorem graph_workspaces_disjoint:
  assumes "compiled gc" "freeze_graph mem out gc = (s, g, gc')" "is_ok s"
    and "i < j" "j < length (gc_stages gc)"
    and "os_workspace_bytes (gc_stages gc ! i) \<noteq> 0" "os_workspace_bytes (gc_stages gc ! j) \<noteq> 0"
    and "live_through_ordinal (gc_stages gc) i (os_workspace_live_through (gc_stages gc ! i)) = Some live" "j \<le> live"
  shows "let a = fg_stages g ! i; b = fg_stages g ! j;
             a_end = unat (fr_workspace_offset a) + unat (fr_workspace_bytes a);
             b_end = unat (fr_workspace_offset b) + unat (fr_workspace_bytes b) in
    (a_end \<le> unat (fr_workspace_offset b) \<or> b_end \<le> unat (fr_workspace_offset a)) \<and>
    a_end \<le> unat (max_live_workspace_bytes (fg_resources g)) \<and>
    b_end \<le> unat (max_live_workspace_bytes (fg_resources g)) \<and>
    unat (fr_workspace_alignment a) dvd unat (fr_workspace_offset a) \<and>
    unat (fr_workspace_alignment b) dvd unat (fr_workspace_offset b)"
proof -
  let ?s = "gc_stages gc"
  obtain z where z: "frozen_from gc z" "fg_stages g = fg_stages (fz_graph z)"
    "max_live_workspace_bytes (fg_resources g) = fz_high_water z"
    by (rule compiled_freeze [OF assms(1-3)])
  have bi: "blocks_inv ?s (length ?s) z" and en: "\<And>k. k < length ?s \<Longrightarrow> stage_entry ?s k (fg_stages g ! k)"
    using z by (simp_all add: frozen_from_def tables_inv_def Let_def)
  then obtain u v where u: "u \<in> set (fz_workspaces z)" "workspace_entry ?s z i u"
    and v: "v \<in> set (fz_workspaces z)" "workspace_entry ?s z j v"
    using assms(4-7) unfolding blocks_inv_def by (meson less_trans)
  have ok: "workspaces_ok (fz_workspaces z) (fz_high_water z)" using bi by (simp add: blocks_inv_def)
  then have iu: "interval_ok (fz_high_water z) u" "interval_ok (fz_high_water z) v"
    using u(1) v(1) by (simp_all add: workspaces_ok_def)
  have ends: "wi_begin u = i" "wi_end u = live" "wi_begin v = j" "j \<le> wi_end v"
    using u(2) v(2) assms(8) by (auto simp: workspace_entry_def Let_def live_through_ordinal_def find_Some_iff split: if_splits)
  then have ov: "stages_overlap u v" "stages_overlap v u" "u \<noteq> v" using assms(4,9) by (auto simp: stages_overlap_def)
  obtain x y where xy: "x < length (fz_workspaces z)" "u = fz_workspaces z ! x"
    "y < length (fz_workspaces z)" "v = fz_workspaces z ! y" using u(1) v(1) by (metis in_set_conv_nth)
  have apart: "\<not> byte_ranges_overlap (fz_workspaces z ! p) (fz_workspaces z ! q)"
    if "p < length (fz_workspaces z)" "q < p" "stages_overlap (fz_workspaces z ! p) (fz_workspaces z ! q)" for p q
    using ok that unfolding workspaces_ok_def by blast
  have sym: "byte_ranges_overlap v u = byte_ranges_overlap u v" by (auto simp: byte_ranges_overlap_def)
  have "x < y \<or> y < x" using ov(3) xy by (metis nat_neq_iff)
  then have "\<not> byte_ranges_overlap u v"
    using apart [of x y] apart [of y x] ov(1,2) xy sym by metis
  then have "unat (wi_byte_end u) \<le> unat (wi_offset v) \<or> unat (wi_byte_end v) \<le> unat (wi_offset u)"
    using iu by (auto simp: byte_ranges_overlap_def interval_ok_def word_less_nat_alt not_less)
  moreover have block: "fr_workspace_offset (fg_stages g ! k) = wi_offset w \<and>
      fr_workspace_bytes (fg_stages g ! k) = wi_bytes w \<and>
      unat (fr_workspace_alignment (fg_stages g ! k)) dvd unat (wi_offset w)"
    if "workspace_entry ?s z k w" "k < length ?s" for k w
  proof -
    have "fr_workspace_bytes (fg_stages g ! k) = os_workspace_bytes (?s ! k)"
      "fr_workspace_alignment (fg_stages g ! k) = os_workspace_alignment (?s ! k)"
      using en [OF that(2)] unfolding stage_entry_def Let_def by blast+
    then show ?thesis using that(1) unfolding workspace_entry_def Let_def z(2) by metis
  qed
  have "i < length ?s" using assms(4,5) by simp
  note bu = block [OF u(2) this] and bv = block [OF v(2) assms(5)]
  have hi: "unat (wi_byte_end w) = unat (wi_offset w) + unat (wi_bytes w) \<and>
      unat (wi_byte_end w) \<le> unat (fz_high_water z)" if "interval_ok (fz_high_water z) w" for w
    using that by (simp add: interval_ok_def word_le_nat_alt)
  from hi [OF iu(1)] hi [OF iu(2)] bu bv z(3) calculation show ?thesis
    unfolding Let_def by metis
qed

theorem graph_workspaces_disjoint_witness:
  "let a = fg_stages example_graph ! 0; b = fg_stages example_graph ! 1 in
     unat (fr_workspace_offset a) + unat (fr_workspace_bytes a) \<le> unat (fr_workspace_offset b) \<or>
     unat (fr_workspace_offset b) + unat (fr_workspace_bytes b) \<le> unat (fr_workspace_offset a)"
proof -
  have b: "os_workspace_bytes (gc_stages example_compiler ! 0) \<noteq> 0"
    "os_workspace_bytes (gc_stages example_compiler ! 1) \<noteq> 0" "(1 :: nat) < length (gc_stages example_compiler)"
    by (simp_all add: example_stages own_stage_def plain_spec_def example_predict_def example_correct_def)
  have l: "live_through_ordinal (gc_stages example_compiler) 0
      (os_workspace_live_through (gc_stages example_compiler ! 0)) = Some 1" by code_simp
  from graph_workspaces_disjoint [OF example_compiled example_freeze example_freeze_ok _ b(3,1,2) l] show ?thesis
    by (simp add: Let_def)
qed

end
