(* ===== verification/Axis_Split.thy ===== *)
theory Axis_Split
  imports Prelude
begin

text \<open>
  The one-dimensional distribution of cells over partitions: \<^verbatim>\<open>split_axis\<close> of
  \<^verbatim>\<open>mesh_decomposition.cpp\<close> gives each partition its interval, \<^verbatim>\<open>owner_axis\<close> of
  \<^verbatim>\<open>models_exchange_owner.cpp\<close> computes the partition of a cell. The two are inverse to each other.
  All values are non-negative, so the truncating division of C++ is \<open>div\<close>.
\<close>

section \<open>Definitions\<close>

definition split_axis :: "int \<Rightarrow> int \<Rightarrow> int \<Rightarrow> int \<times> int" where
  "split_axis global partitions coordinate =
     (let quotient = global div partitions; remainder = global mod partitions in
      (coordinate * quotient + min coordinate remainder,
       quotient + (if coordinate < remainder then 1 else 0)))"

definition owner_axis :: "int \<Rightarrow> int \<Rightarrow> int \<Rightarrow> int" where
  "owner_axis i cells parts =
     (let base = cells div parts; extra = cells mod parts; extended = (base + 1) * extra in
      if i < extended then i div (base + 1) else extra + (i - extended) div base)"

definition in_part :: "int \<Rightarrow> int \<Rightarrow> int \<Rightarrow> int \<Rightarrow> bool" where
  "in_part global partitions k i \<longleftrightarrow> (case split_axis global partitions k of (b, n) \<Rightarrow> b \<le> i \<and> i < b + n)"

section \<open>Each cell is in the part of its owner and in no other\<close>

lemma in_part_owner:
  assumes "0 < partitions" "0 \<le> k" "in_part global partitions k i"
  shows "owner_axis i global partitions = k"
proof -
  define q e where d: "q = global div partitions" "e = global mod partitions"
  have e: "0 \<le> e" using assms(1) by (simp add: d)
  show ?thesis
  proof (cases "k < e")
    case True
    then have b: "k * (q + 1) \<le> i" "i < k * (q + 1) + (q + 1)"
      using assms(3) by (simp_all add: in_part_def split_axis_def Let_def d algebra_simps)
    then have q: "0 < q + 1" by linarith
    have "(k + 1) * (q + 1) \<le> e * (q + 1)" using True q by (intro mult_right_mono) simp_all
    with b(2) have "i < (q + 1) * e" by (simp add: algebra_simps)
    moreover have "i div (q + 1) = k"
      using b q by (intro int_div_pos_eq [where r = "i - k * (q + 1)"]) (simp_all add: algebra_simps)
    ultimately show ?thesis by (simp add: owner_axis_def Let_def d)
  next
    case False
    then have b: "k * q + e \<le> i" "i < k * q + e + q"
      using assms(3) by (simp_all add: in_part_def split_axis_def Let_def d)
    then have q: "0 < q" by linarith
    have "e * q \<le> k * q" using False q by (intro mult_right_mono) simp_all
    with b(1) have "\<not> i < (q + 1) * e" by (simp add: algebra_simps)
    moreover have "(i - (q + 1) * e) div q = k - e"
      using b q by (intro int_div_pos_eq [where r = "i - (k * q + e)"]) (simp_all add: algebra_simps)
    ultimately show ?thesis by (simp add: owner_axis_def Let_def d)
  qed
qed

lemma owner_in_part:
  assumes "0 < partitions" "0 \<le> i" "i < global"
  shows "0 \<le> owner_axis i global partitions \<and> owner_axis i global partitions < partitions \<and>
    in_part global partitions (owner_axis i global partitions) i"
proof -
  define q e where d: "q = global div partitions" "e = global mod partitions"
  have e: "0 \<le> e" "e < partitions" and q: "0 \<le> q" and g: "global = partitions * q + e"
    using assms by (simp_all add: d pos_imp_zdiv_nonneg_iff)
  show ?thesis
  proof (cases "i < (q + 1) * e")
    case True
    define k where "k = i div (q + 1)"
    have k: "k * (q + 1) \<le> i" "i < k * (q + 1) + (q + 1)" "0 \<le> k"
    proof -
      have p: "0 < q + 1" using q by simp
      note m = pos_mod_bound [OF p, of i] pos_mod_sign [OF p, of i] div_mult_mod_eq [of i "q + 1"]
      show "k * (q + 1) \<le> i" "i < k * (q + 1) + (q + 1)" unfolding k_def using m by linarith+
      show "0 \<le> k" using p assms(2) by (simp add: k_def pos_imp_zdiv_nonneg_iff)
    qed
    have "k < e"
    proof (rule ccontr)
      assume "\<not> k < e"
      then have "e * (q + 1) \<le> k * (q + 1)" using q by (intro mult_right_mono) simp_all
      with k(1) True show False by (simp add: algebra_simps)
    qed
    with k e True show ?thesis
      by (simp add: owner_axis_def in_part_def split_axis_def Let_def k_def d algebra_simps)
  next
    case False
    define k where "k = (i - (q + 1) * e) div q"
    have pos: "0 < q"
    proof (rule ccontr)
      assume "\<not> 0 < q"
      then have "q = 0" using q by simp
      with False g assms(3) show False by simp
    qed
    have k: "k * q \<le> i - (q + 1) * e" "i - (q + 1) * e < k * q + q" "0 \<le> k"
    proof -
      note m = pos_mod_bound [OF pos, of "i - (q + 1) * e"] pos_mod_sign [OF pos, of "i - (q + 1) * e"]
        div_mult_mod_eq [of "i - (q + 1) * e" q]
      show "k * q \<le> i - (q + 1) * e" "i - (q + 1) * e < k * q + q" unfolding k_def using m by linarith+
      show "0 \<le> k" using pos False by (simp add: k_def pos_imp_zdiv_nonneg_iff)
    qed
    have "k < partitions - e"
    proof (rule ccontr)
      assume "\<not> k < partitions - e"
      then have "(partitions - e) * q \<le> k * q" using q by (intro mult_right_mono) simp_all
      with k(1) assms(3) g show False by (simp add: algebra_simps)
    qed
    moreover have "owner_axis i global partitions = e + k"
      using False by (simp add: owner_axis_def Let_def k_def d)
    ultimately show ?thesis
      using k e by (simp add: in_part_def split_axis_def Let_def d [symmetric] algebra_simps)
  qed
qed

lemma in_part_iff:
  assumes "0 < partitions" "0 \<le> i" "i < global" "0 \<le> k"
  shows "in_part global partitions k i \<longleftrightarrow> k = owner_axis i global partitions"
  using in_part_owner [OF assms(1,4)] owner_in_part [OF assms(1-3)] by metis

lemma in_part_bounds:
  assumes "0 < partitions" "0 \<le> global" "0 \<le> k" "k < partitions" "in_part global partitions k i"
  shows "0 \<le> i \<and> i < global"
proof -
  define q e where d: "q = global div partitions" "e = global mod partitions"
  have e: "0 \<le> e" "e < partitions" and q: "0 \<le> q" and g: "global = partitions * q + e"
    using assms by (simp_all add: d pos_imp_zdiv_nonneg_iff)
  have i: "k * q + min k e \<le> i" "i < k * q + min k e + q + (if k < e then 1 else 0)"
    using assms(5) by (auto simp: in_part_def split_axis_def Let_def d)
  have "(k + 1) * q \<le> partitions * q" using assms(4) q by (intro mult_right_mono) simp_all
  then have "i < global" using i(2) g assms(4) by (auto simp: algebra_simps split: if_splits)
  moreover have "0 \<le> k * q" using assms(3) q by simp
  ultimately show ?thesis using i(1) assms(3) e by (auto simp: min_def split: if_splits)
qed

end
