(* ===== verification/Mesh_Decomposition.thy ===== *)
theory Mesh_Decomposition
  imports Axis_Split "HOL-Library.Product_Lexorder"
begin

text \<open>
  \<^verbatim>\<open>mesh_decomposition.cpp\<close>: the process grid that minimises the interface between patches, the patch
  of a rank and the tiles of a patch. The surfaces need more than 64 bits, so the code carries them
  as two words; \<open>wide_value\<close> reads them back as one number.
\<close>

section \<open>Wide costs\<close>

record wide_cost =
  wc_high :: u64
  wc_low :: u64

definition wide_value :: "wide_cost \<Rightarrow> nat" where
  "wide_value c = unat (wc_high c) * 2 ^ 64 + unat (wc_low c)"

definition wide_less :: "wide_cost \<Rightarrow> wide_cost \<Rightarrow> bool" where
  "wide_less left right \<longleftrightarrow>
     wc_high left < wc_high right \<or> wc_high left = wc_high right \<and> wc_low left < wc_low right"

definition wide_multiply :: "u64 \<Rightarrow> u64 \<Rightarrow> wide_cost" where
  "wide_multiply left right =
     (let low_product = (left AND 0xffffffff) * right;
          high_product = drop_bit 32 left * right;
          low = low_product + push_bit 32 high_product;
          carry = (if low < low_product then 1 else 0) in
      \<lparr>wc_high = drop_bit 32 high_product + carry, wc_low = low\<rparr>)"

definition wide_add :: "wide_cost \<Rightarrow> wide_cost \<Rightarrow> wide_cost" where
  "wide_add left term =
     (let low = wc_low left + wc_low term;
          carry = (if low < wc_low left then 1 else 0);
          high_increment = wc_high term + carry in
      \<lparr>wc_high = (if high_increment < wc_high term \<or> high_increment > u64_max - wc_high left
                 then u64_max else wc_high left + high_increment),
       wc_low = low\<rparr>)"

lemma wide_less_value: "wide_less a b \<longleftrightarrow> wide_value a < wide_value b"
proof -
  have "unat (wc_low a) < 2 ^ 64" "unat (wc_low b) < 2 ^ 64" by (rule unat_u64_less)+
  then show ?thesis unfolding wide_less_def wide_value_def word_less_nat_alt
    by (auto simp: unat_inject [symmetric])
qed

lemma wide_value_inject: "wide_value a = wide_value b \<longleftrightarrow> \<not> wide_less a b \<and> \<not> wide_less b a"
  by (auto simp: wide_less_value)

lemma carry_sum:
  fixes a b :: u64
  shows "unat a + unat b = unat (a + b) + (if a + b < a then 2 ^ 64 else 0)"
proof (cases "unat a + unat b < 2 ^ 64")
  case True
  then show ?thesis by (simp add: unat_word_ariths word_less_nat_alt)
next
  case False
  then have "unat (a + b) = unat a + unat b - 2 ^ 64"
    using unat_u64_less [of a] unat_u64_less [of b] by (simp add: unat_word_ariths mod_if)
  moreover from this have "a + b < a" using unat_u64_less [of b] False by (simp add: word_less_nat_alt)
  ultimately show ?thesis using False by simp
qed

lemma wide_multiply_value:
  assumes "unat right < 2 ^ 32"
  shows "wide_value (wide_multiply left right) = unat left * unat right"
proof -
  define l r where d: "l = unat left" "r = unat right"
  have mask: "(0xffffffff :: u64) = mask 32" by (simp add: mask_eq_exp_minus_1)
  have lo: "unat (left AND 0xffffffff) = l mod 2 ^ 32"
    unfolding mask take_bit_eq_mask [symmetric] by (simp add: take_bit_eq_mod unat_mod d)
  have hi: "unat (drop_bit 32 left) = l div 2 ^ 32"
    unfolding unat_drop_bit_eq by (simp add: drop_bit_eq_div d)
  have r: "r < 2 ^ 32" using assms by (simp add: d)
  have "l div 2 ^ 32 < 2 ^ 32" using unat_u64_less [of left] by (simp add: d less_mult_imp_div_less)
  then have b: "(l mod 2 ^ 32) * r < 2 ^ 64" "(l div 2 ^ 32) * r < 2 ^ 64"
    using r mult_strict_mono [of "l mod 2 ^ 32" "2 ^ 32" r "2 ^ 32"] mult_strict_mono [of "l div 2 ^ 32" "2 ^ 32" r "2 ^ 32"]
    by simp_all
  let ?lp = "(left AND 0xffffffff) * right" and ?hp = "drop_bit 32 left * right"
  have lp: "unat ?lp = (l mod 2 ^ 32) * r" using b(1) by (simp add: unat_word_ariths lo d)
  have hp: "unat ?hp = (l div 2 ^ 32) * r" using b(2) by (simp add: unat_word_ariths hi d)
  have sh: "unat (push_bit 32 ?hp) = (unat ?hp mod 2 ^ 32) * 2 ^ 32"
    unfolding unsigned_push_bit_eq by (simp add: push_bit_eq_mult take_bit_eq_mod mod_mult_mult2 [where c = "2 ^ 32" and b = "2 ^ 32", simplified])
  have dh: "unat (drop_bit 32 ?hp) = unat ?hp div 2 ^ 32"
    unfolding unat_drop_bit_eq by (simp add: drop_bit_eq_div)
  let ?low = "?lp + push_bit 32 ?hp" and ?c = "if ?lp + push_bit 32 ?hp < ?lp then 1 else 0 :: u64"
  have "unat (drop_bit 32 ?hp) < 2 ^ 32"
    unfolding dh using unat_u64_less [of ?hp] by (simp add: less_mult_imp_div_less)
  then have high: "unat (drop_bit 32 ?hp + ?c) = unat (drop_bit 32 ?hp) + (if ?low < ?lp then 1 else 0)"
    by (simp add: unat_word_ariths)
  have "wide_value (wide_multiply left right) = unat (drop_bit 32 ?hp) * 2 ^ 64 + (unat ?lp + unat (push_bit 32 ?hp))"
    using carry_sum [of ?lp "push_bit 32 ?hp"]
    by (simp add: wide_value_def wide_multiply_def Let_def high)
  also have "\<dots> = unat ?hp div 2 ^ 32 * 2 ^ 32 * 2 ^ 32 + (unat ?hp mod 2 ^ 32) * 2 ^ 32 + unat ?lp"
    by (simp add: dh sh)
  also have "\<dots> = unat ?hp * 2 ^ 32 + unat ?lp"
    by (simp only: add_mult_distrib [symmetric] div_mult_mod_eq)
  also have "\<dots> = (l div 2 ^ 32 * 2 ^ 32 + l mod 2 ^ 32) * r"
    unfolding hp lp by (simp only: add_mult_distrib add_mult_distrib2 ac_simps)
  finally show ?thesis unfolding div_mult_mod_eq by (simp add: d)
qed

lemma wide_add_value:
  assumes "wide_value a + wide_value b < 2 ^ 128"
  shows "wide_value (wide_add a b) = wide_value a + wide_value b"
proof -
  let ?low = "wc_low a + wc_low b" and ?c = "if wc_low a + wc_low b < wc_low a then 1 else 0 :: u64"
  have s: "unat (wc_low a) + unat (wc_low b) = unat ?low + (if ?low < wc_low a then 2 ^ 64 else 0)"
    by (rule carry_sum)
  have "(unat (wc_high a) + unat (wc_high b) + unat ?c) * 2 ^ 64 \<le> wide_value a + wide_value b"
    using s by (simp add: wide_value_def algebra_simps)
  also have "\<dots> < 2 ^ 64 * 2 ^ 64" using assms by simp
  finally have b: "unat (wc_high a) + unat (wc_high b) + unat ?c < 2 ^ 64" by simp
  then have i: "unat (wc_high b + ?c) = unat (wc_high b) + unat ?c" by (simp add: unat_word_ariths)
  have "\<not> wc_high b + ?c < wc_high b" using i by (simp add: word_less_nat_alt)
  moreover have "\<not> wc_high b + ?c > u64_max - wc_high a"
    using b i unat_max_minus [of "wc_high a"] by (simp add: word_less_nat_alt)
  ultimately have h: "wide_add a b = \<lparr>wc_high = wc_high a + (wc_high b + ?c), wc_low = ?low\<rparr>"
    by (simp add: wide_add_def Let_def)
  have "unat (wc_high a + (wc_high b + ?c)) = unat (wc_high a) + unat (wc_high b) + unat ?c"
    using b i by (simp add: unat_word_ariths)
  then show ?thesis using s unfolding h by (simp add: wide_value_def algebra_simps)
qed

section \<open>The process grid\<close>

definition positive3 :: "int3 \<Rightarrow> bool" where
  "positive3 c \<longleftrightarrow> 0 < x3 c \<and> 0 < y3 c \<and> 0 < z3 c"

record grid_choice =
  gr_grid :: int3
  gr_surface :: wide_cost
  gr_maximum :: u64
  gr_valid :: bool

definition no_choice :: grid_choice where
  "no_choice = \<lparr>gr_grid = \<lparr>x3 = 0, y3 = 0, z3 = 0\<rparr>, gr_surface = \<lparr>wc_high = u64_max, wc_low = u64_max\<rparr>,
     gr_maximum = u64_max, gr_valid = False\<rparr>"

definition lexicographically_less :: "int3 \<Rightarrow> int3 \<Rightarrow> bool" where
  "lexicographically_less left right \<longleftrightarrow>
     (x3 left, y3 left, z3 left) < (x3 right, y3 right, z3 right)"

definition word_of_count :: "int \<Rightarrow> u64" where "word_of_count i = word_of_int i"

definition interface_surface :: "int3 \<Rightarrow> int3 \<Rightarrow> wide_cost" where
  "interface_surface cells grid =
     (let x = word_of_count (x3 cells); y = word_of_count (y3 cells); z = word_of_count (z3 cells);
          px = word_of_count (x3 grid); py = word_of_count (y3 grid); pz = word_of_count (z3 grid);
          r0 = \<lparr>wc_high = 0, wc_low = 0\<rparr>;
          r1 = wide_add r0 (wide_multiply (y * z) (px - 1));
          r2 = wide_add r1 (wide_multiply (x * z) (py - 1)) in
      wide_add r2 (wide_multiply (x * y) (pz - 1)))"

definition ceil_parts :: "int \<Rightarrow> int \<Rightarrow> int" where
  "ceil_parts n parts = n div parts + (if n mod parts \<noteq> 0 then 1 else 0)"

definition maximum_patch_cells :: "int3 \<Rightarrow> int3 \<Rightarrow> u64" where
  "maximum_patch_cells cells grid =
     (if \<not> positive3 cells \<or> \<not> positive3 grid then 0
      else let x = word_of_count (ceil_parts (x3 cells) (x3 grid));
               y = word_of_count (ceil_parts (y3 cells) (y3 grid));
               z = word_of_count (ceil_parts (z3 cells) (z3 grid)) in
        if x > u64_max div y \<or> x * y > u64_max div z then 0 else x * y * z)"

definition consider_grid :: "int3 \<Rightarrow> int3 \<Rightarrow> grid_choice \<Rightarrow> grid_choice" where
  "consider_grid cells candidate best =
     (if x3 candidate > x3 cells \<or> y3 candidate > y3 cells \<or> z3 candidate > z3 cells then best
      else let surface = interface_surface cells candidate; maximum = maximum_patch_cells cells candidate in
        if maximum = 0 then best
        else if \<not> gr_valid best \<or> wide_less surface (gr_surface best) \<or>
                (\<not> wide_less (gr_surface best) surface \<and> maximum < gr_maximum best) \<or>
                (\<not> wide_less surface (gr_surface best) \<and> \<not> wide_less (gr_surface best) surface \<and>
                 maximum = gr_maximum best \<and> lexicographically_less candidate (gr_grid best))
        then \<lparr>gr_grid = candidate, gr_surface = surface, gr_maximum = maximum, gr_valid = True\<rparr>
        else best)"

text \<open>The two nested divisor loops. Their counters are positive 32-bit numbers.\<close>

definition permutations3 :: "nat \<Rightarrow> nat \<Rightarrow> nat \<Rightarrow> int3 list" where
  "permutations3 a b c = map (\<lambda>(p, q, r). \<lparr>x3 = int p, y3 = int q, z3 = int r\<rparr>)
     [(a, b, c), (a, c, b), (b, a, c), (b, c, a), (c, a, b), (c, b, a)]"

function inner_loop :: "int3 \<Rightarrow> nat \<Rightarrow> nat \<Rightarrow> nat \<Rightarrow> grid_choice \<Rightarrow> grid_choice" where
  "inner_loop cells a remaining b best =
     (if b \<le> remaining div b
      then inner_loop cells a remaining (b + 1)
        (if remaining mod b \<noteq> 0 then best
         else let c = remaining div b in
           if b > c then best else fold (consider_grid cells) (permutations3 a b c) best)
      else best)"
  by pat_completeness auto
termination
proof (relation "measure (\<lambda>(cells, a, remaining, b, best). remaining + 1 - b)")
  fix cells :: int3 and a remaining b :: nat and best :: grid_choice
  assume "b \<le> remaining div b"
  also have "\<dots> \<le> remaining" by (rule div_le_dividend)
  finally show "((cells, a, remaining, b + 1, if remaining mod b \<noteq> 0 then best
         else let c = remaining div b in
           if b > c then best else fold (consider_grid cells) (permutations3 a b c) best),
      cells, a, remaining, b, best) \<in> measure (\<lambda>(cells, a, remaining, b, best). remaining + 1 - b)" by simp
qed simp

function outer_loop :: "int3 \<Rightarrow> nat \<Rightarrow> nat \<Rightarrow> grid_choice \<Rightarrow> grid_choice" where
  "outer_loop cells ranks a best =
     (if a \<le> ranks div a div a
      then outer_loop cells ranks (a + 1)
        (if ranks mod a \<noteq> 0 then best else inner_loop cells a (ranks div a) a best)
      else best)"
  by pat_completeness auto
termination
proof (relation "measure (\<lambda>(cells, ranks, a, best). ranks + 1 - a)")
  fix cells :: int3 and ranks a :: nat and best :: grid_choice
  assume "a \<le> ranks div a div a"
  also have "\<dots> \<le> ranks" by (meson div_le_dividend order_trans)
  finally show "((cells, ranks, a + 1, if ranks mod a \<noteq> 0 then best else inner_loop cells a (ranks div a) a best),
      cells, ranks, a, best) \<in> measure (\<lambda>(cells, ranks, a, best). ranks + 1 - a)" by simp
qed simp

declare inner_loop.simps [simp del] outer_loop.simps [simp del]

definition choose_grid :: "int3 \<Rightarrow> nat \<Rightarrow> grid_choice" where
  "choose_grid cells ranks = outer_loop cells ranks 1 no_choice"

section \<open>The reference\<close>

text \<open>
  Every grid of the right number of ranks that is not finer than the cells and whose largest patch is
  countable is a candidate; grids are compared by interface, largest patch and position.
\<close>

definition grid_admissible :: "int3 \<Rightarrow> nat \<Rightarrow> int3 \<Rightarrow> bool" where
  "grid_admissible cells ranks g \<longleftrightarrow> positive3 g \<and> x3 g * y3 g * z3 g = int ranks \<and>
     x3 g \<le> x3 cells \<and> y3 g \<le> y3 cells \<and> z3 g \<le> z3 cells \<and> maximum_patch_cells cells g \<noteq> 0"

definition grid_key :: "int3 \<Rightarrow> int3 \<Rightarrow> nat \<times> nat \<times> int \<times> int \<times> int" where
  "grid_key cells g =
     (nat (y3 cells * z3 cells * (x3 g - 1) + x3 cells * z3 cells * (y3 g - 1) + x3 cells * y3 cells * (z3 g - 1)),
      nat (ceil_parts (x3 cells) (x3 g) * ceil_parts (y3 cells) (y3 g) * ceil_parts (z3 cells) (z3 g)),
      x3 g, y3 g, z3 g)"

section \<open>The words carry the key\<close>

definition small3 :: "int3 \<Rightarrow> bool" where
  "small3 c \<longleftrightarrow> positive3 c \<and> x3 c < 2 ^ 31 \<and> y3 c < 2 ^ 31 \<and> z3 c < 2 ^ 31"

lemma unat_count: "0 \<le> i \<Longrightarrow> i < 2 ^ 31 \<Longrightarrow> unat (word_of_count i) = nat i"
  unfolding word_of_count_def by (rule unat_word_of_int64) simp_all

lemma product_bound: "a < 2 ^ m \<Longrightarrow> b < 2 ^ n \<Longrightarrow> a * b < (2 :: nat) ^ (m + n)"
  by (simp add: power_add mult_strict_mono)

lemma unat_area:
  assumes "unat a < 2 ^ 31" "unat b < 2 ^ 31"
  shows "unat (a * b :: u64) = unat a * unat b"
proof -
  have "unat a * unat b < 2 ^ 62" using product_bound [OF assms] by simp
  then show ?thesis by (simp add: unat_word_ariths)
qed

lemma term_value:
  assumes "0 < p" "p < 2 ^ 31" "0 < a" "a < 2 ^ 31" "0 < b" "b < 2 ^ 31"
  shows "wide_value (wide_multiply (word_of_count a * word_of_count b) (word_of_count p - 1)) = nat (a * b * (p - 1))"
    and "nat (a * b * (p - 1)) < 2 ^ 93"
proof -
  have u: "unat (word_of_count p) = nat p" "unat (word_of_count a) = nat a" "unat (word_of_count b) = nat b"
    using assms by (simp_all add: unat_count)
  have n: "nat p < 2 ^ 31" "nat a < 2 ^ 31" "nat b < 2 ^ 31" using assms by simp_all
  have "word_of_count p \<noteq> 0" using u(1) assms(1) by (metis unat_0 nat_0_iff not_less)
  then have p1: "unat (word_of_count p - 1) = nat p - 1" using unat_minus_one u(1) by metis
  have "unat (word_of_count p - 1) < 2 ^ 32" using n(1) by (simp add: p1)
  from wide_multiply_value [OF this] unat_area [of "word_of_count a" "word_of_count b"] n u p1
  have "wide_value (wide_multiply (word_of_count a * word_of_count b) (word_of_count p - 1)) = nat a * nat b * (nat p - 1)"
    by simp
  moreover have "nat (a * b * (p - 1)) = nat a * nat b * (nat p - 1)"
    using assms by (simp add: nat_mult_distrib nat_diff_distrib)
  ultimately show "wide_value (wide_multiply (word_of_count a * word_of_count b) (word_of_count p - 1)) = nat (a * b * (p - 1))"
    by simp
  have "nat a * nat b * (nat p - 1) < 2 ^ (31 + 31 + 31)"
    using n by (intro product_bound) simp_all
  with \<open>nat (a * b * (p - 1)) = _\<close> show "nat (a * b * (p - 1)) < 2 ^ 93" by simp
qed

lemma surface_value:
  assumes "small3 cells" "small3 g"
  shows "wide_value (interface_surface cells g) = fst (grid_key cells g)"
proof -
  note c = assms [unfolded small3_def positive3_def]
  note t1 = term_value [of "x3 g" "y3 cells" "z3 cells"] and t2 = term_value [of "y3 g" "x3 cells" "z3 cells"]
    and t3 = term_value [of "z3 g" "x3 cells" "y3 cells"]
  let ?T1 = "nat (y3 cells * z3 cells * (x3 g - 1))" and ?T2 = "nat (x3 cells * z3 cells * (y3 g - 1))"
    and ?T3 = "nat (x3 cells * y3 cells * (z3 g - 1))"
  have b: "?T1 < 2 ^ 93" "?T2 < 2 ^ 93" "?T3 < 2 ^ 93" using t1 t2 t3 c by simp_all
  have "wide_value (interface_surface cells g) = ?T1 + ?T2 + ?T3"
    using b t1(1) t2(1) t3(1) c
    by (simp add: interface_surface_def Let_def wide_add_value wide_value_def [of "\<lparr>wc_high = 0, wc_low = 0\<rparr>"])
  also have "\<dots> = fst (grid_key cells g)"
    using c by (simp add: grid_key_def nat_add_distrib)
  finally show ?thesis .
qed

lemma ceil_parts_bounds:
  assumes "0 < n" "0 < parts"
  shows "0 < ceil_parts n parts" "ceil_parts n parts \<le> n"
proof -
  have m: "n mod parts \<ge> 0" "n div parts \<ge> 0" using assms by (simp_all add: pos_imp_zdiv_nonneg_iff)
  have e: "n = parts * (n div parts) + n mod parts" by simp
  have "n div parts \<le> parts * (n div parts)" using m(2) assms(2) by (simp add: mult_le_cancel_right1)
  moreover have "(if n mod parts \<noteq> 0 then 1 else 0) \<le> n mod parts" using m(1) by simp
  ultimately show "ceil_parts n parts \<le> n" using e unfolding ceil_parts_def by linarith
  show "0 < ceil_parts n parts"
  proof (cases "n mod parts = 0")
    case True
    with e assms have "0 < n div parts" by (metis add.right_neutral mult_pos_pos zero_less_mult_pos)
    then show ?thesis by (simp add: ceil_parts_def)
  qed (use m in \<open>simp add: ceil_parts_def\<close>)
qed

lemma maximum_value:
  assumes "small3 cells" "small3 g" "maximum_patch_cells cells g \<noteq> 0"
  shows "unat (maximum_patch_cells cells g) = fst (snd (grid_key cells g))"
proof -
  note c = assms(1,2) [unfolded small3_def positive3_def]
  let ?x = "ceil_parts (x3 cells) (x3 g)" and ?y = "ceil_parts (y3 cells) (y3 g)" and ?z = "ceil_parts (z3 cells) (z3 g)"
  have b: "0 < ?x" "?x < 2 ^ 31" "0 < ?y" "?y < 2 ^ 31" "0 < ?z" "?z < 2 ^ 31"
    using c ceil_parts_bounds [of "x3 cells" "x3 g"] ceil_parts_bounds [of "y3 cells" "y3 g"]
      ceil_parts_bounds [of "z3 cells" "z3 g"] by linarith+
  let ?wx = "word_of_count ?x" and ?wy = "word_of_count ?y" and ?wz = "word_of_count ?z"
  have u: "unat ?wx = nat ?x" "unat ?wy = nat ?y" "unat ?wz = nat ?z" using b by (simp_all add: unat_count)
  from assms have le: "?wx * ?wy \<le> u64_max div ?wz"
    and v: "maximum_patch_cells cells g = ?wx * ?wy * ?wz"
    by (auto simp: maximum_patch_cells_def small3_def Let_def split: if_splits)
  have xy: "unat (?wx * ?wy) = nat ?x * nat ?y" using unat_area [of ?wx ?wy] u b by simp
  have "nat ?x * nat ?y \<le> (2 ^ 64 - 1) div nat ?z"
    using le by (simp add: word_le_nat_alt unat_div xy u)
  then have "nat ?x * nat ?y * nat ?z \<le> 2 ^ 64 - 1"
    using b(5) by (metis less_eq_div_iff_mult_less_eq zero_less_nat_eq)
  then have "unat (?wx * ?wy * ?wz) = nat ?x * nat ?y * nat ?z"
    using xy u(3) by (simp add: unat_word_ariths(2) [of "?wx * ?wy" ?wz])
  then show ?thesis using b by (simp add: v grid_key_def nat_mult_distrib)
qed

section \<open>The loops keep the best candidate\<close>

definition grid_fits :: "int3 \<Rightarrow> int3 \<Rightarrow> bool" where
  "grid_fits cells g \<longleftrightarrow>
     x3 g \<le> x3 cells \<and> y3 g \<le> y3 cells \<and> z3 g \<le> z3 cells \<and> maximum_patch_cells cells g \<noteq> 0"

definition measured_grid :: "int3 \<Rightarrow> int3 \<Rightarrow> grid_choice" where
  "measured_grid cells g = \<lparr>gr_grid = g, gr_surface = interface_surface cells g,
     gr_maximum = maximum_patch_cells cells g, gr_valid = True\<rparr>"

definition best_of :: "int3 \<Rightarrow> int3 set \<Rightarrow> grid_choice \<Rightarrow> bool" where
  "best_of cells S best \<longleftrightarrow>
     (if gr_valid best
      then gr_grid best \<in> S \<and> grid_fits cells (gr_grid best) \<and> best = measured_grid cells (gr_grid best) \<and>
        (\<forall>g \<in> S. grid_fits cells g \<longrightarrow> grid_key cells (gr_grid best) \<le> grid_key cells g)
      else \<forall>g \<in> S. \<not> grid_fits cells g)"

lemma small_fits: "small3 cells \<Longrightarrow> positive3 g \<Longrightarrow> grid_fits cells g \<Longrightarrow> small3 g"
  by (auto simp: small3_def grid_fits_def)

text \<open>The comparison of \<open>consider_grid\<close> is the order of the keys.\<close>

lemma comparison_is_key:
  assumes "small3 cells" "small3 g" "small3 h" "maximum_patch_cells cells g \<noteq> 0" "maximum_patch_cells cells h \<noteq> 0"
  shows "wide_less (interface_surface cells g) (interface_surface cells h) \<or>
      (\<not> wide_less (interface_surface cells h) (interface_surface cells g) \<and>
        maximum_patch_cells cells g < maximum_patch_cells cells h) \<or>
      (\<not> wide_less (interface_surface cells g) (interface_surface cells h) \<and>
       \<not> wide_less (interface_surface cells h) (interface_surface cells g) \<and>
       maximum_patch_cells cells g = maximum_patch_cells cells h \<and> lexicographically_less g h)
    \<longleftrightarrow> grid_key cells g < grid_key cells h"
proof -
  obtain s m x where g: "grid_key cells g = (s, m, x)" by (metis prod.exhaust)
  obtain s' m' x' where h: "grid_key cells h = (s', m', x')" by (metis prod.exhaust)
  have sv: "wide_value (interface_surface cells g) = s" "wide_value (interface_surface cells h) = s'"
    using surface_value [OF assms(1,2)] surface_value [OF assms(1,3)] g h by simp_all
  have mv: "unat (maximum_patch_cells cells g) = m" "unat (maximum_patch_cells cells h) = m'"
    using maximum_value [OF assms(1,2,4)] maximum_value [OF assms(1,3,5)] g h by simp_all
  have lx: "lexicographically_less g h \<longleftrightarrow> x < x'"
    using g h by (auto simp: lexicographically_less_def grid_key_def)
  have "maximum_patch_cells cells g = maximum_patch_cells cells h \<longleftrightarrow> m = m'"
    using mv by (metis unat_inject)
  then show ?thesis
    unfolding g h wide_less_value sv lx word_less_nat_alt mv by (auto simp: less_prod_def)
qed

lemma consider_valid:
  assumes "small3 cells" "small3 c" "small3 b" "grid_fits cells c" "grid_fits cells b"
  shows "consider_grid cells c (measured_grid cells b) =
    (if grid_key cells c < grid_key cells b then measured_grid cells c else measured_grid cells b)"
proof -
  have m: "maximum_patch_cells cells c \<noteq> 0" "maximum_patch_cells cells b \<noteq> 0"
    using assms(4,5) by (simp_all add: grid_fits_def)
  have "\<not> (x3 cells < x3 c \<or> y3 cells < y3 c \<or> z3 cells < z3 c)" using assms(4) by (simp add: grid_fits_def)
  then show ?thesis
    unfolding comparison_is_key [OF assms(1-3) m, symmetric] consider_grid_def Let_def measured_grid_def
    by (simp add: m del: not_less)
qed

lemma consider_first:
  assumes "grid_fits cells c" "\<not> gr_valid best"
  shows "consider_grid cells c best = measured_grid cells c"
  using assms by (simp add: consider_grid_def Let_def measured_grid_def grid_fits_def)

lemma consider_misfit: "\<not> grid_fits cells c \<Longrightarrow> consider_grid cells c best = best"
  unfolding consider_grid_def grid_fits_def Let_def by (auto simp: not_le)

lemma consider_best:
  assumes "small3 cells" "best_of cells S best" "\<forall>g \<in> insert c S. positive3 g"
  shows "best_of cells (insert c S) (consider_grid cells c best)"
proof (cases "grid_fits cells c")
  case False
  then show ?thesis using assms(2) unfolding consider_misfit [OF False] best_of_def
    by (cases "gr_valid best") simp_all
next
  case fits: True
  show ?thesis
  proof (cases "gr_valid best")
    case False
    with assms(2) have "\<forall>g \<in> S. \<not> grid_fits cells g" by (simp add: best_of_def)
    with fits show ?thesis
      unfolding consider_first [OF fits False] best_of_def by (auto simp: measured_grid_def)
  next
    case True
    define b where "b = gr_grid best"
    have b: "b \<in> S" "grid_fits cells b" "best = measured_grid cells b"
      "\<forall>g \<in> S. grid_fits cells g \<longrightarrow> grid_key cells b \<le> grid_key cells g"
      using assms(2) unfolding best_of_def b_def if_P [OF True] by blast+
    have s: "small3 c" "small3 b" using small_fits [OF assms(1)] assms(3) b(1,2) fits by blast+
    have g: "gr_grid (measured_grid cells x) = x" "gr_valid (measured_grid cells x)" for x
      by (simp_all add: measured_grid_def)
    show ?thesis
    proof (cases "grid_key cells c < grid_key cells b")
      case True
      then have "\<forall>g \<in> insert c S. grid_fits cells g \<longrightarrow> grid_key cells c \<le> grid_key cells g"
        using b(4) by (metis insertE less_imp_le less_le_trans order_refl)
      then show ?thesis unfolding b(3) consider_valid [OF assms(1) s fits b(2)] best_of_def
        by (simp only: True if_True g fits insertI1 simp_thms)
    next
      case False
      then have "\<forall>g \<in> insert c S. grid_fits cells g \<longrightarrow> grid_key cells b \<le> grid_key cells g"
        using b(4) by (metis insertE not_less)
      then show ?thesis unfolding b(3) consider_valid [OF assms(1) s fits b(2)] best_of_def
        using b(1,2) by (simp only: False if_False if_True g insertI2 simp_thms)
    qed
  qed
qed

lemma fold_best:
  "small3 cells \<Longrightarrow> best_of cells S best \<Longrightarrow> \<forall>g \<in> S \<union> set gs. positive3 g \<Longrightarrow>
   best_of cells (S \<union> set gs) (fold (consider_grid cells) gs best)"
proof (induction gs arbitrary: S best)
  case (Cons c gs)
  have "best_of cells (insert c S) (consider_grid cells c best)"
    using Cons.prems by (intro consider_best) auto
  from Cons.IH [OF Cons.prems(1) this] Cons.prems(3) show ?case by simp
qed simp

text \<open>What the two loops visit: the permutations of the sorted triples of factors.\<close>

definition visited_inner :: "nat \<Rightarrow> nat \<Rightarrow> nat \<Rightarrow> int3 set" where
  "visited_inner a remaining b =
     {g. \<exists>b' \<ge> b. b' * b' \<le> remaining \<and> b' dvd remaining \<and> g \<in> set (permutations3 a b' (remaining div b'))}"

definition visited_outer :: "nat \<Rightarrow> nat \<Rightarrow> int3 set" where
  "visited_outer ranks a =
     {g. \<exists>a' \<ge> a. a' * a' * a' \<le> ranks \<and> a' dvd ranks \<and> g \<in> visited_inner a' (ranks div a') a'}"

lemma permutations_positive:
  "0 < a \<Longrightarrow> 0 < b \<Longrightarrow> 0 < c \<Longrightarrow> g \<in> set (permutations3 a b c) \<Longrightarrow> positive3 g"
  by (auto simp: permutations3_def positive3_def)

lemma inner_bound: "0 < b \<Longrightarrow> (b :: nat) \<le> remaining div b \<longleftrightarrow> b * b \<le> remaining"
  by (rule less_eq_div_iff_mult_less_eq)

lemma outer_bound: "0 < a \<Longrightarrow> (a :: nat) \<le> ranks div a div a \<longleftrightarrow> a * a * a \<le> ranks"
  by (simp add: div_mult2_eq [symmetric] less_eq_div_iff_mult_less_eq mult.assoc)

lemma visited_inner_step:
  assumes "b * b \<le> remaining"
  shows "visited_inner a remaining b =
    (if b dvd remaining then set (permutations3 a b (remaining div b)) else {}) \<union> visited_inner a remaining (b + 1)"
proof -
  have "b \<le> b' \<longleftrightarrow> b' = b \<or> b + 1 \<le> b'" for b' by auto
  then show ?thesis using assms by (auto simp: visited_inner_def)
qed

lemma visited_inner_end:
  assumes "\<not> b * b \<le> remaining"
  shows "visited_inner a remaining b = {}"
proof -
  have "b * b \<le> b' * b'" if "b \<le> b'" for b' using that by (rule mult_le_mono [OF _ that])
  then show ?thesis using assms unfolding visited_inner_def by (force dest: order_trans)
qed

lemma inner_loop_best:
  "small3 cells \<Longrightarrow> 0 < a \<Longrightarrow> 0 < b \<Longrightarrow> best_of cells S best \<Longrightarrow> \<forall>g \<in> S. positive3 g \<Longrightarrow>
   best_of cells (S \<union> visited_inner a remaining b) (inner_loop cells a remaining b best)"
proof (induction cells a remaining b best arbitrary: S rule: inner_loop.induct)
  case (1 cells a remaining b best)
  show ?case
  proof (cases "b * b \<le> remaining")
    case False
    then show ?thesis
      using 1(5) inner_bound [OF 1(4), of remaining] visited_inner_end [of b remaining a]
      by (subst inner_loop.simps) simp
  next
    case le: True
    then have guard: "b \<le> remaining div b" using inner_bound [OF 1(4)] by blast
    let ?N = "if b dvd remaining then set (permutations3 a b (remaining div b)) else {}"
    define next_best where "next_best = (if remaining mod b \<noteq> 0 then best
         else let c = remaining div b in
           if b > c then best else fold (consider_grid cells) (permutations3 a b c) best)"
    have c: "0 < remaining div b" using guard 1(4) by linarith
    have pos: "\<forall>g \<in> S \<union> ?N. positive3 g" using 1(6) permutations_positive [OF 1(3,4) c] by auto
    have nb: "best_of cells (S \<union> ?N) next_best"
    proof (cases "b dvd remaining")
      case True
      then have "next_best = fold (consider_grid cells) (permutations3 a b (remaining div b)) best"
        using guard by (simp add: next_best_def Let_def mod_eq_0_iff_dvd)
      then show ?thesis using fold_best [OF 1(2,5)] pos True by simp
    next
      case False
      then show ?thesis using 1(5) by (simp add: next_best_def mod_eq_0_iff_dvd)
    qed
    have "inner_loop cells a remaining b best = inner_loop cells a remaining (b + 1) next_best"
      unfolding inner_loop.simps [of cells a remaining b best] if_P [OF guard] next_best_def ..
    moreover have "best_of cells (S \<union> ?N \<union> visited_inner a remaining (b + 1)) (inner_loop cells a remaining (b + 1) next_best)"
      unfolding next_best_def by (rule 1(1) [OF guard 1(2,3) _ nb [unfolded next_best_def] pos]) simp
    ultimately have "best_of cells (S \<union> ?N \<union> visited_inner a remaining (b + 1)) (inner_loop cells a remaining b best)"
      by (simp only:)
    then show ?thesis by (simp only: visited_inner_step [OF le] Un_assoc)
  qed
qed

lemma visited_inner_positive: "0 < a \<Longrightarrow> 0 < b \<Longrightarrow> \<forall>g \<in> visited_inner a remaining b. positive3 g"
proof
  fix g assume "0 < a" "0 < b" "g \<in> visited_inner a remaining b"
  then obtain b' where b: "b \<le> b'" "b' * b' \<le> remaining" "g \<in> set (permutations3 a b' (remaining div b'))"
    by (auto simp: visited_inner_def)
  with \<open>0 < b\<close> have "0 < b'" by simp
  moreover from this b(2) have "b' \<le> remaining div b'" using inner_bound by blast
  ultimately have "0 < remaining div b'" by linarith
  with permutations_positive [OF \<open>0 < a\<close> \<open>0 < b'\<close> _ b(3)] show "positive3 g" by blast
qed

lemma visited_outer_step:
  assumes "a * a * a \<le> ranks"
  shows "visited_outer ranks a =
    (if a dvd ranks then visited_inner a (ranks div a) a else {}) \<union> visited_outer ranks (a + 1)"
proof -
  have "a \<le> a' \<longleftrightarrow> a' = a \<or> a + 1 \<le> a'" for a' by auto
  then show ?thesis using assms by (auto simp: visited_outer_def)
qed

lemma visited_outer_end:
  assumes "\<not> a * a * a \<le> ranks"
  shows "visited_outer ranks a = {}"
proof -
  have "a * a * a \<le> a' * a' * a'" if "a \<le> a'" for a' using that by (intro mult_le_mono)
  then show ?thesis using assms unfolding visited_outer_def by (force dest: order_trans)
qed

lemma outer_loop_best:
  "small3 cells \<Longrightarrow> 0 < a \<Longrightarrow> best_of cells S best \<Longrightarrow> \<forall>g \<in> S. positive3 g \<Longrightarrow>
   best_of cells (S \<union> visited_outer ranks a) (outer_loop cells ranks a best)"
proof (induction cells ranks a best arbitrary: S rule: outer_loop.induct)
  case (1 cells ranks a best)
  show ?case
  proof (cases "a * a * a \<le> ranks")
    case False
    then show ?thesis
      using 1(4) outer_bound [OF 1(3), of ranks] visited_outer_end [of a ranks]
      by (subst outer_loop.simps) simp
  next
    case le: True
    then have guard: "a \<le> ranks div a div a" using outer_bound [OF 1(3)] by blast
    let ?N = "if a dvd ranks then visited_inner a (ranks div a) a else {}"
    define next_best where
      "next_best = (if ranks mod a \<noteq> 0 then best else inner_loop cells a (ranks div a) a best)"
    have pos: "\<forall>g \<in> S \<union> ?N. positive3 g" using 1(5) visited_inner_positive [OF 1(3,3)] by auto
    have nb: "best_of cells (S \<union> ?N) next_best"
      using inner_loop_best [OF 1(2,3,3,4,5)] 1(4) by (simp add: next_best_def mod_eq_0_iff_dvd)
    have "outer_loop cells ranks a best = outer_loop cells ranks (a + 1) next_best"
      unfolding outer_loop.simps [of cells ranks a best] if_P [OF guard] next_best_def ..
    moreover have "best_of cells (S \<union> ?N \<union> visited_outer ranks (a + 1)) (outer_loop cells ranks (a + 1) next_best)"
      unfolding next_best_def by (rule 1(1) [OF guard 1(2) _ nb [unfolded next_best_def] pos]) simp
    ultimately have "best_of cells (S \<union> ?N \<union> visited_outer ranks (a + 1)) (outer_loop cells ranks a best)"
      by (simp only:)
    then show ?thesis by (simp only: visited_outer_step [OF le] Un_assoc)
  qed
qed

text \<open>Every positive triple of the right product is visited: sort it.\<close>

lemma sorted_triple_visited:
  assumes "0 < a" "a \<le> b" "b \<le> c" "a * b * c = ranks" "g \<in> set (permutations3 a b c)"
  shows "g \<in> visited_outer ranks 1"
proof -
  have r: "ranks div a = b * c" using assms(1,4) by (metis mult.assoc nonzero_mult_div_cancel_left not_less0)
  have "0 < b" using assms(1,2) by simp
  then have c: "b * c div b = c" by simp
  have "b * b \<le> b * c" using assms(3) by simp
  then have "g \<in> visited_inner a (ranks div a) a"
    unfolding visited_inner_def r using assms(2,5) c by (auto intro!: exI [of _ b])
  moreover have "a * a * a \<le> a * b * c" using assms(2,3) by (intro mult_le_mono) simp_all
  then have "a * a * a \<le> ranks" by (simp add: assms(4))
  moreover have "a dvd ranks" using assms(4) by (metis dvd_triv_left mult.assoc)
  ultimately show ?thesis unfolding visited_outer_def using assms(1) by (auto intro!: exI [of _ a])
qed

lemma triple_visited:
  assumes "positive3 g" "x3 g * y3 g * z3 g = int ranks"
  shows "g \<in> visited_outer ranks 1"
proof -
  define x y z where d: "x = nat (x3 g)" "y = nat (y3 g)" "z = nat (z3 g)"
  have p: "0 < x" "0 < y" "0 < z" using assms(1) by (simp_all add: positive3_def d)
  have gi: "x3 g = int x" "y3 g = int y" "z3 g = int z" using assms(1) by (simp_all add: positive3_def d)
  then have g: "g = \<lparr>x3 = int x, y3 = int y, z3 = int z\<rparr>" by (cases g) simp
  have "int (x * y * z) = int ranks" using assms(2) gi by simp
  then have "x * y * z = ranks" by (simp only: of_nat_eq_iff)
  then have m: "x * y * z = ranks" "x * z * y = ranks" "y * x * z = ranks" "y * z * x = ranks" "z * x * y = ranks" "z * y * x = ranks"
    by (simp_all add: ac_simps)
  have "g \<in> set (permutations3 x y z)" "g \<in> set (permutations3 x z y)" "g \<in> set (permutations3 y x z)"
    "g \<in> set (permutations3 y z x)" "g \<in> set (permutations3 z x y)" "g \<in> set (permutations3 z y x)"
    by (simp_all add: permutations3_def g)
  with p m show ?thesis
    using sorted_triple_visited [of x y z ranks g] sorted_triple_visited [of x z y ranks g]
      sorted_triple_visited [of y x z ranks g] sorted_triple_visited [of y z x ranks g]
      sorted_triple_visited [of z x y ranks g] sorted_triple_visited [of z y x ranks g]
    by (metis nat_le_linear)
qed

lemma visited_triple:
  assumes "g \<in> visited_outer ranks 1"
  shows "positive3 g \<and> x3 g * y3 g * z3 g = int ranks"
proof -
  obtain a where a: "0 < a" "a dvd ranks" "g \<in> visited_inner a (ranks div a) a"
    using assms unfolding visited_outer_def mem_Collect_eq by (meson less_le_trans zero_less_one)
  then obtain b where b: "a \<le> b" "b dvd ranks div a" "g \<in> set (permutations3 a b (ranks div a div b))"
    by (auto simp: visited_inner_def)
  have "a * (b * (ranks div a div b)) = ranks" using a(2) b(2) by simp
  then have "int a * (int b * int (ranks div a div b)) = int ranks" by (metis of_nat_mult)
  then have "x3 g * y3 g * z3 g = int ranks" using b(3) by (auto simp: permutations3_def ac_simps)
  with visited_inner_positive [OF a(1,1)] a(3) show ?thesis by blast
qed

lemma choose_grid_best:
  assumes "small3 cells"
  shows "best_of cells {g. positive3 g \<and> x3 g * y3 g * z3 g = int ranks} (choose_grid cells ranks)"
proof -
  have "best_of cells {} no_choice" by (simp add: best_of_def no_choice_def)
  from outer_loop_best [OF assms _ this, of 1 ranks]
  have "best_of cells (visited_outer ranks 1) (choose_grid cells ranks)" by (simp add: choose_grid_def)
  moreover have "visited_outer ranks 1 = {g. positive3 g \<and> x3 g * y3 g * z3 g = int ranks}"
    using triple_visited visited_triple by blast
  ultimately show ?thesis by simp
qed

lemma admissible_iff:
  "grid_admissible cells ranks g \<longleftrightarrow> g \<in> {g. positive3 g \<and> x3 g * y3 g * z3 g = int ranks} \<and> grid_fits cells g"
  by (simp add: grid_admissible_def grid_fits_def)

lemma choose_grid_admissible:
  assumes "small3 cells" "gr_valid (choose_grid cells ranks)"
  shows "grid_admissible cells ranks (gr_grid (choose_grid cells ranks))"
  using choose_grid_best [OF assms(1), of ranks] assms(2) unfolding best_of_def admissible_iff by simp

section \<open>The choice is the optimum\<close>

text \<open>
  C29. The search for the process grid, which enumerates sorted divisors only, finds a grid exactly when
  some grid of that many ranks is admissible, and then it is the admissible grid with the least
  interface, among those the least largest patch, among those the first in position order; the
  two-word arithmetic of the surfaces loses nothing for any 32-bit mesh.
\<close>

theorem decomposition_is_optimal:
  assumes "small3 cells"
  shows "gr_valid (choose_grid cells ranks) = (\<exists>g. grid_admissible cells ranks g) \<and>
    (gr_valid (choose_grid cells ranks) \<longrightarrow> grid_admissible cells ranks (gr_grid (choose_grid cells ranks)) \<and>
      (\<forall>g. grid_admissible cells ranks g \<longrightarrow> grid_key cells (gr_grid (choose_grid cells ranks)) \<le> grid_key cells g))"
proof -
  note best = choose_grid_best [OF assms, of ranks, unfolded best_of_def]
  have "gr_valid (choose_grid cells ranks) = (\<exists>g. grid_admissible cells ranks g)"
    using best unfolding admissible_iff by (auto split: if_splits)
  moreover have "grid_admissible cells ranks (gr_grid (choose_grid cells ranks)) \<and>
      (\<forall>g. grid_admissible cells ranks g \<longrightarrow> grid_key cells (gr_grid (choose_grid cells ranks)) \<le> grid_key cells g)"
    if "gr_valid (choose_grid cells ranks)"
    using best that unfolding admissible_iff by simp
  ultimately show ?thesis by blast
qed

theorem decomposition_is_optimal_witness:
  "let cells = \<lparr>x3 = 4, y3 = 2, z3 = 1\<rparr> in
   gr_valid (choose_grid cells 2) \<and> gr_grid (choose_grid cells 2) = \<lparr>x3 = 2, y3 = 1, z3 = 1\<rparr> \<and>
   (\<exists>g. grid_admissible cells 2 g)"
proof -
  let ?c = "\<lparr>x3 = 4, y3 = 2, z3 = 1\<rparr>"
  have s: "small3 ?c" by (simp add: small3_def positive3_def)
  have v: "gr_valid (choose_grid ?c 2) \<and> gr_grid (choose_grid ?c 2) = \<lparr>x3 = 2, y3 = 1, z3 = 1\<rparr>" by code_simp
  with decomposition_is_optimal [OF s, of 2] show ?thesis unfolding Let_def by blast
qed

end
