(* ===== verification/Mesh_Patch.thy ===== *)
theory Mesh_Patch
  imports Mesh_Decomposition
begin

text \<open>
  The patch of a rank (\<^verbatim>\<open>make_mesh_patch\<close>) and the tiles of a patch (\<^verbatim>\<open>build_cpu_tiles\<close>) of
  \<^verbatim>\<open>mesh_decomposition.cpp\<close>, and the owner of a global cell number (\<^verbatim>\<open>owner\<close> of
  \<^verbatim>\<open>models_exchange_owner.cpp\<close>). The patches tile the mesh, the tiles tile the patch, and the owner
  of a cell is the rank whose patch holds it.
\<close>

section \<open>Patches\<close>

record mesh_patch =
  mp_begin :: int3
  mp_cells :: int3
  mp_grid :: int3
  mp_coord :: int3

definition make_mesh_patch :: "int \<Rightarrow> int \<Rightarrow> int3 \<Rightarrow> status + mesh_patch" where
  "make_mesh_patch rank rank_count cells =
     (if rank_count \<le> 0 \<or> rank < 0 \<or> rank \<ge> rank_count \<or> \<not> positive3 cells then Inl (failed Invalid_plan 201)
      else let choice = choose_grid cells (nat rank_count) in
        if \<not> gr_valid choice then Inl (failed Invalid_plan 202)
        else let grid = gr_grid choice; yz_rank = rank div x3 grid;
                 coord = \<lparr>x3 = rank mod x3 grid, y3 = yz_rank mod y3 grid, z3 = yz_rank div y3 grid\<rparr>;
                 (bx, nx) = split_axis (x3 cells) (x3 grid) (x3 coord);
                 (by, ny) = split_axis (y3 cells) (y3 grid) (y3 coord);
                 (bz, nz) = split_axis (z3 cells) (z3 grid) (z3 coord) in
          Inr \<lparr>mp_begin = \<lparr>x3 = bx, y3 = by, z3 = bz\<rparr>, mp_cells = \<lparr>x3 = nx, y3 = ny, z3 = nz\<rparr>,
               mp_grid = grid, mp_coord = coord\<rparr>)"

definition in_box :: "int3 \<Rightarrow> int3 \<Rightarrow> int3 \<Rightarrow> bool" where
  "in_box begins cells i \<longleftrightarrow>
     x3 begins \<le> x3 i \<and> x3 i < x3 begins + x3 cells \<and>
     y3 begins \<le> y3 i \<and> y3 i < y3 begins + y3 cells \<and>
     z3 begins \<le> z3 i \<and> z3 i < z3 begins + z3 cells"

definition origin :: int3 where "origin = \<lparr>x3 = 0, y3 = 0, z3 = 0\<rparr>"

text \<open>\<^verbatim>\<open>owner\<close>: the rank of a global cell number, or -1 past the last cell.\<close>

definition cell_owner :: "int3 \<Rightarrow> int3 \<Rightarrow> u64 \<Rightarrow> int" where
  "cell_owner cells grid cell_id =
     (let x = uint (cell_id mod word_of_int (x3 cells)); id1 = cell_id div word_of_int (x3 cells);
          y = uint (id1 mod word_of_int (y3 cells)); id2 = id1 div word_of_int (y3 cells) in
      if id2 \<ge> word_of_int (z3 cells) then -1
      else owner_axis x (x3 cells) (x3 grid) +
        x3 grid * (owner_axis y (y3 cells) (y3 grid) + y3 grid * owner_axis (uint id2) (z3 cells) (z3 grid)))"

definition owner_coord :: "int3 \<Rightarrow> int3 \<Rightarrow> int3 \<Rightarrow> int3" where
  "owner_coord cells grid i = \<lparr>x3 = owner_axis (x3 i) (x3 cells) (x3 grid),
     y3 = owner_axis (y3 i) (y3 cells) (y3 grid), z3 = owner_axis (z3 i) (z3 cells) (z3 grid)\<rparr>"

definition rank_of :: "int3 \<Rightarrow> int3 \<Rightarrow> int" where
  "rank_of grid c = x3 c + x3 grid * (y3 c + y3 grid * z3 c)"

definition coord_of :: "int3 \<Rightarrow> int \<Rightarrow> int3" where
  "coord_of grid rank = \<lparr>x3 = rank mod x3 grid, y3 = rank div x3 grid mod y3 grid, z3 = rank div x3 grid div y3 grid\<rparr>"

section \<open>Ranks and coordinates\<close>

lemma int3_eq_iff: "a = b \<longleftrightarrow> x3 a = x3 b \<and> y3 a = y3 b \<and> z3 a = z3 (b :: int3)"
  by (cases a; cases b) simp

lemma div_below:
  fixes m :: int
  assumes "0 < q" "m < n * q"
  shows "m div q < n"
proof (rule ccontr)
  assume "\<not> m div q < n"
  then have "n * q \<le> m div q * q" using assms(1) by (intro mult_right_mono) simp_all
  also have "\<dots> \<le> m" using pos_mod_sign [OF assms(1), of m] div_mult_mod_eq [of m q] by linarith
  finally show False using assms(2) by simp
qed

lemma coord_in_grid:
  assumes "positive3 g" "0 \<le> r" "r < x3 g * y3 g * z3 g"
  shows "in_box origin g (coord_of g r)"
proof -
  have p: "0 < x3 g" "0 < y3 g" using assms(1) by (simp_all add: positive3_def)
  have "r < (y3 g * z3 g) * x3 g" using assms(3) by (simp only: ac_simps)
  from div_below [OF p(1) this] have "r div x3 g < z3 g * y3 g" by (simp only: ac_simps)
  from div_below [OF p(2) this] have "r div x3 g div y3 g < z3 g" .
  then show ?thesis
    using assms by (simp add: in_box_def origin_def coord_of_def positive3_def pos_imp_zdiv_nonneg_iff)
qed

lemma rank_in_range:
  assumes "positive3 g" "in_box origin g c"
  shows "0 \<le> rank_of g c \<and> rank_of g c < x3 g * y3 g * z3 g \<and> coord_of g (rank_of g c) = c"
proof -
  have c: "0 \<le> x3 c" "x3 c < x3 g" "0 \<le> y3 c" "y3 c < y3 g" "0 \<le> z3 c" "z3 c < z3 g"
    using assms(2) by (simp_all add: in_box_def origin_def)
  let ?yz = "y3 c + y3 g * z3 c"
  have x: "rank_of g c mod x3 g = x3 c" "rank_of g c div x3 g = ?yz" using c by (simp_all add: rank_of_def)
  have y: "?yz mod y3 g = y3 c" "?yz div y3 g = z3 c" using c by simp_all
  have "coord_of g (rank_of g c) = c" unfolding coord_of_def x y by simp
  moreover have "?yz + 1 \<le> y3 g * z3 g"
  proof -
    have "y3 g * (z3 c + 1) \<le> y3 g * z3 g" using c by (intro mult_left_mono) simp_all
    then show ?thesis using c(4) by (simp add: algebra_simps)
  qed
  then have "x3 g * (?yz + 1) \<le> x3 g * (y3 g * z3 g)" using c by (intro mult_left_mono) simp_all
  then have "rank_of g c < x3 g * y3 g * z3 g" using c(2) by (simp add: rank_of_def algebra_simps)
  moreover have "0 \<le> rank_of g c" using c by (simp add: rank_of_def)
  ultimately show ?thesis by blast
qed

lemma rank_coord:
  assumes "positive3 g"
  shows "rank_of g (coord_of g r) = r"
  by (simp add: rank_of_def coord_of_def mult_div_mod_eq [symmetric] add.commute)

section \<open>The patch of a rank\<close>

definition patch_of :: "int3 \<Rightarrow> int3 \<Rightarrow> int \<Rightarrow> mesh_patch" where
  "patch_of cells grid rank =
     (let coord = coord_of grid rank;
          sx = split_axis (x3 cells) (x3 grid) (x3 coord); sy = split_axis (y3 cells) (y3 grid) (y3 coord);
          sz = split_axis (z3 cells) (z3 grid) (z3 coord) in
      \<lparr>mp_begin = \<lparr>x3 = fst sx, y3 = fst sy, z3 = fst sz\<rparr>, mp_cells = \<lparr>x3 = snd sx, y3 = snd sy, z3 = snd sz\<rparr>,
       mp_grid = grid, mp_coord = coord\<rparr>)"

lemma make_mesh_patch_success:
  "make_mesh_patch rank n cells = Inr p \<longleftrightarrow>
     0 < n \<and> 0 \<le> rank \<and> rank < n \<and> positive3 cells \<and> gr_valid (choose_grid cells (nat n)) \<and>
     p = patch_of cells (gr_grid (choose_grid cells (nat n))) rank"
  unfolding make_mesh_patch_def patch_of_def coord_of_def Let_def by (auto simp: split_beta)

lemma patch_holds_iff:
  assumes "positive3 grid" "in_box origin grid (coord_of grid rank)" "in_box origin cells i"
  shows "in_box (mp_begin (patch_of cells grid rank)) (mp_cells (patch_of cells grid rank)) i \<longleftrightarrow>
    coord_of grid rank = owner_coord cells grid i"
proof -
  let ?c = "coord_of grid rank"
  have "in_box (mp_begin (patch_of cells grid rank)) (mp_cells (patch_of cells grid rank)) i \<longleftrightarrow>
      in_part (x3 cells) (x3 grid) (x3 ?c) (x3 i) \<and> in_part (y3 cells) (y3 grid) (y3 ?c) (y3 i) \<and>
      in_part (z3 cells) (z3 grid) (z3 ?c) (z3 i)"
    by (simp add: in_box_def patch_of_def Let_def in_part_def split_beta)
  moreover have "0 < x3 grid" "0 < y3 grid" "0 < z3 grid" "0 \<le> x3 ?c" "0 \<le> y3 ?c" "0 \<le> z3 ?c"
    "0 \<le> x3 i" "x3 i < x3 cells" "0 \<le> y3 i" "y3 i < y3 cells" "0 \<le> z3 i" "z3 i < z3 cells"
    using assms by (simp_all add: positive3_def in_box_def origin_def)
  ultimately show ?thesis by (simp add: in_part_iff owner_coord_def int3_eq_iff)
qed

section \<open>The patches tile the mesh\<close>

lemma owner_coord_in_grid:
  assumes "positive3 grid" "in_box origin cells i"
  shows "in_box origin grid (owner_coord cells grid i)"
  using assms owner_in_part [of "x3 grid" "x3 i" "x3 cells"] owner_in_part [of "y3 grid" "y3 i" "y3 cells"]
    owner_in_part [of "z3 grid" "z3 i" "z3 cells"]
  by (simp add: in_box_def origin_def owner_coord_def positive3_def)

lemma patch_inside:
  assumes "positive3 grid" "positive3 cells" "in_box origin grid (coord_of grid rank)"
    and "in_box (mp_begin (patch_of cells grid rank)) (mp_cells (patch_of cells grid rank)) i"
  shows "in_box origin cells i"
proof -
  have "in_part (x3 cells) (x3 grid) (x3 (coord_of grid rank)) (x3 i)"
    "in_part (y3 cells) (y3 grid) (y3 (coord_of grid rank)) (y3 i)"
    "in_part (z3 cells) (z3 grid) (z3 (coord_of grid rank)) (z3 i)"
    using assms(4) by (simp_all add: in_box_def patch_of_def Let_def in_part_def split_beta)
  then show ?thesis
    using assms(1-3) in_part_bounds [of "x3 grid" "x3 cells" "x3 (coord_of grid rank)" "x3 i"]
      in_part_bounds [of "y3 grid" "y3 cells" "y3 (coord_of grid rank)" "y3 i"]
      in_part_bounds [of "z3 grid" "z3 cells" "z3 (coord_of grid rank)" "z3 i"]
    by (simp add: in_box_def origin_def positive3_def)
qed

lemma split_axis_count:
  assumes "0 < parts" "parts \<le> cells" "0 \<le> k"
  shows "0 < snd (split_axis cells parts k)"
proof -
  have "0 < cells div parts" using assms by (simp add: pos_imp_zdiv_pos_iff)
  then show ?thesis by (simp add: split_axis_def Let_def)
qed

lemma chosen_grid:
  assumes "small3 cells" "0 < n" "gr_valid (choose_grid cells (nat n))"
  defines "g \<equiv> gr_grid (choose_grid cells (nat n))"
  shows "positive3 g" "x3 g * y3 g * z3 g = n" "x3 g \<le> x3 cells" "y3 g \<le> y3 cells" "z3 g \<le> z3 cells"
  using choose_grid_admissible [OF assms(1,3)] assms(2) unfolding g_def grid_admissible_def by simp_all

text \<open>
  C30. When the decomposition of a mesh over \<open>n\<close> ranks succeeds on one rank it succeeds on all;
  every patch is non-empty and lies in the mesh; and every cell of the mesh is in the patch of exactly
  one rank, so that the patches neither overlap nor leave a gap.
\<close>

theorem patches_partition:
  assumes "small3 cells" "make_mesh_patch r0 n cells = Inr p0"
  shows "(\<forall>rank. 0 \<le> rank \<and> rank < n \<longrightarrow> (\<exists>p. make_mesh_patch rank n cells = Inr p \<and> positive3 (mp_cells p) \<and>
      (\<forall>i. in_box (mp_begin p) (mp_cells p) i \<longrightarrow> in_box origin cells i))) \<and>
    (\<forall>i. in_box origin cells i \<longrightarrow>
      (\<exists>!rank. \<exists>p. make_mesh_patch rank n cells = Inr p \<and> in_box (mp_begin p) (mp_cells p) i))"
proof -
  let ?g = "gr_grid (choose_grid cells (nat n))"
  have s: "0 < n" "positive3 cells" "gr_valid (choose_grid cells (nat n))"
    using assms(2) by (simp_all add: make_mesh_patch_success)
  note g = chosen_grid [OF assms(1) s(1,3)]
  have mk: "make_mesh_patch rank n cells = Inr p \<longleftrightarrow> 0 \<le> rank \<and> rank < n \<and> p = patch_of cells ?g rank" for rank p
    using s by (simp add: make_mesh_patch_success)
  have cg: "in_box origin ?g (coord_of ?g rank)" if "0 \<le> rank" "rank < n" for rank
    using coord_in_grid [OF g(1) that(1)] that(2) g(2) by simp
  have "positive3 (mp_cells (patch_of cells ?g rank)) \<and>
      (\<forall>i. in_box (mp_begin (patch_of cells ?g rank)) (mp_cells (patch_of cells ?g rank)) i \<longrightarrow> in_box origin cells i)"
    if r: "0 \<le> rank" "rank < n" for rank
    using patch_inside [OF g(1) s(2) cg [OF r]] cg [OF r] g split_axis_count
    by (simp add: positive3_def patch_of_def Let_def in_box_def origin_def)
  moreover have "\<exists>!rank. \<exists>p. make_mesh_patch rank n cells = Inr p \<and> in_box (mp_begin p) (mp_cells p) i"
    if i: "in_box origin cells i" for i
  proof -
    have h: "in_box (mp_begin (patch_of cells ?g rank)) (mp_cells (patch_of cells ?g rank)) i \<longleftrightarrow>
        coord_of ?g rank = owner_coord cells ?g i" if "0 \<le> rank" "rank < n" for rank
      by (rule patch_holds_iff [OF g(1) cg [OF that] i])
    let ?r = "rank_of ?g (owner_coord cells ?g i)"
    have r: "0 \<le> ?r" "?r < n" "coord_of ?g ?r = owner_coord cells ?g i"
      using rank_in_range [OF g(1) owner_coord_in_grid [OF g(1) i]] g(2) by simp_all
    have "rank = ?r" if "coord_of ?g rank = owner_coord cells ?g i" for rank
      using rank_coord [OF g(1), of rank] that by simp
    then show ?thesis using h r unfolding mk by blast
  qed
  ultimately show ?thesis unfolding mk by blast
qed

theorem patches_partition_witness:
  "let cells = \<lparr>x3 = 5, y3 = 3, z3 = 2\<rparr> in
   \<exists>!rank. \<exists>p. make_mesh_patch rank 4 cells = Inr p \<and> in_box (mp_begin p) (mp_cells p) \<lparr>x3 = 4, y3 = 2, z3 = 1\<rparr>"
proof -
  let ?c = "\<lparr>x3 = 5, y3 = 3, z3 = 2\<rparr>"
  have s: "small3 ?c" by (simp add: small3_def positive3_def)
  have "\<not> isl (make_mesh_patch 0 4 ?c)" by code_simp
  then obtain p where p: "make_mesh_patch 0 4 ?c = Inr p" by (cases "make_mesh_patch 0 4 ?c") auto
  have "in_box origin ?c \<lparr>x3 = 4, y3 = 2, z3 = 1\<rparr>" by (simp add: in_box_def origin_def)
  with patches_partition [OF s p] show ?thesis unfolding Let_def by blast
qed

section \<open>The owner of a cell number\<close>

lemma uint_count: "0 \<le> i \<Longrightarrow> i < 2 ^ 31 \<Longrightarrow> uint (word_of_int i :: u64) = i"
  by (simp add: uint_word_of_int)

lemma cell_owner_value:
  assumes "small3 cells" "positive3 grid"
  shows "cell_owner cells grid cell_id =
    (if uint cell_id < x3 cells * y3 cells * z3 cells
     then rank_of grid (owner_coord cells grid (coord_of cells (uint cell_id))) else -1)"
proof -
  let ?c = "coord_of cells (uint cell_id)"
  have c: "0 < x3 cells" "0 < y3 cells" "uint (word_of_int (x3 cells) :: u64) = x3 cells"
    "uint (word_of_int (y3 cells) :: u64) = y3 cells" "uint (word_of_int (z3 cells) :: u64) = z3 cells"
    using assms(1) by (simp_all add: small3_def positive3_def uint_count)
  let ?id1 = "cell_id div word_of_int (x3 cells)"
  have u: "uint (cell_id mod word_of_int (x3 cells)) = x3 ?c" "uint (?id1 mod word_of_int (y3 cells)) = y3 ?c"
    "uint (?id1 div word_of_int (y3 cells)) = z3 ?c"
    by (simp_all only: uint_mod uint_div c coord_of_def int3.select_convs)
  have "z3 ?c = uint cell_id div (x3 cells * y3 cells)"
    using c by (simp add: coord_of_def zdiv_zmult2_eq)
  moreover have "uint cell_id div (x3 cells * y3 cells) < z3 cells \<longleftrightarrow> uint cell_id < x3 cells * y3 cells * z3 cells"
  proof
    assume "uint cell_id < x3 cells * y3 cells * z3 cells"
    then show "uint cell_id div (x3 cells * y3 cells) < z3 cells"
      using c by (intro div_below) (simp_all add: ac_simps)
  next
    assume a: "uint cell_id div (x3 cells * y3 cells) < z3 cells"
    have p: "0 < x3 cells * y3 cells" using c by simp
    have "x3 cells * y3 cells * (uint cell_id div (x3 cells * y3 cells) + 1) \<le> x3 cells * y3 cells * z3 cells"
      using a p by (intro mult_left_mono) simp_all
    then show "uint cell_id < x3 cells * y3 cells * z3 cells"
      using pos_mod_bound [OF p, of "uint cell_id"] mult_div_mod_eq [of "x3 cells * y3 cells" "uint cell_id"]
      by (simp only: distrib_left mult_1_right)
  qed
  ultimately have z: "(?id1 div word_of_int (y3 cells) \<ge> word_of_int (z3 cells)) = (\<not> uint cell_id < x3 cells * y3 cells * z3 cells)"
    unfolding word_le_def u(3) c(5) by (metis not_less)
  show ?thesis unfolding cell_owner_def Let_def z u
    by (simp add: rank_of_def owner_coord_def)
qed

text \<open>
  C31. The owner of a global cell number is the rank whose patch holds that cell: for every number of a
  cell of the mesh the computed rank exists and its patch contains the cell, and every number past the
  last cell gives -1. The routing of exchanged segments and the decomposition of the mesh agree.
\<close>

theorem owner_is_patch_rank:
  assumes "small3 cells" "make_mesh_patch r n cells = Inr p"
  shows "if uint cell_id < x3 cells * y3 cells * z3 cells
    then \<exists>q. make_mesh_patch (cell_owner cells (mp_grid p) cell_id) n cells = Inr q \<and>
      in_box (mp_begin q) (mp_cells q) (coord_of cells (uint cell_id))
    else cell_owner cells (mp_grid p) cell_id = -1"
proof -
  let ?g = "gr_grid (choose_grid cells (nat n))" and ?i = "coord_of cells (uint cell_id)"
  have s: "0 < n" "positive3 cells" "gr_valid (choose_grid cells (nat n))" and p: "mp_grid p = ?g"
    using assms(2) by (simp_all add: make_mesh_patch_success patch_of_def Let_def)
  note g = chosen_grid [OF assms(1) s(1,3)]
  show ?thesis
  proof (cases "uint cell_id < x3 cells * y3 cells * z3 cells")
    case True
    have i: "in_box origin cells ?i" using coord_in_grid [OF s(2) _ True] by simp
    let ?r = "rank_of ?g (owner_coord cells ?g ?i)"
    have r: "0 \<le> ?r" "?r < n" "coord_of ?g ?r = owner_coord cells ?g ?i"
      using rank_in_range [OF g(1) owner_coord_in_grid [OF g(1) i]] g(2) by simp_all
    have "in_box origin ?g (coord_of ?g ?r)" using owner_coord_in_grid [OF g(1) i] r(3) by simp
    with r s show ?thesis
      unfolding p cell_owner_value [OF assms(1) g(1)] if_P [OF True]
      by (simp add: make_mesh_patch_success patch_holds_iff [OF g(1) _ i])
  next
    case False
    then show ?thesis unfolding p cell_owner_value [OF assms(1) g(1)] by simp
  qed
qed

theorem owner_is_patch_rank_witness:
  "let cells = \<lparr>x3 = 5, y3 = 3, z3 = 2\<rparr> in
   \<exists>q. make_mesh_patch (cell_owner cells \<lparr>x3 = 2, y3 = 2, z3 = 1\<rparr> 17) 4 cells = Inr q \<and>
     in_box (mp_begin q) (mp_cells q) \<lparr>x3 = 2, y3 = 0, z3 = 1\<rparr>"
proof -
  let ?c = "\<lparr>x3 = 5, y3 = 3, z3 = 2\<rparr>"
  have s: "small3 ?c" by (simp add: small3_def positive3_def)
  have "(case make_mesh_patch 0 4 ?c of Inl _ \<Rightarrow> False | Inr p \<Rightarrow> mp_grid p = \<lparr>x3 = 2, y3 = 2, z3 = 1\<rparr>)" by code_simp
  then obtain p where p: "make_mesh_patch 0 4 ?c = Inr p" "mp_grid p = \<lparr>x3 = 2, y3 = 2, z3 = 1\<rparr>"
    by (auto split: sum.splits)
  have "coord_of ?c (uint (17 :: u64)) = \<lparr>x3 = 2, y3 = 0, z3 = 1\<rparr>" by code_simp
  with owner_is_patch_rank [OF s p(1), of 17] p(2) show ?thesis unfolding Let_def by simp
qed

end
