(* ===== verification/Cpu_Tiles.thy ===== *)
theory Cpu_Tiles
  imports Mesh_Patch
begin

text \<open>
  \<^verbatim>\<open>build_cpu_tiles\<close> of \<^verbatim>\<open>mesh_decomposition.cpp\<close>: a patch is cut into tiles of a target size, the last
  tile of each axis cut short. What the reservation of the vector answers to a length is an argument.
\<close>

section \<open>Tiles\<close>

record cpu_tile =
  ct_begin :: int3
  ct_cells :: int3

datatype reservation = Reserved | Bad_alloc | Other_exception

definition patch_end_valid :: "int \<Rightarrow> int \<Rightarrow> bool" where
  "patch_end_valid begins cells \<longleftrightarrow> begins + cells - 1 \<le> int32_max"

definition ceil_div :: "int \<Rightarrow> int \<Rightarrow> u64" where
  "ceil_div extent tile =
     (let wide_extent = word_of_int extent; wide_tile = word_of_int tile in
      wide_extent div wide_tile + (if wide_extent mod wide_tile \<noteq> 0 then 1 else 0))"

definition tile_at :: "mesh_patch \<Rightarrow> int3 \<Rightarrow> nat \<times> nat \<times> nat \<Rightarrow> cpu_tile option" where
  "tile_at patch target = (\<lambda>(ix, iy, iz).
     let x = int ix * x3 target; y = int iy * y3 target; z = int iz * z3 target;
         global_x = x3 (mp_begin patch) + x; global_y = y3 (mp_begin patch) + y; global_z = z3 (mp_begin patch) + z in
     if global_x > int32_max \<or> global_y > int32_max \<or> global_z > int32_max then None
     else Some \<lparr>ct_begin = \<lparr>x3 = global_x, y3 = global_y, z3 = global_z\<rparr>,
       ct_cells = \<lparr>x3 = min (x3 target) (x3 (mp_cells patch) - x), y3 = min (y3 target) (y3 (mp_cells patch) - y),
         z3 = min (z3 target) (z3 (mp_cells patch) - z)\<rparr>\<rparr>)"

definition tile_indices :: "nat \<Rightarrow> nat \<Rightarrow> nat \<Rightarrow> (nat \<times> nat \<times> nat) list" where
  "tile_indices nx ny nz =
     concat (map (\<lambda>iz. concat (map (\<lambda>iy. map (\<lambda>ix. (ix, iy, iz)) [0..<nx]) [0..<ny])) [0..<nz])"

definition build_cpu_tiles :: "(nat \<Rightarrow> reservation) \<Rightarrow> mesh_patch \<Rightarrow> int3 \<Rightarrow> status + cpu_tile list" where
  "build_cpu_tiles reserve patch target =
     (let cells = mp_cells patch; begins = mp_begin patch in
      if \<not> positive3 cells \<or> \<not> positive3 target \<or> x3 begins < 0 \<or> y3 begins < 0 \<or> z3 begins < 0
      then Inl (failed Invalid_plan 203)
      else if \<not> patch_end_valid (x3 begins) (x3 cells) \<or> \<not> patch_end_valid (y3 begins) (y3 cells) \<or>
        \<not> patch_end_valid (z3 begins) (z3 cells) then Inl (failed Invalid_plan 203)
      else let nx = ceil_div (x3 cells) (x3 target); ny = ceil_div (y3 cells) (y3 target);
               nz = ceil_div (z3 cells) (z3 target) in
        if nx > u64_max div ny \<or> nx * ny > u64_max div nz then Inl (failed Invalid_plan 203)
        else (case reserve (unat (nx * ny * nz)) of
            Bad_alloc \<Rightarrow> Inl (failed Allocation_failure 0)
          | Other_exception \<Rightarrow> Inl (failed Invalid_plan 203)
          | Reserved \<Rightarrow>
              (case those (map (tile_at patch target) (tile_indices (unat nx) (unat ny) (unat nz))) of
                 None \<Rightarrow> Inl (failed Invalid_plan 203) | Some tiles \<Rightarrow> Inr tiles)))"

definition small_patch :: "mesh_patch \<Rightarrow> bool" where
  "small_patch p \<longleftrightarrow> x3 (mp_cells p) < 2 ^ 31 \<and> y3 (mp_cells p) < 2 ^ 31 \<and> z3 (mp_cells p) < 2 ^ 31"

section \<open>One axis\<close>

lemma int_div_le: "0 < t \<Longrightarrow> 0 < e \<Longrightarrow> e div t \<le> (e :: int)"
  using zdiv_mono2 [of e 1 t] by simp

lemma unat_ceil_div:
  assumes "0 < e" "e < 2 ^ 31" "0 < t" "t < 2 ^ 31"
  shows "unat (ceil_div e t) = nat (ceil_parts e t)"
proof -
  have u: "uint (word_of_int e :: u64) = e" "uint (word_of_int t :: u64) = t" using assms by (simp_all add: uint_count)
  have d: "uint ((word_of_int e :: u64) div word_of_int t) = e div t" by (simp only: uint_div u)
  have m: "(word_of_int e :: u64) mod word_of_int t = 0 \<longleftrightarrow> e mod t = 0"
    by (simp only: word_uint_eq_iff uint_mod u unsigned_0)
  have b: "0 \<le> e div t" "e div t \<le> e" using assms int_div_le by (simp_all add: pos_imp_zdiv_nonneg_iff)
  let ?c = "if (word_of_int e :: u64) mod word_of_int t \<noteq> 0 then 1 else 0 :: u64"
  have c: "uint ?c = (if e mod t \<noteq> 0 then 1 else 0)" using m by simp
  have "uint ((word_of_int e :: u64) div word_of_int t) + uint ?c < 2 ^ LENGTH(64)"
    unfolding d c using b assms(2) by simp
  then have "uint ((word_of_int e :: u64) div word_of_int t + ?c) =
      uint ((word_of_int e :: u64) div word_of_int t) + uint ?c"
    by (rule uint_add_lem [THEN iffD1])
  then have "uint (ceil_div e t) = e div t + (if e mod t \<noteq> 0 then 1 else 0)"
    unfolding ceil_div_def Let_def d c .
  then show ?thesis by (simp only: ceil_parts_def unat_eq_nat_uint)
qed

lemma axis_tile:
  assumes "0 < t" "0 < cells"
  shows "{k. k < nat (ceil_parts cells t) \<and> b + int k * t \<le> i \<and> i < b + int k * t + min t (cells - int k * t)} =
    (if b \<le> i \<and> i < b + cells then {nat ((i - b) div t)} else {})"
proof -
  define c where "c = i - b"
  have below: "k < nat (ceil_parts cells t)" if "int k * t < cells" for k
  proof -
    show ?thesis
    proof (rule ccontr)
      assume "\<not> k < nat (ceil_parts cells t)"
      then have "ceil_parts cells t \<le> int k" by simp
      then have "ceil_parts cells t * t \<le> int k * t" using assms(1) by (intro mult_right_mono) simp_all
      moreover have "cells \<le> ceil_parts cells t * t"
      proof (cases "cells mod t = 0")
        case True
        then show ?thesis using div_mult_mod_eq [of cells t] by (simp add: ceil_parts_def)
      next
        case False
        have "cells \<le> cells div t * t + t"
          using pos_mod_bound [OF assms(1), of cells] div_mult_mod_eq [of cells t] by linarith
        then show ?thesis using False by (simp add: ceil_parts_def distrib_right)
      qed
      ultimately show False using that by simp
    qed
  qed
  have "k < nat (ceil_parts cells t) \<and> int k * t \<le> c \<and> c < int k * t + min t (cells - int k * t) \<longleftrightarrow>
      0 \<le> c \<and> c < cells \<and> k = nat (c div t)" for k
  proof
    assume k: "k < nat (ceil_parts cells t) \<and> int k * t \<le> c \<and> c < int k * t + min t (cells - int k * t)"
    have "c div t = int k" using k by (intro int_div_pos_eq [where r = "c - int k * t"]) (auto simp: min_def split: if_splits)
    moreover have "0 \<le> int k * t" using assms(1) by simp
    ultimately show "0 \<le> c \<and> c < cells \<and> k = nat (c div t)" using k by (auto simp: min_def split: if_splits)
  next
    assume k: "0 \<le> c \<and> c < cells \<and> k = nat (c div t)"
    then have i: "int k = c div t" using assms(1) by (simp add: pos_imp_zdiv_nonneg_iff)
    have "int k * t \<le> c" "c < int k * t + t"
      using pos_mod_bound [OF assms(1), of c] pos_mod_sign [OF assms(1), of c] div_mult_mod_eq [of c t]
      unfolding i by linarith+
    with below [of k] k show "k < nat (ceil_parts cells t) \<and> int k * t \<le> c \<and> c < int k * t + min t (cells - int k * t)"
      by (simp add: min_def)
  qed
  from this show ?thesis by (auto simp: c_def algebra_simps)
qed

lemma axis_card:
  assumes "0 < t" "0 < cells"
  shows "card {k. k < nat (ceil_parts cells t) \<and> b + int k * t \<le> i \<and> i < b + int k * t + min t (cells - int k * t)} =
    (if b \<le> i \<and> i < b + cells then 1 else 0)"
  unfolding axis_tile [OF assms] by simp

lemma axis_start:
  assumes "0 < t" "0 < cells" "k < nat (ceil_parts cells t)"
  shows "0 \<le> int k * t \<and> int k * t < cells"
proof -
  have "int k < ceil_parts cells t" using assms(3) by simp
  have "int k * t < cells"
  proof (cases "cells mod t = 0")
    case True
    then have "(int k + 1) * t \<le> cells div t * t"
      using \<open>int k < _\<close> assms(1) by (intro mult_right_mono) (simp_all add: ceil_parts_def)
    then show ?thesis using True assms(1) div_mult_mod_eq [of cells t] by (simp add: distrib_right)
  next
    case False
    then have "int k * t \<le> cells div t * t"
      using \<open>int k < _\<close> assms(1) by (intro mult_right_mono) (simp_all add: ceil_parts_def)
    moreover have "0 < cells mod t" using False pos_mod_sign [OF assms(1), of cells] by linarith
    ultimately show ?thesis using div_mult_mod_eq [of cells t] by linarith
  qed
  then show ?thesis using assms(1) by simp
qed

section \<open>The tiles\<close>

lemma those_map: "those (map f xs) = Some ys \<longleftrightarrow> map f xs = map Some ys"
proof (induction xs arbitrary: ys)
  case (Cons x xs)
  show ?case
  proof (cases "f x")
    case None
    then show ?thesis by (cases ys) simp_all
  next
    case (Some y)
    show ?thesis
    proof (cases ys)
      case Nil
      then show ?thesis using Some by (simp split: option.splits)
    next
      case (Cons z zs)
      then show ?thesis using Some Cons.IH [of zs] by (auto split: option.splits)
    qed
  qed
qed (simp add: eq_commute)

lemma tile_indices_set: "set (tile_indices nx ny nz) = {..< nx} \<times> {..< ny} \<times> {..< nz}"
  unfolding tile_indices_def by (fastforce simp: image_iff)

lemma distinct_product_concat:
  "distinct xs \<Longrightarrow> (\<And>x. x \<in> set xs \<Longrightarrow> distinct (f x)) \<Longrightarrow>
   (\<And>x y a. x \<in> set xs \<Longrightarrow> y \<in> set xs \<Longrightarrow> a \<in> set (f x) \<Longrightarrow> a \<in> set (f y) \<Longrightarrow> x = y) \<Longrightarrow> distinct (concat (map f xs))"
  by (induction xs) (auto; blast)+

lemma tile_indices_distinct: "distinct (tile_indices nx ny nz)"
  unfolding tile_indices_def
  by (intro distinct_product_concat) (auto simp: distinct_map inj_on_def)

lemma length_filter_map:
  "distinct xs \<Longrightarrow> length (filter P (map f xs)) = card {k \<in> set xs. P (f k)}"
  by (simp add: filter_map distinct_length_filter Int_def conj_commute)

lemma tile_count:
  assumes t: "positive3 target" and p: "positive3 (mp_cells patch)"
  defines "nx \<equiv> nat (ceil_parts (x3 (mp_cells patch)) (x3 target))"
    and "ny \<equiv> nat (ceil_parts (y3 (mp_cells patch)) (y3 target))"
    and "nz \<equiv> nat (ceil_parts (z3 (mp_cells patch)) (z3 target))"
  assumes ts: "map (tile_at patch target) (tile_indices nx ny nz) = map Some tiles"
  shows "length (filter (\<lambda>t. in_box (ct_begin t) (ct_cells t) i) tiles) =
    (if in_box (mp_begin patch) (mp_cells patch) i then 1 else 0)"
proof -
  let ?b = "mp_begin patch" and ?c = "mp_cells patch"
  let ?hit = "\<lambda>b c t n i. {k. k < n \<and> b + int k * t \<le> i \<and> i < b + int k * t + min t (c - int k * t)}"
  let ?X = "?hit (x3 ?b) (x3 ?c) (x3 target) nx (x3 i)" and ?Y = "?hit (y3 ?b) (y3 ?c) (y3 target) ny (y3 i)"
    and ?Z = "?hit (z3 ?b) (z3 ?c) (z3 target) nz (z3 i)"
  let ?T = "\<lambda>k. the (tile_at patch target k)"
  have tiles: "tiles = map ?T (tile_indices nx ny nz)"
  proof -
    have "map the (map (tile_at patch target) (tile_indices nx ny nz)) = map the (map Some tiles)" by (simp only: ts)
    then show ?thesis by (simp add: comp_def)
  qed
  have some: "tile_at patch target k \<noteq> None" if "k \<in> set (tile_indices nx ny nz)" for k
  proof -
    have "tile_at patch target k \<in> set (map (tile_at patch target) (tile_indices nx ny nz))" using that by simp
    then show ?thesis unfolding ts by auto
  qed
  have "{k \<in> set (tile_indices nx ny nz). in_box (ct_begin (?T k)) (ct_cells (?T k)) i} = ?X \<times> ?Y \<times> ?Z"
  proof -
    have "in_box (ct_begin (?T (jx, jy, jz))) (ct_cells (?T (jx, jy, jz))) i \<longleftrightarrow> jx \<in> ?X \<and> jy \<in> ?Y \<and> jz \<in> ?Z"
      if "(jx, jy, jz) \<in> set (tile_indices nx ny nz)" for jx jy jz
      using some [OF that] that
      by (simp add: tile_at_def Let_def tile_indices_set in_box_def split: if_splits)
    then show ?thesis by (auto simp: tile_indices_set)
  qed
  then have "length (filter (\<lambda>t. in_box (ct_begin t) (ct_cells t) i) tiles) = card (?X \<times> ?Y \<times> ?Z)"
    unfolding tiles length_filter_map [OF tile_indices_distinct] by (rule arg_cong [where f = card])
  also have "\<dots> = card ?X * (card ?Y * card ?Z)" by (simp only: card_cartesian_product)
  also have "\<dots> = (if in_box ?b ?c i then 1 else 0)"
  proof -
    have "0 < x3 target" "0 < y3 target" "0 < z3 target" "0 < x3 ?c" "0 < y3 ?c" "0 < z3 ?c"
      using t p by (simp_all add: positive3_def)
    then have "card ?X = (if x3 ?b \<le> x3 i \<and> x3 i < x3 ?b + x3 ?c then 1 else 0)"
      "card ?Y = (if y3 ?b \<le> y3 i \<and> y3 i < y3 ?b + y3 ?c then 1 else 0)"
      "card ?Z = (if z3 ?b \<le> z3 i \<and> z3 i < z3 ?b + z3 ?c then 1 else 0)"
      unfolding nx_def ny_def nz_def by - (rule axis_card; assumption)+
    then show ?thesis by (simp add: in_box_def)
  qed
  finally show ?thesis .
qed

section \<open>When the tiles are built, and what they are\<close>

lemma count_word:
  fixes nx ny nz :: u64
  assumes "unat nx < 2 ^ 31" "unat ny < 2 ^ 31" "0 < unat ny" "0 < unat nz"
  shows "(nx > u64_max div ny \<or> nx * ny > u64_max div nz) = (2 ^ 64 \<le> unat nx * unat ny * unat nz)"
    and "unat nx * unat ny * unat nz < 2 ^ 64 \<Longrightarrow> unat (nx * ny * nz) = unat nx * unat ny * unat nz"
proof -
  have xy: "unat nx * unat ny < 2 ^ 62" using product_bound [OF assms(1,2)] by simp
  have u: "unat (nx * ny) = unat nx * unat ny" by (rule unat_area [OF assms(1,2)])
  have "\<not> nx > u64_max div ny"
  proof -
    have "unat nx \<le> (2 ^ 64 - 1) div unat ny" using xy assms(3) by (simp add: less_eq_div_iff_mult_less_eq)
    then show ?thesis by (simp add: word_less_nat_alt unat_div)
  qed
  moreover have "nx * ny > u64_max div nz \<longleftrightarrow> \<not> unat nx * unat ny \<le> (2 ^ 64 - 1) div unat nz"
    by (simp add: word_less_nat_alt unat_div u not_le)
  moreover have "unat nx * unat ny \<le> (2 ^ 64 - 1) div unat nz \<longleftrightarrow> unat nx * unat ny * unat nz \<le> 2 ^ 64 - 1"
    by (rule less_eq_div_iff_mult_less_eq [OF assms(4)])
  ultimately show "(nx > u64_max div ny \<or> nx * ny > u64_max div nz) = (2 ^ 64 \<le> unat nx * unat ny * unat nz)" by auto
  assume "unat nx * unat ny * unat nz < 2 ^ 64"
  then show "unat (nx * ny * nz) = unat nx * unat ny * unat nz" by (simp add: unat_word_ariths(2) [of "nx * ny" nz] u)
qed

lemma those_none: "those (map f xs) = None \<longleftrightarrow> (\<exists>x \<in> set xs. f x = None)"
  by (induction xs) (auto split: option.splits)

lemma tile_at_some:
  assumes "positive3 target" "positive3 (mp_cells patch)"
    and "x3 (mp_begin patch) + x3 (mp_cells patch) \<le> 2 ^ 31" "y3 (mp_begin patch) + y3 (mp_cells patch) \<le> 2 ^ 31"
    "z3 (mp_begin patch) + z3 (mp_cells patch) \<le> 2 ^ 31"
    and "(ix, iy, iz) \<in> set (tile_indices (nat (ceil_parts (x3 (mp_cells patch)) (x3 target)))
      (nat (ceil_parts (y3 (mp_cells patch)) (y3 target))) (nat (ceil_parts (z3 (mp_cells patch)) (z3 target))))"
  shows "\<exists>t. tile_at patch target (ix, iy, iz) = Some t \<and> positive3 (ct_cells t) \<and>
    x3 (ct_cells t) \<le> x3 target \<and> y3 (ct_cells t) \<le> y3 target \<and> z3 (ct_cells t) \<le> z3 target"
proof -
  have p: "0 < x3 target" "0 < y3 target" "0 < z3 target" "0 < x3 (mp_cells patch)" "0 < y3 (mp_cells patch)"
    "0 < z3 (mp_cells patch)" using assms(1,2) by (simp_all add: positive3_def)
  have i: "ix < nat (ceil_parts (x3 (mp_cells patch)) (x3 target))" "iy < nat (ceil_parts (y3 (mp_cells patch)) (y3 target))"
    "iz < nat (ceil_parts (z3 (mp_cells patch)) (z3 target))" using assms(6) by (simp_all add: tile_indices_set)
  have "int ix * x3 target < x3 (mp_cells patch)" "int iy * y3 target < y3 (mp_cells patch)"
    "int iz * z3 target < z3 (mp_cells patch)"
    using axis_start [OF p(1,4) i(1)] axis_start [OF p(2,5) i(2)] axis_start [OF p(3,6) i(3)] by simp_all
  then show ?thesis using p assms(3-5) by (simp add: tile_at_def Let_def int32_max_def positive3_def)
qed

definition patch_admissible :: "mesh_patch \<Rightarrow> int3 \<Rightarrow> bool" where
  "patch_admissible patch target \<longleftrightarrow>
     positive3 (mp_cells patch) \<and> positive3 target \<and>
     0 \<le> x3 (mp_begin patch) \<and> 0 \<le> y3 (mp_begin patch) \<and> 0 \<le> z3 (mp_begin patch) \<and>
     x3 (mp_begin patch) + x3 (mp_cells patch) \<le> 2 ^ 31 \<and> y3 (mp_begin patch) + y3 (mp_cells patch) \<le> 2 ^ 31 \<and>
     z3 (mp_begin patch) + z3 (mp_cells patch) \<le> 2 ^ 31"

definition count_of_tiles :: "mesh_patch \<Rightarrow> int3 \<Rightarrow> int" where
  "count_of_tiles patch target =
     ceil_parts (x3 (mp_cells patch)) (x3 target) * ceil_parts (y3 (mp_cells patch)) (y3 target) *
     ceil_parts (z3 (mp_cells patch)) (z3 target)"

definition tiles_admissible :: "(nat \<Rightarrow> reservation) \<Rightarrow> mesh_patch \<Rightarrow> int3 \<Rightarrow> bool" where
  "tiles_admissible reserve patch target \<longleftrightarrow> patch_admissible patch target \<and>
     count_of_tiles patch target < 2 ^ 64 \<and> reserve (nat (count_of_tiles patch target)) = Reserved"

definition tiles_cover :: "mesh_patch \<Rightarrow> int3 \<Rightarrow> cpu_tile list \<Rightarrow> bool" where
  "tiles_cover patch target tiles \<longleftrightarrow>
     (\<forall>i. length (filter (\<lambda>t. in_box (ct_begin t) (ct_cells t) i) tiles) =
       (if in_box (mp_begin patch) (mp_cells patch) i then 1 else 0)) \<and>
     (\<forall>t \<in> set tiles. positive3 (ct_cells t) \<and>
       x3 (ct_cells t) \<le> x3 target \<and> y3 (ct_cells t) \<le> y3 target \<and> z3 (ct_cells t) \<le> z3 target)"

lemma build_misfit:
  "\<not> patch_admissible patch target \<Longrightarrow> build_cpu_tiles reserve patch target = Inl (failed Invalid_plan 203)"
  by (auto simp: build_cpu_tiles_def Let_def patch_end_valid_def int32_max_def patch_admissible_def)

lemma tiles_built:
  assumes "patch_admissible patch target"
  shows "\<exists>tiles. tiles_cover patch target tiles \<and>
    those (map (tile_at patch target) (tile_indices (nat (ceil_parts (x3 (mp_cells patch)) (x3 target)))
      (nat (ceil_parts (y3 (mp_cells patch)) (y3 target))) (nat (ceil_parts (z3 (mp_cells patch)) (z3 target))))) = Some tiles"
proof -
  define ixs where "ixs = tile_indices (nat (ceil_parts (x3 (mp_cells patch)) (x3 target)))
      (nat (ceil_parts (y3 (mp_cells patch)) (y3 target))) (nat (ceil_parts (z3 (mp_cells patch)) (z3 target)))"
  note a = assms [unfolded patch_admissible_def]
  let ?good = "\<lambda>t. positive3 (ct_cells t) \<and> x3 (ct_cells t) \<le> x3 target \<and> y3 (ct_cells t) \<le> y3 target \<and>
      z3 (ct_cells t) \<le> z3 target"
  have some: "\<exists>t. tile_at patch target k = Some t \<and> ?good t" if "k \<in> set ixs" for k
    using tile_at_some [of target patch "fst k" "fst (snd k)" "snd (snd k)"] a that unfolding ixs_def by simp
  then have "those (map (tile_at patch target) ixs) \<noteq> None" unfolding those_none by force
  then obtain tiles where t: "those (map (tile_at patch target) ixs) = Some tiles" by blast
  then have m: "map (tile_at patch target) ixs = map Some tiles" by (simp only: those_map)
  have good: "?good x" if "x \<in> set tiles" for x
  proof -
    have "Some x \<in> set (map (tile_at patch target) ixs)" using that unfolding m by simp
    then obtain k where "k \<in> set ixs" "tile_at patch target k = Some x" by auto
    with some show ?thesis by (metis option.inject)
  qed
  have "positive3 target" "positive3 (mp_cells patch)" using a by simp_all
  note tile_count [OF this m [unfolded ixs_def]]
  with good have "tiles_cover patch target tiles" unfolding tiles_cover_def by blast
  with t show ?thesis unfolding ixs_def by blast
qed

lemma build_admissible:
  assumes "patch_admissible patch target" "small_patch patch" "x3 target < 2 ^ 31" "y3 target < 2 ^ 31" "z3 target < 2 ^ 31"
  shows "\<exists>tiles. tiles_cover patch target tiles \<and> build_cpu_tiles reserve patch target =
    (if 2 ^ 64 \<le> count_of_tiles patch target then Inl (failed Invalid_plan 203)
     else case reserve (nat (count_of_tiles patch target)) of Bad_alloc \<Rightarrow> Inl (failed Allocation_failure 0)
       | Other_exception \<Rightarrow> Inl (failed Invalid_plan 203) | Reserved \<Rightarrow> Inr tiles)"
proof -
  let ?c = "mp_cells patch"
  note a = assms(1) [unfolded patch_admissible_def positive3_def] and lt = assms(2) [unfolded small_patch_def]
  let ?px = "ceil_parts (x3 ?c) (x3 target)" and ?py = "ceil_parts (y3 ?c) (y3 target)" and ?pz = "ceil_parts (z3 ?c) (z3 target)"
  let ?nx = "ceil_div (x3 ?c) (x3 target)" and ?ny = "ceil_div (y3 ?c) (y3 target)" and ?nz = "ceil_div (z3 ?c) (z3 target)"
  have u: "unat ?nx = nat ?px" "unat ?ny = nat ?py" "unat ?nz = nat ?pz"
    using a lt assms(3-5) by (simp_all add: unat_ceil_div)
  have b: "0 < ?px" "?px \<le> x3 ?c" "0 < ?py" "?py \<le> y3 ?c" "0 < ?pz" "?pz \<le> z3 ?c"
    using a by (simp_all add: ceil_parts_bounds)
  have "?px < 2 ^ 31" "?py < 2 ^ 31" using b lt by linarith+
  then have w: "unat ?nx < 2 ^ 31" "unat ?ny < 2 ^ 31" "0 < unat ?ny" "0 < unat ?nz" using b unfolding u by simp_all
  have prod: "unat ?nx * unat ?ny * unat ?nz = nat (count_of_tiles patch target)"
    unfolding u count_of_tiles_def using b by (simp add: nat_mult_distrib)
  have le: "2 ^ 64 \<le> nat (count_of_tiles patch target) \<longleftrightarrow> 2 ^ 64 \<le> count_of_tiles patch target"
    by (cases "0 \<le> count_of_tiles patch target") (simp_all add: le_nat_iff)
  obtain tiles where t: "tiles_cover patch target tiles"
    "those (map (tile_at patch target) (tile_indices (nat ?px) (nat ?py) (nat ?pz))) = Some tiles"
    using tiles_built [OF assms(1)] by blast
  have "\<not> (\<not> positive3 ?c \<or> \<not> positive3 target \<or> x3 (mp_begin patch) < 0 \<or> y3 (mp_begin patch) < 0 \<or> z3 (mp_begin patch) < 0)"
    "\<not> (\<not> patch_end_valid (x3 (mp_begin patch)) (x3 ?c) \<or> \<not> patch_end_valid (y3 (mp_begin patch)) (y3 ?c) \<or>
      \<not> patch_end_valid (z3 (mp_begin patch)) (z3 ?c))"
    using assms(1) by (auto simp: patch_end_valid_def int32_max_def patch_admissible_def)
  note guards = this [THEN if_not_P]
  have cw: "(?nx > u64_max div ?ny \<or> ?nx * ?ny > u64_max div ?nz) = (2 ^ 64 \<le> count_of_tiles patch target)"
    unfolding count_word(1) [OF w] prod le ..
  have "build_cpu_tiles reserve patch target =
    (if 2 ^ 64 \<le> count_of_tiles patch target then Inl (failed Invalid_plan 203)
     else case reserve (unat (?nx * ?ny * ?nz)) of Bad_alloc \<Rightarrow> Inl (failed Allocation_failure 0)
       | Other_exception \<Rightarrow> Inl (failed Invalid_plan 203) | Reserved \<Rightarrow> Inr tiles)"
    unfolding build_cpu_tiles_def Let_def guards cw u t(2) option.case ..
  moreover have "unat (?nx * ?ny * ?nz) = nat (count_of_tiles patch target)" if "\<not> 2 ^ 64 \<le> count_of_tiles patch target"
    using count_word(2) [OF w] that le unfolding prod by (simp add: not_le)
  ultimately show ?thesis using t(1) by (auto split: if_splits)
qed

text \<open>
  C32. A patch is cut into tiles exactly when its extents and the target are positive, the patch ends
  inside the 32-bit range, the number of tiles fits 64 bits and their storage is granted; then each cell
  of the patch lies in exactly one tile of the list, no tile reaches outside the patch, and no tile is
  empty or larger than the target.
\<close>

theorem tiles_partition:
  assumes "small_patch patch" "x3 target < 2 ^ 31" "y3 target < 2 ^ 31" "z3 target < 2 ^ 31"
  shows "case build_cpu_tiles reserve patch target of
      Inl s \<Rightarrow> \<not> is_ok s \<and> \<not> tiles_admissible reserve patch target
    | Inr tiles \<Rightarrow> tiles_admissible reserve patch target \<and> tiles_cover patch target tiles"
proof (cases "patch_admissible patch target")
  case False
  then show ?thesis by (simp add: build_misfit tiles_admissible_def)
next
  case True
  from build_admissible [OF this assms, of reserve] obtain tiles where "tiles_cover patch target tiles"
    and b: "build_cpu_tiles reserve patch target =
      (if 2 ^ 64 \<le> count_of_tiles patch target then Inl (failed Invalid_plan 203)
       else case reserve (nat (count_of_tiles patch target)) of Bad_alloc \<Rightarrow> Inl (failed Allocation_failure 0)
         | Other_exception \<Rightarrow> Inl (failed Invalid_plan 203) | Reserved \<Rightarrow> Inr tiles)"
    by blast
  then show ?thesis unfolding b tiles_admissible_def
    by (cases "reserve (nat (count_of_tiles patch target))") (simp_all add: True)
qed

theorem tiles_partition_witness:
  "let patch = \<lparr>mp_begin = \<lparr>x3 = 1, y3 = 0, z3 = 2\<rparr>, mp_cells = \<lparr>x3 = 5, y3 = 2, z3 = 1\<rparr>,
       mp_grid = \<lparr>x3 = 1, y3 = 1, z3 = 1\<rparr>, mp_coord = origin\<rparr>; target = \<lparr>x3 = 2, y3 = 2, z3 = 2\<rparr> in
   \<exists>tiles. build_cpu_tiles (\<lambda>n. if n = 3 then Reserved else Bad_alloc) patch target = Inr tiles \<and> length tiles = 3 \<and>
     tiles_cover patch target tiles"
proof -
  let ?p = "\<lparr>mp_begin = \<lparr>x3 = 1, y3 = 0, z3 = 2\<rparr>, mp_cells = \<lparr>x3 = 5, y3 = 2, z3 = 1\<rparr>,
       mp_grid = \<lparr>x3 = 1, y3 = 1, z3 = 1\<rparr>, mp_coord = origin\<rparr>" and ?t = "\<lparr>x3 = 2, y3 = 2, z3 = 2\<rparr>"
  let ?r = "\<lambda>n. if n = 3 then Reserved else Bad_alloc"
  have s: "small_patch ?p" "x3 ?t < 2 ^ 31" "y3 ?t < 2 ^ 31" "z3 ?t < 2 ^ 31" by (simp_all add: small_patch_def)
  have "case build_cpu_tiles ?r ?p ?t of Inl _ \<Rightarrow> False | Inr tiles \<Rightarrow> length tiles = 3" by code_simp
  then obtain tiles where "build_cpu_tiles ?r ?p ?t = Inr tiles" "length tiles = 3" by (auto split: sum.splits)
  with tiles_partition [OF s, of ?r] show ?thesis unfolding Let_def by simp
qed

end
