(* ===== verification/Buffers.thy ===== *)
theory Buffers
  imports Prelude
begin

text \<open>
  Blocks of a buffer: writing words at a position, reading a block, and the facts on blocks that do not
  meet. The exchange of segments and the halo exchange lay their messages out this way.
\<close>

section \<open>Writing and reading\<close>

definition write_words :: "'a list \<Rightarrow> nat \<Rightarrow> 'a list \<Rightarrow> 'a list" where
  "write_words buffer position ws = take position buffer @ ws @ drop (position + length ws) buffer"

definition block :: "'a list \<Rightarrow> nat \<Rightarrow> nat \<Rightarrow> 'a list" where
  "block buffer start extent = take extent (drop start buffer)"

lemma length_write [simp]:
  "position + length ws \<le> length buffer \<Longrightarrow> length (write_words buffer position ws) = length buffer"
  by (simp add: write_words_def)

lemma block_write_apart:
  assumes "position + length ws \<le> length buffer" "start + extent \<le> position \<or> position + length ws \<le> start"
  shows "block (write_words buffer position ws) start extent = block buffer start extent"
proof (cases "start + extent \<le> position")
  case True
  then have "block (write_words buffer position ws) start extent = take extent (drop start (take position buffer))"
    using assms(1) by (simp add: block_def write_words_def)
  also have "\<dots> = block buffer start extent" using True by (simp add: block_def drop_take min_absorb1)
  finally show ?thesis .
next
  case False
  with assms(2) have "position + length ws \<le> start" by simp
  then show ?thesis using assms(1) by (simp add: block_def write_words_def)
qed

lemma block_write_extend:
  assumes "start + extent + length ws \<le> length buffer"
  shows "block (write_words buffer (start + extent) ws) start (extent + length ws) = block buffer start extent @ ws"
  using assms by (simp add: block_def write_words_def drop_take)

lemma concat_blocks:
  assumes "\<forall>r < n. block words (off r) (extent r) = xs r" "\<forall>r < n. length (xs r) = extent r"
    and "\<forall>r < n. off r = sum_list (map extent [0..<r])"
  shows "take (sum_list (map extent [0..<n])) words = concat (map xs [0..<n])"
  using assms
proof (induction n)
  case (Suc n)
  let ?s = "sum_list (map extent [0..<n])"
  have "take ?s words = concat (map xs [0..<n])" using Suc by simp
  moreover have "take (extent n) (drop ?s words) = xs n" using Suc.prems by (simp add: block_def)
  ultimately show ?case by (simp add: take_add)
qed simp

section \<open>Blocks one after the other\<close>

text \<open>Writing a list of blocks, each behind the one before, keeps every block.\<close>

definition write_blocks :: "(nat \<times> 'a list) list \<Rightarrow> 'a list \<Rightarrow> 'a list" where
  "write_blocks bs buffer = fold (\<lambda>(position, ws) b. write_words b position ws) bs buffer"

definition in_order :: "(nat \<times> 'a list) list \<Rightarrow> bool" where
  "in_order bs \<longleftrightarrow> sorted_wrt (\<lambda>a b. fst a + length (snd a) \<le> fst b) bs"

lemma write_blocks_keeps:
  assumes "\<forall>(position, ws) \<in> set bs. position + length ws \<le> length buffer"
  shows "length (write_blocks bs buffer) = length buffer"
    and "\<forall>(position, ws) \<in> set bs. start + n \<le> position \<or> position + length ws \<le> start \<Longrightarrow>
      block (write_blocks bs buffer) start n = block buffer start n"
  using assms
proof (induction bs arbitrary: buffer)
  case (Cons b bs)
  {
    case 1
    then show ?case using Cons.IH(1) [of "write_words buffer (fst b) (snd b)"] by (auto simp: write_blocks_def split_beta)
  next
    case 2
    then show ?case using Cons.IH(2) [of "write_words buffer (fst b) (snd b)"]
      by (auto simp: write_blocks_def split_beta block_write_apart)
  }
qed (simp_all add: write_blocks_def)

lemma write_blocks_block:
  assumes "in_order bs" "\<forall>(position, ws) \<in> set bs. position + length ws \<le> length buffer" "(position, ws) \<in> set bs"
  shows "block (write_blocks bs buffer) position (length ws) = ws"
  using assms
proof (induction bs arbitrary: buffer)
  case (Cons b bs)
  let ?w = "write_words buffer (fst b) (snd b)"
  have l: "fst b + length (snd b) \<le> length buffer" using Cons.prems(2) by (simp add: split_beta)
  then have r: "\<forall>(position, ws) \<in> set bs. position + length ws \<le> length ?w" using Cons.prems(2) by auto
  have w: "write_blocks (b # bs) buffer = write_blocks bs ?w" by (simp add: write_blocks_def split_beta)
  show ?case
  proof (cases "(position, ws) \<in> set bs")
    case True
    then show ?thesis using Cons.IH [of ?w] Cons.prems(1) r unfolding w by (simp add: in_order_def)
  next
    case False
    then have b: "b = (position, ws)" using Cons.prems(3) by simp
    have "block (write_blocks bs ?w) position (length ws) = block ?w position (length ws)"
      using r Cons.prems(1) b by (intro write_blocks_keeps(2)) (auto simp: in_order_def)
    also have "\<dots> = ws" using block_write_extend [of position 0 ws buffer] l b by (simp add: block_def)
    finally show ?thesis unfolding w .
  qed
qed simp

lemma nth_block: "position + n \<le> length buffer \<Longrightarrow> x < n \<Longrightarrow> block buffer position n ! x = buffer ! (position + x)"
  by (simp add: block_def)

lemma length_block: "position + n \<le> length buffer \<Longrightarrow> length (block buffer position n) = n"
  by (simp add: block_def)

lemma block_block: "position + n \<le> k \<Longrightarrow> block (block buffer start k) position n = block buffer (start + position) n"
  by (simp add: block_def drop_take ac_simps)

section \<open>Stacked blocks\<close>

text \<open>Blocks without a gap, from a position on.\<close>

fun stacked :: "nat \<Rightarrow> (nat \<times> 'a list) list \<Rightarrow> bool" where
  "stacked start [] \<longleftrightarrow> True"
| "stacked start (b # bs) \<longleftrightarrow> fst b = start \<and> stacked (start + length (snd b)) bs"

definition stack_size :: "(nat \<times> 'a list) list \<Rightarrow> nat" where
  "stack_size bs = sum_list (map (length \<circ> snd) bs)"

lemma stacked_append: "stacked start (xs @ ys) \<longleftrightarrow> stacked start xs \<and> stacked (start + stack_size xs) ys"
  by (induction xs arbitrary: start) (auto simp: stack_size_def add.assoc)

lemma stack_size_append [simp]: "stack_size (xs @ ys) = stack_size xs + stack_size ys"
  by (simp add: stack_size_def)

lemma stacked_inside:
  "stacked start bs \<Longrightarrow> (position, ws) \<in> set bs \<Longrightarrow> start \<le> position \<and> position + length ws \<le> start + stack_size bs"
proof (induction bs arbitrary: start)
  case (Cons b bs)
  show ?case
  proof (cases "(position, ws) = b")
    case True
    then show ?thesis using Cons.prems(1) by (auto simp: stack_size_def)
  next
    case False
    then have "(position, ws) \<in> set bs" using Cons.prems(2) by simp
    then have "start + length (snd b) \<le> position \<and> position + length ws \<le> start + length (snd b) + stack_size bs"
      using Cons.prems(1) by (intro Cons.IH) simp_all
    then show ?thesis by (simp add: stack_size_def)
  qed
qed simp

lemma stacked_in_order: "stacked start bs \<Longrightarrow> in_order bs"
proof (induction bs arbitrary: start)
  case (Cons b bs)
  then have "in_order bs" "stacked (start + length (snd b)) bs" "fst b = start" by auto
  moreover have "fst b + length (snd b) \<le> position" if "(position, ws) \<in> set bs" for position ws
    using stacked_inside [OF \<open>stacked (start + length (snd b)) bs\<close> that] \<open>fst b = start\<close> by simp
  ultimately show ?case by (auto simp: in_order_def)
qed (simp add: in_order_def)

lemma stacked_offsets:
  assumes "\<forall>j < length bs. fst (bs ! j) = start + sum_list (map (length \<circ> snd) (take j bs))"
  shows "stacked start bs"
  using assms
proof (induction bs arbitrary: start)
  case (Cons b bs)
  have "fst b = start" using Cons.prems by fastforce
  moreover have "fst (bs ! j) = start + length (snd b) + sum_list (map (length \<circ> snd) (take j bs))" if "j < length bs" for j
    using Cons.prems [rule_format, of "Suc j"] that by simp
  then have "stacked (start + length (snd b)) bs" by (intro Cons.IH) blast
  ultimately show ?case by simp
qed simp

lemma stacked_concat:
  assumes "\<forall>k < length bss. stacked (start k) (bss ! k) \<and> start (Suc k) = start k + stack_size (bss ! k)"
  shows "stacked (start 0) (concat bss) \<and> start (length bss) = start 0 + stack_size (concat bss)"
  using assms
proof (induction bss rule: rev_induct)
  case (snoc bs bss)
  have "stacked (start k) (bss ! k) \<and> start (Suc k) = start k + stack_size (bss ! k)" if "k < length bss" for k
    using snoc.prems [rule_format, of k] that by (simp add: nth_append)
  moreover have "stacked (start (length bss)) bs \<and> start (Suc (length bss)) = start (length bss) + stack_size bs"
    using snoc.prems [rule_format, of "length bss"] by simp
  ultimately show ?case using snoc.IH by (simp add: stacked_append)
qed (simp add: stack_size_def)

text \<open>Writing stacked blocks into a buffer that holds them.\<close>

lemma write_stacked:
  assumes "stacked start bs" "start + stack_size bs \<le> length buffer"
  shows "length (write_blocks bs buffer) = length buffer \<and>
    (\<forall>(position, ws) \<in> set bs. block (write_blocks bs buffer) position (length ws) = ws)"
proof -
  have i: "\<forall>(position, ws) \<in> set bs. position + length ws \<le> length buffer"
    using stacked_inside [OF assms(1)] assms(2) by fastforce
  then show ?thesis using write_blocks_keeps(1) [OF i] write_blocks_block [OF stacked_in_order [OF assms(1)] i] by auto
qed

end
