(* ===== verification/Exchange_Owner.thy ===== *)
theory Exchange_Owner
  imports Mesh_Patch Buffers
begin

text \<open>
  \<^verbatim>\<open>models_exchange_owner.cpp\<close>: the routing plan that carries exchange segments between the ranks.
  A segment is audited on a rank its parcel selects and then delivered to the rank that owns its cell.
  The code moves a \<^verbatim>\<open>double\<close> by its bits only, tests whether it is finite and compares it, all of which
  is read off the bits; the one sum of weights, a \<^verbatim>\<open>long double\<close>, is the argument \<open>sum_ok\<close>. What MPI
  answers to a call is an argument: a function of what the rank passes in, \<open>None\<close> when the call fails.
\<close>

section \<open>Segments\<close>

type_synonym double_bits = u64

text \<open>An enumeration over \<^verbatim>\<open>std::uint8_t\<close>: every byte is a value of it.\<close>

type_synonym exchange_channel = u8

definition interphase :: exchange_channel where "interphase = 0"
definition external :: exchange_channel where "external = 3"

record exchange_revision =
  er_step :: u64
  er_input :: u64
  er_version :: u32

record parcel_id =
  pi_high :: u64
  pi_low :: u64

record parcel_budget =
  pb_mass :: double_bits
  pb_momentum_x :: double_bits
  pb_momentum_y :: double_bits
  pb_momentum_z :: double_bits
  pb_enthalpy :: double_bits
  pb_kinetic :: double_bits
  pb_thermal :: double_bits

record exchange_segment =
  sg_revision :: exchange_revision
  sg_cell :: u64
  sg_parcel :: parcel_id
  sg_ordinal :: u64
  sg_weight :: double_bits
  sg_channel :: exchange_channel
  sg_delta :: parcel_budget
  sg_species :: u64

definition lanes :: nat where "lanes = 17"

definition encode_segment :: "exchange_segment \<Rightarrow> u64 list" where
  "encode_segment s =
     [er_step (sg_revision s), er_input (sg_revision s), ucast (er_version (sg_revision s)), sg_cell s,
      pi_high (sg_parcel s), pi_low (sg_parcel s), sg_ordinal s, sg_weight s, ucast (sg_channel s),
      pb_mass (sg_delta s), pb_momentum_x (sg_delta s), pb_momentum_y (sg_delta s), pb_momentum_z (sg_delta s),
      pb_enthalpy (sg_delta s), pb_kinetic (sg_delta s), pb_thermal (sg_delta s), sg_species s]"

definition decode_segment :: "u64 list \<Rightarrow> exchange_segment" where
  "decode_segment w =
     \<lparr>sg_revision = \<lparr>er_step = w ! 0, er_input = w ! 1, er_version = ucast (w ! 2)\<rparr>, sg_cell = w ! 3,
      sg_parcel = \<lparr>pi_high = w ! 4, pi_low = w ! 5\<rparr>, sg_ordinal = w ! 6, sg_weight = w ! 7, sg_channel = ucast (w ! 8),
      sg_delta = \<lparr>pb_mass = w ! 9, pb_momentum_x = w ! 10, pb_momentum_y = w ! 11, pb_momentum_z = w ! 12,
        pb_enthalpy = w ! 13, pb_kinetic = w ! 14, pb_thermal = w ! 15\<rparr>, sg_species = w ! 16\<rparr>"

definition segment_key :: "exchange_segment \<Rightarrow> u64 \<times> u64 \<times> u64" where
  "segment_key s = (pi_high (sg_parcel s), pi_low (sg_parcel s), sg_ordinal s)"

section \<open>Tests on the bits of a double\<close>

definition finite_bits :: "double_bits \<Rightarrow> bool" where
  "finite_bits w \<longleftrightarrow> drop_bit 52 w AND 0x7FF \<noteq> 0x7FF"

definition nan_bits :: "double_bits \<Rightarrow> bool" where
  "nan_bits w \<longleftrightarrow> drop_bit 52 w AND 0x7FF = 0x7FF \<and> w AND 0xFFFFFFFFFFFFF \<noteq> 0"

definition zero_bits :: "double_bits \<Rightarrow> bool" where
  "zero_bits w \<longleftrightarrow> w = 0 \<or> w = 0x8000000000000000"

definition one_bits :: double_bits where "one_bits = 0x3FF0000000000000"

definition equal_bits :: "double_bits \<Rightarrow> double_bits \<Rightarrow> bool" where
  "equal_bits a b \<longleftrightarrow> \<not> nan_bits a \<and> \<not> nan_bits b \<and> (a = b \<or> zero_bits a \<and> zero_bits b)"

text \<open>Finite doubles with the sign bit clear are ordered as their bits.\<close>

definition not_positive_bits :: "double_bits \<Rightarrow> bool" where
  "not_positive_bits w \<longleftrightarrow> w = 0 \<or> 0x8000000000000000 \<le> w"

definition above_one_bits :: "double_bits \<Rightarrow> bool" where
  "above_one_bits w \<longleftrightarrow> w < 0x8000000000000000 \<and> one_bits < w"

definition same_budget :: "exchange_segment \<Rightarrow> exchange_segment \<Rightarrow> bool" where
  "same_budget a b \<longleftrightarrow>
     sg_channel a = sg_channel b \<and> sg_species a = sg_species b \<and>
     equal_bits (pb_mass (sg_delta a)) (pb_mass (sg_delta b)) \<and>
     equal_bits (pb_momentum_x (sg_delta a)) (pb_momentum_x (sg_delta b)) \<and>
     equal_bits (pb_momentum_y (sg_delta a)) (pb_momentum_y (sg_delta b)) \<and>
     equal_bits (pb_momentum_z (sg_delta a)) (pb_momentum_z (sg_delta b)) \<and>
     equal_bits (pb_enthalpy (sg_delta a)) (pb_enthalpy (sg_delta b)) \<and>
     equal_bits (pb_kinetic (sg_delta a)) (pb_kinetic (sg_delta b)) \<and>
     equal_bits (pb_thermal (sg_delta a)) (pb_thermal (sg_delta b))"

section \<open>Statuses and the plan\<close>

datatype portable_status =
    Success | Invalid_input | Identity_mismatch | Stale_revision | Capacity_exceeded
  | Provider_failure | Unavailable | Conservation_failure | Unnamed_portable u8

fun portable_code :: "portable_status \<Rightarrow> int" where
  "portable_code Success = 0"
| "portable_code Invalid_input = 1"
| "portable_code Identity_mismatch = 2"
| "portable_code Stale_revision = 3"
| "portable_code Capacity_exceeded = 4"
| "portable_code Provider_failure = 5"
| "portable_code Unavailable = 6"
| "portable_code Conservation_failure = 7"
| "portable_code (Unnamed_portable w) = uint w"

definition portable_of_code :: "int \<Rightarrow> portable_status" where
  "portable_of_code c =
     (let b = c mod 256 in
      if b = 0 then Success else if b = 1 then Invalid_input else if b = 2 then Identity_mismatch
      else if b = 3 then Stale_revision else if b = 4 then Capacity_exceeded else if b = 5 then Provider_failure
      else if b = 6 then Unavailable else if b = 7 then Conservation_failure else Unnamed_portable (word_of_int b))"

record routing_plan =
  op_null :: bool
  op_rank :: nat
  op_ranks :: nat
  op_global :: int3
  op_grid :: int3
  op_local_capacity :: nat
  op_audit_capacity :: nat
  op_species :: nat
  op_owned_bytes :: nat
  op_generation :: u64
  op_revision :: exchange_revision
  op_send :: "u64 list"
  op_receive :: "u64 list"
  op_values :: "exchange_segment list"
  op_count :: nat
  op_available :: bool

definition plan_owner :: "routing_plan \<Rightarrow> u64 \<Rightarrow> int" where
  "plan_owner plan cell_id = cell_owner (op_global plan) (op_grid plan) cell_id"

definition auditor :: "routing_plan \<Rightarrow> exchange_segment \<Rightarrow> nat" where
  "auditor plan s =
     (let h = fold (\<lambda>v h. (h XOR v) * 1099511628211)
        [pi_high (sg_parcel s), pi_low (sg_parcel s), sg_ordinal s] (14695981039346656037 :: u64) in
      unat (h mod word_of_nat (op_ranks plan)))"

text \<open>\<^verbatim>\<open>agree\<close>: the status of the lowest failing rank.\<close>

definition int_max :: int where "int_max = 2 ^ 31 - 1"

record agree_answers =
  ag_min :: "int \<Rightarrow> int option"
  ag_bcast :: "int \<Rightarrow> int \<Rightarrow> int option"

definition agree_first :: "nat \<Rightarrow> portable_status \<Rightarrow> int" where
  "agree_first rank local_status = (if local_status = Success then int_max else int rank)"

definition agree :: "agree_answers \<Rightarrow> nat \<Rightarrow> portable_status \<Rightarrow> portable_status" where
  "agree ans rank local_status =
     (case ag_min ans (agree_first rank local_status) of None \<Rightarrow> Provider_failure
      | Some failing \<Rightarrow>
          if failing = int_max then Success
          else (case ag_bcast ans failing (portable_code local_status) of None \<Rightarrow> Provider_failure
            | Some code \<Rightarrow> portable_of_code code))"

section \<open>One exchange\<close>

definition row_target :: "routing_plan \<Rightarrow> bool \<Rightarrow> exchange_segment \<Rightarrow> nat" where
  "row_target plan audit s = (if audit then auditor plan s else nat (plan_owner plan (sg_cell s)))"

definition send_counts :: "routing_plan \<Rightarrow> bool \<Rightarrow> exchange_segment list \<Rightarrow> nat list" where
  "send_counts plan audit input =
     fold (\<lambda>s counts. let t = row_target plan audit s in counts[t := counts ! t + 1]) input (replicate (op_ranks plan) 0)"

record rank_slot =
  rs_send_offset :: nat
  rs_send_count :: nat
  rs_receive_offset :: nat
  rs_receive_count :: nat

text \<open>The loop over the ranks: the slots it fills, the rows to be received, and whether it ran to the end.\<close>

fun place_ranks :: "nat \<Rightarrow> (nat \<times> int) list \<Rightarrow> nat \<Rightarrow> nat \<Rightarrow> rank_slot list \<times> nat \<times> bool" where
  "place_ranks capacity [] sent received = ([], received, True)"
| "place_ranks capacity ((s, c) # rest) sent received =
     (if c < 0 \<or> nat c > capacity - received then ([], received, False)
      else let (slots, total, ok) = place_ranks capacity rest (sent + s) (received + nat c) in
        (\<lparr>rs_send_offset = sent * lanes, rs_send_count = s * lanes, rs_receive_offset = received * lanes,
          rs_receive_count = nat c * lanes\<rparr> # slots, total, ok))"

definition fill_row :: "routing_plan \<Rightarrow> bool \<Rightarrow> exchange_segment \<Rightarrow> u64 list \<times> nat list \<Rightarrow> u64 list \<times> nat list" where
  "fill_row plan audit s = (\<lambda>(buffer, cursor). let t = row_target plan audit s in
     (write_words buffer (cursor ! t) (encode_segment s), cursor[t := cursor ! t + lanes]))"

definition fill_send :: "routing_plan \<Rightarrow> bool \<Rightarrow> exchange_segment list \<Rightarrow> rank_slot list \<Rightarrow> u64 list" where
  "fill_send plan audit input slots = fst (fold (fill_row plan audit) input (op_send plan, map rs_send_offset slots))"

record exchange_answers =
  xa_alltoall :: "nat list \<Rightarrow> int list option"
  xa_agree :: agree_answers
  xa_alltoallv :: "u64 list \<Rightarrow> rank_slot list \<Rightarrow> u64 list \<Rightarrow> u64 list option"

definition exchange_capacity :: "routing_plan \<Rightarrow> bool \<Rightarrow> nat" where
  "exchange_capacity plan audit = (if audit then op_audit_capacity plan else op_local_capacity plan)"

definition exchange_slots :: "routing_plan \<Rightarrow> bool \<Rightarrow> exchange_segment list \<Rightarrow> int list \<Rightarrow> rank_slot list \<times> nat \<times> bool" where
  "exchange_slots plan audit input counts =
     place_ranks (exchange_capacity plan audit) (zip (send_counts plan audit input) counts) 0 0"

definition exchange_local :: "routing_plan \<Rightarrow> bool \<Rightarrow> exchange_segment list \<Rightarrow> int list \<Rightarrow> portable_status" where
  "exchange_local plan audit input counts =
     (if snd (snd (exchange_slots plan audit input counts)) then Success else Capacity_exceeded)"

definition decode_rows :: "u64 list \<Rightarrow> nat \<Rightarrow> exchange_segment list" where
  "decode_rows words received = map (\<lambda>i. decode_segment (take lanes (drop (i * lanes) words))) [0..<received]"

definition exchange :: "routing_plan \<Rightarrow> exchange_segment list \<Rightarrow> bool \<Rightarrow> exchange_answers \<Rightarrow> nat \<Rightarrow>
    portable_status \<times> nat \<times> routing_plan" where
  "exchange plan input audit ans before =
     (case xa_alltoall ans (send_counts plan audit input) of None \<Rightarrow> (Provider_failure, before, plan)
      | Some counts \<Rightarrow>
          let (slots, received, ok) = exchange_slots plan audit input counts; 
              st = agree (xa_agree ans) (op_rank plan) (exchange_local plan audit input counts) in
          if st \<noteq> Success then (st, received, plan)
          else let plan = plan\<lparr>op_send := fill_send plan audit input slots\<rparr> in
            (case xa_alltoallv ans (op_send plan) slots (op_receive plan) of None \<Rightarrow> (Provider_failure, received, plan)
             | Some words \<Rightarrow>
                 (Success, received,
                  plan\<lparr>op_receive := words, op_values := decode_rows words received @ drop received (op_values plan)\<rparr>)))"

section \<open>Preparing the rows of a rank\<close>

definition discard_rows :: "routing_plan \<Rightarrow> routing_plan" where
  "discard_rows plan = plan\<lparr>op_generation := op_generation plan + 1, op_available := False\<rparr>"

definition row_malformed :: "routing_plan \<Rightarrow> exchange_segment \<Rightarrow> bool" where
  "row_malformed plan s \<longleftrightarrow>
     plan_owner plan (sg_cell s) < 0 \<or> (pi_high (sg_parcel s) = 0 \<and> pi_low (sg_parcel s) = 0) \<or>
     \<not> (\<forall>w \<in> set (take 7 (drop 9 (encode_segment s))). finite_bits w) \<or>
     \<not> finite_bits (sg_weight s) \<or> not_positive_bits (sg_weight s) \<or> above_one_bits (sg_weight s) \<or>
     sg_channel s > external \<or> \<not> unat (sg_species s) < op_species plan \<or>
     (sg_channel s \<noteq> interphase \<and> \<not> equal_bits (sg_weight s) one_bits)"

fun check_rows :: "routing_plan \<Rightarrow> exchange_revision \<Rightarrow> exchange_segment list \<Rightarrow> portable_status" where
  "check_rows plan revision [] = Success"
| "check_rows plan revision (s # rest) =
     (if sg_revision s \<noteq> revision then Stale_revision
      else if row_malformed plan s then Invalid_input
      else check_rows plan revision rest)"

definition check_input :: "routing_plan \<Rightarrow> exchange_revision \<Rightarrow> exchange_segment span \<Rightarrow> portable_status" where
  "check_input plan revision input =
     (if span_size input > op_local_capacity plan then Capacity_exceeded
      else if (span_size input \<noteq> 0 \<and> span_null input) \<or> er_version revision \<noteq> 1 \<or> er_input revision = 0
      then Invalid_input
      else check_rows plan revision (span_list input))"

definition audit_order :: "exchange_segment \<Rightarrow> (u64 \<times> u64 \<times> u64) \<times> u64" where
  "audit_order s = (segment_key s, sg_cell s)"

definition route_order :: "exchange_segment \<Rightarrow> u64 \<times> (u64 \<times> u64 \<times> u64)" where
  "route_order s = (sg_cell s, segment_key s)"

text \<open>One parcel segment: every row carries the same budget, and only the weights and cells differ.\<close>

definition group_inconsistent :: "exchange_segment list \<Rightarrow> bool" where
  "group_inconsistent rows \<longleftrightarrow> (\<exists>j \<in> {..< length rows}.
     \<not> same_budget (rows ! 0) (rows ! j) \<or>
     (j > 0 \<and> (sg_cell (rows ! (j - 1)) = sg_cell (rows ! j) \<or> sg_channel (rows ! j) \<noteq> interphase)))"

function audit_groups :: "(double_bits list \<Rightarrow> bool) \<Rightarrow> exchange_segment list \<Rightarrow> portable_status" where
  "audit_groups sum_ok [] = Success"
| "audit_groups sum_ok (s # rest) =
     (let rows = s # takeWhile (\<lambda>t. segment_key s = segment_key t) rest in
      if group_inconsistent rows then Invalid_input
      else if \<not> sum_ok (map sg_weight rows) then Conservation_failure
      else audit_groups sum_ok (dropWhile (\<lambda>t. segment_key s = segment_key t) rest))"
  by pat_completeness auto
termination by (relation "measure (\<lambda>(sum_ok, rows). length rows)") (auto simp: length_dropWhile_le less_Suc_eq_le)

definition sort_values :: "(exchange_segment \<Rightarrow> 'k :: linorder) \<Rightarrow> nat \<Rightarrow> routing_plan \<Rightarrow> routing_plan" where
  "sort_values key received plan =
     plan\<lparr>op_values := sort_key key (take received (op_values plan)) @ drop received (op_values plan)\<rparr>"

definition audited_local :: "(double_bits list \<Rightarrow> bool) \<Rightarrow> nat \<Rightarrow> routing_plan \<Rightarrow> portable_status" where
  "audited_local sum_ok received plan = audit_groups sum_ok (take received (op_values plan))"

definition owned_local :: "nat \<Rightarrow> routing_plan \<Rightarrow> portable_status" where
  "owned_local received plan =
     (if \<exists>s \<in> set (take received (op_values plan)). plan_owner plan (sg_cell s) \<noteq> int (op_rank plan)
      then Invalid_input else Success)"

record prepare_answers =
  pa_input :: agree_answers
  pa_min :: "u64 list \<Rightarrow> u64 list option"
  pa_max :: "u64 list \<Rightarrow> u64 list option"
  pa_audit :: exchange_answers
  pa_audited :: agree_answers
  pa_route :: exchange_answers
  pa_owned :: agree_answers

definition revision_clock :: "exchange_revision \<Rightarrow> u64 list" where
  "revision_clock revision = [er_step revision, er_input revision]"

definition prepare_route :: "exchange_revision \<Rightarrow> exchange_segment list \<Rightarrow> prepare_answers \<Rightarrow> routing_plan \<Rightarrow>
    portable_status \<times> routing_plan" where
  "prepare_route revision rows ans plan =
     (case exchange plan rows False (pa_route ans) (op_count plan) of (st, received, plan) \<Rightarrow>
        let plan = plan\<lparr>op_count := received\<rparr> in
        if st \<noteq> Success then (st, plan)
        else let plan = sort_values route_order received plan; st = agree (pa_owned ans) (op_rank plan) (owned_local received plan) in
          if st \<noteq> Success then (st, plan)
          else (Success, plan\<lparr>op_revision := revision, op_available := True\<rparr>))"

definition prepare_rows :: "(double_bits list \<Rightarrow> bool) \<Rightarrow> exchange_revision \<Rightarrow> exchange_segment span \<Rightarrow>
    prepare_answers \<Rightarrow> routing_plan \<Rightarrow> portable_status \<times> routing_plan" where
  "prepare_rows sum_ok revision input ans plan =
     (let plan = discard_rows plan in
      if op_null plan then (Invalid_input, plan)
      else let st = agree (pa_input ans) (op_rank plan) (check_input plan revision input) in
        if st \<noteq> Success then (st, plan)
        else (case (pa_min ans (revision_clock revision), pa_max ans (revision_clock revision)) of
            (Some low, Some high) \<Rightarrow>
              if low \<noteq> high then (Stale_revision, plan)
              else (case exchange plan (span_list input) True (pa_audit ans) 0 of (st, received, plan) \<Rightarrow>
                if st \<noteq> Success then (st, plan)
                else let plan = sort_values audit_order received plan; 
                         st = agree (pa_audited ans) (op_rank plan) (audited_local sum_ok received plan) in
                  if st \<noteq> Success then (st, plan) else prepare_route revision (span_list input) ans plan)
          | _ \<Rightarrow> (Provider_failure, plan)))"

record routed_segments =
  rt_rows :: "exchange_segment list option"
  rt_revision :: exchange_revision
  rt_generation :: "u64 option"

definition candidates :: "routing_plan \<Rightarrow> routed_segments" where
  "candidates plan =
     (if op_available plan
      then \<lparr>rt_rows = Some (take (op_count plan) (op_values plan)), rt_revision = op_revision plan,
        rt_generation = Some (op_generation plan)\<rparr>
      else \<lparr>rt_rows = None, rt_revision = \<lparr>er_step = 0, er_input = 0, er_version = 1\<rparr>, rt_generation = None\<rparr>)"

text \<open>\<^verbatim>\<open>ExchangeWorkspace::evaluate_routed\<close> takes the rows only while they are current.\<close>

definition routed_stale :: "routing_plan \<Rightarrow> exchange_revision \<Rightarrow> routed_segments \<Rightarrow> bool" where
  "routed_stale plan revision rows \<longleftrightarrow>
     rt_generation rows = None \<or> Some (op_generation plan) \<noteq> rt_generation rows \<or> rt_revision rows \<noteq> revision"

section \<open>Configuration\<close>

record configure_answers =
  ca_rank :: "nat option"
  ca_ranks :: "nat option"
  ca_patch :: agree_answers
  ca_min :: "u64 list \<Rightarrow> u64 list option"
  ca_max :: "u64 list \<Rightarrow> u64 list option"
  ca_bytes :: agree_answers
  ca_memory :: agree_answers

definition default_plan :: routing_plan where
  "default_plan = \<lparr>op_null = True, op_rank = 0, op_ranks = 0, op_global = origin, op_grid = origin,
     op_local_capacity = 0, op_audit_capacity = 0, op_species = 0, op_owned_bytes = 0, op_generation = 0,
     op_revision = \<lparr>er_step = 0, er_input = 0, er_version = 1\<rparr>, op_send = [], op_receive = [], op_values = [],
     op_count = 0, op_available = False\<rparr>"

definition default_segment :: exchange_segment where
  "default_segment = \<lparr>sg_revision = \<lparr>er_step = 0, er_input = 0, er_version = 1\<rparr>, sg_cell = 0,
     sg_parcel = \<lparr>pi_high = 0, pi_low = 0\<rparr>, sg_ordinal = 0, sg_weight = one_bits, sg_channel = interphase,
     sg_delta = \<lparr>pb_mass = 0, pb_momentum_x = 0, pb_momentum_y = 0, pb_momentum_z = 0, pb_enthalpy = 0,
       pb_kinetic = 0, pb_thermal = 0\<rparr>, sg_species = 0\<rparr>"

definition configure_local :: "nat \<Rightarrow> nat \<Rightarrow> int3 \<Rightarrow> mesh_patch \<Rightarrow> nat \<Rightarrow> nat \<Rightarrow> nat \<Rightarrow> portable_status" where
  "configure_local rank ranks global patch local_capacity audit_capacity species =
     (if make_mesh_patch (int rank) (int ranks) global \<noteq> Inr patch \<or>
         local_capacity > nat int_max div lanes \<or> audit_capacity > nat int_max div lanes \<or> species = 0 \<or> species > 255
      then Invalid_input else Success)"

definition configure_bytes :: "nat \<Rightarrow> nat \<Rightarrow> nat \<Rightarrow> nat \<Rightarrow> nat \<Rightarrow> nat" where
  "configure_bytes plan_bytes segment_bytes ranks local_capacity audit_capacity =
     (let capacity = max local_capacity audit_capacity; send_words = max 1 (local_capacity * lanes);
          receive_words = max 1 (capacity * lanes) in
      plan_bytes + ranks * 5 * 4 + (send_words + receive_words) * 8 + capacity * segment_bytes)"

definition configure_signature :: "int3 \<Rightarrow> nat \<Rightarrow> u64 list" where
  "configure_signature global species =
     [word_of_int (x3 global), word_of_int (y3 global), word_of_int (z3 global), word_of_nat species]"

definition configured :: "nat \<Rightarrow> nat \<Rightarrow> int3 \<Rightarrow> mesh_patch \<Rightarrow> nat \<Rightarrow> nat \<Rightarrow> nat \<Rightarrow> nat \<Rightarrow> u64 \<Rightarrow> routing_plan" where
  "configured rank ranks global patch local_capacity audit_capacity species bytes generation =
     (let capacity = max local_capacity audit_capacity in
      \<lparr>op_null = False, op_rank = rank, op_ranks = ranks, op_global = global, op_grid = mp_grid patch,
       op_local_capacity = local_capacity, op_audit_capacity = audit_capacity, op_species = species,
       op_owned_bytes = bytes, op_generation = generation,
       op_revision = \<lparr>er_step = 0, er_input = 0, er_version = 1\<rparr>,
       op_send = replicate (max 1 (local_capacity * lanes)) 0,
       op_receive = replicate (max 1 (capacity * lanes)) 0,
       op_values = replicate capacity default_segment, op_count = 0, op_available = False\<rparr>)"

text \<open>\<open>mem\<close> says whether the buffers can be allocated.\<close>

definition configure_plan :: "bool \<Rightarrow> bool \<Rightarrow> nat \<Rightarrow> nat \<Rightarrow> int3 \<Rightarrow> mesh_patch \<Rightarrow> nat \<Rightarrow> nat \<Rightarrow> nat \<Rightarrow> nat \<Rightarrow>
    configure_answers \<Rightarrow> routing_plan \<Rightarrow> status \<times> routing_plan" where
  "configure_plan mem null plan_bytes segment_bytes global patch local_capacity audit_capacity species maximum_bytes ans plan =
     (if null then (failed Invalid_plan 26200, plan)
      else case (ca_rank ans, ca_ranks ans) of
        (Some rank, Some ranks) \<Rightarrow>
          let st = configure_local rank ranks global patch local_capacity audit_capacity species;
              signature = configure_signature global species;
              bytes = configure_bytes plan_bytes segment_bytes ranks local_capacity audit_capacity in
          if agree (ca_patch ans) rank st \<noteq> Success then (failed Invalid_plan 26200, plan)
          else (case (ca_min ans signature, ca_max ans signature) of
              (Some low, Some high) \<Rightarrow>
                if low \<noteq> high then (failed Invalid_plan 26200, plan)
                else let st = if bytes > maximum_bytes then Capacity_exceeded else st in
                  if agree (ca_bytes ans) rank st \<noteq> Success then (failed Allocation_failure 26202, plan)
                  else let st = if mem then st else Capacity_exceeded in
                    if agree (ca_memory ans) rank st \<noteq> Success then (failed Allocation_failure 26203, plan)
                    else (status_ok, configured rank ranks global patch local_capacity audit_capacity species bytes
                      (op_generation plan + 1))
            | _ \<Rightarrow> (failed Mpi_failure 26201, plan))
      | _ \<Rightarrow> (failed Mpi_failure 26201, plan))"

end
