(* ===== verification/Exchange_Delivery.thy ===== *)
theory Exchange_Delivery
  imports Exchange_Owner
begin

text \<open>
  What one exchange of \<^verbatim>\<open>models_exchange_owner.cpp\<close> delivers. The rows of each rank are counted by
  target, laid out as one block per target, filled in input order and taken apart by the receiver.
  When MPI moves the blocks as it documents, every rank receives exactly the rows that name it, in the
  order of the senders.
\<close>

section \<open>A segment and its lanes\<close>

lemma length_encode [simp]: "length (encode_segment s) = lanes"
  by (simp add: encode_segment_def lanes_def)

lemma decode_encode [simp]: "decode_segment (encode_segment s) = s"
  by (simp add: decode_segment_def encode_segment_def ucast_up_ucast_id is_up)

lemma length_encoded [simp]: "length (concat (map encode_segment xs)) = length xs * lanes"
  by (induction xs) simp_all

lemma encoded_chunk:
  "i < length xs \<Longrightarrow> take lanes (drop (i * lanes) (concat (map encode_segment xs) @ rest)) = encode_segment (xs ! i)"
proof (induction xs arbitrary: i)
  case (Cons x xs)
  then show ?case by (cases i) (simp_all add: drop_append)
qed simp

lemma decode_rows_encoded:
  assumes "take (length xs * lanes) words = concat (map encode_segment xs)"
  shows "decode_rows words (length xs) = xs"
proof -
  have "words = concat (map encode_segment xs) @ drop (length xs * lanes) words"
    by (metis append_take_drop_id assms)
  then have "take lanes (drop (i * lanes) words) = encode_segment (xs ! i)" if "i < length xs" for i
    using encoded_chunk [OF that] by metis
  then show ?thesis unfolding decode_rows_def by (intro nth_equalityI) simp_all
qed

section \<open>Counting and placing\<close>

definition rows_for :: "routing_plan \<Rightarrow> bool \<Rightarrow> exchange_segment list \<Rightarrow> nat \<Rightarrow> exchange_segment list" where
  "rows_for plan audit input t = filter (\<lambda>s. row_target plan audit s = t) input"

definition targets_valid :: "routing_plan \<Rightarrow> bool \<Rightarrow> exchange_segment list \<Rightarrow> bool" where
  "targets_valid plan audit input \<longleftrightarrow> (\<forall>s \<in> set input. row_target plan audit s < op_ranks plan)"

lemma counts_fold:
  "\<forall>s \<in> set input. f s < length counts \<Longrightarrow>
   length (fold (\<lambda>s counts. let t = f s in counts[t := counts ! t + 1]) input counts) = length counts \<and>
   (\<forall>t < length counts. fold (\<lambda>s counts. let t = f s in counts[t := counts ! t + (1 :: nat)]) input counts ! t =
     counts ! t + length (filter (\<lambda>s. f s = t) input))"
proof (induction input arbitrary: counts)
  case (Cons s input)
  let ?c = "counts[f s := counts ! f s + 1]"
  from Cons.IH [of ?c] Cons.prems show ?case by (auto simp: Let_def nth_list_update)
qed simp

lemma send_counts_value:
  assumes "targets_valid plan audit input"
  shows "length (send_counts plan audit input) = op_ranks plan"
    and "t < op_ranks plan \<Longrightarrow> send_counts plan audit input ! t = length (rows_for plan audit input t)"
  using counts_fold [of input "row_target plan audit" "replicate (op_ranks plan) 0"] assms
  by (simp_all add: send_counts_def targets_valid_def rows_for_def)

lemma place_ranks_ok:
  "received \<le> capacity \<Longrightarrow> \<forall>(s, c) \<in> set pairs. 0 \<le> c \<Longrightarrow>
   snd (snd (place_ranks capacity pairs sent received)) =
     (received + sum_list (map (nat \<circ> snd) pairs) \<le> capacity)"
proof (induction capacity pairs sent received rule: place_ranks.induct)
  case (2 capacity s c rest sent received)
  show ?case
  proof (cases "nat c > capacity - received")
    case True
    then show ?thesis using 2(2,3) by simp
  next
    case False
    then show ?thesis using 2 by (simp add: split_beta Let_def add.assoc)
  qed
qed simp

lemma place_ranks_total:
  "snd (snd (place_ranks capacity pairs sent received)) \<Longrightarrow>
   fst (snd (place_ranks capacity pairs sent received)) = received + sum_list (map (nat \<circ> snd) pairs)"
  by (induction capacity pairs sent received rule: place_ranks.induct) (auto simp: split_beta Let_def split: if_splits)

lemma place_ranks_slots:
  "snd (snd (place_ranks capacity pairs sent received)) \<Longrightarrow>
   length (fst (place_ranks capacity pairs sent received)) = length pairs \<and>
   (\<forall>r < length pairs. fst (place_ranks capacity pairs sent received) ! r =
     \<lparr>rs_send_offset = (sent + sum_list (map fst (take r pairs))) * lanes, rs_send_count = fst (pairs ! r) * lanes,
      rs_receive_offset = (received + sum_list (map (nat \<circ> snd) (take r pairs))) * lanes,
      rs_receive_count = nat (snd (pairs ! r)) * lanes\<rparr>)"
proof (induction capacity pairs sent received rule: place_ranks.induct)
  case (2 capacity s c rest sent received)
  have g: "\<not> (c < 0 \<or> nat c > capacity - received)" using 2(2) by (auto split: if_splits)
  have ok: "snd (snd (place_ranks capacity rest (sent + s) (received + nat c)))"
    using 2(2) g by (simp add: split_beta Let_def)
  from 2(1) [OF g ok] g show ?case
    by (auto simp: split_beta Let_def nth_Cons less_Suc_eq_0_disj add.assoc split: nat.splits)
qed simp

section \<open>Filling the send buffer\<close>

text \<open>
  The state of the filling loop after a prefix of the input: each block holds the rows of its target
  met so far, and its cursor stands behind them.
\<close>

definition filled :: "(exchange_segment \<Rightarrow> nat) \<Rightarrow> nat \<Rightarrow> (nat \<Rightarrow> nat) \<Rightarrow> exchange_segment list \<Rightarrow>
    u64 list \<times> nat list \<Rightarrow> bool" where
  "filled target n off prefix = (\<lambda>(buffer, cursor). length cursor = n \<and>
     (\<forall>t < n. let rows = filter (\<lambda>s. target s = t) prefix in
       cursor ! t = off t + length rows * lanes \<and>
       block buffer (off t) (length rows * lanes) = concat (map encode_segment rows)))"

lemma fill_row_length:
  assumes "fill_row plan audit s (buffer, cursor) = (buffer', cursor')"
    and "cursor ! row_target plan audit s + lanes \<le> length buffer"
  shows "length buffer' = length buffer"
  using assms by (auto simp: fill_row_def Let_def)

lemma filled_step:
  assumes inv: "filled (row_target plan audit) n off prefix (buffer, cursor)"
    and u: "row_target plan audit s < n"
    and disjoint: "\<forall>t < n. t \<noteq> row_target plan audit s \<longrightarrow>
      off t + room t \<le> off (row_target plan audit s) \<or> off (row_target plan audit s) + room (row_target plan audit s) \<le> off t"
    and room: "\<forall>t < n. length (filter (\<lambda>x. row_target plan audit x = t) (prefix @ [s])) * lanes \<le> room t \<and>
      off t + room t \<le> length buffer"
  shows "filled (row_target plan audit) n off (prefix @ [s]) (fill_row plan audit s (buffer, cursor)) \<and>
    length (fst (fill_row plan audit s (buffer, cursor))) = length buffer"
proof -
  let ?u = "row_target plan audit s" and ?rows = "\<lambda>t. filter (\<lambda>x. row_target plan audit x = t) prefix"
  let ?p = "off ?u + length (?rows ?u) * lanes"
  have c: "length cursor = n" "\<And>t. t < n \<Longrightarrow> cursor ! t = off t + length (?rows t) * lanes"
    and b: "\<And>t. t < n \<Longrightarrow> block buffer (off t) (length (?rows t) * lanes) = concat (map encode_segment (?rows t))"
    using inv by (simp_all add: filled_def Let_def)
  have fits: "length (?rows ?u) * lanes + lanes \<le> room ?u" "off ?u + room ?u \<le> length buffer"
    using room u by (force simp: add.commute)+
  then have le: "?p + length (encode_segment s) \<le> length buffer" by simp
  have f: "fill_row plan audit s (buffer, cursor) =
      (write_words buffer ?p (encode_segment s), cursor[?u := cursor ! ?u + lanes])"
    by (simp add: fill_row_def Let_def c(2) [OF u])
  have "block (write_words buffer ?p (encode_segment s)) (off t) (length (filter (\<lambda>x. row_target plan audit x = t) (prefix @ [s])) * lanes) =
      concat (map encode_segment (filter (\<lambda>x. row_target plan audit x = t) (prefix @ [s])))" if t: "t < n" for t
  proof (cases "t = ?u")
    case True
    have "block (write_words buffer ?p (encode_segment s)) (off ?u) (length (?rows ?u) * lanes + length (encode_segment s)) =
        concat (map encode_segment (?rows ?u)) @ encode_segment s"
      unfolding b [OF u, symmetric] by (rule block_write_extend [OF le])
    then show ?thesis by (simp add: True add.commute)
  next
    case False
    have "off t + length (?rows t) * lanes \<le> off t + room t" using room t False by auto
    with disjoint t False fits(1) have "block (write_words buffer ?p (encode_segment s)) (off t) (length (?rows t) * lanes) =
        block buffer (off t) (length (?rows t) * lanes)"
      by (intro block_write_apart [OF le]) (auto dest!: spec [of _ t])
    with b [OF t] False show ?thesis by simp
  qed
  moreover have "cursor[?u := cursor ! ?u + lanes] ! t =
      off t + length (filter (\<lambda>x. row_target plan audit x = t) (prefix @ [s])) * lanes" if "t < n" for t
    using c(2) [OF that] c(1) that u by (simp add: nth_list_update)
  ultimately show ?thesis using c(1) le unfolding f by (simp add: filled_def Let_def)
qed

lemma filled_all:
  assumes "\<forall>s \<in> set input. row_target plan audit s < n"
    and "\<forall>t < n. \<forall>t' < n. t \<noteq> t' \<longrightarrow> off t + room t \<le> off t' \<or> off t' + room t' \<le> off t"
    and "\<forall>t < n. room t = length (filter (\<lambda>x. row_target plan audit x = t) input) * lanes \<and> off t + room t \<le> length buffer"
    and "length cursor = n" "\<forall>t < n. cursor ! t = off t"
  shows "filled (row_target plan audit) n off input (fold (fill_row plan audit) input (buffer, cursor)) \<and>
    length (fst (fold (fill_row plan audit) input (buffer, cursor))) = length buffer"
proof -
  have "\<exists>b c. fold (fill_row plan audit) (take k input) (buffer, cursor) = (b, c) \<and>
      filled (row_target plan audit) n off (take k input) (b, c) \<and> length b = length buffer" if "k \<le> length input" for k
    using that
  proof (induction k)
    case 0
    then show ?case using assms(4,5) by (simp add: filled_def block_def)
  next
    case (Suc k)
    then obtain b c where bc: "fold (fill_row plan audit) (take k input) (buffer, cursor) = (b, c)"
      "filled (row_target plan audit) n off (take k input) (b, c)" "length b = length buffer" by auto
    have k: "k < length input" using Suc.prems by simp
    let ?s = "input ! k"
    have tk: "take (Suc k) input = take k input @ [?s]" by (rule take_Suc_conv_app_nth [OF k])
    have le: "length (filter P (take k input @ [?s])) \<le> length (filter P input)" for P
      unfolding tk [symmetric] by (metis append_take_drop_id filter_append le_add1 length_append)
    have room: "\<forall>t < n. length (filter (\<lambda>x. row_target plan audit x = t) (take k input @ [?s])) * lanes \<le> room t \<and>
        off t + room t \<le> length b"
      using assms(3) bc(3) mult_le_mono1 [OF le] by metis
    have u: "row_target plan audit ?s < n" using assms(1) k by simp
    then have "\<forall>t < n. t \<noteq> row_target plan audit ?s \<longrightarrow> off t + room t \<le> off (row_target plan audit ?s) \<or>
        off (row_target plan audit ?s) + room (row_target plan audit ?s) \<le> off t"
      using assms(2) by blast
    from filled_step [OF bc(2) u this room]
    have "filled (row_target plan audit) n off (take k input @ [?s]) (fill_row plan audit ?s (b, c)) \<and>
        length (fst (fill_row plan audit ?s (b, c))) = length b" .
    then show ?case unfolding tk using bc by (cases "fill_row plan audit ?s (b, c)") simp
  qed
  from this [of "length input"] show ?thesis by auto
qed

section \<open>Agreement\<close>

text \<open>
  \<^verbatim>\<open>MPI_Allreduce\<close> with \<^verbatim>\<open>MPI_MIN\<close> answers the least contribution, \<^verbatim>\<open>MPI_Bcast\<close> the buffer of
  the root.
\<close>

definition agree_conforms :: "nat \<Rightarrow> (nat \<Rightarrow> portable_status) \<Rightarrow> (nat \<Rightarrow> agree_answers) \<Rightarrow> bool" where
  "agree_conforms n locals answers \<longleftrightarrow>
     (let failing = Min ((\<lambda>q. agree_first q (locals q)) ` {..< n}) in
      \<forall>r < n. ag_min (answers r) (agree_first r (locals r)) = Some failing \<and>
        (failing \<noteq> int_max \<longrightarrow>
          ag_bcast (answers r) failing (portable_code (locals r)) = Some (portable_code (locals (nat failing)))))"

fun named_portable :: "portable_status \<Rightarrow> bool" where
  "named_portable (Unnamed_portable _) = False"
| "named_portable _ = True"

text \<open>What the ranks agree on: the status of the lowest rank that failed.\<close>

definition agreed :: "nat \<Rightarrow> (nat \<Rightarrow> portable_status) \<Rightarrow> portable_status" where
  "agreed n locals = (case find (\<lambda>q. locals q \<noteq> Success) [0..<n] of None \<Rightarrow> Success | Some q \<Rightarrow> locals q)"

lemma portable_code_back: "named_portable s \<Longrightarrow> portable_of_code (portable_code s) = s"
  by (cases s) (simp_all add: portable_of_code_def)

lemma find_least:
  "find P [0..<n] = Some q \<Longrightarrow> q < n \<and> P q \<and> (\<forall>r < q. \<not> P r)"
  by (auto simp: find_Some_iff)

lemma agreed_success: "agreed n locals = Success \<longleftrightarrow> (\<forall>q < n. locals q = Success)"
proof (cases "find (\<lambda>q. locals q \<noteq> Success) [0..<n]")
  case None
  then have "\<forall>q < n. locals q = Success" by (auto simp: find_None_iff)
  then show ?thesis unfolding agreed_def None by simp
next
  case (Some q)
  from find_least [OF this] Some show ?thesis by (auto simp: agreed_def)
qed

lemma agree_common:
  assumes "n < 2 ^ 31" "agree_conforms n locals answers" "r < n" "\<forall>q < n. named_portable (locals q)"
  shows "agree (answers r) r (locals r) = agreed n locals"
proof (cases "find (\<lambda>q. locals q \<noteq> Success) [0..<n]")
  case None
  then have "\<forall>q < n. locals q = Success" by (auto simp: find_None_iff)
  then have "(\<lambda>q. agree_first q (locals q)) ` {..< n} = {int_max}" using assms(3) by (auto simp: agree_first_def)
  then show ?thesis using assms(2,3) None by (simp add: agree_conforms_def agree_def agreed_def)
next
  case (Some l)
  note l = find_least [OF this]
  have "Min ((\<lambda>q. agree_first q (locals q)) ` {..< n}) = int l"
  proof (rule Min_eqI)
    show "int l \<in> (\<lambda>q. agree_first q (locals q)) ` {..< n}" using l by (auto simp: agree_first_def image_iff intro: bexI [of _ l])
    fix y assume "y \<in> (\<lambda>q. agree_first q (locals q)) ` {..< n}"
    then obtain q where "q < n" "y = agree_first q (locals q)" by auto
    then show "int l \<le> y" using l assms(1) by (cases "q < l") (auto simp: agree_first_def int_max_def)
  qed simp
  moreover have "int l \<noteq> int_max" using l assms(1) by (simp add: int_max_def)
  ultimately show ?thesis
    using assms(2-4) Some l by (simp add: agree_conforms_def agree_def agreed_def portable_code_back Let_def)
qed

section \<open>A conforming exchange\<close>

definition received_counts :: "nat \<Rightarrow> (nat \<Rightarrow> routing_plan) \<Rightarrow> (nat \<Rightarrow> exchange_segment list) \<Rightarrow> bool \<Rightarrow> nat \<Rightarrow> int list" where
  "received_counts n plans inputs audit q = map (\<lambda>r. int (send_counts (plans r) audit (inputs r) ! q)) [0..<n]"

definition slots_at :: "nat \<Rightarrow> (nat \<Rightarrow> routing_plan) \<Rightarrow> (nat \<Rightarrow> exchange_segment list) \<Rightarrow> bool \<Rightarrow> nat \<Rightarrow> rank_slot list" where
  "slots_at n plans inputs audit q =
     fst (exchange_slots (plans q) audit (inputs q) (received_counts n plans inputs audit q))"

definition local_at :: "nat \<Rightarrow> (nat \<Rightarrow> routing_plan) \<Rightarrow> (nat \<Rightarrow> exchange_segment list) \<Rightarrow> bool \<Rightarrow> nat \<Rightarrow> portable_status" where
  "local_at n plans inputs audit q =
     exchange_local (plans q) audit (inputs q) (received_counts n plans inputs audit q)"

definition sent_at :: "nat \<Rightarrow> (nat \<Rightarrow> routing_plan) \<Rightarrow> (nat \<Rightarrow> exchange_segment list) \<Rightarrow> bool \<Rightarrow> nat \<Rightarrow> u64 list" where
  "sent_at n plans inputs audit q = fill_send (plans q) audit (inputs q) (slots_at n plans inputs audit q)"

text \<open>
  \<^verbatim>\<open>MPI_Alltoall\<close> answers on rank \<open>q\<close> the counts the others hold for \<open>q\<close>; \<^verbatim>\<open>MPI_Alltoallv\<close> copies
  the block rank \<open>r\<close> holds for \<open>q\<close> to the place \<open>q\<close> holds for \<open>r\<close>.
\<close>

definition exchange_conforms :: "nat \<Rightarrow> (nat \<Rightarrow> routing_plan) \<Rightarrow> (nat \<Rightarrow> exchange_segment list) \<Rightarrow> bool \<Rightarrow>
    (nat \<Rightarrow> exchange_answers) \<Rightarrow> bool" where
  "exchange_conforms n plans inputs audit answers \<longleftrightarrow>
     (\<forall>q < n. xa_alltoall (answers q) (send_counts (plans q) audit (inputs q)) = Some (received_counts n plans inputs audit q)) \<and>
     agree_conforms n (local_at n plans inputs audit) (\<lambda>q. xa_agree (answers q)) \<and>
     ((\<forall>q < n. local_at n plans inputs audit q = Success) \<longrightarrow>
       (\<forall>q < n. case xa_alltoallv (answers q) (sent_at n plans inputs audit q) (slots_at n plans inputs audit q)
           (op_receive (plans q)) of None \<Rightarrow> False
         | Some words \<Rightarrow> length words = length (op_receive (plans q)) \<and> (\<forall>r < n. block words (rs_receive_offset (slots_at n plans inputs audit q ! r))
             (rs_receive_count (slots_at n plans inputs audit q ! r)) =
           block (sent_at n plans inputs audit r) (rs_send_offset (slots_at n plans inputs audit r ! q))
             (rs_send_count (slots_at n plans inputs audit r ! q)))))"

definition world_ok :: "nat \<Rightarrow> (nat \<Rightarrow> routing_plan) \<Rightarrow> (nat \<Rightarrow> exchange_segment list) \<Rightarrow> bool \<Rightarrow> bool" where
  "world_ok n plans inputs audit \<longleftrightarrow> n < 2 ^ 31 \<and>
     (\<forall>r < n. op_rank (plans r) = r \<and> op_ranks (plans r) = n \<and> targets_valid (plans r) audit (inputs r) \<and>
       length (inputs r) * lanes \<le> length (op_send (plans r)))"

text \<open>The rows that name rank \<open>q\<close>, in the order of the senders.\<close>

definition rows_to :: "nat \<Rightarrow> (nat \<Rightarrow> routing_plan) \<Rightarrow> (nat \<Rightarrow> exchange_segment list) \<Rightarrow> bool \<Rightarrow> nat \<Rightarrow> exchange_segment list" where
  "rows_to n plans inputs audit q = concat (map (\<lambda>r. rows_for (plans r) audit (inputs r) q) [0..<n])"

definition fits_all :: "nat \<Rightarrow> (nat \<Rightarrow> routing_plan) \<Rightarrow> (nat \<Rightarrow> exchange_segment list) \<Rightarrow> bool \<Rightarrow> bool" where
  "fits_all n plans inputs audit \<longleftrightarrow>
     (\<forall>q < n. length (rows_to n plans inputs audit q) \<le> exchange_capacity (plans q) audit)"

lemma world_slots:
  assumes w: "world_ok n plans inputs audit" and q: "q < n"
  defines "c \<equiv> \<lambda>r t. length (rows_for (plans r) audit (inputs r) t)"
  shows "local_at n plans inputs audit q =
      (if length (rows_to n plans inputs audit q) \<le> exchange_capacity (plans q) audit then Success else Capacity_exceeded)"
    and "local_at n plans inputs audit q = Success \<Longrightarrow>
      fst (snd (exchange_slots (plans q) audit (inputs q) (received_counts n plans inputs audit q))) =
        length (rows_to n plans inputs audit q)"
    and "local_at n plans inputs audit q = Success \<Longrightarrow> length (slots_at n plans inputs audit q) = n \<and>
      (\<forall>r < n. slots_at n plans inputs audit q ! r =
        \<lparr>rs_send_offset = sum_list (map (c q) [0..<r]) * lanes, rs_send_count = c q r * lanes,
         rs_receive_offset = sum_list (map (\<lambda>u. c u q) [0..<r]) * lanes, rs_receive_count = c r q * lanes\<rparr>)"
proof -
  have sc: "length (send_counts (plans r) audit (inputs r)) = n"
    "\<And>t. t < n \<Longrightarrow> send_counts (plans r) audit (inputs r) ! t = c r t" if "r < n" for r
    using w that send_counts_value [of "plans r" audit "inputs r"] by (simp_all add: world_ok_def c_def)
  let ?pairs = "zip (send_counts (plans q) audit (inputs q)) (received_counts n plans inputs audit q)"
  have pairs: "?pairs = map (\<lambda>r. (c q r, int (c r q))) [0..<n]"
    using sc q by (intro nth_equalityI) (simp_all add: received_counts_def)
  have total: "sum_list (map (nat \<circ> snd) ?pairs) = length (rows_to n plans inputs audit q)"
    unfolding pairs by (simp add: rows_to_def length_concat c_def comp_def)
  have nonneg: "\<forall>(s, c) \<in> set ?pairs. 0 \<le> c" unfolding pairs by auto
  let ?P = "place_ranks (exchange_capacity (plans q) audit) ?pairs 0 0"
  have ok: "snd (snd ?P) \<longleftrightarrow> length (rows_to n plans inputs audit q) \<le> exchange_capacity (plans q) audit"
    using place_ranks_ok [OF _ nonneg, of 0 "exchange_capacity (plans q) audit" 0] unfolding total by simp
  show "local_at n plans inputs audit q =
      (if length (rows_to n plans inputs audit q) \<le> exchange_capacity (plans q) audit then Success else Capacity_exceeded)"
    unfolding local_at_def exchange_local_def exchange_slots_def ok ..
  assume s: "local_at n plans inputs audit q = Success"
  then have k: "snd (snd ?P)" unfolding local_at_def exchange_local_def exchange_slots_def by (simp split: if_splits)
  from place_ranks_total [OF k] show "fst (snd (exchange_slots (plans q) audit (inputs q) (received_counts n plans inputs audit q))) =
        length (rows_to n plans inputs audit q)"
    unfolding exchange_slots_def total by simp
  have "map fst (take r ?pairs) = map (c q) [0..<r]" "map (nat \<circ> snd) (take r ?pairs) = map (\<lambda>u. c u q) [0..<r]"
    "?pairs ! r = (c q r, int (c r q))" if "r < n" for r
    using that unfolding pairs by (simp_all add: take_map comp_def)
  then show "length (slots_at n plans inputs audit q) = n \<and> (\<forall>r < n. slots_at n plans inputs audit q ! r =
        \<lparr>rs_send_offset = sum_list (map (c q) [0..<r]) * lanes, rs_send_count = c q r * lanes,
         rs_receive_offset = sum_list (map (\<lambda>u. c u q) [0..<r]) * lanes, rs_receive_count = c r q * lanes\<rparr>)"
    using place_ranks_slots [OF k] unfolding slots_at_def exchange_slots_def by (simp add: pairs)
qed

lemma sum_list_split:
  fixes f :: "nat \<Rightarrow> nat"
  assumes "t < t'"
  shows "sum_list (map f [0..<t]) + f t \<le> sum_list (map f [0..<t'])"
proof -
  have "[0..<t'] = [0..<t] @ [t..<t']" using assms by (metis le_add_diff_inverse less_imp_le upt_add_eq_append zero_le)
  also have "[t..<t'] = t # [Suc t..<t']" using assms by (rule upt_conv_Cons)
  finally show ?thesis by simp
qed

lemma count_targets:
  "\<forall>s \<in> set xs. f s < n \<Longrightarrow> sum_list (map (\<lambda>t. length (filter (\<lambda>s. f s = t) xs)) [0..<n]) = length xs"
proof (induction xs)
  case (Cons x xs)
  have "sum_list (map (\<lambda>t. length (filter (\<lambda>s. f s = t) (x # xs))) [0..<n]) =
      sum_list (map (\<lambda>t. (if f x = t then 1 else 0) + length (filter (\<lambda>s. f s = t) xs)) [0..<n])"
    by (rule arg_cong [where f = sum_list]) simp
  also have "\<dots> = sum_list (map (\<lambda>t. if f x = t then 1 else 0) [0..<n]) + length xs"
    using Cons by (simp add: sum_list_addf)
  also have "sum_list (map (\<lambda>t. if f x = t then 1 else (0 :: nat)) [0..<n]) = 1"
    using Cons.prems by (simp add: sum_list_map_eq_sum_count2 [symmetric] interv_sum_list_conv_sum_set_nat)
  finally show ?case by simp
qed simp

lemma sent_blocks:
  assumes w: "world_ok n plans inputs audit" and r: "r < n" and s: "local_at n plans inputs audit r = Success"
  shows "length (sent_at n plans inputs audit r) = length (op_send (plans r)) \<and>
    (\<forall>t < n. block (sent_at n plans inputs audit r) (rs_send_offset (slots_at n plans inputs audit r ! t))
        (rs_send_count (slots_at n plans inputs audit r ! t)) =
      concat (map encode_segment (rows_for (plans r) audit (inputs r) t)))"
proof -
  let ?c = "\<lambda>t. length (rows_for (plans r) audit (inputs r) t)"
  let ?off = "\<lambda>t. sum_list (map ?c [0..<t]) * lanes"
  note slots = world_slots(3) [OF w r s]
  have tv: "\<forall>x \<in> set (inputs r). row_target (plans r) audit x < n" and cap: "length (inputs r) * lanes \<le> length (op_send (plans r))"
    using w r by (auto simp: world_ok_def targets_valid_def)
  have tot: "sum_list (map ?c [0..<n]) = length (inputs r)" unfolding rows_for_def by (rule count_targets [OF tv])
  have apart: "?off t + ?c t * lanes \<le> ?off t'" if "t < t'" for t t'
    using mult_le_mono1 [OF sum_list_split [OF that, of ?c], of lanes] by (simp add: add_mult_distrib)
  then have d: "\<forall>t < n. \<forall>t' < n. t \<noteq> t' \<longrightarrow> ?off t + ?c t * lanes \<le> ?off t' \<or> ?off t' + ?c t' * lanes \<le> ?off t"
    by (meson nat_neq_iff)
  have "?off t + ?c t * lanes \<le> length (op_send (plans r))" if "t < n" for t
    using apart [OF that] cap unfolding tot by simp
  then have room: "\<forall>t < n. ?c t * lanes = length (filter (\<lambda>x. row_target (plans r) audit x = t) (inputs r)) * lanes \<and>
      ?off t + ?c t * lanes \<le> length (op_send (plans r))" by (simp add: rows_for_def)
  have cur: "length (map rs_send_offset (slots_at n plans inputs audit r)) = n"
    "\<forall>t < n. map rs_send_offset (slots_at n plans inputs audit r) ! t = ?off t" using slots by simp_all
  note fa = filled_all [OF tv d room cur]
  then have "length (sent_at n plans inputs audit r) = length (op_send (plans r))" by (simp add: sent_at_def fill_send_def)
  moreover have "block (sent_at n plans inputs audit r) (?off t) (?c t * lanes) =
      concat (map encode_segment (rows_for (plans r) audit (inputs r) t))" if "t < n" for t
    using fa that by (simp add: sent_at_def fill_send_def filled_def Let_def split_beta rows_for_def)
  ultimately show ?thesis using slots by simp
qed

section \<open>What is delivered\<close>

lemma concat_map_concat: "concat (map f (concat xss)) = concat (map (\<lambda>xs. concat (map f xs)) xss)"
  by (induction xss) simp_all

lemma delivered_words:
  assumes w: "world_ok n plans inputs audit" and ok: "\<forall>q < n. local_at n plans inputs audit q = Success" and q: "q < n"
    and blocks: "\<forall>r < n. block words (rs_receive_offset (slots_at n plans inputs audit q ! r))
             (rs_receive_count (slots_at n plans inputs audit q ! r)) =
           block (sent_at n plans inputs audit r) (rs_send_offset (slots_at n plans inputs audit r ! q))
             (rs_send_count (slots_at n plans inputs audit r ! q))"
  shows "decode_rows words (length (rows_to n plans inputs audit q)) = rows_to n plans inputs audit q"
proof -
  let ?rows = "\<lambda>r. rows_for (plans r) audit (inputs r) q"
  let ?size = "\<lambda>r. length (?rows r) * lanes"
  note slots = world_slots(3) [OF w q ok [rule_format, OF q]]
  have lens: "sum_list (map ?size [0..<r]) = sum_list (map (\<lambda>u. length (?rows u)) [0..<r]) * lanes" for r
    by (simp add: sum_list_mult_const)
  have "\<forall>r < n. block words (sum_list (map ?size [0..<r])) (?size r) = concat (map encode_segment (?rows r))"
    using blocks slots sent_blocks [OF w _ ok [rule_format]] q unfolding lens by simp
  then have "take (sum_list (map ?size [0..<n])) words = concat (map (\<lambda>r. concat (map encode_segment (?rows r))) [0..<n])"
    by (rule concat_blocks [where off = "\<lambda>r. sum_list (map ?size [0..<r])"]) simp_all
  then have "take (length (rows_to n plans inputs audit q) * lanes) words =
      concat (map encode_segment (rows_to n plans inputs audit q))"
    unfolding lens by (simp add: rows_to_def length_concat comp_def concat_map_concat)
  then show ?thesis by (rule decode_rows_encoded)
qed

lemma exchange_ok:
  assumes w: "world_ok n plans inputs audit" and c: "exchange_conforms n plans inputs audit answers"
    and ok: "\<forall>q < n. local_at n plans inputs audit q = Success" and q: "q < n"
  shows "\<exists>words. exchange (plans q) (inputs q) audit (answers q) before =
    (Success, length (rows_to n plans inputs audit q), (plans q)\<lparr>op_send := sent_at n plans inputs audit q, op_receive := words,
      op_values := rows_to n plans inputs audit q @ drop (length (rows_to n plans inputs audit q)) (op_values (plans q))\<rparr>) \<and>
    length words = length (op_receive (plans q))"
proof -
  let ?rows = "rows_to n plans inputs audit q"
  obtain words where words: "xa_alltoallv (answers q) (sent_at n plans inputs audit q) (slots_at n plans inputs audit q)
      (op_receive (plans q)) = Some words" "length words = length (op_receive (plans q))"
    "decode_rows words (length ?rows) = ?rows"
  proof -
    have "case xa_alltoallv (answers q) (sent_at n plans inputs audit q) (slots_at n plans inputs audit q)
           (op_receive (plans q)) of None \<Rightarrow> False
         | Some words \<Rightarrow> length words = length (op_receive (plans q)) \<and> (\<forall>r < n. block words (rs_receive_offset (slots_at n plans inputs audit q ! r))
             (rs_receive_count (slots_at n plans inputs audit q ! r)) =
           block (sent_at n plans inputs audit r) (rs_send_offset (slots_at n plans inputs audit r ! q))
             (rs_send_count (slots_at n plans inputs audit r ! q)))"
      using c ok q unfolding exchange_conforms_def by blast
    with delivered_words [OF w ok q] that show thesis by (auto split: option.splits)
  qed
  have "agree (xa_agree (answers q)) q (local_at n plans inputs audit q) = agreed n (local_at n plans inputs audit)"
  proof (rule agree_common [where answers = "\<lambda>q. xa_agree (answers q)"])
    show "n < 2 ^ 31" using w by (simp add: world_ok_def)
    show "agree_conforms n (local_at n plans inputs audit) (\<lambda>q. xa_agree (answers q))"
      using c by (simp add: exchange_conforms_def)
  qed (use ok q in simp_all)
  then have a: "agree (xa_agree (answers q)) (op_rank (plans q)) (local_at n plans inputs audit q) = Success"
    using ok w q by (simp add: agreed_success world_ok_def)
  have "xa_alltoall (answers q) (send_counts (plans q) audit (inputs q)) = Some (received_counts n plans inputs audit q)"
    using c q by (simp add: exchange_conforms_def)
  moreover obtain e where "exchange_slots (plans q) audit (inputs q) (received_counts n plans inputs audit q) =
      (slots_at n plans inputs audit q, length ?rows, e)"
    using world_slots(2) [OF w q ok [rule_format, OF q]] unfolding slots_at_def by (metis prod.collapse)
  ultimately have "exchange (plans q) (inputs q) audit (answers q) before =
    (Success, length ?rows, (plans q)\<lparr>op_send := sent_at n plans inputs audit q, op_receive := words,
      op_values := ?rows @ drop (length ?rows) (op_values (plans q))\<rparr>)"
    using a words(1,3) by (simp add: exchange_def local_at_def sent_at_def)
  with words(2) show ?thesis by blast
qed

lemma exchange_full:
  assumes w: "world_ok n plans inputs audit" and c: "exchange_conforms n plans inputs audit answers"
    and full: "\<not> (\<forall>q < n. local_at n plans inputs audit q = Success)" and q: "q < n"
  shows "\<exists>received. exchange (plans q) (inputs q) audit (answers q) before = (Capacity_exceeded, received, plans q)"
proof -
  have named: "local_at n plans inputs audit r = Success \<or> local_at n plans inputs audit r = Capacity_exceeded" for r
    by (simp add: local_at_def exchange_local_def)
  then have nm: "\<forall>r < n. named_portable (local_at n plans inputs audit r)" by (metis named_portable.simps(2,6))
  have "agree (xa_agree (answers q)) q (local_at n plans inputs audit q) = agreed n (local_at n plans inputs audit)"
  proof (rule agree_common [where answers = "\<lambda>q. xa_agree (answers q)", OF _ _ q nm])
    show "n < 2 ^ 31" using w by (simp add: world_ok_def)
    show "agree_conforms n (local_at n plans inputs audit) (\<lambda>q. xa_agree (answers q))"
      using c by (simp add: exchange_conforms_def)
  qed
  moreover have "agreed n (local_at n plans inputs audit) = Capacity_exceeded"
    using full named agreed_success [of n "local_at n plans inputs audit"] unfolding agreed_def
    by (auto split: option.splits)
  ultimately have a: "agree (xa_agree (answers q)) (op_rank (plans q)) (local_at n plans inputs audit q) = Capacity_exceeded"
    using w q by (simp add: world_ok_def)
  have "xa_alltoall (answers q) (send_counts (plans q) audit (inputs q)) = Some (received_counts n plans inputs audit q)"
    using c q by (simp add: exchange_conforms_def)
  then show ?thesis using a by (simp add: exchange_def local_at_def split_beta Let_def)
qed

lemma fits_all_local:
  assumes "world_ok n plans inputs audit"
  shows "fits_all n plans inputs audit \<longleftrightarrow> (\<forall>q < n. local_at n plans inputs audit q = Success)"
  using world_slots(1) [OF assms] by (auto simp: fits_all_def)

text \<open>
  C8. In an exchange whose MPI calls answer as documented, either some rank has no room for the rows
  that name it, and then every rank reports the missing capacity and keeps its rows, or every rank
  succeeds and holds exactly the rows that name it, each bit as it was sent, in the order of the senders
  and of their inputs: nothing is lost, duplicated or delivered elsewhere.
\<close>

theorem exchange_delivers:
  assumes "world_ok n plans inputs audit" "exchange_conforms n plans inputs audit answers"
  shows "if fits_all n plans inputs audit
    then \<forall>q < n. \<exists>plan. exchange (plans q) (inputs q) audit (answers q) before =
        (Success, length (rows_to n plans inputs audit q), plan) \<and>
      take (length (rows_to n plans inputs audit q)) (op_values plan) = rows_to n plans inputs audit q
    else \<forall>q < n. \<exists>received. exchange (plans q) (inputs q) audit (answers q) before = (Capacity_exceeded, received, plans q)"
proof (cases "fits_all n plans inputs audit")
  case True
  then have "\<forall>q < n. local_at n plans inputs audit q = Success" using fits_all_local [OF assms(1)] by blast
  from exchange_ok [OF assms this] True show ?thesis by fastforce
next
  case False
  then have "\<not> (\<forall>q < n. local_at n plans inputs audit q = Success)" using fits_all_local [OF assms(1)] by blast
  from exchange_full [OF assms this] False show ?thesis by simp
qed

text \<open>Two ranks that own one cell each: rank 0 sends a row to rank 1, which sends one back and keeps one.\<close>

definition example_row :: "u64 \<Rightarrow> u64 \<Rightarrow> exchange_segment" where
  "example_row cell parcel = default_segment\<lparr>sg_cell := cell, sg_parcel := \<lparr>pi_high = 0, pi_low = parcel\<rparr>,
     sg_revision := \<lparr>er_step = 3, er_input = 5, er_version = 1\<rparr>\<rparr>"

definition example_plan :: "nat \<Rightarrow> routing_plan" where
  "example_plan rank = configured rank 2 \<lparr>x3 = 2, y3 = 1, z3 = 1\<rparr>
     \<lparr>mp_begin = \<lparr>x3 = int rank, y3 = 0, z3 = 0\<rparr>, mp_cells = \<lparr>x3 = 1, y3 = 1, z3 = 1\<rparr>,
       mp_grid = \<lparr>x3 = 2, y3 = 1, z3 = 1\<rparr>, mp_coord = \<lparr>x3 = int rank, y3 = 0, z3 = 0\<rparr>\<rparr> 2 3 1 4096 0"

definition example_input :: "nat \<Rightarrow> exchange_segment list" where
  "example_input rank = (if rank = 0 then [example_row 1 7] else [example_row 0 8, example_row 1 9])"

definition silent_agree :: agree_answers where
  "silent_agree = \<lparr>ag_min = (\<lambda>_. Some int_max), ag_bcast = (\<lambda>_ _. None)\<rparr>"

definition deliver_words :: "exchange_segment list \<Rightarrow> u64 list \<Rightarrow> u64 list" where
  "deliver_words rows old = concat (map encode_segment rows) @ drop (length rows * lanes) old"

definition example_route :: "nat \<Rightarrow> exchange_answers" where
  "example_route rank =
     \<lparr>xa_alltoall = (\<lambda>_. Some (if rank = 0 then [0, 1] else [1, 1])), xa_agree = silent_agree,
      xa_alltoallv = (\<lambda>_ _ old. Some (deliver_words (if rank = 0 then [example_row 0 8] else [example_row 1 7, example_row 1 9]) old))\<rparr>"

lemma silent_conforms:
  assumes "0 < n" "\<forall>q < n. locals q = Success"
  shows "agree_conforms n locals (\<lambda>_. silent_agree)"
proof -
  have "(\<lambda>q. agree_first q (locals q)) ` {..< n} = {int_max}" using assms by (auto simp: agree_first_def)
  then show ?thesis by (simp add: agree_conforms_def silent_agree_def)
qed

lemma all_below_2: "(\<forall>q < 2. P q) \<longleftrightarrow> P 0 \<and> P (1 :: nat)"
  by (auto simp: numeral_2_eq_2 less_Suc_eq)

lemma example_local: "local_at 2 example_plan example_input False q = Success" if "q < 2"
proof -
  have "snd (snd (exchange_slots (example_plan 0) False (example_input 0) (received_counts 2 example_plan example_input False 0)))"
    "snd (snd (exchange_slots (example_plan 1) False (example_input 1) (received_counts 2 example_plan example_input False 1)))"
    by code_simp+
  with that show ?thesis unfolding local_at_def exchange_local_def
    by (cases "q = 0") (auto simp: numeral_2_eq_2 less_Suc_eq)
qed

lemma example_counts:
  "received_counts 2 example_plan example_input False 0 = [0, 1] \<and> received_counts 2 example_plan example_input False 1 = [1, 1]"
  by code_simp

lemma example_slots:
  "slots_at 2 example_plan example_input False 0 =
     [\<lparr>rs_send_offset = 0, rs_send_count = 0, rs_receive_offset = 0, rs_receive_count = 0\<rparr>,
      \<lparr>rs_send_offset = 0, rs_send_count = 17, rs_receive_offset = 0, rs_receive_count = 17\<rparr>] \<and>
   slots_at 2 example_plan example_input False 1 =
     [\<lparr>rs_send_offset = 0, rs_send_count = 17, rs_receive_offset = 0, rs_receive_count = 17\<rparr>,
      \<lparr>rs_send_offset = 17, rs_send_count = 17, rs_receive_offset = 17, rs_receive_count = 17\<rparr>]"
  by code_simp

lemma example_blocks:
  "block (sent_at 2 example_plan example_input False 0) 0 17 = encode_segment (example_row 1 7) \<and>
   block (sent_at 2 example_plan example_input False 1) 0 17 = encode_segment (example_row 0 8) \<and>
   block (sent_at 2 example_plan example_input False 1) 17 17 = encode_segment (example_row 1 9)"
  by code_simp

lemma length_deliver: "length rows * lanes \<le> length old \<Longrightarrow> length (deliver_words rows old) = length old"
  by (simp add: deliver_words_def)

lemma example_world: "world_ok 2 example_plan example_input False"
proof -
  have "targets_valid (example_plan 0) False (example_input 0) \<and> targets_valid (example_plan 1) False (example_input 1)"
    by code_simp
  moreover have "length (op_send (example_plan q)) = 34" "op_ranks (example_plan q) = 2" "op_rank (example_plan q) = q" for q
    by (simp_all add: example_plan_def configured_def Let_def lanes_def)
  ultimately show ?thesis unfolding world_ok_def all_below_2 by (simp add: example_input_def lanes_def)
qed

lemma example_route_conforms: "exchange_conforms 2 example_plan example_input False example_route"
proof -
  have old: "length (op_receive (example_plan q)) = 51" for q
    by (simp add: example_plan_def configured_def Let_def lanes_def)
  have b: "block (deliver_words [r] old) 0 17 = encode_segment r"
    "block (deliver_words [r, r'] old) 0 17 = encode_segment r" "block (deliver_words [r, r'] old) 17 17 = encode_segment r'"
    for r r' and old :: "u64 list"
    by (simp_all add: block_def deliver_words_def drop_append take_append) (simp_all add: lanes_def)
  have z: "block words 0 0 = []" for words :: "u64 list" by (simp add: block_def)
  have "agree_conforms 2 (local_at 2 example_plan example_input False) (\<lambda>q. xa_agree (example_route q))"
    using silent_conforms [of 2 "local_at 2 example_plan example_input False"] example_local
    by (simp add: example_route_def)
  then show ?thesis
    unfolding exchange_conforms_def all_below_2 using example_counts example_slots example_blocks
    by (simp add: example_route_def b z old length_deliver lanes_def)
qed

theorem exchange_delivers_witness:
  "\<exists>plan. exchange (example_plan 1) (example_input 1) False (example_route 1) 0 = (Success, 2, plan) \<and>
     take 2 (op_values plan) = [example_row 1 7, example_row 1 9]"
proof -
  have r: "rows_to 2 example_plan example_input False 1 = [example_row 1 7, example_row 1 9]" by code_simp
  have "fits_all 2 example_plan example_input False"
    unfolding fits_all_local [OF example_world] using example_local by blast
  then show ?thesis
    using exchange_delivers [OF example_world example_route_conforms, of 0] r by (auto simp: all_below_2 numeral_2_eq_2)
qed

end
