(* ===== verification/Exchange_Prepare.thy ===== *)
theory Exchange_Prepare
  imports Exchange_Delivery
begin

text \<open>
  The whole of \<^verbatim>\<open>prepare\<close>: the four agreements and the two exchanges of all ranks together. The
  outcome is a function of what the ranks pass in, and every rank reports it.
\<close>

section \<open>A set of configured plans\<close>

definition plans_ok :: "nat \<Rightarrow> int3 \<Rightarrow> int3 \<Rightarrow> (nat \<Rightarrow> routing_plan) \<Rightarrow> bool" where
  "plans_ok n cells grid plans \<longleftrightarrow> 0 < n \<and> n < 2 ^ 31 \<and> small3 cells \<and>
     positive3 grid \<and> x3 grid * y3 grid * z3 grid = int n \<and>
     (\<forall>q < n. \<not> op_null (plans q) \<and> op_rank (plans q) = q \<and> op_ranks (plans q) = n \<and>
       op_global (plans q) = cells \<and> op_grid (plans q) = grid \<and>
       op_local_capacity (plans q) * lanes \<le> length (op_send (plans q)) \<and>
       max (op_local_capacity (plans q)) (op_audit_capacity (plans q)) * lanes \<le> length (op_receive (plans q)))"

definition same_shape :: "routing_plan \<Rightarrow> routing_plan \<Rightarrow> bool" where
  "same_shape a b \<longleftrightarrow> op_null a = op_null b \<and> op_rank a = op_rank b \<and> op_ranks a = op_ranks b \<and>
     op_global a = op_global b \<and> op_grid a = op_grid b \<and> op_species a = op_species b \<and>
     op_local_capacity a = op_local_capacity b \<and> op_audit_capacity a = op_audit_capacity b \<and>
     length (op_send a) = length (op_send b) \<and> length (op_receive a) = length (op_receive b)"

lemma same_shape_target: "same_shape a b \<Longrightarrow> row_target a = row_target b"
  by (intro ext) (simp add: row_target_def same_shape_def auditor_def plan_owner_def)

lemma same_shape_rows:
  "\<forall>q < n. same_shape (a q) (b q) \<Longrightarrow> q < n \<Longrightarrow> rows_to n a inputs audit q = rows_to n b inputs audit q"
proof -
  assume s: "\<forall>q < n. same_shape (a q) (b q)"
  have "map (\<lambda>r. rows_for (a r) audit (inputs r) q) [0..<n] = map (\<lambda>r. rows_for (b r) audit (inputs r) q) [0..<n]"
  proof (rule map_cong [OF refl])
    fix r assume "r \<in> set [0..<n]"
    then have "same_shape (a r) (b r)" using s by simp
    from same_shape_target [OF this] show "rows_for (a r) audit (inputs r) q = rows_for (b r) audit (inputs r) q"
      by (simp only: rows_for_def)
  qed
  then show ?thesis by (simp only: rows_to_def)
qed

lemma same_shape_fits:
  "\<forall>q < n. same_shape (a q) (b q) \<Longrightarrow> fits_all n a inputs audit \<longleftrightarrow> fits_all n b inputs audit"
  unfolding fits_all_def using same_shape_rows [of n a b] by (auto simp: exchange_capacity_def same_shape_def)

lemma plan_owner_range:
  assumes "plans_ok n cells grid plans" "r < n"
  shows "plan_owner (plans r) cell_id = -1 \<or> 0 \<le> plan_owner (plans r) cell_id \<and> plan_owner (plans r) cell_id < int n"
proof -
  have p: "small3 cells" "positive3 grid" "x3 grid * y3 grid * z3 grid = int n" "plan_owner (plans r) cell_id = cell_owner cells grid cell_id"
    using assms by (simp_all add: plans_ok_def plan_owner_def)
  show ?thesis
  proof (cases "uint cell_id < x3 cells * y3 cells * z3 cells")
    case True
    have "positive3 cells" using p(1) by (simp add: small3_def)
    from coord_in_grid [OF this _ True] have "in_box origin cells (coord_of cells (uint cell_id))" by simp
    from rank_in_range [OF p(2) owner_coord_in_grid [OF p(2) this]] True show ?thesis
      unfolding p(3,4) cell_owner_value [OF p(1,2)] by simp
  next
    case False
    then show ?thesis unfolding p(4) cell_owner_value [OF p(1,2)] by simp
  qed
qed

lemma auditor_below: "0 < op_ranks plan \<Longrightarrow> op_ranks plan < 2 ^ 31 \<Longrightarrow> auditor plan s < op_ranks plan"
proof -
  assume r: "0 < op_ranks plan" "op_ranks plan < 2 ^ 31"
  then have "unat (word_of_nat (op_ranks plan) :: u64) = op_ranks plan" by (simp add: unat_of_nat)
  with r show ?thesis by (simp add: auditor_def Let_def unat_mod)
qed

lemma check_rows_success:
  "check_rows plan revision rows = Success \<longleftrightarrow> (\<forall>s \<in> set rows. sg_revision s = revision \<and> \<not> row_malformed plan s)"
  by (induction rows) auto

lemma check_input_success:
  "check_input plan revision input = Success \<Longrightarrow>
   length (span_list input) \<le> op_local_capacity plan \<and>
   (\<forall>s \<in> set (span_list input). sg_revision s = revision \<and> \<not> row_malformed plan s)"
  by (cases input) (auto simp: check_input_def check_rows_success split: if_splits)

lemma check_input_named: "named_portable (check_input plan revision input)"
proof -
  have "named_portable (check_rows plan revision rows)" for rows by (induction rows) simp_all
  then show ?thesis by (simp add: check_input_def)
qed

lemma audit_groups_named: "named_portable (audit_groups sum_ok rows)"
  by (induction sum_ok rows rule: audit_groups.induct) (simp_all add: Let_def)

lemma valid_world:
  assumes p: "plans_ok n cells grid plans" and s: "\<forall>q < n. same_shape (shape q) (plans q)"
    and v: "\<forall>q < n. check_input (plans q) (revisions q) (inputs q) = Success"
  shows "world_ok n shape (\<lambda>q. span_list (inputs q)) audit"
proof -
  have "op_rank (shape r) = r \<and> op_ranks (shape r) = n \<and> targets_valid (shape r) audit (span_list (inputs r)) \<and>
      length (span_list (inputs r)) * lanes \<le> length (op_send (shape r))" if r: "r < n" for r
  proof -
    have sh: "same_shape (shape r) (plans r)" using s r by blast
    have pl: "op_rank (plans r) = r" "op_ranks (plans r) = n" "0 < n" "n < 2 ^ 31"
      "op_local_capacity (plans r) * lanes \<le> length (op_send (plans r))" using p r by (simp_all add: plans_ok_def)
    note ci = check_input_success [OF v [rule_format, OF r]]
    have "row_target (plans r) audit x < n" if "x \<in> set (span_list (inputs r))" for x
    proof (cases audit)
      case True
      then show ?thesis using auditor_below [of "plans r"] pl by (simp add: row_target_def)
    next
      case False
      have "\<not> plan_owner (plans r) (sg_cell x) < 0" using ci that by (auto simp: row_malformed_def)
      with plan_owner_range [OF p r, of "sg_cell x"] False show ?thesis by (auto simp: row_target_def)
    qed
    then have "targets_valid (shape r) audit (span_list (inputs r))"
      using sh pl(2) by (simp add: targets_valid_def same_shape_target [OF sh] same_shape_def)
    moreover have "length (span_list (inputs r)) * lanes \<le> length (op_send (plans r))"
      by (rule order_trans [OF mult_le_mono1 pl(5)]) (use ci in simp)
    ultimately show ?thesis using sh pl by (simp add: same_shape_def)
  qed
  then show ?thesis using p by (simp add: world_ok_def plans_ok_def)
qed

section \<open>The outcome of all ranks\<close>

definition clocks_agree :: "nat \<Rightarrow> (nat \<Rightarrow> exchange_revision) \<Rightarrow> bool" where
  "clocks_agree n revisions \<longleftrightarrow> (\<forall>q < n. revision_clock (revisions q) = revision_clock (revisions 0))"

definition audit_status :: "(double_bits list \<Rightarrow> bool) \<Rightarrow> nat \<Rightarrow> (nat \<Rightarrow> routing_plan) \<Rightarrow>
    (nat \<Rightarrow> exchange_segment list) \<Rightarrow> nat \<Rightarrow> portable_status" where
  "audit_status sum_ok n plans rows q = audit_groups sum_ok (sort_key audit_order (rows_to n plans rows True q))"

definition routing_outcome :: "(double_bits list \<Rightarrow> bool) \<Rightarrow> nat \<Rightarrow> (nat \<Rightarrow> routing_plan) \<Rightarrow>
    (nat \<Rightarrow> exchange_revision) \<Rightarrow> (nat \<Rightarrow> exchange_segment span) \<Rightarrow> portable_status" where
  "routing_outcome sum_ok n plans revisions inputs =
     (let rows = (\<lambda>q. span_list (inputs q)); valid = agreed n (\<lambda>q. check_input (plans q) (revisions q) (inputs q));
          audited = agreed n (audit_status sum_ok n plans rows) in
      if valid \<noteq> Success then valid
      else if \<not> clocks_agree n revisions then Stale_revision
      else if \<not> fits_all n plans rows True then Capacity_exceeded
      else if audited \<noteq> Success then audited
      else if \<not> fits_all n plans rows False then Capacity_exceeded
      else Success)"

text \<open>The states between the stages, and MPI conforming at each stage that is reached.\<close>

definition audited_plan :: "nat \<Rightarrow> (nat \<Rightarrow> routing_plan) \<Rightarrow> (nat \<Rightarrow> exchange_segment span) \<Rightarrow>
    (nat \<Rightarrow> prepare_answers) \<Rightarrow> nat \<Rightarrow> nat \<times> routing_plan" where
  "audited_plan n plans inputs answers q =
     (case exchange (discard_rows (plans q)) (span_list (inputs q)) True (pa_audit (answers q)) 0 of
        (st, received, plan) \<Rightarrow> (received, sort_values audit_order received plan))"

definition routed_plan :: "nat \<Rightarrow> (nat \<Rightarrow> routing_plan) \<Rightarrow> (nat \<Rightarrow> exchange_segment span) \<Rightarrow>
    (nat \<Rightarrow> prepare_answers) \<Rightarrow> nat \<Rightarrow> nat \<times> routing_plan" where
  "routed_plan n plans inputs answers q =
     (let plan = snd (audited_plan n plans inputs answers q) in
      case exchange plan (span_list (inputs q)) False (pa_route (answers q)) (op_count plan) of
        (st, received, plan) \<Rightarrow> (received, sort_values route_order received (plan\<lparr>op_count := received\<rparr>)))"

definition clock_answer :: "(u64 set \<Rightarrow> u64) \<Rightarrow> nat \<Rightarrow> (nat \<Rightarrow> exchange_revision) \<Rightarrow> u64 list" where
  "clock_answer f n revisions =
     [f ((\<lambda>q. er_step (revisions q)) ` {..< n}), f ((\<lambda>q. er_input (revisions q)) ` {..< n})]"

definition prepare_conforms :: "(double_bits list \<Rightarrow> bool) \<Rightarrow> nat \<Rightarrow> (nat \<Rightarrow> routing_plan) \<Rightarrow>
    (nat \<Rightarrow> exchange_revision) \<Rightarrow> (nat \<Rightarrow> exchange_segment span) \<Rightarrow> (nat \<Rightarrow> prepare_answers) \<Rightarrow> bool" where
  "prepare_conforms sum_ok n plans revisions inputs answers \<longleftrightarrow>
     (let rows = (\<lambda>q. span_list (inputs q)); checked = (\<lambda>q. check_input (discard_rows (plans q)) (revisions q) (inputs q));
          a = audited_plan n plans inputs answers; r = routed_plan n plans inputs answers in
      agree_conforms n checked (\<lambda>q. pa_input (answers q)) \<and>
      (agreed n checked = Success \<longrightarrow>
        (\<forall>q < n. pa_min (answers q) (revision_clock (revisions q)) = Some (clock_answer Min n revisions) \<and>
          pa_max (answers q) (revision_clock (revisions q)) = Some (clock_answer Max n revisions)) \<and>
        (clocks_agree n revisions \<longrightarrow>
          exchange_conforms n (\<lambda>q. discard_rows (plans q)) rows True (\<lambda>q. pa_audit (answers q)) \<and>
          (fits_all n plans rows True \<longrightarrow>
            agree_conforms n (\<lambda>q. audited_local sum_ok (fst (a q)) (snd (a q))) (\<lambda>q. pa_audited (answers q)) \<and>
            (agreed n (\<lambda>q. audited_local sum_ok (fst (a q)) (snd (a q))) = Success \<longrightarrow>
              exchange_conforms n (\<lambda>q. snd (a q)) rows False (\<lambda>q. pa_route (answers q)) \<and>
              (fits_all n plans rows False \<longrightarrow>
                agree_conforms n (\<lambda>q. owned_local (fst (r q)) (snd (r q))) (\<lambda>q. pa_owned (answers q))))))))"

section \<open>The stages\<close>

lemma discard_shape: "same_shape (discard_rows plan) plan"
  by (simp add: same_shape_def discard_rows_def)

lemma check_input_discard: "check_input (discard_rows plan) = check_input plan"
proof (intro ext)
  fix revision input
  have m: "row_malformed (discard_rows plan) = row_malformed plan"
    by (intro ext) (simp add: row_malformed_def plan_owner_def discard_rows_def)
  have "check_rows (discard_rows plan) revision rows = check_rows plan revision rows" for rows
    by (induction rows) (simp_all add: m)
  then show "check_input (discard_rows plan) revision input = check_input plan revision input"
    by (simp add: check_input_def discard_rows_def)
qed

lemma clock_answers_equal:
  assumes "0 < n"
  shows "clock_answer Min n revisions = clock_answer Max n revisions \<longleftrightarrow> clocks_agree n revisions"
proof -
  have one: "Min (f ` {..< n}) = Max (f ` {..< n}) \<longleftrightarrow> (\<forall>q < n. f q = f 0)" for f :: "nat \<Rightarrow> u64"
  proof
    assume e: "Min (f ` {..< n}) = Max (f ` {..< n})"
    have "f q = Min (f ` {..< n})" if "q < n" for q
      using that e Min_le [of "f ` {..< n}" "f q"] Max_ge [of "f ` {..< n}" "f q"] by (simp add: antisym)
    then show "\<forall>q < n. f q = f 0" using assms by metis
  next
    assume e: "\<forall>q < n. f q = f 0"
    have "f ` {..< n} = (\<lambda>_. f 0) ` {..< n}" by (rule image_cong) (use e in blast)+
    also have "\<dots> = {f 0}" using assms by auto
    finally have "f ` {..< n} = {f 0}" .
    then show "Min (f ` {..< n}) = Max (f ` {..< n})" by simp
  qed
  show ?thesis
    unfolding clock_answer_def clocks_agree_def revision_clock_def list.inject
      one [of "\<lambda>q. er_step (revisions q)"] one [of "\<lambda>q. er_input (revisions q)"] by blast
qed

lemma rows_to_target:
  "s \<in> set (rows_to n plans rows audit q) \<Longrightarrow> \<exists>r < n. s \<in> set (rows r) \<and> row_target (plans r) audit s = q"
  by (auto simp: rows_to_def rows_for_def)

lemma sorted_values:
  "op_values plan = rows @ rest \<Longrightarrow> op_values (sort_values key (length rows) plan) = sort_key key rows @ rest"
  by (simp add: sort_values_def)

text \<open>An exchange that fits, followed by the sort.\<close>

lemma exchange_sorted:
  assumes w: "world_ok n plans rows audit" and c: "exchange_conforms n plans rows audit answers"
    and fits: "fits_all n plans rows audit" and q: "q < n"
    and e: "exchange (plans q) (rows q) audit (answers q) before = (st, received, plan)"
  shows "st = Success \<and> received = length (rows_to n plans rows audit q) \<and> same_shape plan (plans q) \<and>
    op_generation plan = op_generation (plans q) \<and> op_available plan = op_available (plans q) \<and>
    op_values (sort_values key received plan) = sort_key key (rows_to n plans rows audit q) @
      drop (length (rows_to n plans rows audit q)) (op_values (plans q))"
proof -
  have ok: "\<forall>q < n. local_at n plans rows audit q = Success" using fits fits_all_local [OF w] by blast
  obtain words where x: "length words = length (op_receive (plans q))"
    "exchange (plans q) (rows q) audit (answers q) before =
    (Success, length (rows_to n plans rows audit q), (plans q)\<lparr>op_send := sent_at n plans rows audit q, op_receive := words,
      op_values := rows_to n plans rows audit q @ drop (length (rows_to n plans rows audit q)) (op_values (plans q))\<rparr>)"
    using exchange_ok [OF w c ok q] by blast
  have "length (sent_at n plans rows audit q) = length (op_send (plans q))"
    using sent_blocks [OF w q ok [rule_format, OF q]] by blast
  with x e show ?thesis by (auto simp: same_shape_def sort_values_def)
qed

lemma exchange_short:
  assumes w: "world_ok n plans rows audit" and c: "exchange_conforms n plans rows audit answers"
    and full: "\<not> fits_all n plans rows audit" and q: "q < n"
    and e: "exchange (plans q) (rows q) audit (answers q) before = (st, received, plan)"
  shows "st = Capacity_exceeded \<and> plan = plans q"
proof -
  have "\<not> (\<forall>q < n. local_at n plans rows audit q = Success)" using full fits_all_local [OF w] by blast
  from exchange_full [OF w c this q, of before] e show ?thesis by auto
qed

lemma sort_values_shape: "same_shape (sort_values key received plan) plan"
  by (simp add: sort_values_def same_shape_def)

lemma same_shape_trans: "same_shape a b \<Longrightarrow> same_shape b c \<Longrightarrow> same_shape a c"
  by (simp add: same_shape_def)

lemma sort_values_fields [simp]:
  "op_generation (sort_values key received plan) = op_generation plan"
  "op_available (sort_values key received plan) = op_available plan"
  "op_count (sort_values key received plan) = op_count plan"
  by (simp_all add: sort_values_def)

lemma agreed_cong: "(\<And>q. q < n \<Longrightarrow> f q = g q) \<Longrightarrow> agreed n f = agreed n g"
proof -
  assume e: "\<And>q. q < n \<Longrightarrow> f q = g q"
  have "find (\<lambda>q. f q \<noteq> Success) [0..<n] = find (\<lambda>q. g q \<noteq> Success) [0..<n]"
    by (rule find_cong) (simp_all add: e)
  moreover have "find (\<lambda>q. g q \<noteq> Success) [0..<n] = Some q \<Longrightarrow> f q = g q" for q using e find_least by metis
  ultimately show ?thesis by (simp add: agreed_def split: option.splits)
qed

definition idle :: "routing_plan \<Rightarrow> routing_plan \<Rightarrow> bool" where
  "idle plan before \<longleftrightarrow> \<not> op_available plan \<and> op_generation plan = op_generation before + 1"

text \<open>The first agreement and the clocks.\<close>

lemma stage_input:
  assumes p: "plans_ok n cells grid plans" and c: "prepare_conforms sum_ok n plans revisions inputs answers" and q: "q < n"
  shows "agree (pa_input (answers q)) (op_rank (discard_rows (plans q))) (check_input (discard_rows (plans q)) (revisions q) (inputs q)) =
    agreed n (\<lambda>q. check_input (plans q) (revisions q) (inputs q))"
proof -
  have "agree_conforms n (\<lambda>q. check_input (plans q) (revisions q) (inputs q)) (\<lambda>q. pa_input (answers q))"
    using c unfolding prepare_conforms_def Let_def check_input_discard by blast
  from agree_common [OF _ this q] check_input_named p q show ?thesis
    unfolding check_input_discard by (simp add: plans_ok_def discard_rows_def)
qed

lemma stage_clock:
  assumes c: "prepare_conforms sum_ok n plans revisions inputs answers" and q: "q < n"
    and v: "agreed n (\<lambda>q. check_input (plans q) (revisions q) (inputs q)) = Success"
  shows "pa_min (answers q) (revision_clock (revisions q)) = Some (clock_answer Min n revisions) \<and>
    pa_max (answers q) (revision_clock (revisions q)) = Some (clock_answer Max n revisions)"
  using c q v unfolding prepare_conforms_def Let_def check_input_discard by blast

lemma stage_audit:
  assumes c: "prepare_conforms sum_ok n plans revisions inputs answers"
    and v: "agreed n (\<lambda>q. check_input (plans q) (revisions q) (inputs q)) = Success" and k: "clocks_agree n revisions"
  shows "exchange_conforms n (\<lambda>q. discard_rows (plans q)) (\<lambda>q. span_list (inputs q)) True (\<lambda>q. pa_audit (answers q))"
  using c v k unfolding prepare_conforms_def Let_def check_input_discard by blast

lemma valid_inputs:
  assumes "agreed n (\<lambda>q. check_input (plans q) (revisions q) (inputs q)) = Success"
  shows "\<forall>q < n. check_input (plans q) (revisions q) (inputs q) = Success"
  using assms unfolding agreed_success .

text \<open>After the audit exchange each rank holds the rows it audits, in audit order.\<close>

lemma audit_state:
  assumes p: "plans_ok n cells grid plans" and c: "prepare_conforms sum_ok n plans revisions inputs answers"
    and v: "agreed n (\<lambda>q. check_input (plans q) (revisions q) (inputs q)) = Success" and k: "clocks_agree n revisions"
    and fits: "fits_all n plans (\<lambda>q. span_list (inputs q)) True" and q: "q < n"
  defines "rows \<equiv> \<lambda>q. span_list (inputs q)"
  shows "\<exists>plan. exchange (discard_rows (plans q)) (rows q) True (pa_audit (answers q)) 0 =
      (Success, length (rows_to n plans rows True q), plan) \<and>
    audited_plan n plans inputs answers q =
      (length (rows_to n plans rows True q), sort_values audit_order (length (rows_to n plans rows True q)) plan) \<and>
    same_shape (snd (audited_plan n plans inputs answers q)) (plans q) \<and>
    idle (snd (audited_plan n plans inputs answers q)) (plans q) \<and>
    audited_local sum_ok (length (rows_to n plans rows True q)) (snd (audited_plan n plans inputs answers q)) =
      audit_status sum_ok n plans rows q"
proof -
  have d: "\<forall>q < n. same_shape (discard_rows (plans q)) (plans q)" using discard_shape by blast
  have w: "world_ok n (\<lambda>q. discard_rows (plans q)) rows True"
    unfolding rows_def by (rule valid_world [OF p d valid_inputs [OF v]])
  have f: "fits_all n (\<lambda>q. discard_rows (plans q)) rows True"
    using fits same_shape_fits [OF d] unfolding rows_def by blast
  note x = stage_audit [OF c v k, folded rows_def]
  obtain st received plan where e: "exchange (discard_rows (plans q)) (rows q) True (pa_audit (answers q)) 0 = (st, received, plan)"
    by (metis prod.exhaust)
  have r: "rows_to n (\<lambda>q. discard_rows (plans q)) rows True q = rows_to n plans rows True q"
    by (rule same_shape_rows [OF d q])
  note s = exchange_sorted [OF w x f q e, where key = audit_order, unfolded r]
  have a: "audited_plan n plans inputs answers q = (received, sort_values audit_order received plan)"
    using e by (simp add: audited_plan_def rows_def)
  have "same_shape (sort_values audit_order received plan) (plans q)"
    using s sort_values_shape discard_shape same_shape_trans by blast
  moreover have "idle (sort_values audit_order received plan) (plans q)"
    using s by (simp add: idle_def discard_rows_def)
  moreover have "audited_local sum_ok received (sort_values audit_order received plan) = audit_status sum_ok n plans rows q"
  proof -
    have "received = length (rows_to n plans rows True q)"
      "op_values (sort_values audit_order received plan) = sort_key audit_order (rows_to n plans rows True q) @
        drop (length (rows_to n plans rows True q)) (op_values (discard_rows (plans q)))"
      using s by blast+
    then show ?thesis unfolding audited_local_def audit_status_def by simp
  qed
  ultimately show ?thesis using s e a by auto
qed

text \<open>After the second exchange each rank holds its own rows, in routing order, and every one is its own.\<close>

lemma route_state:
  assumes p: "plans_ok n cells grid plans" and c: "prepare_conforms sum_ok n plans revisions inputs answers"
    and v: "agreed n (\<lambda>q. check_input (plans q) (revisions q) (inputs q)) = Success" and k: "clocks_agree n revisions"
    and fits: "fits_all n plans (\<lambda>q. span_list (inputs q)) True"
    and au: "agreed n (audit_status sum_ok n plans (\<lambda>q. span_list (inputs q))) = Success"
    and fits': "fits_all n plans (\<lambda>q. span_list (inputs q)) False" and q: "q < n"
  defines "rows \<equiv> \<lambda>q. span_list (inputs q)" and "a \<equiv> audited_plan n plans inputs answers"
  shows "\<exists>plan. exchange (snd (a q)) (rows q) False (pa_route (answers q)) (op_count (snd (a q))) =
      (Success, length (rows_to n plans rows False q), plan) \<and> idle plan (plans q) \<and> same_shape plan (plans q) \<and>
    routed_plan n plans inputs answers q = (length (rows_to n plans rows False q),
      sort_values route_order (length (rows_to n plans rows False q)) (plan\<lparr>op_count := length (rows_to n plans rows False q)\<rparr>)) \<and>
    take (length (rows_to n plans rows False q)) (op_values (snd (routed_plan n plans inputs answers q))) =
      sort_key route_order (rows_to n plans rows False q) \<and>
    owned_local (length (rows_to n plans rows False q)) (snd (routed_plan n plans inputs answers q)) = Success"
proof -
  note au_state = audit_state [OF p c v k fits, folded rows_def a_def]
  have d: "\<forall>q < n. same_shape (snd (a q)) (plans q)" using au_state by blast
  have w: "world_ok n (\<lambda>q. snd (a q)) rows False"
    unfolding rows_def by (rule valid_world [OF p d valid_inputs [OF v]])
  have loc: "audited_local sum_ok (fst (a q)) (snd (a q)) = audit_status sum_ok n plans rows q" if "q < n" for q
    using au_state [OF that] by auto
  have "agreed n (\<lambda>q. audited_local sum_ok (fst (a q)) (snd (a q))) = Success"
    using au agreed_cong [of n "\<lambda>q. audited_local sum_ok (fst (a q)) (snd (a q))"] loc unfolding rows_def by metis
  then have x: "exchange_conforms n (\<lambda>q. snd (a q)) rows False (\<lambda>q. pa_route (answers q))"
    using c v k fits unfolding prepare_conforms_def Let_def check_input_discard rows_def a_def by blast
  have f: "fits_all n (\<lambda>q. snd (a q)) rows False" using fits' same_shape_fits [OF d] unfolding rows_def by blast
  obtain st received plan where e: "exchange (snd (a q)) (rows q) False (pa_route (answers q)) (op_count (snd (a q))) = (st, received, plan)"
    by (metis prod.exhaust)
  have r: "rows_to n (\<lambda>q. snd (a q)) rows False q = rows_to n plans rows False q" by (rule same_shape_rows [OF d q])
  note s = exchange_sorted [OF w x f q e, where key = route_order, unfolded r]
  let ?rows = "rows_to n plans rows False q" and ?plan = "plan\<lparr>op_count := received\<rparr>"
  have st: "st = Success" "received = length ?rows" "same_shape plan (plans q)" "idle plan (plans q)"
    using s au_state [OF q] d q same_shape_trans by (auto simp: idle_def)
  have rp: "routed_plan n plans inputs answers q = (received, sort_values route_order received ?plan)"
    using e by (simp add: routed_plan_def Let_def rows_def a_def)
  have "op_values (sort_values route_order received ?plan) = op_values (sort_values route_order received plan)"
    by (simp add: sort_values_def)
  then have vals: "take (length ?rows) (op_values (sort_values route_order received ?plan)) = sort_key route_order ?rows"
    using s by auto
  have own: "plan_owner (sort_values route_order received ?plan) (sg_cell x) = int (op_rank (sort_values route_order received ?plan))"
    if "x \<in> set ?rows" for x
  proof -
    from rows_to_target [OF that] obtain u where u: "u < n" "x \<in> set (rows u)" "row_target (plans u) False x = q" by blast
    have "\<not> row_malformed (plans u) x"
      using check_input_success [OF valid_inputs [OF v, rule_format, OF u(1)]] u(2) unfolding rows_def by blast
    then have "plan_owner (plans u) (sg_cell x) = int q" using u(3) by (auto simp: row_malformed_def row_target_def)
    moreover have "plan_owner plan (sg_cell x) = plan_owner (plans u) (sg_cell x)" "op_rank plan = q"
      using st(3) p q u(1) by (simp_all add: same_shape_def plans_ok_def plan_owner_def)
    ultimately show ?thesis by (simp add: sort_values_def plan_owner_def)
  qed
  have "owned_local (length ?rows) (sort_values route_order received ?plan) = Success"
    unfolding owned_local_def vals using own by auto
  with st e rp vals show ?thesis by simp
qed

section \<open>All ranks report the outcome\<close>

lemma discard_idle: "idle (discard_rows plan) plan"
  by (simp add: idle_def discard_rows_def)

lemma candidates_idle: "idle plan before \<Longrightarrow> rt_rows (candidates plan) = None \<and> rt_generation (candidates plan) = None"
  by (simp add: idle_def candidates_def)

lemma idle_shape: "op_available a = op_available b \<Longrightarrow> op_generation a = op_generation b \<Longrightarrow> idle b c \<Longrightarrow> idle a c"
  by (simp add: idle_def)

definition delivered :: "nat \<Rightarrow> (nat \<Rightarrow> routing_plan) \<Rightarrow> (nat \<Rightarrow> exchange_revision) \<Rightarrow>
    (nat \<Rightarrow> exchange_segment span) \<Rightarrow> nat \<Rightarrow> routed_segments" where
  "delivered n plans revisions inputs q =
     \<lparr>rt_rows = Some (sort_key route_order (rows_to n plans (\<lambda>q. span_list (inputs q)) False q)),
      rt_revision = revisions q, rt_generation = Some (op_generation (plans q) + 1)\<rparr>"

text \<open>From the audited state on.\<close>

lemma prepare_tail:
  assumes p: "plans_ok n cells grid plans" and c: "prepare_conforms sum_ok n plans revisions inputs answers"
    and v: "agreed n (\<lambda>q. check_input (plans q) (revisions q) (inputs q)) = Success" and k: "clocks_agree n revisions"
    and fits: "fits_all n plans (\<lambda>q. span_list (inputs q)) True"
    and au: "agreed n (audit_status sum_ok n plans (\<lambda>q. span_list (inputs q))) = Success" and q: "q < n"
  defines "res \<equiv> prepare_route (revisions q) (span_list (inputs q)) (answers q) (snd (audited_plan n plans inputs answers q))"
  shows "if fits_all n plans (\<lambda>q. span_list (inputs q)) False
    then fst res = Success \<and> candidates (snd res) = delivered n plans revisions inputs q
    else fst res = Capacity_exceeded \<and> idle (snd res) (plans q)"
proof -
  define rows a where d: "rows = (\<lambda>q. span_list (inputs q))" "a = audited_plan n plans inputs answers"
  note au_state = audit_state [OF p c v k fits, folded d]
  show ?thesis
  proof (cases "fits_all n plans (\<lambda>q. span_list (inputs q)) False")
    case True
    let ?n = "length (rows_to n plans rows False q)"
    obtain plan where r: "exchange (snd (a q)) (span_list (inputs q)) False (pa_route (answers q)) (op_count (snd (a q))) = (Success, ?n, plan)"
      "idle plan (plans q)" "same_shape plan (plans q)"
      "routed_plan n plans inputs answers q = (?n, sort_values route_order ?n (plan\<lparr>op_count := ?n\<rparr>))"
      "take ?n (op_values (snd (routed_plan n plans inputs answers q))) = sort_key route_order (rows_to n plans rows False q)"
      "owned_local ?n (snd (routed_plan n plans inputs answers q)) = Success"
      using route_state [OF p c v k fits au True q, folded d] by blast
    have all: "owned_local (fst (routed_plan n plans inputs answers u)) (snd (routed_plan n plans inputs answers u)) = Success"
      if "u < n" for u
      using route_state [OF p c v k fits au True that] by auto
    have loc: "audited_local sum_ok (fst (a u)) (snd (a u)) = audit_status sum_ok n plans rows u" if "u < n" for u
      using au_state [OF that] by auto
    have "agreed n (\<lambda>q. audited_local sum_ok (fst (a q)) (snd (a q))) = Success"
      using au agreed_cong [of n "\<lambda>q. audited_local sum_ok (fst (a q)) (snd (a q))"] loc unfolding d by metis
    then have "agree_conforms n (\<lambda>q. owned_local (fst (routed_plan n plans inputs answers q)) (snd (routed_plan n plans inputs answers q)))
        (\<lambda>q. pa_owned (answers q))"
      using c v k fits True unfolding prepare_conforms_def Let_def check_input_discard d by blast
    from agree_common [OF _ this q] all p have "agree (pa_owned (answers q)) q
        (owned_local (fst (routed_plan n plans inputs answers q)) (snd (routed_plan n plans inputs answers q))) = Success"
      by (simp add: plans_ok_def agreed_success)
    moreover have "op_rank (snd (routed_plan n plans inputs answers q)) = q"
      using r(3,4) p q by (simp add: same_shape_def sort_values_def plans_ok_def)
    ultimately have ag: "agree (pa_owned (answers q)) (op_rank (sort_values route_order ?n (plan\<lparr>op_count := ?n\<rparr>)))
        (owned_local ?n (sort_values route_order ?n (plan\<lparr>op_count := ?n\<rparr>))) = Success"
      using r(4) by simp
    have res: "res = (Success, (sort_values route_order ?n (plan\<lparr>op_count := ?n\<rparr>))\<lparr>op_revision := revisions q, op_available := True\<rparr>)"
      using r(1) ag unfolding res_def prepare_route_def d by (simp add: Let_def)
    show ?thesis unfolding if_P [OF True] res
      using r(2,4,5) by (simp add: candidates_def delivered_def idle_def d)
  next
    case False
    have dd: "\<forall>q < n. same_shape (snd (a q)) (plans q)" using au_state by blast
    have w: "world_ok n (\<lambda>q. snd (a q)) rows False"
      unfolding d by (rule valid_world [OF p dd [unfolded d] valid_inputs [OF v]])
    have loc: "audited_local sum_ok (fst (a q)) (snd (a q)) = audit_status sum_ok n plans rows q" if "q < n" for q
      using au_state [OF that] by auto
    have "agreed n (\<lambda>q. audited_local sum_ok (fst (a q)) (snd (a q))) = Success"
      using au agreed_cong [of n "\<lambda>q. audited_local sum_ok (fst (a q)) (snd (a q))"] loc unfolding d by metis
    then have x: "exchange_conforms n (\<lambda>q. snd (a q)) rows False (\<lambda>q. pa_route (answers q))"
      using c v k fits unfolding prepare_conforms_def Let_def check_input_discard d by blast
    have f: "\<not> fits_all n (\<lambda>q. snd (a q)) rows False" using False same_shape_fits [OF dd] unfolding d by blast
    obtain st received plan where e: "exchange (snd (a q)) (rows q) False (pa_route (answers q)) (op_count (snd (a q))) = (st, received, plan)"
      by (metis prod.exhaust)
    note sh = exchange_short [OF w x f q e]
    have "res = (Capacity_exceeded, (snd (a q))\<lparr>op_count := received\<rparr>)"
      using e sh unfolding res_def prepare_route_def d by (simp add: Let_def)
    then show ?thesis unfolding if_not_P [OF False] using au_state [OF q] by (auto simp: idle_def)
  qed
qed

lemma audit_agreed:
  assumes p: "plans_ok n cells grid plans" and c: "prepare_conforms sum_ok n plans revisions inputs answers"
    and v: "agreed n (\<lambda>q. check_input (plans q) (revisions q) (inputs q)) = Success" and k: "clocks_agree n revisions"
    and fits: "fits_all n plans (\<lambda>q. span_list (inputs q)) True" and q: "q < n"
  defines "a \<equiv> audited_plan n plans inputs answers"
  shows "agree (pa_audited (answers q)) (op_rank (snd (a q))) (audited_local sum_ok (fst (a q)) (snd (a q))) =
    agreed n (audit_status sum_ok n plans (\<lambda>q. span_list (inputs q)))"
proof -
  note st = audit_state [OF p c v k fits, folded a_def]
  have loc: "audited_local sum_ok (fst (a u)) (snd (a u)) = audit_status sum_ok n plans (\<lambda>q. span_list (inputs q)) u"
    if "u < n" for u using st [OF that] by auto
  have "agree_conforms n (\<lambda>q. audited_local sum_ok (fst (a q)) (snd (a q))) (\<lambda>q. pa_audited (answers q))"
    using c v k fits unfolding prepare_conforms_def Let_def check_input_discard a_def by blast
  from agree_common [OF _ this q] p have "agree (pa_audited (answers q)) q (audited_local sum_ok (fst (a q)) (snd (a q))) =
      agreed n (\<lambda>q. audited_local sum_ok (fst (a q)) (snd (a q)))"
    by (simp add: plans_ok_def audited_local_def audit_groups_named)
  moreover have "op_rank (snd (a q)) = q" using st [OF q] p q by (auto simp: same_shape_def plans_ok_def)
  ultimately show ?thesis using agreed_cong [OF loc] by simp
qed

end
