(* ===== verification/Exchange_Exists.thy ===== *)
theory Exchange_Exists
  imports Exchange_Prepare
begin

text \<open>
  An MPI that answers as documented exists for every routing step: the answers are written down, and
  they conform. So the theorems about conforming answers are about every step.
\<close>

section \<open>Answers to one exchange\<close>

definition documented_agree :: "nat \<Rightarrow> (nat \<Rightarrow> portable_status) \<Rightarrow> agree_answers" where
  "documented_agree n locals =
     \<lparr>ag_min = (\<lambda>_. Some (Min ((\<lambda>q. agree_first q (locals q)) ` {..< n}))),
      ag_bcast = (\<lambda>root _. Some (portable_code (locals (nat root))))\<rparr>"

lemma documented_agree_conforms: "agree_conforms n locals (\<lambda>_. documented_agree n locals)"
  by (simp add: agree_conforms_def documented_agree_def Let_def)

definition documented_exchange :: "nat \<Rightarrow> (nat \<Rightarrow> routing_plan) \<Rightarrow> (nat \<Rightarrow> exchange_segment list) \<Rightarrow> bool \<Rightarrow>
    nat \<Rightarrow> exchange_answers" where
  "documented_exchange n plans inputs audit q =
     \<lparr>xa_alltoall = (\<lambda>_. Some (received_counts n plans inputs audit q)),
      xa_agree = documented_agree n (local_at n plans inputs audit),
      xa_alltoallv = (\<lambda>_ _ old. Some (deliver_words (rows_to n plans inputs audit q) old))\<rparr>"

lemma block_of_concat:
  "r < n \<Longrightarrow> block (concat (map xs [0..<n]) @ rest) (sum_list (map (length \<circ> xs) [0..<r])) (length (xs r)) = xs r"
proof -
  assume r: "r < n"
  then have "[0..<n] = [0..<r] @ r # [Suc r..<n]"
    by (metis le_add_diff_inverse less_imp_le_nat upt_add_eq_append upt_conv_Cons zero_le)
  then have "concat (map xs [0..<n]) = concat (map xs [0..<r]) @ xs r @ concat (map xs [Suc r..<n])" by simp
  moreover have "length (concat (map xs [0..<r])) = sum_list (map (length \<circ> xs) [0..<r])"
    by (simp add: length_concat comp_def)
  ultimately show ?thesis by (simp add: block_def)
qed

lemma documented_exchange_conforms:
  assumes w: "world_ok n plans inputs audit"
    and room: "\<forall>q < n. exchange_capacity (plans q) audit * lanes \<le> length (op_receive (plans q))"
  shows "exchange_conforms n plans inputs audit (documented_exchange n plans inputs audit)"
proof -
  have "length (deliver_words (rows_to n plans inputs audit q) (op_receive (plans q))) = length (op_receive (plans q)) \<and>
      (\<forall>r < n. block (deliver_words (rows_to n plans inputs audit q) (op_receive (plans q)))
          (rs_receive_offset (slots_at n plans inputs audit q ! r)) (rs_receive_count (slots_at n plans inputs audit q ! r)) =
        block (sent_at n plans inputs audit r) (rs_send_offset (slots_at n plans inputs audit r ! q))
          (rs_send_count (slots_at n plans inputs audit r ! q)))"
    if ok: "\<forall>q < n. local_at n plans inputs audit q = Success" and q: "q < n" for q
  proof -
    let ?rows = "\<lambda>r. rows_for (plans r) audit (inputs r) q"
    let ?words = "\<lambda>r. concat (map encode_segment (?rows r))"
    have le: "length (rows_to n plans inputs audit q) \<le> exchange_capacity (plans q) audit"
      using world_slots(1) [OF w q] ok q by (metis portable_status.distinct(7))
    have "length (rows_to n plans inputs audit q) * lanes \<le> length (op_receive (plans q))"
      by (rule order_trans [OF mult_le_mono1 [OF le]]) (use room q in blast)
    then have len: "length (deliver_words (rows_to n plans inputs audit q) (op_receive (plans q))) = length (op_receive (plans q))"
      by (rule length_deliver)
    have d: "deliver_words (rows_to n plans inputs audit q) (op_receive (plans q)) = concat (map ?words [0..<n]) @
        drop (length (rows_to n plans inputs audit q) * lanes) (op_receive (plans q))"
      by (simp add: deliver_words_def rows_to_def concat_map_concat comp_def)
    note slots = world_slots(3) [OF w q ok [rule_format, OF q]]
    have off: "sum_list (map (length \<circ> ?words) [0..<r]) = sum_list (map (\<lambda>u. length (?rows u)) [0..<r]) * lanes" for r
      by (simp add: comp_def sum_list_mult_const)
    have "block (deliver_words (rows_to n plans inputs audit q) (op_receive (plans q)))
          (rs_receive_offset (slots_at n plans inputs audit q ! r)) (rs_receive_count (slots_at n plans inputs audit q ! r)) =
        ?words r" if "r < n" for r
      using block_of_concat [OF that, of ?words, unfolded off] slots that unfolding d by simp
    with len sent_blocks [OF w _ ok [rule_format]] q show ?thesis by simp
  qed
  then show ?thesis
    unfolding exchange_conforms_def by (simp add: documented_exchange_def documented_agree_conforms)
qed

section \<open>Answers to a routing step\<close>

definition stage_plan :: "nat \<Rightarrow> (nat \<Rightarrow> routing_plan) \<Rightarrow> (nat \<Rightarrow> exchange_segment span) \<Rightarrow> nat \<Rightarrow> nat \<times> routing_plan" where
  "stage_plan n plans inputs q =
     (case exchange (discard_rows (plans q)) (span_list (inputs q)) True
         (documented_exchange n (\<lambda>q. discard_rows (plans q)) (\<lambda>q. span_list (inputs q)) True q) 0 of
        (st, received, plan) \<Rightarrow> (received, sort_values audit_order received plan))"

definition stage_route :: "nat \<Rightarrow> (nat \<Rightarrow> routing_plan) \<Rightarrow> (nat \<Rightarrow> exchange_segment span) \<Rightarrow> nat \<Rightarrow> nat \<times> routing_plan" where
  "stage_route n plans inputs q =
     (let plan = snd (stage_plan n plans inputs q) in
      case exchange plan (span_list (inputs q)) False
         (documented_exchange n (\<lambda>q. snd (stage_plan n plans inputs q)) (\<lambda>q. span_list (inputs q)) False q) (op_count plan) of
        (st, received, plan) \<Rightarrow> (received, sort_values route_order received (plan\<lparr>op_count := received\<rparr>)))"

definition documented_prepare :: "(double_bits list \<Rightarrow> bool) \<Rightarrow> nat \<Rightarrow> (nat \<Rightarrow> routing_plan) \<Rightarrow>
    (nat \<Rightarrow> exchange_revision) \<Rightarrow> (nat \<Rightarrow> exchange_segment span) \<Rightarrow> nat \<Rightarrow> prepare_answers" where
  "documented_prepare sum_ok n plans revisions inputs q =
     \<lparr>pa_input = documented_agree n (\<lambda>q. check_input (discard_rows (plans q)) (revisions q) (inputs q)),
      pa_min = (\<lambda>_. Some (clock_answer Min n revisions)), pa_max = (\<lambda>_. Some (clock_answer Max n revisions)),
      pa_audit = documented_exchange n (\<lambda>q. discard_rows (plans q)) (\<lambda>q. span_list (inputs q)) True q,
      pa_audited = documented_agree n (\<lambda>q. audited_local sum_ok (fst (stage_plan n plans inputs q)) (snd (stage_plan n plans inputs q))),
      pa_route = documented_exchange n (\<lambda>q. snd (stage_plan n plans inputs q)) (\<lambda>q. span_list (inputs q)) False q,
      pa_owned = documented_agree n (\<lambda>q. owned_local (fst (stage_route n plans inputs q)) (snd (stage_route n plans inputs q)))\<rparr>"

lemma shape_room:
  assumes "plans_ok n cells grid plans" "\<forall>q < n. same_shape (shape q) (plans q)"
  shows "\<forall>q < n. exchange_capacity (shape q) audit * lanes \<le> length (op_receive (shape q))"
proof (intro allI impI)
  fix q assume q: "q < n"
  have "exchange_capacity (shape q) audit * lanes \<le> max (op_local_capacity (plans q)) (op_audit_capacity (plans q)) * lanes"
    using assms(2) q by (intro mult_le_mono1) (auto simp: exchange_capacity_def same_shape_def)
  also have "\<dots> \<le> length (op_receive (plans q))" using assms(1) q by (simp add: plans_ok_def)
  also have "\<dots> = length (op_receive (shape q))" using assms(2) q by (simp add: same_shape_def)
  finally show "exchange_capacity (shape q) audit * lanes \<le> length (op_receive (shape q))" .
qed

lemmas documented_sel = documented_prepare_def prepare_answers.select_convs

lemma documented_prepare_conforms:
  assumes p: "plans_ok n cells grid plans"
  shows "prepare_conforms sum_ok n plans revisions inputs (documented_prepare sum_ok n plans revisions inputs)"
proof -
  let ?ans = "documented_prepare sum_ok n plans revisions inputs" and ?rows = "\<lambda>q. span_list (inputs q)"
  have d: "\<forall>q < n. same_shape (discard_rows (plans q)) (plans q)" using discard_shape by blast
  have pa: "pa_audit (?ans q) = documented_exchange n (\<lambda>q. discard_rows (plans q)) ?rows True q" for q
    by (simp only: documented_sel)
  have pr: "pa_route (?ans q) = documented_exchange n (\<lambda>q. snd (stage_plan n plans inputs q)) ?rows False q" for q
    by (simp only: documented_sel)
  have a: "audited_plan n plans inputs ?ans = stage_plan n plans inputs"
    unfolding audited_plan_def [abs_def] stage_plan_def [abs_def] pa ..
  have r: "routed_plan n plans inputs ?ans = stage_route n plans inputs"
    unfolding routed_plan_def [abs_def] stage_route_def [abs_def] a pr ..
  have x: "exchange_conforms n (\<lambda>q. discard_rows (plans q)) ?rows True (\<lambda>q. pa_audit (?ans q))"
    if v: "agreed n (\<lambda>q. check_input (plans q) (revisions q) (inputs q)) = Success"
    unfolding pa by (rule documented_exchange_conforms [OF valid_world [OF p d valid_inputs [OF v]] shape_room [OF p d]])
  have y: "exchange_conforms n (\<lambda>q. snd (stage_plan n plans inputs q)) ?rows False (\<lambda>q. pa_route (?ans q))"
    if v: "agreed n (\<lambda>q. check_input (plans q) (revisions q) (inputs q)) = Success" and f: "fits_all n plans ?rows True"
  proof -
    have f': "fits_all n (\<lambda>q. discard_rows (plans q)) ?rows True" using f same_shape_fits [OF d] by blast
    have "same_shape (snd (stage_plan n plans inputs q)) (plans q)" if q: "q < n" for q
    proof -
      obtain st received plan where e: "exchange (discard_rows (plans q)) (?rows q) True (pa_audit (?ans q)) 0 = (st, received, plan)"
        by (metis prod.exhaust)
      have sh: "same_shape plan (discard_rows (plans q))"
        using exchange_sorted [OF valid_world [OF p d valid_inputs [OF v]] x [OF v] f' q e] by blast
      have st: "snd (stage_plan n plans inputs q) = sort_values audit_order received plan"
        using e unfolding pa stage_plan_def by simp
      show ?thesis unfolding st by (rule same_shape_trans [OF sort_values_shape same_shape_trans [OF sh discard_shape]])
    qed
    then have s: "\<forall>q < n. same_shape (snd (stage_plan n plans inputs q)) (plans q)" by blast
    show ?thesis
      unfolding pr by (rule documented_exchange_conforms [OF valid_world [OF p s valid_inputs [OF v]] shape_room [OF p s]])
  qed
  have g: "agree_conforms n (\<lambda>q. check_input (plans q) (revisions q) (inputs q)) (\<lambda>q. pa_input (?ans q))"
    "agree_conforms n (\<lambda>q. audited_local sum_ok (fst (stage_plan n plans inputs q)) (snd (stage_plan n plans inputs q))) (\<lambda>q. pa_audited (?ans q))"
    "agree_conforms n (\<lambda>q. owned_local (fst (stage_route n plans inputs q)) (snd (stage_route n plans inputs q))) (\<lambda>q. pa_owned (?ans q))"
    unfolding documented_sel check_input_discard by (rule documented_agree_conforms)+
  have k: "\<forall>q < n. pa_min (?ans q) (revision_clock (revisions q)) = Some (clock_answer Min n revisions) \<and>
      pa_max (?ans q) (revision_clock (revisions q)) = Some (clock_answer Max n revisions)"
    by (simp only: documented_sel simp_thms)
  show ?thesis unfolding prepare_conforms_def Let_def check_input_discard a r using x y g k by blast
qed

section \<open>The outcome of a routing step\<close>

text \<open>
  C33. When MPI answers as documented, every rank of a routing step reports the same status, which is a
  function of what the ranks passed in: the first rank's complaint about its rows, a disagreement of the
  clocks, missing room, the lowest auditor's finding, or success. On success each rank then offers
  exactly the rows of all ranks whose cells it owns, sorted by cell and parcel, under the revision of
  the step; on any failure it offers none.
\<close>

theorem prepare_outcome:
  assumes "plans_ok n cells grid plans" "prepare_conforms sum_ok n plans revisions inputs answers" "q < n"
  shows "let res = prepare_rows sum_ok (revisions q) (inputs q) (answers q) (plans q) in
    fst res = routing_outcome sum_ok n plans revisions inputs \<and>
    (if fst res = Success then candidates (snd res) = delivered n plans revisions inputs q
     else rt_rows (candidates (snd res)) = None \<and> rt_generation (candidates (snd res)) = None)"
proof -
  define res where "res = prepare_rows sum_ok (revisions q) (inputs q) (answers q) (plans q)"
  let ?valid = "agreed n (\<lambda>q. check_input (plans q) (revisions q) (inputs q))"
  let ?audited = "agreed n (audit_status sum_ok n plans (\<lambda>q. span_list (inputs q)))"
  let ?d = "discard_rows (plans q)"
  note p = assms(1) and c = assms(2) and q = assms(3)
  have null: "\<not> op_null ?d" and n: "0 < n" using p q by (simp_all add: plans_ok_def discard_rows_def)
  note input = stage_input [OF p c q]
  have idle_none: "idle (snd res) (plans q) \<Longrightarrow> rt_rows (candidates (snd res)) = None \<and> rt_generation (candidates (snd res)) = None"
    by (rule candidates_idle)
  consider (valid) "?valid \<noteq> Success" | (clock) "?valid = Success" "\<not> clocks_agree n revisions"
    | (room) "?valid = Success" "clocks_agree n revisions" "\<not> fits_all n plans (\<lambda>q. span_list (inputs q)) True"
    | (audit) "?valid = Success" "clocks_agree n revisions" "fits_all n plans (\<lambda>q. span_list (inputs q)) True" "?audited \<noteq> Success"
    | (route) "?valid = Success" "clocks_agree n revisions" "fits_all n plans (\<lambda>q. span_list (inputs q)) True" "?audited = Success"
    by blast
  then have "fst res = routing_outcome sum_ok n plans revisions inputs \<and>
    (if fst res = Success then candidates (snd res) = delivered n plans revisions inputs q else idle (snd res) (plans q))"
  proof cases
    case valid
    then have "res = (?valid, ?d)" unfolding res_def prepare_rows_def Let_def input using null by simp
    with valid show ?thesis by (simp add: routing_outcome_def discard_idle)
  next
    case clock
    have "res = (Stale_revision, ?d)"
      unfolding res_def prepare_rows_def Let_def input using null clock stage_clock [OF c q clock(1)] clock_answers_equal [OF n, of revisions]
      by simp
    with clock show ?thesis by (simp add: routing_outcome_def discard_idle)
  next
    case room
    have dd: "\<forall>q < n. same_shape (discard_rows (plans q)) (plans q)" using discard_shape by blast
    have w: "world_ok n (\<lambda>q. discard_rows (plans q)) (\<lambda>q. span_list (inputs q)) True"
      by (rule valid_world [OF p dd valid_inputs [OF room(1)]])
    have full: "\<not> fits_all n (\<lambda>q. discard_rows (plans q)) (\<lambda>q. span_list (inputs q)) True"
      using room(3) same_shape_fits [OF dd] by blast
    obtain st received plan where e: "exchange ?d (span_list (inputs q)) True (pa_audit (answers q)) 0 = (st, received, plan)"
      by (metis prod.exhaust)
    note sh = exchange_short [OF w stage_audit [OF c room(1,2)] full q e]
    have "res = (Capacity_exceeded, ?d)"
      unfolding res_def prepare_rows_def Let_def input
      using null room(1,2) stage_clock [OF c q room(1)] clock_answers_equal [OF n, of revisions] e sh by simp
    with room show ?thesis by (simp add: routing_outcome_def discard_idle)
  next
    case audit
    obtain plan where a: "exchange ?d (span_list (inputs q)) True (pa_audit (answers q)) 0 =
        (Success, fst (audited_plan n plans inputs answers q), plan)"
      "sort_values audit_order (fst (audited_plan n plans inputs answers q)) plan = snd (audited_plan n plans inputs answers q)"
      "idle (snd (audited_plan n plans inputs answers q)) (plans q)"
      using audit_state [OF p c audit(1-3) q] by auto
    have "res = (?audited, snd (audited_plan n plans inputs answers q))"
      unfolding res_def prepare_rows_def Let_def input
      using null audit stage_clock [OF c q audit(1)] clock_answers_equal [OF n, of revisions] a audit_agreed [OF p c audit(1-3) q]
      by simp
    with audit a(3) show ?thesis by (simp add: routing_outcome_def)
  next
    case route
    obtain plan where a: "exchange ?d (span_list (inputs q)) True (pa_audit (answers q)) 0 =
        (Success, fst (audited_plan n plans inputs answers q), plan)"
      "sort_values audit_order (fst (audited_plan n plans inputs answers q)) plan = snd (audited_plan n plans inputs answers q)"
      using audit_state [OF p c route(1-3) q] by auto
    have "res = prepare_route (revisions q) (span_list (inputs q)) (answers q) (snd (audited_plan n plans inputs answers q))"
      unfolding res_def prepare_rows_def Let_def input
      using null route stage_clock [OF c q route(1)] clock_answers_equal [OF n, of revisions] a audit_agreed [OF p c route(1-3) q]
      by simp
    with prepare_tail [OF p c route q] route show ?thesis by (simp add: routing_outcome_def split: if_splits)
  qed
  with idle_none show ?thesis unfolding Let_def res_def [symmetric] by (simp split: if_splits)
qed

text \<open>The plans that \<^verbatim>\<open>configure\<close> leaves are such plans.\<close>

lemma configured_plans_ok:
  assumes "0 < n" "n < 2 ^ 31" "small3 cells"
    and "\<forall>q < n. make_mesh_patch (int q) (int n) cells = Inr (patch q)"
  shows "plans_ok n cells (mp_grid (patch 0)) (\<lambda>q. configured q n cells (patch q) (lc q) (ac q) (species q) (bytes q) (gen q))"
proof -
  have g: "mp_grid (patch q) = gr_grid (choose_grid cells n)" "gr_valid (choose_grid cells n)" if "q < n" for q
    using assms(4) that by (auto simp: make_mesh_patch_success patch_of_def Let_def)
  have v: "gr_valid (choose_grid cells (nat (int n)))" using g(2) [OF assms(1)] by simp
  have "0 < int n" using assms(1) by simp
  note c = chosen_grid [OF assms(3) this v]
  show ?thesis unfolding plans_ok_def g(1) [OF assms(1)]
    using assms(1-3) c g(1) by (simp add: configured_def Let_def)
qed

definition example_revision :: exchange_revision where
  "example_revision = \<lparr>er_step = 3, er_input = 5, er_version = 1\<rparr>"

definition example_span :: "nat \<Rightarrow> exchange_segment span" where
  "example_span q = Span (example_input q)"

definition one_weight :: "double_bits list \<Rightarrow> bool" where
  "one_weight ws \<longleftrightarrow> ws = [one_bits]"

lemma example_plans_ok: "plans_ok 2 \<lparr>x3 = 2, y3 = 1, z3 = 1\<rparr> \<lparr>x3 = 2, y3 = 1, z3 = 1\<rparr> example_plan"
  by (simp add: plans_ok_def small3_def positive3_def all_below_2 example_plan_def configured_def Let_def lanes_def)

lemma example_valid: "agreed 2 (\<lambda>q. check_input (example_plan q) example_revision (example_span q)) = Success"
  by code_simp

lemma example_rows:
  "(rows_to 2 example_plan (\<lambda>q. span_list (example_span q)) False 0,
    rows_to 2 example_plan (\<lambda>q. span_list (example_span q)) False 1) = ([example_row 0 8], [example_row 1 7, example_row 1 9])"
  by code_simp

lemma example_audit_rows:
  "(rows_to 2 example_plan (\<lambda>q. span_list (example_span q)) True 0,
    rows_to 2 example_plan (\<lambda>q. span_list (example_span q)) True 1) = ([example_row 1 7, example_row 1 9], [example_row 0 8])"
  by code_simp

lemma example_groups:
  "audit_groups one_weight [example_row 0 8] = Success \<and> audit_groups one_weight [example_row 1 7, example_row 1 9] = Success"
  by code_simp

lemma example_orders:
  "(sort_key audit_order [example_row 1 7, example_row 1 9], sort_key audit_order [example_row 0 8],
    sort_key route_order [example_row 1 7, example_row 1 9]) =
   ([example_row 1 7, example_row 1 9], [example_row 0 8], [example_row 1 7, example_row 1 9])"
  by code_simp

lemma example_outcome: "routing_outcome one_weight 2 example_plan (\<lambda>_. example_revision) example_span = Success"
proof -
  let ?rows = "\<lambda>q. span_list (example_span q)"
  have cap: "exchange_capacity (example_plan q) True = 3" "exchange_capacity (example_plan q) False = 2" for q
    by (simp_all add: exchange_capacity_def example_plan_def configured_def Let_def)
  have fits: "fits_all 2 example_plan ?rows True" "fits_all 2 example_plan ?rows False"
    unfolding fits_all_def all_below_2 cap using example_rows example_audit_rows by simp_all
  have "\<forall>q < 2. audit_status one_weight 2 example_plan ?rows q = Success"
    unfolding all_below_2 audit_status_def using example_audit_rows example_orders example_groups by simp
  then have "agreed 2 (audit_status one_weight 2 example_plan ?rows) = Success" unfolding agreed_success .
  with fits example_valid show ?thesis by (simp add: routing_outcome_def Let_def clocks_agree_def)
qed

theorem prepare_outcome_witness:
  "let answers = documented_prepare one_weight 2 example_plan (\<lambda>_. example_revision) example_span;
       res = prepare_rows one_weight example_revision (example_span 1) (answers 1) (example_plan 1) in
   fst res = Success \<and> rt_rows (candidates (snd res)) = Some [example_row 1 7, example_row 1 9]"
proof -
  let ?answers = "documented_prepare one_weight 2 example_plan (\<lambda>_. example_revision) example_span"
  let ?res = "prepare_rows one_weight example_revision (example_span 1) (?answers 1) (example_plan 1)"
  have "fst ?res = Success \<and> candidates (snd ?res) = delivered 2 example_plan (\<lambda>_. example_revision) example_span 1"
    using prepare_outcome [OF example_plans_ok documented_prepare_conforms [OF example_plans_ok], of 1 one_weight "\<lambda>_. example_revision" example_span]
    unfolding Let_def example_outcome by (metis one_less_numeral_iff semiring_norm(76))
  moreover have "rt_rows (delivered 2 example_plan (\<lambda>_. example_revision) example_span 1) = Some [example_row 1 7, example_row 1 9]"
    using example_rows example_orders by (simp add: delivered_def)
  ultimately show ?thesis unfolding Let_def by metis
qed

end
