(* ===== verification/Exchange_Complete.thy ===== *)
theory Exchange_Complete
  imports Exchange_Exists
begin

text \<open>
  What the audit of \<^verbatim>\<open>prepare\<close> establishes. All rows of one parcel segment meet on one auditor, so
  a routing step that succeeds has seen each segment whole, whichever ranks its rows came from.
\<close>

section \<open>Groups of a sorted list\<close>

lemma sorted_group:
  fixes key :: "'a \<Rightarrow> 'k :: linorder"
  assumes "sorted (map key (x # xs))"
  shows "takeWhile (\<lambda>t. key x = key t) xs = filter (\<lambda>t. key t = key x) xs \<and>
    dropWhile (\<lambda>t. key x = key t) xs = filter (\<lambda>t. key t \<noteq> key x) xs"
  using assms
proof (induction xs)
  case (Cons y ys)
  show ?case
  proof (cases "key x = key y")
    case True
    then show ?thesis using Cons by simp
  next
    case False
    then have "key x < key y" using Cons.prems by (simp add: order.strict_iff_order)
    moreover have "\<forall>t \<in> set ys. key y \<le> key t" using Cons.prems by simp
    ultimately have "\<forall>t \<in> set (y # ys). key t \<noteq> key x" by fastforce
    then have "filter (\<lambda>t. key t = key x) (y # ys) = []" "filter (\<lambda>t. key t \<noteq> key x) (y # ys) = y # ys"
      by (simp_all add: filter_empty_conv filter_True)
    with False show ?thesis by (simp only: takeWhile.simps dropWhile.simps if_False simp_thms)
  qed
qed simp

lemma sorted_fst: "sorted xs \<Longrightarrow> sorted (map fst (xs :: ('a :: linorder \<times> 'b :: linorder) list))"
  by (induction xs) (auto simp: less_eq_prod_def)

lemma audit_groups_all:
  "audit_groups sum_ok rows = Success \<Longrightarrow> sorted (map segment_key rows) \<Longrightarrow> s \<in> set rows \<Longrightarrow>
   \<not> group_inconsistent (filter (\<lambda>t. segment_key t = segment_key s) rows) \<and>
   sum_ok (map sg_weight (filter (\<lambda>t. segment_key t = segment_key s) rows))"
proof (induction sum_ok rows rule: audit_groups.induct)
  case (2 sum_ok x rest)
  note g = sorted_group [OF 2(3)]
  let ?rows = "x # takeWhile (\<lambda>t. segment_key x = segment_key t) rest"
  have ok: "\<not> group_inconsistent ?rows" "sum_ok (map sg_weight ?rows)"
    "audit_groups sum_ok (dropWhile (\<lambda>t. segment_key x = segment_key t) rest) = Success"
    using 2(2) by (auto simp: Let_def split: if_splits)
  have f: "filter (\<lambda>t. segment_key t = segment_key x) (x # rest) = ?rows" using g by simp
  show ?case
  proof (cases "segment_key s = segment_key x")
    case True
    then show ?thesis using ok(1,2) f by simp
  next
    case False
    have "s \<in> set (dropWhile (\<lambda>t. segment_key x = segment_key t) rest)" using g False 2(4) by auto
    moreover have "sorted (map segment_key (dropWhile (\<lambda>t. segment_key x = segment_key t) rest))"
      unfolding g [THEN conjunct2] using 2(3) by (simp add: sorted_filter)
    ultimately have "\<not> group_inconsistent (filter (\<lambda>t. segment_key t = segment_key s) (filter (\<lambda>t. segment_key t \<noteq> segment_key x) rest)) \<and>
        sum_ok (map sg_weight (filter (\<lambda>t. segment_key t = segment_key s) (filter (\<lambda>t. segment_key t \<noteq> segment_key x) rest)))"
      using 2(1) [OF refl ok(1) _ ok(3)] ok(2) g by simp
    moreover have "filter (\<lambda>t. segment_key t = segment_key s) (filter (\<lambda>t. segment_key t \<noteq> segment_key x) rest) =
        filter (\<lambda>t. segment_key t = segment_key s) (x # rest)"
      using False by (auto intro: filter_cong)
    ultimately show ?thesis by simp
  qed
qed simp

section \<open>A consistent group\<close>

lemma consistent_group:
  assumes "\<not> group_inconsistent rows" "sorted (map audit_order rows)" "\<forall>s \<in> set rows. segment_key s = k"
  shows "(\<forall>s \<in> set rows. same_budget (hd rows) s) \<and> distinct (map sg_cell rows) \<and>
    (length rows > 1 \<longrightarrow> (\<forall>s \<in> set rows. sg_channel s = interphase))"
proof -
  have j: "same_budget (rows ! 0) (rows ! j)"
    "0 < j \<Longrightarrow> sg_cell (rows ! (j - 1)) \<noteq> sg_cell (rows ! j) \<and> sg_channel (rows ! j) = interphase" if "j < length rows" for j
    using assms(1) that unfolding group_inconsistent_def by blast+
  have budget: "\<forall>s \<in> set rows. same_budget (hd rows) s"
  proof
    fix s assume s: "s \<in> set rows"
    then have "hd rows = rows ! 0" by (intro hd_conv_nth) auto
    with s j(1) show "same_budget (hd rows) s" by (auto simp: in_set_conv_nth)
  qed
  have le: "sg_cell (rows ! i) \<le> sg_cell (rows ! j)" if "i \<le> j" "j < length rows" for i j
  proof -
    have "audit_order (rows ! i) \<le> audit_order (rows ! j)"
      using assms(2) that by (auto simp: sorted_iff_nth_mono)
    moreover have "segment_key (rows ! i) = segment_key (rows ! j)" using assms(3) that by simp
    ultimately show ?thesis by (simp add: audit_order_def less_eq_prod_def)
  qed
  have "sg_cell (rows ! i) < sg_cell (rows ! j)" if "i < j" "j < length rows" for i j
  proof -
    have "sg_cell (rows ! i) \<le> sg_cell (rows ! (j - 1))" using that by (intro le) simp_all
    moreover have "sg_cell (rows ! (j - 1)) < sg_cell (rows ! j)"
      using le [of "j - 1" j] j(2) [OF that(2)] that by (simp add: order.strict_iff_order)
    ultimately show ?thesis by simp
  qed
  then have "distinct (map sg_cell rows)" unfolding distinct_conv_nth by (metis length_map less_irrefl nat_neq_iff nth_map)
  moreover have "sg_channel s = interphase" if "length rows > 1" "s \<in> set rows" for s
  proof -
    have "sg_channel (rows ! 1) = interphase" using j(2) [of 1] that(1) by simp
    moreover have "sg_channel (hd rows) = sg_channel (rows ! 1)" "sg_channel (hd rows) = sg_channel s"
      using budget that nth_mem [OF that(1)] unfolding same_budget_def by blast+
    ultimately show ?thesis by simp
  qed
  ultimately show ?thesis using budget by blast
qed

section \<open>The rows of a segment\<close>

definition rows_of_segment :: "nat \<Rightarrow> (nat \<Rightarrow> exchange_segment list) \<Rightarrow> u64 \<times> u64 \<times> u64 \<Rightarrow> exchange_segment list" where
  "rows_of_segment n rows k = filter (\<lambda>s. segment_key s = k) (concat (map rows [0..<n]))"

lemma auditor_key: "segment_key s = segment_key t \<Longrightarrow> op_ranks a = op_ranks b \<Longrightarrow> auditor a s = auditor b t"
  by (simp add: auditor_def segment_key_def)

lemma segment_on_auditor:
  assumes "\<forall>r < n. op_ranks (plans r) = n" "u < n" "s \<in> set (rows u)"
  shows "filter (\<lambda>t. segment_key t = segment_key s) (rows_to n plans rows True (auditor (plans u) s)) =
    rows_of_segment n rows (segment_key s)"
proof -
  have "filter (\<lambda>t. segment_key t = segment_key s) (rows_for (plans r) True (rows r) (auditor (plans u) s)) =
      filter (\<lambda>t. segment_key t = segment_key s) (rows r)" if "r < n" for r
    using assms that auditor_key [of _ s "plans r" "plans u"]
    by (auto simp: rows_for_def row_target_def filter_filter intro!: filter_cong)
  then have "map (\<lambda>r. filter (\<lambda>t. segment_key t = segment_key s) (rows_for (plans r) True (rows r) (auditor (plans u) s))) [0..<n] =
      map (\<lambda>r. filter (\<lambda>t. segment_key t = segment_key s) (rows r)) [0..<n]"
    by (intro map_cong) simp_all
  then show ?thesis
    unfolding rows_to_def rows_of_segment_def filter_concat map_map comp_def by (rule arg_cong)
qed

text \<open>
  C34. A routing step that succeeds has audited every parcel segment as a whole: taking the rows of one
  segment from all ranks, in cell order, their weights pass the sum test, all carry one budget, no two
  name the same cell, and if there is more than one they are interphase rows. No rank can slip a partial
  or contradictory deposition stencil past the audit by splitting it over ranks.
\<close>

theorem accepted_segments_complete:
  assumes "plans_ok n cells grid plans" "routing_outcome sum_ok n plans revisions inputs = Success"
    and "u < n" "s \<in> set (span_list (inputs u))"
  shows "let rows = sort_key audit_order (rows_of_segment n (\<lambda>q. span_list (inputs q)) (segment_key s)) in
    sum_ok (map sg_weight rows) \<and> (\<forall>t \<in> set rows. same_budget (hd rows) t) \<and> distinct (map sg_cell rows) \<and>
    (length rows > 1 \<longrightarrow> (\<forall>t \<in> set rows. sg_channel t = interphase))"
proof -
  let ?in = "\<lambda>q. span_list (inputs q)" and ?q = "auditor (plans u) s"
  let ?R = "rows_to n plans ?in True ?q"
  have n: "\<forall>r < n. op_ranks (plans r) = n" "0 < n" "n < 2 ^ 31" using assms(1) by (simp_all add: plans_ok_def)
  have "agreed n (audit_status sum_ok n plans ?in) = Success"
    using assms(2) unfolding routing_outcome_def Let_def by (simp split: if_splits)
  moreover have "?q < n" using auditor_below [of "plans u" s] n assms(3) by simp
  ultimately have ok: "audit_groups sum_ok (sort_key audit_order ?R) = Success"
    unfolding agreed_success audit_status_def by blast
  note seg = segment_on_auditor [where rows = ?in, OF n(1) assms(3,4)]
  have "s \<in> set (rows_of_segment n ?in (segment_key s))" using assms(3,4) by (auto simp: rows_of_segment_def)
  then have mem: "s \<in> set (sort_key audit_order ?R)" unfolding seg [symmetric] by simp
  have "sorted (map audit_order (sort_key audit_order ?R))" by simp
  from sorted_fst [OF this] have srt: "sorted (map segment_key (sort_key audit_order ?R))"
    by (simp only: map_map comp_def audit_order_def fst_conv)
  have g: "filter (\<lambda>t. segment_key t = segment_key s) (sort_key audit_order ?R) =
      sort_key audit_order (rows_of_segment n ?in (segment_key s))"
    by (simp only: filter_sort seg)
  let ?G = "sort_key audit_order (rows_of_segment n ?in (segment_key s))"
  have ok: "\<not> group_inconsistent ?G" "sum_ok (map sg_weight ?G)" using audit_groups_all [OF ok srt mem, unfolded g] by blast+
  have srt: "sorted (map audit_order ?G)" by simp
  have "\<forall>t \<in> set ?G. segment_key t = segment_key s" by (simp add: rows_of_segment_def)
  from consistent_group [OF ok(1) srt this] ok(2) show ?thesis unfolding Let_def by blast
qed

theorem accepted_segments_complete_witness:
  "one_weight (map sg_weight (sort_key audit_order (rows_of_segment 2 (\<lambda>q. span_list (example_span q)) (segment_key (example_row 1 9)))))"
proof -
  have "example_row 1 9 \<in> set (span_list (example_span 1))" by (simp add: example_span_def example_input_def)
  from accepted_segments_complete [OF example_plans_ok example_outcome _ this] show ?thesis by (simp only: Let_def)
qed

end
