(* ===== verification/Thread_Team.thy ===== *)
theory Thread_Team
  imports Prelude
begin

text \<open>
  \<^verbatim>\<open>CpuThreadTeam\<close> of \<^verbatim>\<open>parallel_cpu.cpp\<close> as a state machine. All state the threads share is
  read and written under one mutex, so each critical section is one step; what runs outside the mutex
  (a worker's task, the start-up notification, the notification of \<^verbatim>\<open>stop_and_join\<close>, the joins) is a step
  of its own. A thread in \<^verbatim>\<open>condition_variable::wait\<close> sleeps until it is notified or wakes without
  reason, and then tests its predicate again. Calls of \<^verbatim>\<open>run\<close> are one at a time (\<^verbatim>\<open>dispatch_mutex\<close>),
  and a team is released only when no call is in progress (the lifetime rule of C++).

  A task is whatever the caller passes as function and context. \<open>tt_runs\<close> and \<open>tt_log\<close> record, for
  the statements only, the tasks dispatched and who executed what.
\<close>

section \<open>State\<close>

datatype 'a worker_pc =
    Not_launched
  | Starting
  | Startup_notify
  | Checking
  | Sleeping
  | Running 'a
  | Task_done
  | Finished

datatype client_pc =
    Launching nat
  | Startup_check
  | Startup_sleep
  | Ready
  | Run_check
  | Run_sleep
  | Stop_lock
  | Stop_notify
  | Joining nat
  | Gone

record 'a worker =
  wk_pc :: "'a worker_pc"
  wk_observed :: u64

record 'a team =
  tt_workers :: "'a worker list"
  tt_client :: client_pc
  tt_task :: "'a option"
  tt_generation :: u64
  tt_completed :: nat
  tt_startup_count :: nat
  tt_startup_status :: status
  tt_stopping :: bool
  tt_result :: status
  tt_runs :: "'a list"
  tt_log :: "(nat \<times> 'a) list"

text \<open>\<^verbatim>\<open>create\<close> with a plan of that many cores that is not \<^verbatim>\<open>pure_mpi\<close>.\<close>

definition new_team :: "nat \<Rightarrow> 'a team" where
  "new_team n = \<lparr>tt_workers = replicate n \<lparr>wk_pc = Not_launched, wk_observed = 0\<rparr>, tt_client = Launching 0,
     tt_task = None, tt_generation = 0, tt_completed = 0, tt_startup_count = 0, tt_startup_status = status_ok,
     tt_stopping = False, tt_result = status_ok, tt_runs = [], tt_log = []\<rparr>"

section \<open>Steps\<close>

text \<open>\<^verbatim>\<open>notify_all\<close> on \<^verbatim>\<open>work_ready\<close>; the other two conditions have one waiter, the client.\<close>

definition wake_workers :: "'a worker list \<Rightarrow> 'a worker list" where
  "wake_workers ws = map (\<lambda>w. if wk_pc w = Sleeping then w\<lparr>wk_pc := Checking\<rparr> else w) ws"

definition wake_startup :: "client_pc \<Rightarrow> client_pc" where
  "wake_startup c = (if c = Startup_sleep then Startup_check else c)"

definition wake_run :: "client_pc \<Rightarrow> client_pc" where
  "wake_run c = (if c = Run_sleep then Run_check else c)"

text \<open>The predicate of the worker's wait and what follows it up to the next release of the mutex.\<close>

definition worker_check :: "'a team \<Rightarrow> 'a worker \<Rightarrow> 'a worker" where
  "worker_check s w =
     (if tt_stopping s then w\<lparr>wk_pc := Finished\<rparr>
      else if tt_generation s \<noteq> wk_observed w
      then (case tt_task s of None \<Rightarrow> w\<lparr>wk_pc := Sleeping\<rparr>
            | Some t \<Rightarrow> w\<lparr>wk_pc := Running t, wk_observed := tt_generation s\<rparr>)
      else w\<lparr>wk_pc := Sleeping\<rparr>)"

definition worker_step :: "(nat \<Rightarrow> status) \<Rightarrow> nat \<Rightarrow> 'a team \<Rightarrow> 'a team option" where
  "worker_step binding i s =
     (let w = tt_workers s ! i in
      case wk_pc w of
        Starting \<Rightarrow> Some (s\<lparr>tt_startup_status :=
            (if \<not> is_ok (binding i) \<and> is_ok (tt_startup_status s) then binding i else tt_startup_status s),
          tt_startup_count := tt_startup_count s + 1, tt_workers := (tt_workers s)[i := w\<lparr>wk_pc := Startup_notify\<rparr>]\<rparr>)
      | Startup_notify \<Rightarrow> Some (s\<lparr>tt_client := wake_startup (tt_client s),
          tt_workers := (tt_workers s)[i := w\<lparr>wk_pc := Checking\<rparr>]\<rparr>)
      | Checking \<Rightarrow> Some (s\<lparr>tt_workers := (tt_workers s)[i := worker_check s w]\<rparr>)
      | Running t \<Rightarrow> Some (s\<lparr>tt_log := tt_log s @ [(i, t)], tt_workers := (tt_workers s)[i := w\<lparr>wk_pc := Task_done\<rparr>]\<rparr>)
      | Task_done \<Rightarrow>
          (let completed = tt_completed s + 1 in
           Some (s\<lparr>tt_completed := completed,
             tt_client := (if completed = length (tt_workers s) then wake_run (tt_client s) else tt_client s),
             tt_workers := (tt_workers s)[i := worker_check s w]\<rparr>))
      | _ \<Rightarrow> None)"

text \<open>
  The client between two calls: \<^verbatim>\<open>create\<close> launches and waits for the start-up of all workers, \<^verbatim>\<open>run\<close>
  waits for the workers, \<^verbatim>\<open>stop_and_join\<close> stops and joins them. A thread that was never launched is not
  joinable.
\<close>

definition create_step :: "nat option \<Rightarrow> 'a team \<Rightarrow> 'a team" where
  "create_step launching s =
     (case launching of
        Some k \<Rightarrow>
          if k < length (tt_workers s)
          then s\<lparr>tt_client := Launching (k + 1),
            tt_workers := (tt_workers s)[k := (tt_workers s ! k)\<lparr>wk_pc := Starting\<rparr>]\<rparr>
          else s\<lparr>tt_client := Startup_check\<rparr>
      | None \<Rightarrow>
          if tt_startup_count s = length (tt_workers s)
          then (if is_ok (tt_startup_status s) then s\<lparr>tt_client := Ready\<rparr>
                else s\<lparr>tt_client := Stop_lock, tt_result := tt_startup_status s\<rparr>)
          else s\<lparr>tt_client := Startup_sleep\<rparr>)"

definition run_wait :: "'a team \<Rightarrow> 'a team" where
  "run_wait s = s\<lparr>tt_client := (if tt_completed s = length (tt_workers s) then Ready else Run_sleep)\<rparr>"

definition stop_and_join :: "'a team \<Rightarrow> 'a team option" where
  "stop_and_join s =
     (case tt_client s of
        Stop_lock \<Rightarrow> Some (s\<lparr>tt_stopping := True, tt_client := Stop_notify\<rparr>)
      | Stop_notify \<Rightarrow> Some (s\<lparr>tt_workers := wake_workers (tt_workers s), tt_client := Joining 0\<rparr>)
      | Joining k \<Rightarrow>
          (if k < length (tt_workers s)
           then (if wk_pc (tt_workers s ! k) \<in> {Finished, Not_launched} then Some (s\<lparr>tt_client := Joining (k + 1)\<rparr>) else None)
           else Some (s\<lparr>tt_client := Gone\<rparr>))
      | _ \<Rightarrow> None)"

definition client_step :: "'a team \<Rightarrow> 'a team option" where
  "client_step s =
     (case tt_client s of
        Launching k \<Rightarrow> Some (create_step (Some k) s)
      | Startup_check \<Rightarrow> Some (create_step None s)
      | Run_check \<Rightarrow> Some (run_wait s)
      | _ \<Rightarrow> stop_and_join s)"

lemmas client_step_defs = client_step_def create_step_def run_wait_def stop_and_join_def

text \<open>
  \<^verbatim>\<open>std::thread\<close> cannot start a thread (or the injected failure of the tests): the team is given up, with
  a failure that names what was thrown.
\<close>

definition launch_fails :: "status \<Rightarrow> 'a team \<Rightarrow> 'a team option" where
  "launch_fails failure s =
     (case tt_client s of
        Launching k \<Rightarrow> if k < length (tt_workers s) \<and> failure \<in> {failed Allocation_failure 605, failed Invalid_plan 605}
          then Some (s\<lparr>tt_client := Stop_lock, tt_result := failure\<rparr>) else None
      | _ \<Rightarrow> None)"

text \<open>\<^verbatim>\<open>run\<close> up to its wait, and the destructor.\<close>

definition call_run :: "'a \<Rightarrow> 'a team \<Rightarrow> 'a team option" where
  "call_run t s =
     (if tt_client s = Ready \<and> \<not> tt_stopping s
      then Some (s\<lparr>tt_task := Some t, tt_completed := 0, tt_generation := tt_generation s + 1,
        tt_workers := wake_workers (tt_workers s), tt_client := Run_check, tt_runs := tt_runs s @ [t]\<rparr>)
      else None)"

definition call_release :: "'a team \<Rightarrow> 'a team option" where
  "call_release s = (if tt_client s = Ready then Some (s\<lparr>tt_client := Stop_lock\<rparr>) else None)"

text \<open>Wake-ups no notification caused.\<close>

definition spurious_worker :: "nat \<Rightarrow> 'a team \<Rightarrow> 'a team option" where
  "spurious_worker i s =
     (if wk_pc (tt_workers s ! i) = Sleeping
      then Some (s\<lparr>tt_workers := (tt_workers s)[i := (tt_workers s ! i)\<lparr>wk_pc := Checking\<rparr>]\<rparr>) else None)"

definition spurious_client :: "'a team \<Rightarrow> 'a team option" where
  "spurious_client s =
     (if tt_client s = Startup_sleep \<or> tt_client s = Run_sleep
      then Some (s\<lparr>tt_client := wake_run (wake_startup (tt_client s))\<rparr>) else None)"

datatype 'a team_event =
    Worker nat | Client | Launch_fails status | Call_run 'a | Call_release | Spurious_worker nat | Spurious_client

fun team_step :: "(nat \<Rightarrow> status) \<Rightarrow> 'a team_event \<Rightarrow> 'a team \<Rightarrow> 'a team option" where
  "team_step binding (Worker i) s = (if i < length (tt_workers s) then worker_step binding i s else None)"
| "team_step binding Client s = client_step s"
| "team_step binding (Launch_fails failure) s = launch_fails failure s"
| "team_step binding (Call_run t) s = call_run t s"
| "team_step binding Call_release s = call_release s"
| "team_step binding (Spurious_worker i) s = (if i < length (tt_workers s) then spurious_worker i s else None)"
| "team_step binding Spurious_client s = spurious_client s"

inductive team_reachable :: "(nat \<Rightarrow> status) \<Rightarrow> nat \<Rightarrow> 'a team \<Rightarrow> bool" for binding :: "nat \<Rightarrow> status" and n :: nat where
  reach_new: "team_reachable binding n (new_team n)"
| reach_step: "team_reachable binding n s \<Longrightarrow> team_step binding e s = Some s' \<Longrightarrow> team_reachable binding n s'"

text \<open>A team for pure MPI has no threads: \<^verbatim>\<open>run\<close> executes the task as worker 0.\<close>

definition run_inline :: "'a \<Rightarrow> 'a team \<Rightarrow> 'a team" where
  "run_inline t s = s\<lparr>tt_runs := tt_runs s @ [t], tt_log := tt_log s @ [(0, t)]\<rparr>"

end
