(* ===== verification/Thread_Team_Proofs.thy ===== *)
theory Thread_Team_Proofs
  imports Thread_Team
begin

text \<open>
  The thread team under every interleaving. The invariant ties each worker to the phase of the client;
  from it follow that a call of \<^verbatim>\<open>run\<close> is a barrier, that every worker executes every dispatched task
  once and in order, and that no wake-up is lost: the team never comes to rest before the call in
  progress has ended, and it comes to rest.
\<close>

section \<open>The invariant\<close>

definition executed :: "(nat \<times> 'a) list \<Rightarrow> nat \<Rightarrow> 'a list" where
  "executed log i = map snd (filter (\<lambda>p. fst p = i) log)"

definition in_run :: "client_pc \<Rightarrow> bool" where
  "in_run c \<longleftrightarrow> c = Run_check \<or> c = Run_sleep"

fun stopped :: "client_pc \<Rightarrow> bool" where
  "stopped Stop_notify = True"
| "stopped (Joining k) = True"
| "stopped Gone = True"
| "stopped _ = False"

fun pc_idle :: "'a worker_pc \<Rightarrow> bool" where
  "pc_idle (Running t) = False"
| "pc_idle Task_done = False"
| "pc_idle _ = True"

definition started :: "'a worker \<Rightarrow> bool" where
  "started w \<longleftrightarrow> wk_pc w \<noteq> Not_launched \<and> wk_pc w \<noteq> Starting"

definition turned :: "u64 \<Rightarrow> 'a worker \<Rightarrow> bool" where
  "turned generation w \<longleftrightarrow> wk_observed w = generation \<and> pc_idle (wk_pc w)"

definition idle_worker :: "'a team \<Rightarrow> nat \<Rightarrow> bool" where
  "idle_worker s i \<longleftrightarrow> (let w = tt_workers s ! i in
     turned (tt_generation s) w \<and> executed (tt_log s) i = tt_runs s \<and> (wk_pc w = Finished \<longrightarrow> tt_stopping s))"

definition busy_worker :: "'a team \<Rightarrow> nat \<Rightarrow> bool" where
  "busy_worker s i \<longleftrightarrow> (let w = tt_workers s ! i; done = executed (tt_log s) i in
     wk_observed w = tt_generation s - 1 \<and> wk_pc w \<in> {Startup_notify, Checking} \<and> done = butlast (tt_runs s) \<or>
     wk_observed w = tt_generation s \<and> wk_pc w = Running (last (tt_runs s)) \<and> done = butlast (tt_runs s) \<or>
     wk_observed w = tt_generation s \<and> wk_pc w \<in> {Task_done, Checking, Sleeping} \<and> done = tt_runs s)"

fun client_inv :: "client_pc \<Rightarrow> 'a team \<Rightarrow> bool" where
  "client_inv (Launching k) s \<longleftrightarrow> k \<le> length (tt_workers s) \<and>
     (\<forall>i < length (tt_workers s). wk_pc (tt_workers s ! i) = Not_launched \<longleftrightarrow> k \<le> i)"
| "client_inv Startup_check s \<longleftrightarrow> (\<forall>i < length (tt_workers s). wk_pc (tt_workers s ! i) \<noteq> Not_launched)"
| "client_inv Startup_sleep s \<longleftrightarrow> (\<forall>i < length (tt_workers s). wk_pc (tt_workers s ! i) \<noteq> Not_launched) \<and>
     (\<exists>i < length (tt_workers s). wk_pc (tt_workers s ! i) \<in> {Starting, Startup_notify})"
| "client_inv Ready s \<longleftrightarrow> (\<forall>i < length (tt_workers s). started (tt_workers s ! i))"
| "client_inv Run_check s \<longleftrightarrow> True"
| "client_inv Run_sleep s \<longleftrightarrow> tt_completed s < length (tt_workers s)"
| "client_inv Stop_lock s \<longleftrightarrow> True"
| "client_inv Stop_notify s \<longleftrightarrow> True"
| "client_inv (Joining k) s \<longleftrightarrow> k \<le> length (tt_workers s) \<and>
     (\<forall>i < length (tt_workers s). wk_pc (tt_workers s ! i) \<noteq> Sleeping) \<and>
     (\<forall>i < k. wk_pc (tt_workers s ! i) \<in> {Finished, Not_launched})"
| "client_inv Gone s \<longleftrightarrow> (\<forall>i < length (tt_workers s). wk_pc (tt_workers s ! i) \<in> {Finished, Not_launched})"

definition run_inv :: "'a team \<Rightarrow> bool" where
  "run_inv s \<longleftrightarrow> (if in_run (tt_client s)
     then tt_runs s \<noteq> [] \<and> tt_task s = Some (last (tt_runs s)) \<and>
       tt_completed s = length (filter (turned (tt_generation s)) (tt_workers s)) \<and>
       (\<forall>i < length (tt_workers s). busy_worker s i)
     else \<forall>i < length (tt_workers s). idle_worker s i)"

definition team_inv :: "nat \<Rightarrow> 'a team \<Rightarrow> bool" where
  "team_inv n s \<longleftrightarrow> length (tt_workers s) = n \<and> tt_stopping s = stopped (tt_client s) \<and>
     tt_startup_count s = length (filter started (tt_workers s)) \<and>
     client_inv (tt_client s) s \<and> run_inv s"

section \<open>Counting\<close>

lemma length_filter_update:
  "i < length xs \<Longrightarrow> length (filter P (xs[i := x])) + (if P (xs ! i) then 1 else 0) =
     length (filter P xs) + (if P x then 1 else (0 :: nat))"
proof (induction xs arbitrary: i)
  case (Cons y ys)
  then show ?case by (cases i) auto
qed simp

lemma filter_all: "length (filter P xs) = length xs \<longleftrightarrow> (\<forall>i < length xs. P (xs ! i))"
  by (metis all_set_conv_all_nth filter_id_conv length_filter_less less_irrefl)

lemma executed_append [simp]: "executed (log @ [(i, t)]) j = executed log j @ (if i = j then [t] else [])"
  by (simp add: executed_def)

lemma generation_apart: "(g :: u64) - 1 \<noteq> g"
proof
  assume "g - 1 = g"
  then have "(1 :: u64) = 0" by (metis diff_0_right diff_left_imp_eq)
  then show False by simp
qed

section \<open>Steps keep the invariant\<close>

lemma inv_new: "team_inv n (new_team n)"
proof -
  have "filter started (replicate n \<lparr>wk_pc = Not_launched, wk_observed = 0\<rparr>) = []"
    by (simp add: filter_empty_conv started_def)
  then show ?thesis
    by (simp add: team_inv_def new_team_def run_inv_def in_run_def idle_worker_def turned_def executed_def)
qed

lemmas inv_defs = team_inv_def run_inv_def in_run_def Let_def

lemma inv_startD:
  assumes "team_inv n s" "i < n" "wk_pc (tt_workers s ! i) = Starting"
  shows "\<not> in_run (tt_client s) \<and> tt_client s \<noteq> Ready \<and> tt_client s \<noteq> Gone"
proof -
  have "\<not> busy_worker s i" using assms(3) by (simp add: busy_worker_def Let_def)
  with assms show ?thesis by (cases "tt_client s") (auto simp: inv_defs started_def)
qed

text \<open>The first step of a worker: it reports its start.\<close>

lemma start_keeps:
  assumes "team_inv n s" "i < n" "wk_pc (tt_workers s ! i) = Starting"
    "worker_step binding i s = Some s'"
  shows "team_inv n s'"
proof -
  let ?w = "(tt_workers s ! i)\<lparr>wk_pc := Startup_notify\<rparr>"
  have s': "tt_workers s' = (tt_workers s)[i := ?w]" "tt_client s' = tt_client s" "tt_generation s' = tt_generation s"
    "tt_stopping s' = tt_stopping s" "tt_log s' = tt_log s" "tt_runs s' = tt_runs s"
    "tt_startup_count s' = tt_startup_count s + 1"
    using assms(3,4) by (auto simp: worker_step_def Let_def)
  note c = inv_startD [OF assms(1-3)]
  have l: "length (tt_workers s) = n" using assms(1) by (simp add: team_inv_def)
  have "length (filter started ((tt_workers s)[i := ?w])) = length (filter started (tt_workers s)) + 1"
    using length_filter_update [of i "tt_workers s" started ?w] assms(2,3) l by (simp add: started_def)
  moreover have "idle_worker s' j" if "j < n" for j
    using assms(1-3) c that s' l by (auto simp: inv_defs idle_worker_def turned_def nth_list_update)
  moreover have "client_inv (tt_client s) s'"
    using assms(1-3) c s' l by (cases "tt_client s") (auto simp: team_inv_def in_run_def nth_list_update)
  ultimately show ?thesis using assms(1) c s' l by (simp add: inv_defs)
qed

lemma notify_keeps:
  assumes "team_inv n s" "i < n" "wk_pc (tt_workers s ! i) = Startup_notify"
    "worker_step binding i s = Some s'"
  shows "team_inv n s'"
proof -
  let ?w = "(tt_workers s ! i)\<lparr>wk_pc := Checking\<rparr>"
  have s': "tt_workers s' = (tt_workers s)[i := ?w]" "tt_client s' = wake_startup (tt_client s)"
    "tt_generation s' = tt_generation s" "tt_stopping s' = tt_stopping s" "tt_log s' = tt_log s" "tt_runs s' = tt_runs s"
    "tt_startup_count s' = tt_startup_count s" "tt_task s' = tt_task s" "tt_completed s' = tt_completed s"
    using assms(3,4) by (auto simp: worker_step_def Let_def)
  have l: "length (tt_workers s) = n" using assms(1) by (simp add: team_inv_def)
  have count: "length (filter started ((tt_workers s)[i := ?w])) = length (filter started (tt_workers s))"
    "length (filter (turned (tt_generation s)) ((tt_workers s)[i := ?w])) = length (filter (turned (tt_generation s)) (tt_workers s))"
    using length_filter_update [of i "tt_workers s" started ?w]
      length_filter_update [of i "tt_workers s" "turned (tt_generation s)" ?w] assms(2,3) l
    by (simp_all add: started_def turned_def split: if_splits)
  have client: "in_run (tt_client s') = in_run (tt_client s)" "stopped (tt_client s') = stopped (tt_client s)"
    using s' by (cases "tt_client s"; simp add: wake_startup_def in_run_def)+
  have "idle_worker s' j" if "idle_worker s j" "j < n" for j
    using assms(1-3) that s' l by (auto simp: idle_worker_def Let_def turned_def nth_list_update)
  moreover have "busy_worker s' j" if "busy_worker s j" "j < n" for j
    using assms(1-3) that s' l by (auto simp: busy_worker_def Let_def nth_list_update)
  moreover have "client_inv (tt_client s') s'"
    using assms(1-3) s' l by (cases "tt_client s") (auto simp: team_inv_def wake_startup_def nth_list_update started_def)
  ultimately show ?thesis using assms(1) client count s' l unfolding team_inv_def run_inv_def by auto
qed

lemma check_keeps:
  assumes "team_inv n s" "i < n" "wk_pc (tt_workers s ! i) = Checking"
    "worker_step binding i s = Some s'"
  shows "team_inv n s'"
proof -
  let ?w = "worker_check s (tt_workers s ! i)"
  have s': "s' = s\<lparr>tt_workers := (tt_workers s)[i := ?w]\<rparr>"
    using assms(3,4) by (auto simp: worker_step_def Let_def)
  have l: "length (tt_workers s) = n" using assms(1) by (simp add: team_inv_def)
  have pc: "wk_pc ?w \<noteq> Not_launched \<and> wk_pc ?w \<noteq> Starting \<and> wk_pc ?w \<noteq> Startup_notify \<and> wk_pc ?w \<noteq> Task_done"
    "wk_pc ?w = Finished \<longleftrightarrow> tt_stopping s" "tt_stopping s \<longrightarrow> wk_pc ?w \<noteq> Sleeping"
    by (auto simp: worker_check_def split: option.splits)
  have count: "length (filter started ((tt_workers s)[i := ?w])) = length (filter started (tt_workers s))"
    using length_filter_update [of i "tt_workers s" started ?w] assms(2,3) l pc
    by (simp add: started_def split: if_splits)
  have "client_inv (tt_client s) s'"
  proof (cases "tt_client s = Startup_sleep")
    case True
    then obtain j where j: "j < n" "wk_pc (tt_workers s ! j) \<in> {Starting, Startup_notify}"
      using assms(1) l by (auto simp: team_inv_def)
    then have "j \<noteq> i" using assms(3) by auto
    with j have "\<exists>j < n. wk_pc (tt_workers s' ! j) \<in> {Starting, Startup_notify}" using s' by (auto intro!: exI [of _ j])
    moreover have "\<forall>j < n. wk_pc (tt_workers s' ! j) \<noteq> Not_launched"
      using assms(1,2) True s' l pc(1) by (auto simp: team_inv_def nth_list_update)
    ultimately show ?thesis using True s' l by simp
  next
    case False
    then show ?thesis
      using assms(1-3) s' l pc by (cases "tt_client s") (auto simp: team_inv_def nth_list_update started_def)
  qed
  moreover have "run_inv s'"
  proof (cases "in_run (tt_client s)")
    case False
    then have idle: "\<forall>j < n. idle_worker s j" using assms(1) l by (simp add: team_inv_def run_inv_def)
    then have "wk_observed (tt_workers s ! i) = tt_generation s"
      using assms(2) by (simp add: idle_worker_def Let_def turned_def)
    then have wc: "?w = (tt_workers s ! i)\<lparr>wk_pc := if tt_stopping s then Finished else Sleeping\<rparr>"
      by (simp add: worker_check_def)
    have "idle_worker s' j" if "j < n" for j
      using idle assms(2) that l unfolding s' wc
      by (cases "j = i") (auto simp: idle_worker_def Let_def turned_def)
    then show ?thesis using False s' l by (simp add: run_inv_def)
  next
    case True
    have inv: "tt_runs s \<noteq> []" "tt_task s = Some (last (tt_runs s))"
      "tt_completed s = length (filter (turned (tt_generation s)) (tt_workers s))" "\<forall>j < n. busy_worker s j"
      using assms(1) True l by (simp_all add: team_inv_def run_inv_def)
    have st: "\<not> tt_stopping s" using assms(1) True by (auto simp: team_inv_def in_run_def)
    have "turned (tt_generation s) ?w = turned (tt_generation s) (tt_workers s ! i)"
      using assms(3) inv(2) st by (auto simp: turned_def worker_check_def)
    then have "length (filter (turned (tt_generation s)) ((tt_workers s)[i := ?w])) = tt_completed s"
      using length_filter_update [of i "tt_workers s" "turned (tt_generation s)" ?w] assms(2) l inv(3)
      by (simp split: if_splits)
    moreover have "busy_worker s' j" if "j < n" for j
      using inv(4) assms(2,3) that s' l inv(1,2) st generation_apart [of "tt_generation s"]
      by (fastforce simp: busy_worker_def Let_def nth_list_update worker_check_def)
    ultimately show ?thesis using True inv s' l by (simp add: run_inv_def)
  qed
  ultimately show ?thesis using assms(1) count s' l by (simp add: team_inv_def)
qed

lemma busy_client:
  assumes "team_inv n s" "i < n" "\<not> pc_idle (wk_pc (tt_workers s ! i))"
  shows "in_run (tt_client s)"
  using assms by (auto simp: team_inv_def run_inv_def idle_worker_def turned_def Let_def split: if_splits)

lemma task_keeps:
  assumes "team_inv n s" "i < n" "wk_pc (tt_workers s ! i) = Running t"
    "worker_step binding i s = Some s'"
  shows "team_inv n s'"
proof -
  let ?w = "(tt_workers s ! i)\<lparr>wk_pc := Task_done\<rparr>"
  have s': "s' = s\<lparr>tt_log := tt_log s @ [(i, t)], tt_workers := (tt_workers s)[i := ?w]\<rparr>"
    using assms(3,4) by (auto simp: worker_step_def Let_def)
  have l: "length (tt_workers s) = n" using assms(1) by (simp add: team_inv_def)
  have r: "in_run (tt_client s)" using busy_client [OF assms(1,2)] assms(3) by simp
  have inv: "tt_runs s \<noteq> []" "tt_task s = Some (last (tt_runs s))"
    "tt_completed s = length (filter (turned (tt_generation s)) (tt_workers s))" "\<forall>j < n. busy_worker s j"
    using assms(1) r l by (simp_all add: team_inv_def run_inv_def)
  have count: "length (filter started ((tt_workers s)[i := ?w])) = length (filter started (tt_workers s))"
    "length (filter (turned (tt_generation s)) ((tt_workers s)[i := ?w])) = length (filter (turned (tt_generation s)) (tt_workers s))"
    using length_filter_update [of i "tt_workers s" started ?w]
      length_filter_update [of i "tt_workers s" "turned (tt_generation s)" ?w] assms(2,3) l
    by (simp_all add: started_def turned_def split: if_splits)
  have t: "executed (tt_log s) i @ [t] = tt_runs s" "wk_observed (tt_workers s ! i) = tt_generation s"
  proof -
    have "t = last (tt_runs s)" "executed (tt_log s) i = butlast (tt_runs s)"
      and o: "wk_observed (tt_workers s ! i) = tt_generation s"
      using inv(4) [rule_format, OF assms(2)] assms(3) by (auto simp: busy_worker_def Let_def)
    then show "executed (tt_log s) i @ [t] = tt_runs s" using append_butlast_last_id [OF inv(1)] by simp
    from o show "wk_observed (tt_workers s ! i) = tt_generation s" .
  qed
  have "busy_worker s' j" if "j < n" for j
    using inv(4) t assms(2) that s' l by (auto simp: busy_worker_def Let_def nth_list_update)
  moreover have "client_inv (tt_client s) s'" using assms(1) r s' l by (auto simp: team_inv_def in_run_def)
  ultimately show ?thesis using assms(1) r inv count s' l by (simp add: team_inv_def run_inv_def)
qed

lemma done_keeps:
  assumes "team_inv n s" "i < n" "wk_pc (tt_workers s ! i) = Task_done"
    "worker_step binding i s = Some s'"
  shows "team_inv n s'"
proof -
  have l: "length (tt_workers s) = n" using assms(1) by (simp add: team_inv_def)
  have r: "in_run (tt_client s)" using busy_client [OF assms(1,2)] assms(3) by simp
  have inv: "tt_runs s \<noteq> []" "tt_task s = Some (last (tt_runs s))"
    "tt_completed s = length (filter (turned (tt_generation s)) (tt_workers s))" "\<forall>j < n. busy_worker s j"
    using assms(1) r l by (simp_all add: team_inv_def run_inv_def)
  have obs: "wk_observed (tt_workers s ! i) = tt_generation s" "executed (tt_log s) i = tt_runs s"
    using inv(4) assms(2,3) by (auto simp: busy_worker_def Let_def)
  have st: "\<not> tt_stopping s" using assms(1) r by (auto simp: team_inv_def in_run_def)
  let ?w = "(tt_workers s ! i)\<lparr>wk_pc := Sleeping\<rparr>"
  have wc: "worker_check s (tt_workers s ! i) = ?w" using obs st by (simp add: worker_check_def)
  let ?c = "if tt_completed s + 1 = n then wake_run (tt_client s) else tt_client s"
  have s': "s' = s\<lparr>tt_completed := tt_completed s + 1, tt_client := ?c, tt_workers := (tt_workers s)[i := ?w]\<rparr>"
    using assms(3,4) wc l by (auto simp: worker_step_def Let_def)
  have count: "length (filter started ((tt_workers s)[i := ?w])) = length (filter started (tt_workers s))"
    "length (filter (turned (tt_generation s)) ((tt_workers s)[i := ?w])) = tt_completed s + 1"
    using length_filter_update [of i "tt_workers s" started ?w]
      length_filter_update [of i "tt_workers s" "turned (tt_generation s)" ?w] assms(2,3) l inv(3) obs
    by (simp_all add: started_def turned_def split: if_splits)
  have "busy_worker s' j" if "j < n" for j
    using inv(4) obs assms(2) that s' l by (auto simp: busy_worker_def Let_def nth_list_update)
  moreover have c: "in_run ?c" "\<not> stopped ?c" using r by (auto simp: in_run_def wake_run_def)
  moreover have "client_inv ?c s'"
  proof -
    have "tt_completed s + 1 \<le> n" using count(2) length_filter_le [of "turned (tt_generation s)" "(tt_workers s)[i := ?w]"] l by simp
    then show ?thesis using r s' l by (auto simp: in_run_def wake_run_def)
  qed
  ultimately show ?thesis using assms(1) inv count s' l st by (simp add: team_inv_def run_inv_def)
qed

lemma worker_keeps:
  assumes "team_inv n s" "i < n" "worker_step binding i s = Some s'"
  shows "team_inv n s'"
proof (cases "wk_pc (tt_workers s ! i)")
  case Starting
  then show ?thesis by (rule start_keeps [OF assms(1,2) _ assms(3)])
next
  case Startup_notify
  then show ?thesis by (rule notify_keeps [OF assms(1,2) _ assms(3)])
next
  case Checking
  then show ?thesis by (rule check_keeps [OF assms(1,2) _ assms(3)])
next
  case (Running t)
  then show ?thesis by (rule task_keeps [OF assms(1,2) _ assms(3)])
next
  case Task_done
  then show ?thesis by (rule done_keeps [OF assms(1,2) _ assms(3)])
qed (use assms(3) in \<open>simp_all add: worker_step_def Let_def\<close>)

lemma started_all: "team_inv n s \<Longrightarrow> tt_startup_count s = n \<Longrightarrow> \<forall>i < n. started (tt_workers s ! i)"
  using filter_all [of started "tt_workers s"] by (auto simp: team_inv_def)

lemma wake_nth: "i < length ws \<Longrightarrow> wake_workers ws ! i = (if wk_pc (ws ! i) = Sleeping then (ws ! i)\<lparr>wk_pc := Checking\<rparr> else ws ! i)"
  by (simp add: wake_workers_def)

lemma length_wake [simp]: "length (wake_workers ws) = length ws"
  by (simp add: wake_workers_def)

lemma wake_started: "length (filter started (wake_workers ws)) = length (filter started ws)"
  by (induction ws) (auto simp: wake_workers_def started_def)

lemma launch_keeps:
  assumes "team_inv n s" "tt_client s = Launching k" "client_step s = Some s'"
  shows "team_inv n s'"
proof -
  have l: "length (tt_workers s) = n" using assms(1) by (simp add: team_inv_def)
  show ?thesis
  proof (cases "k < n")
    case False
    then have "s' = s\<lparr>tt_client := Startup_check\<rparr>" using assms(2,3) l by (simp add: client_step_defs)
    with assms(1,2) False l show ?thesis
      by (auto simp: inv_defs idle_worker_def)
  next
    case True
    let ?w = "(tt_workers s ! k)\<lparr>wk_pc := Starting\<rparr>"
    have s': "s' = s\<lparr>tt_client := Launching (k + 1), tt_workers := (tt_workers s)[k := ?w]\<rparr>"
      using assms(2,3) l True by (simp add: client_step_defs)
    have pc: "wk_pc (tt_workers s ! k) = Not_launched" using assms(1,2) True l by (simp add: team_inv_def)
    have count: "length (filter started ((tt_workers s)[k := ?w])) = length (filter started (tt_workers s))"
      using length_filter_update [of k "tt_workers s" started ?w] True l pc by (simp add: started_def)
    have idle: "\<forall>j < n. idle_worker s j" using assms(1,2) l by (simp add: team_inv_def run_inv_def in_run_def)
    have "idle_worker s' j" if "j < n" for j
      using idle True that l pc unfolding s' by (cases "j = k") (auto simp: idle_worker_def Let_def turned_def)
    moreover have "client_inv (Launching (k + 1)) s'"
      using assms(1,2) True l unfolding s' by (auto simp: team_inv_def nth_list_update)
    ultimately show ?thesis using assms(1,2) count l unfolding s' by (simp add: team_inv_def run_inv_def in_run_def)
  qed
qed

lemma startup_keeps:
  assumes "team_inv n s" "tt_client s = Startup_check" "client_step s = Some s'"
  shows "team_inv n s'"
proof -
  have l: "length (tt_workers s) = n" using assms(1) by (simp add: team_inv_def)
  have idle: "\<forall>j < n. idle_worker s j" using assms(1,2) l by (simp add: team_inv_def run_inv_def in_run_def)
  have keep: "\<forall>j < n. idle_worker (s\<lparr>tt_client := c\<rparr>) j" "\<forall>j < n. idle_worker (s\<lparr>tt_client := c, tt_result := r\<rparr>) j" for c r
    using idle by (simp_all add: idle_worker_def)
  show ?thesis
  proof (cases "tt_startup_count s = n")
    case True
    have "s' = s\<lparr>tt_client := Ready\<rparr> \<or> s' = s\<lparr>tt_client := Stop_lock, tt_result := tt_startup_status s\<rparr>"
      using assms(2,3) True l by (auto simp: client_step_defs split: if_splits)
    then show ?thesis
      using started_all [OF assms(1) True] assms(1,2) keep l by (elim disjE) (simp_all add: team_inv_def run_inv_def in_run_def)
  next
    case False
    have "\<not> (\<forall>i < n. started (tt_workers s ! i))"
      using False assms(1) l filter_all [of started "tt_workers s"] by (simp add: team_inv_def)
    then obtain i where "i < n" "\<not> started (tt_workers s ! i)" by blast
    moreover have "\<forall>i < n. wk_pc (tt_workers s ! i) \<noteq> Not_launched" using assms(1,2) l by (simp add: team_inv_def)
    ultimately have "\<exists>i < n. wk_pc (tt_workers s ! i) = Starting" by (auto simp: started_def)
    moreover have "s' = s\<lparr>tt_client := Startup_sleep\<rparr>" using assms(2,3) False l by (simp add: client_step_defs)
    ultimately show ?thesis using assms(1,2) keep l by (auto simp: team_inv_def run_inv_def in_run_def)
  qed
qed

lemma run_check_keeps:
  assumes "team_inv n s" "tt_client s = Run_check" "client_step s = Some s'"
  shows "team_inv n s'"
proof -
  have l: "length (tt_workers s) = n" using assms(1) by (simp add: team_inv_def)
  have inv: "tt_runs s \<noteq> []" "tt_task s = Some (last (tt_runs s))"
    "tt_completed s = length (filter (turned (tt_generation s)) (tt_workers s))" "\<forall>j < n. busy_worker s j"
    using assms(1,2) l by (simp_all add: team_inv_def run_inv_def in_run_def)
  show ?thesis
  proof (cases "tt_completed s = n")
    case True
    then have t: "\<forall>i < n. turned (tt_generation s) (tt_workers s ! i)" using inv(3) l filter_all by metis
    have s': "s' = s\<lparr>tt_client := Ready\<rparr>" using assms(2,3) True l by (simp add: client_step_defs)
    have b: "wk_pc (tt_workers s ! i) \<in> {Checking, Sleeping} \<and> executed (tt_log s) i = tt_runs s" if "i < n" for i
      using inv(4) t that generation_apart [of "tt_generation s"]
      by (fastforce simp: busy_worker_def Let_def turned_def)
    have "idle_worker s' i \<and> started (tt_workers s' ! i)" if "i < n" for i
      using b [OF that] t that unfolding s' by (auto simp: idle_worker_def Let_def started_def)
    then show ?thesis using assms(1,2) l unfolding s' by (simp add: team_inv_def run_inv_def in_run_def)
  next
    case False
    have "tt_completed s \<le> n" unfolding inv(3) using length_filter_le l by metis
    then have "tt_completed s < n" using False by simp
    moreover have "s' = s\<lparr>tt_client := Run_sleep\<rparr>" using assms(2,3) False l by (simp add: client_step_defs)
    moreover have "\<forall>j < n. busy_worker (s\<lparr>tt_client := Run_sleep\<rparr>) j" using inv(4) by (simp add: busy_worker_def)
    ultimately show ?thesis using assms(1,2) inv l by (simp add: team_inv_def run_inv_def in_run_def)
  qed
qed

lemma stop_keeps:
  assumes "team_inv n s" "tt_client s = Stop_lock \<or> tt_client s = Stop_notify \<or> (\<exists>k. tt_client s = Joining k)"
    "client_step s = Some s'"
  shows "team_inv n s'"
proof -
  have l: "length (tt_workers s) = n" using assms(1) by (simp add: team_inv_def)
  have idle: "\<forall>j < n. idle_worker s j" using assms(1,2) l by (auto simp: team_inv_def run_inv_def in_run_def)
  from assms(2) show ?thesis
  proof (elim disjE exE)
    assume c: "tt_client s = Stop_lock"
    then have s': "s' = s\<lparr>tt_stopping := True, tt_client := Stop_notify\<rparr>" using assms(3) by (simp add: client_step_defs)
    have "\<forall>j < n. idle_worker s' j" using idle unfolding s' by (auto simp: idle_worker_def Let_def)
    then show ?thesis using assms(1) c l unfolding s' by (simp add: team_inv_def run_inv_def in_run_def)
  next
    assume c: "tt_client s = Stop_notify"
    then have s': "s' = s\<lparr>tt_workers := wake_workers (tt_workers s), tt_client := Joining 0\<rparr>"
      using assms(3) by (simp add: client_step_defs)
    have "\<forall>j < n. idle_worker s' j"
      using idle l unfolding s' by (auto simp: idle_worker_def Let_def wake_nth turned_def)
    then show ?thesis using assms(1) c l unfolding s'
      by (simp add: team_inv_def run_inv_def in_run_def wake_started wake_nth)
  next
    fix k assume c: "tt_client s = Joining k"
    have "\<forall>j < n. idle_worker (s\<lparr>tt_client := x\<rparr>) j" for x using idle by (simp add: idle_worker_def)
    then show ?thesis using assms(1,3) c l
      by (auto simp: client_step_defs team_inv_def run_inv_def in_run_def less_Suc_eq split: if_splits)
  qed
qed

lemma client_keeps:
  assumes "team_inv n s" "client_step s = Some s'"
  shows "team_inv n s'"
proof (cases "tt_client s")
  case (Launching k)
  then show ?thesis by (rule launch_keeps [OF assms(1) _ assms(2)])
next
  case Startup_check
  then show ?thesis by (rule startup_keeps [OF assms(1) _ assms(2)])
next
  case Run_check
  then show ?thesis by (rule run_check_keeps [OF assms(1) _ assms(2)])
qed (use assms stop_keeps [OF assms(1) _ assms(2)] in \<open>simp_all add: client_step_defs\<close>)

lemma call_run_keeps:
  assumes "team_inv n s" "call_run t s = Some s'"
  shows "team_inv n s'"
proof -
  have l: "length (tt_workers s) = n" using assms(1) by (simp add: team_inv_def)
  have c: "tt_client s = Ready" "\<not> tt_stopping s" using assms(2) by (auto simp: call_run_def split: if_splits)
  have s': "s' = s\<lparr>tt_task := Some t, tt_completed := 0, tt_generation := tt_generation s + 1,
        tt_workers := wake_workers (tt_workers s), tt_client := Run_check, tt_runs := tt_runs s @ [t]\<rparr>"
    using assms(2) by (auto simp: call_run_def split: if_splits)
  have idle: "\<forall>j < n. idle_worker s j" and st: "\<forall>j < n. started (tt_workers s ! j)"
    using assms(1) c l by (simp_all add: team_inv_def run_inv_def in_run_def)
  have b: "busy_worker s' j" if "j < n" for j
  proof (cases "wk_pc (tt_workers s ! j)")
  qed (use idle st that l c(2) in \<open>auto simp: s' busy_worker_def idle_worker_def Let_def turned_def wake_nth started_def\<close>)
  have "wk_observed (tt_workers s ! j) \<noteq> tt_generation s + 1" if "j < n" for j
    using idle that generation_apart [of "tt_generation s + 1"] by (simp add: idle_worker_def Let_def turned_def)
  then have "\<forall>w \<in> set (wake_workers (tt_workers s)). \<not> turned (tt_generation s + 1) w"
    using l by (auto simp: in_set_conv_nth wake_nth turned_def split: if_splits)
  then have "filter (turned (tt_generation s + 1)) (wake_workers (tt_workers s)) = []" by (simp add: filter_empty_conv)
  then show ?thesis using assms(1) b c l unfolding s' by (simp add: team_inv_def run_inv_def in_run_def wake_started)
qed

lemma spurious_keeps:
  assumes "team_inv n s" "i < n" "spurious_worker i s = Some s'"
  shows "team_inv n s'"
proof -
  let ?w = "(tt_workers s ! i)\<lparr>wk_pc := Checking\<rparr>"
  have l: "length (tt_workers s) = n" using assms(1) by (simp add: team_inv_def)
  have pc: "wk_pc (tt_workers s ! i) = Sleeping" and s': "s' = s\<lparr>tt_workers := (tt_workers s)[i := ?w]\<rparr>"
    using assms(3) by (auto simp: spurious_worker_def split: if_splits)
  have count: "length (filter started ((tt_workers s)[i := ?w])) = length (filter started (tt_workers s))"
    "length (filter (turned (tt_generation s)) ((tt_workers s)[i := ?w])) = length (filter (turned (tt_generation s)) (tt_workers s))"
    using length_filter_update [of i "tt_workers s" started ?w]
      length_filter_update [of i "tt_workers s" "turned (tt_generation s)" ?w] assms(2) pc l
    by (simp_all add: started_def turned_def split: if_splits)
  have "idle_worker s' j" if "idle_worker s j" "j < n" for j
    using assms(2) pc that l unfolding s' by (cases "j = i") (auto simp: idle_worker_def Let_def turned_def)
  moreover have "busy_worker s' j" if "busy_worker s j" "j < n" for j
    using assms(2) pc that l unfolding s' by (cases "j = i") (auto simp: busy_worker_def Let_def)
  moreover have "client_inv (tt_client s) s'"
  proof (cases "tt_client s = Startup_sleep")
    case True
    then obtain j where j: "j < n" "wk_pc (tt_workers s ! j) \<in> {Starting, Startup_notify}"
      using assms(1) l by (auto simp: team_inv_def)
    then have "j \<noteq> i" using pc by auto
    with j have "\<exists>j < n. wk_pc (tt_workers s' ! j) \<in> {Starting, Startup_notify}" using s' by (auto intro!: exI [of _ j])
    moreover have "\<forall>j < n. wk_pc (tt_workers s' ! j) \<noteq> Not_launched"
      using assms(1,2) True s' l by (auto simp: team_inv_def nth_list_update)
    ultimately show ?thesis using True s' l by simp
  next
    case False
    then show ?thesis using assms(1,2) s' l pc
      by (cases "tt_client s") (auto simp: team_inv_def nth_list_update started_def)
  qed
  ultimately show ?thesis using assms(1) count l unfolding s' team_inv_def run_inv_def by auto
qed

lemma step_keeps:
  assumes "team_inv n s" "team_step binding e s = Some s'"
  shows "team_inv n s'"
proof -
  have l: "length (tt_workers s) = n" using assms(1) by (simp add: team_inv_def)
  show ?thesis
  proof (cases e)
    case (Worker i)
    then show ?thesis using assms l worker_keeps by (auto split: if_splits)
  next
    case Client
    then show ?thesis using assms client_keeps by auto
  next
    case (Launch_fails failure)
    then show ?thesis using assms
      by (auto simp: launch_fails_def team_inv_def run_inv_def in_run_def idle_worker_def Let_def split: client_pc.splits if_splits)
  next
    case (Call_run t)
    then show ?thesis using assms call_run_keeps by auto
  next
    case Call_release
    then show ?thesis using assms
      by (auto simp: call_release_def team_inv_def run_inv_def in_run_def idle_worker_def Let_def split: if_splits)
  next
    case (Spurious_worker i)
    then show ?thesis using assms l spurious_keeps by (auto split: if_splits)
  next
    case Spurious_client
    then have sp: "spurious_client s = Some s'" using assms(2) by simp
    have c: "tt_client s = Startup_sleep \<or> tt_client s = Run_sleep" and s': "s' = s\<lparr>tt_client := wake_run (wake_startup (tt_client s))\<rparr>"
      using sp unfolding spurious_client_def by (metis option.distinct(1), metis option.distinct(1) option.inject)
    from c show ?thesis
    proof
      assume c: "tt_client s = Startup_sleep"
      show ?thesis using assms(1) unfolding s' c
        by (simp add: c wake_run_def wake_startup_def team_inv_def run_inv_def in_run_def idle_worker_def busy_worker_def Let_def) blast
    next
      assume c: "tt_client s = Run_sleep"
      show ?thesis using assms(1) unfolding s' c
        by (simp add: c wake_run_def wake_startup_def team_inv_def run_inv_def in_run_def idle_worker_def busy_worker_def Let_def)
    qed
  qed
qed

lemma reachable_inv: "team_reachable binding n s \<Longrightarrow> team_inv n s"
  by (induction rule: team_reachable.induct) (auto intro: inv_new step_keeps)

end
