(* ===== verification/Thread_Team_Progress.thy ===== *)
theory Thread_Team_Progress
  imports Thread_Team_Proofs
begin

text \<open>
  The two properties of the thread team: \<^verbatim>\<open>run\<close> is a barrier that executes the task once per worker,
  and no wake-up is lost. The second rests on a measure that every step of the threads lowers and on
  the invariant, which finds a thread that can move while a call is in progress.
\<close>

section \<open>A measure of the remaining work\<close>

fun pc_weight :: "'a worker_pc \<Rightarrow> nat" where
  "pc_weight Starting = 8"
| "pc_weight Startup_notify = 6"
| "pc_weight Checking = 4"
| "pc_weight (Running t) = 3"
| "pc_weight Task_done = 2"
| "pc_weight _ = 0"

fun client_weight :: "nat \<Rightarrow> client_pc \<Rightarrow> nat" where
  "client_weight n (Launching k) = 9 * (n - k) + 5 * n + 7"
| "client_weight n Startup_check = 5 * n + 6"
| "client_weight n Startup_sleep = 5 * n + 5"
| "client_weight n Stop_lock = 5 * n + 4"
| "client_weight n Stop_notify = 5 * n + 3"
| "client_weight n (Joining k) = 1 + (n - k)"
| "client_weight n Run_check = 1"
| "client_weight n _ = 0"

definition workers_weight :: "'a worker list \<Rightarrow> nat" where
  "workers_weight ws = sum_list (map (pc_weight \<circ> wk_pc) ws)"

definition team_measure :: "'a team \<Rightarrow> nat" where
  "team_measure s = client_weight (length (tt_workers s)) (tt_client s) + workers_weight (tt_workers s)"

text \<open>What the threads do by themselves: no new call of the client and no causeless wake-up.\<close>

fun internal :: "'a team_event \<Rightarrow> bool" where
  "internal (Worker i) = True"
| "internal Client = True"
| "internal (Launch_fails failure) = True"
| "internal _ = False"

definition internal_step :: "(nat \<Rightarrow> status) \<Rightarrow> 'a team \<Rightarrow> 'a team \<Rightarrow> bool" where
  "internal_step binding s s' \<longleftrightarrow> (\<exists>e. internal e \<and> team_step binding e s = Some s')"

lemma weight_update:
  "i < length ws \<Longrightarrow> workers_weight (ws[i := w]) + pc_weight (wk_pc (ws ! i)) = workers_weight ws + pc_weight (wk_pc w)"
proof (induction ws arbitrary: i)
  case (Cons x ws)
  then show ?case by (cases i) (auto simp: workers_weight_def)
qed simp

lemma weight_wake: "workers_weight (wake_workers ws) \<le> workers_weight ws + 4 * length ws"
  by (induction ws) (auto simp: workers_weight_def wake_workers_def)

lemma check_weight: "pc_weight (wk_pc (worker_check s w)) \<le> 3"
  by (simp add: worker_check_def split: option.split)

lemma wake_weight:
  "client_weight n (wake_startup c) \<le> client_weight n c + 1" "client_weight n (wake_run c) \<le> client_weight n c + 1"
  by (cases c; simp add: wake_startup_def wake_run_def)+

lemma worker_lowers:
  assumes "team_inv n s" "i < n" "worker_step binding i s = Some s'"
  shows "team_measure s' < team_measure s"
proof -
  have l: "i < length (tt_workers s)" using assms(1,2) by (simp add: team_inv_def)
  let ?w = "tt_workers s ! i"
  show ?thesis
  proof (cases "wk_pc ?w")
    case Starting
    then show ?thesis using assms(3) weight_update [OF l, of "?w\<lparr>wk_pc := Startup_notify\<rparr>"]
      by (auto simp: worker_step_def Let_def team_measure_def)
  next
    case Startup_notify
    then show ?thesis using assms(3) weight_update [OF l, of "?w\<lparr>wk_pc := Checking\<rparr>"]
        wake_weight(1) [of "length (tt_workers s)" "tt_client s"]
      by (auto simp: worker_step_def Let_def team_measure_def)
  next
    case Checking
    then show ?thesis using assms(3) weight_update [OF l, of "worker_check s ?w"] check_weight [of s ?w]
      by (auto simp: worker_step_def Let_def team_measure_def)
  next
    case (Running t)
    then show ?thesis using assms(3) weight_update [OF l, of "?w\<lparr>wk_pc := Task_done\<rparr>"]
      by (auto simp: worker_step_def Let_def team_measure_def)
  next
    case Task_done
    have "in_run (tt_client s)" using busy_client [OF assms(1,2)] Task_done by simp
    then have "busy_worker s i" using assms(1,2) by (simp add: team_inv_def run_inv_def)
    then have "wk_observed ?w = tt_generation s" using Task_done by (auto simp: busy_worker_def Let_def)
    then have "pc_weight (wk_pc (worker_check s ?w)) = 0" by (simp add: worker_check_def)
    then show ?thesis using assms(3) Task_done weight_update [OF l, of "worker_check s ?w"]
        wake_weight(2) [of "length (tt_workers s)" "tt_client s"]
      by (auto simp: worker_step_def Let_def team_measure_def)
  qed (use assms(3) in \<open>simp_all add: worker_step_def Let_def\<close>)
qed

lemma client_lowers:
  assumes "team_inv n s" "client_step s = Some s'"
  shows "team_measure s' < team_measure s"
proof (cases "tt_client s")
  case (Launching k)
  show ?thesis
  proof (cases "k < length (tt_workers s)")
    case True
    have "wk_pc (tt_workers s ! k) = Not_launched" using assms(1) Launching True by (simp add: team_inv_def)
    then show ?thesis
      using assms(2) Launching True weight_update [OF True, of "(tt_workers s ! k)\<lparr>wk_pc := Starting\<rparr>"]
      by (auto simp: client_step_defs team_measure_def)
  next
    case False
    then show ?thesis using assms(2) Launching by (auto simp: client_step_defs team_measure_def)
  qed
next
  case Stop_notify
  then show ?thesis using assms(2) weight_wake [of "tt_workers s"] by (auto simp: client_step_defs team_measure_def)
next
  case (Joining k)
  then show ?thesis using assms(2) by (auto simp: client_step_defs team_measure_def split: if_splits)
qed (use assms(2) in \<open>auto simp: client_step_defs team_measure_def split: if_splits\<close>)

lemma internal_lowers:
  assumes "team_inv n s" "internal_step binding s s'"
  shows "team_measure s' < team_measure s"
proof -
  obtain e where e: "internal e" "team_step binding e s = Some s'" using assms(2) by (auto simp: internal_step_def)
  have l: "length (tt_workers s) = n" using assms(1) by (simp add: team_inv_def)
  show ?thesis
  proof (cases e)
    case (Worker i)
    then show ?thesis using e(2) l worker_lowers [OF assms(1)] by (auto split: if_splits)
  next
    case Client
    then show ?thesis using e(2) client_lowers [OF assms(1)] by simp
  next
    case (Launch_fails failure)
    then show ?thesis using e(2) by (auto simp: launch_fails_def team_measure_def split: client_pc.splits if_splits)
  qed (use e(1) in simp_all)
qed

section \<open>Some thread can move\<close>

lemma worker_moves:
  assumes "i < length (tt_workers s)" "wk_pc (tt_workers s ! i) \<notin> {Not_launched, Sleeping, Finished}"
  shows "\<exists>s'. internal_step binding s s'"
proof -
  have "\<exists>s'. worker_step binding i s = Some s'"
    using assms(2) by (cases "wk_pc (tt_workers s ! i)") (simp_all add: worker_step_def Let_def)
  then show ?thesis using assms(1) unfolding internal_step_def by (metis internal.simps(1) team_step.simps(1))
qed

lemma client_moves: "client_step s = Some s' \<Longrightarrow> \<exists>s'. internal_step binding s s'"
  unfolding internal_step_def by (metis internal.simps(2) team_step.simps(2))

lemma not_at_rest:
  assumes inv: "team_inv n s" and c: "tt_client s \<noteq> Ready" "tt_client s \<noteq> Gone"
  shows "\<exists>s'. internal_step binding s s'"
proof -
  have l: "length (tt_workers s) = n" using inv by (simp add: team_inv_def)
  show ?thesis
  proof (cases "tt_client s")
    case Startup_sleep
    then obtain i where "i < n" "wk_pc (tt_workers s ! i) \<in> {Starting, Startup_notify}"
      using inv l by (auto simp: team_inv_def)
    then show ?thesis using worker_moves [of i s binding] l by auto
  next
    case Run_sleep
    have r: "tt_completed s = length (filter (turned (tt_generation s)) (tt_workers s))" "\<forall>i < n. busy_worker s i"
      "tt_completed s < n" using inv Run_sleep l by (simp_all add: team_inv_def run_inv_def in_run_def)
    then have "\<not> (\<forall>i < n. turned (tt_generation s) (tt_workers s ! i))"
      using filter_all [of "turned (tt_generation s)" "tt_workers s"] l by auto
    then obtain i where i: "i < n" "\<not> turned (tt_generation s) (tt_workers s ! i)" by blast
    then have "wk_pc (tt_workers s ! i) \<notin> {Not_launched, Sleeping, Finished}"
      using r(2) by (auto simp: busy_worker_def Let_def turned_def)
    then show ?thesis using worker_moves [of i s binding] i(1) l by auto
  next
    case (Joining k)
    show ?thesis
    proof (cases "k < n \<and> wk_pc (tt_workers s ! k) \<notin> {Finished, Not_launched}")
      case True
      then have "wk_pc (tt_workers s ! k) \<notin> {Not_launched, Sleeping, Finished}"
        using inv Joining l by (auto simp: team_inv_def)
      then show ?thesis using worker_moves [of k s binding] True l by auto
    next
      case False
      then have "client_step s = Some (s\<lparr>tt_client := if k < n then Joining (k + 1) else Gone\<rparr>)"
        using Joining l by (auto simp: client_step_defs)
      then show ?thesis by (rule client_moves)
    qed
  next
    case Startup_check
    then have "\<exists>s'. client_step s = Some s'" by (simp add: client_step_defs)
    then show ?thesis using client_moves by blast
  next
    case (Launching k)
    then have "\<exists>s'. client_step s = Some s'" by (simp add: client_step_defs)
    then show ?thesis using client_moves by blast
  next
    case Run_check
    then have "\<exists>s'. client_step s = Some s'" by (simp add: client_step_defs)
    then show ?thesis using client_moves by blast
  next
    case Stop_lock
    then have "\<exists>s'. client_step s = Some s'" by (simp add: client_step_defs)
    then show ?thesis using client_moves by blast
  next
    case Stop_notify
    then have "\<exists>s'. client_step s = Some s'" by (simp add: client_step_defs)
    then show ?thesis using client_moves by blast
  qed (use c in simp_all)
qed

lemma internal_inv: "team_inv n s \<Longrightarrow> internal_step binding s s' \<Longrightarrow> team_inv n s'"
  by (auto simp: internal_step_def intro: step_keeps)

lemma internal_run:
  "(internal_step binding ^^ k) s s' \<Longrightarrow> team_inv n s \<Longrightarrow> team_inv n s' \<and> k + team_measure s' \<le> team_measure s"
proof (induction k arbitrary: s')
  case (Suc k)
  then obtain u where u: "(internal_step binding ^^ k) s u" "internal_step binding u s'" by auto
  from Suc.IH [OF u(1) Suc.prems(2)] internal_lowers [OF _ u(2)] internal_inv [OF _ u(2)] show ?case by fastforce
qed simp

section \<open>The properties\<close>

text \<open>
  C35. However the threads interleave, whichever wake-ups come without reason and whether or not all
  threads can be started: when \<^verbatim>\<open>run\<close> has returned, every worker has executed every dispatched task
  exactly once and in order of dispatch; a worker executes a task only while the call that dispatched it
  is in progress; and when the team is gone no thread is left running.
\<close>

theorem team_executes_each_task_once:
  assumes "team_reachable binding n s"
  shows "(\<forall>i < n. executed (tt_log s) i = tt_runs s \<or> in_run (tt_client s) \<and> executed (tt_log s) i = butlast (tt_runs s)) \<and>
    (\<forall>i < n. \<forall>t. wk_pc (tt_workers s ! i) = Running t \<longrightarrow> in_run (tt_client s) \<and> t = last (tt_runs s)) \<and>
    (tt_client s = Gone \<longrightarrow> (\<forall>i < n. wk_pc (tt_workers s ! i) \<in> {Finished, Not_launched}))"
proof -
  have inv: "team_inv n s" by (rule reachable_inv [OF assms])
  then have l: "length (tt_workers s) = n" by (simp add: team_inv_def)
  have "(executed (tt_log s) i = tt_runs s \<or> in_run (tt_client s) \<and> executed (tt_log s) i = butlast (tt_runs s)) \<and>
      (wk_pc (tt_workers s ! i) = Running t \<longrightarrow> in_run (tt_client s) \<and> t = last (tt_runs s))" if "i < n" for i t
    using inv l that busy_client [OF inv that]
    by (auto simp: team_inv_def run_inv_def idle_worker_def busy_worker_def turned_def Let_def split: if_splits)
  moreover have "tt_client s = Gone \<longrightarrow> (\<forall>i < n. wk_pc (tt_workers s ! i) \<in> {Finished, Not_launched})"
    using inv l by (auto simp: team_inv_def)
  ultimately show ?thesis by blast
qed

text \<open>
  C36. No wake-up is lost. From every reachable state the threads can take only a bounded number of steps
  by themselves, and they come to rest only when the call in progress has ended: \<^verbatim>\<open>create\<close> and
  \<^verbatim>\<open>run\<close> return, and the destructor joins every thread, under every schedule in which a thread that
  can move eventually does and tasks return.
\<close>

theorem team_comes_to_rest:
  assumes "team_reachable binding n s"
  shows "(\<forall>k s'. (internal_step binding ^^ k) s s' \<longrightarrow> k \<le> team_measure s) \<and>
    (\<forall>k s'. (internal_step binding ^^ k) s s' \<and> (\<nexists>s''. internal_step binding s' s'') \<longrightarrow>
      tt_client s' = Ready \<or> tt_client s' = Gone)"
proof -
  have inv: "team_inv n s" by (rule reachable_inv [OF assms])
  have "k \<le> team_measure s" if "(internal_step binding ^^ k) s s'" for k s'
    using internal_run [OF that inv] by simp
  moreover have "tt_client s' = Ready \<or> tt_client s' = Gone"
    if "(internal_step binding ^^ k) s s'" "\<nexists>s''. internal_step binding s' s''" for k s'
    using internal_run [OF that(1) inv] not_at_rest [of n s' binding] that(2) by blast
  ultimately show ?thesis by blast
qed

text \<open>Two workers, one task, seen in the middle of the call.\<close>

fun team_trace :: "(nat \<Rightarrow> status) \<Rightarrow> 'a team_event list \<Rightarrow> 'a team \<Rightarrow> 'a team option" where
  "team_trace binding [] s = Some s"
| "team_trace binding (e # es) s = (case team_step binding e s of None \<Rightarrow> None | Some u \<Rightarrow> team_trace binding es u)"

lemma trace_reachable:
  "team_reachable binding n s \<Longrightarrow> team_trace binding es s = Some s' \<Longrightarrow> team_reachable binding n s'"
  by (induction es arbitrary: s) (auto intro: reach_step split: option.splits)

definition bound :: "nat \<Rightarrow> status" where "bound i = status_ok"

definition example_events :: "char team_event list" where
  "example_events = [Client, Worker 0, Worker 0, Worker 0, Client, Worker 1, Client, Client, Call_run (CHR ''a''),
     Worker 0, Client, Worker 0, Worker 1, Worker 0]"

definition example_team :: "char team" where
  "example_team = the (team_trace bound example_events (new_team 2))"

lemma example_trace: "team_trace bound example_events (new_team 2) = Some example_team"
  by code_simp

lemma example_reachable: "team_reachable bound 2 example_team"
  by (rule trace_reachable [OF reach_new example_trace])

theorem team_executes_each_task_once_witness:
  "(executed (tt_log example_team) 1 = tt_runs example_team \<or> executed (tt_log example_team) 1 = butlast (tt_runs example_team)) \<and>
    tt_client example_team = Run_sleep \<and> executed (tt_log example_team) 0 = ''a'' \<and> executed (tt_log example_team) 1 = []"
proof -
  have "tt_client example_team = Run_sleep \<and> executed (tt_log example_team) 0 = ''a'' \<and> executed (tt_log example_team) 1 = []"
    by code_simp
  moreover have "executed (tt_log example_team) 1 = tt_runs example_team \<or>
      executed (tt_log example_team) 1 = butlast (tt_runs example_team)"
    using conjunct1 [OF team_executes_each_task_once [OF example_reachable], rule_format, of 1] by auto
  ultimately show ?thesis by blast
qed

theorem team_comes_to_rest_witness:
  "\<not> (\<exists>s'. (internal_step bound ^^ 5) example_team s') \<and> tt_client example_team = Run_sleep"
proof -
  have "team_measure example_team = 4 \<and> tt_client example_team = Run_sleep" by code_simp
  moreover have "(internal_step bound ^^ 5) example_team s' \<Longrightarrow> 5 \<le> team_measure example_team" for s'
    using team_comes_to_rest [OF example_reachable] by blast
  ultimately show ?thesis by force
qed

end
