(* ===== verification/Halo_Sections.thy ===== *)
theory Halo_Sections
  imports Mesh_Patch View_Intervals
begin

text \<open>
  Faces, neighbours and sections of the halo exchange (\<^verbatim>\<open>parallel_halo.cpp\<close>). A section is the layer
  of cells of one field at one face of a patch: the sender packs the layer inside the face, the
  receiver unpacks it into the layer of ghosts outside. The memory of a rank maps addresses, counted
  in doubles, to the bits of a double, as in the face flux theories.
\<close>

section \<open>Faces and topology\<close>

datatype halo_face = Xm | Xp | Ym | Yp | Zm | Zp

record halo_topology =
  ht_x :: bool
  ht_y :: bool
  ht_z :: bool

record halo_spec =
  hs_field :: field_id
  hs_width :: u8
  hs_components :: u8

definition all_faces :: "halo_face list" where
  "all_faces = [Xm, Xp, Ym, Yp, Zm, Zp]"

fun face_number :: "halo_face \<Rightarrow> nat" where
  "face_number Xm = 0"
| "face_number Xp = 1"
| "face_number Ym = 2"
| "face_number Yp = 3"
| "face_number Zm = 4"
| "face_number Zp = 5"

definition face_axis :: "halo_face \<Rightarrow> nat" where
  "face_axis f = (if f = Xm \<or> f = Xp then 0 else if f = Ym \<or> f = Yp then 1 else 2)"

fun opposite :: "halo_face \<Rightarrow> halo_face" where
  "opposite Xm = Xp"
| "opposite Xp = Xm"
| "opposite Ym = Yp"
| "opposite Yp = Ym"
| "opposite Zm = Zp"
| "opposite Zp = Zm"

definition face_minus :: "halo_face \<Rightarrow> bool" where
  "face_minus f \<longleftrightarrow> f = Xm \<or> f = Ym \<or> f = Zm"

definition periodic_axis :: "halo_topology \<Rightarrow> nat \<Rightarrow> bool" where
  "periodic_axis t axis = (if axis = 0 then ht_x t else if axis = 1 then ht_y t else ht_z t)"

definition axis_of :: "nat \<Rightarrow> int3 \<Rightarrow> int" where
  "axis_of axis v = (if axis = 0 then x3 v else if axis = 1 then y3 v else z3 v)"

definition with_axis :: "nat \<Rightarrow> int \<Rightarrow> int3 \<Rightarrow> int3" where
  "with_axis axis a v =
     (if axis = 0 then v\<lparr>x3 := a\<rparr> else if axis = 1 then v\<lparr>y3 := a\<rparr> else v\<lparr>z3 := a\<rparr>)"

section \<open>Validation\<close>

definition validate_patch :: "mesh_patch \<Rightarrow> int \<Rightarrow> int \<Rightarrow> status" where
  "validate_patch p rank ranks =
     (let g = mp_grid p; c = mp_coord p; b = mp_begin p in
      if \<not> positive3 (mp_cells p) \<or> \<not> positive3 g \<or> x3 b < 0 \<or> y3 b < 0 \<or> z3 b < 0 \<or>
         x3 c < 0 \<or> y3 c < 0 \<or> z3 c < 0 \<or> x3 c \<ge> x3 g \<or> y3 c \<ge> y3 g \<or> z3 c \<ge> z3 g
      then failed Invalid_plan 303
      else case checked_multiply (word_of_int (x3 g)) (word_of_int (y3 g)) of None \<Rightarrow> failed Invalid_plan 303
      | Some xy \<Rightarrow>
          (case checked_multiply xy (word_of_int (z3 g)) of None \<Rightarrow> failed Invalid_plan 303
           | Some whole \<Rightarrow>
               if whole \<noteq> word_of_int ranks then failed Invalid_plan 303
               else if word_of_int (x3 c) + word_of_int (x3 g) *
                   (word_of_int (y3 c) + word_of_int (y3 g) * word_of_int (z3 c)) \<noteq> (word_of_int rank :: u64)
               then failed Invalid_plan 303 else status_ok))"

fun check_specs :: "mesh_patch \<Rightarrow> field_id list \<Rightarrow> halo_spec list \<Rightarrow> status" where
  "check_specs p prior [] = status_ok"
| "check_specs p prior (s # rest) =
     (let w = int (unat (hs_width s)); n = mp_cells p in
      if hs_width s = 0 \<or> hs_components s = 0 \<or> w > x3 n \<or> w > y3 n \<or> w > z3 n then failed Invalid_plan 304
      else if hs_field s \<in> set prior then failed Invalid_plan 304
      else check_specs p (prior @ [hs_field s]) rest)"

definition validate_specs :: "halo_spec span \<Rightarrow> mesh_patch \<Rightarrow> status" where
  "validate_specs specs p =
     (if span_null specs \<or> span_size specs = 0 \<or> span_size specs > 65536 then failed Invalid_plan 304
      else check_specs p [] (span_list specs))"

section \<open>Neighbours\<close>

text \<open>The rank behind a face; \<open>None\<close> at a boundary that is not periodic.\<close>

definition neighbor_rank :: "mesh_patch \<Rightarrow> halo_topology \<Rightarrow> halo_face \<Rightarrow> int option" where
  "neighbor_rank p t f =
     (let axis = face_axis f; c = axis_of axis (mp_coord p); g = axis_of axis (mp_grid p);
          moved = (if face_minus f
            then (if c = 0 then (if \<not> periodic_axis t axis then None else Some (g - 1)) else Some (c - 1))
            else if c + 1 = g then (if \<not> periodic_axis t axis then None else Some 0) else Some (c + 1)) in
      case moved of None \<Rightarrow> None
      | Some a \<Rightarrow> let coordinate = with_axis axis a (mp_coord p); grid = mp_grid p in
          Some (x3 coordinate + x3 grid * (y3 coordinate + y3 grid * z3 coordinate)))"

definition section_size :: "mesh_patch \<Rightarrow> halo_spec \<Rightarrow> halo_face \<Rightarrow> status + u64" where
  "section_size p s f =
     (let nx = word_of_int (x3 (mp_cells p)); ny = word_of_int (y3 (mp_cells p)); nz = word_of_int (z3 (mp_cells p));
          area = (if face_axis f = 0 then checked_multiply ny nz
            else if face_axis f = 1 then checked_multiply nx nz else checked_multiply nx ny) in
      case area of None \<Rightarrow> Inl (failed Invalid_plan 305)
      | Some a \<Rightarrow>
          (case checked_multiply a (ucast (hs_width s)) of None \<Rightarrow> Inl (failed Invalid_plan 305)
           | Some layer \<Rightarrow>
               (case checked_multiply layer (ucast (hs_components s)) of None \<Rightarrow> Inl (failed Invalid_plan 305)
                | Some whole \<Rightarrow> if whole = 0 then Inl (failed Invalid_plan 305) else Inr whole)))"

section \<open>Packing and unpacking\<close>

definition box_positions :: "int list \<Rightarrow> int list \<Rightarrow> int list \<Rightarrow> int3 list" where
  "box_positions xs ys zs = concat (map (\<lambda>z. concat (map (\<lambda>y. map (\<lambda>x. \<lparr>x3 = x, y3 = y, z3 = z\<rparr>) xs) ys)) zs)"

text \<open>The loops over one layer that starts at \<open>start\<close> on the axis of the face.\<close>

definition layer_positions :: "int3 \<Rightarrow> nat \<Rightarrow> int \<Rightarrow> int \<Rightarrow> int3 list" where
  "layer_positions n axis start width =
     (let layer = [start..start + width - 1]; nx = [0..x3 n - 1]; ny = [0..y3 n - 1]; nz = [0..z3 n - 1] in
      if axis = 0 then box_positions layer ny nz
      else if axis = 1 then box_positions nx layer nz
      else box_positions nx ny layer)"

definition section_cells :: "int3 \<Rightarrow> halo_spec \<Rightarrow> halo_face \<Rightarrow> int \<Rightarrow> (u8 \<times> int3) list" where
  "section_cells n s f start =
     concat (map (\<lambda>c. map (Pair (word_of_nat c)) (layer_positions n (face_axis f) start (int (unat (hs_width s)))))
       [0..<unat (hs_components s)])"

definition inner_start :: "int3 \<Rightarrow> halo_spec \<Rightarrow> halo_face \<Rightarrow> int" where
  "inner_start n s f = (if face_minus f then 0 else axis_of (face_axis f) n - int (unat (hs_width s)))"

definition ghost_start :: "int3 \<Rightarrow> halo_spec \<Rightarrow> halo_face \<Rightarrow> int" where
  "ghost_start n s f = (if face_minus f then - int (unat (hs_width s)) else axis_of (face_axis f) n)"

definition pack_section :: "field_view \<Rightarrow> halo_spec \<Rightarrow> halo_face \<Rightarrow> (int \<Rightarrow> u64) \<Rightarrow> u64 list" where
  "pack_section v s f m =
     map (\<lambda>(c, i). m (view_cell v i c)) (section_cells (fv_interior v) s f (inner_start (fv_interior v) s f))"

definition unpack_section :: "field_view \<Rightarrow> halo_spec \<Rightarrow> halo_face \<Rightarrow> u64 list \<Rightarrow> (int \<Rightarrow> u64) \<Rightarrow> (int \<Rightarrow> u64)" where
  "unpack_section v s f input m =
     fold (\<lambda>((c, i), value) m. m(view_cell v i c := value))
       (zip (section_cells (fv_interior v) s f (ghost_start (fv_interior v) s f)) input) m"

end
