(* ===== verification/Halo_Plan.thy ===== *)
theory Halo_Plan
  imports Halo_Sections "HOL-Library.Product_Lexorder"
begin

text \<open>
  The exchange plan of \<^verbatim>\<open>HaloEngine\<close> (\<^verbatim>\<open>build_peers\<close> of \<^verbatim>\<open>parallel_halo.cpp\<close>): for each neighbouring
  rank the sections to send and to receive, in the order of the receiving face, laid out one after the
  other in the send and the receive storage, and cut into messages with one tag each.
\<close>

section \<open>State\<close>

record halo_section =
  sc_slot :: nat
  sc_face :: halo_face
  sc_dest :: halo_face
  sc_offset :: u64
  sc_count :: u64

record halo_peer =
  hp_rank :: int
  hp_local :: bool
  hp_send_offset :: u64
  hp_receive_offset :: u64
  hp_count :: u64
  hp_sends :: "halo_section list"
  hp_receives :: "halo_section list"

record halo_chunk =
  hc_peer :: nat
  hc_offset :: u64
  hc_count :: int
  hc_tag :: int

record field_slot =
  fs_spec :: halo_spec
  fs_begin_view :: field_view
  fs_finish_view :: field_view
  fs_pending_revision :: revision_token
  fs_ghost_revision :: revision_token
  fs_seen_generation :: u64

text \<open>A persistent request: what it moves where, or \<^verbatim>\<open>MPI_REQUEST_NULL\<close>.\<close>

datatype halo_request =
    Null_request
  | Receive_request nat int int int
  | Send_request nat int int int

record halo_stats =
  ht_transport_peers :: nat
  ht_local_peers :: nat
  ht_requests :: nat
  ht_send_capacity :: u64
  ht_receive_capacity :: u64
  ht_maximum_messages :: nat
  ht_maximum_bytes :: u64
  ht_maximum_tag :: nat

record halo_counters =
  ho_begin_calls :: u64
  ho_finish_calls :: u64
  ho_messages_started :: u64
  ho_bytes_packed :: u64
  ho_bytes_unpacked :: u64
  ho_consensus_calls :: u64

record halo_data =
  hd_patch :: mesh_patch
  hd_topology :: halo_topology
  hd_fields :: "field_slot list"
  hd_lookup :: "field_id \<Rightarrow> int"
  hd_candidate_views :: "field_view list"
  hd_peers :: "halo_peer list"
  hd_chunks :: "halo_chunk list"
  hd_send :: "u64 list"
  hd_receive :: "u64 list"
  hd_requests :: "halo_request list"
  hd_stats :: halo_stats
  hd_counters :: halo_counters
  hd_identity :: u64
  hd_generation :: u64
  hd_visit_generation :: u64
  hd_maximum_chunk :: u64
  hd_maximum_tag :: nat
  hd_rank :: int
  hd_size :: int
  hd_lowest_failing :: int
  hd_exchange_active :: bool
  hd_requests_active :: bool
  hd_poisoned :: bool
  hd_prepared_epoch :: bool
  hd_prepared_views_valid :: bool

section \<open>Collecting the sections of each neighbour\<close>

fun face_sections :: "mesh_patch \<Rightarrow> halo_face \<Rightarrow> nat \<Rightarrow> halo_spec list \<Rightarrow>
    status + (halo_section list \<times> halo_section list)" where
  "face_sections p f slot [] = Inr ([], [])"
| "face_sections p f slot (s # rest) =
     (case section_size p s f of Inl e \<Rightarrow> Inl e
      | Inr whole \<Rightarrow>
          (case face_sections p f (slot + 1) rest of Inl e \<Rightarrow> Inl e
           | Inr (sends, receives) \<Rightarrow>
               Inr (\<lparr>sc_slot = slot, sc_face = f, sc_dest = opposite f, sc_offset = 0, sc_count = whole\<rparr> # sends,
                 \<lparr>sc_slot = slot, sc_face = f, sc_dest = f, sc_offset = 0, sc_count = whole\<rparr> # receives)))"

text \<open>\<^verbatim>\<open>find_if\<close> by rank, the append of a new peer, and the two \<^verbatim>\<open>push_back\<close>s.\<close>

fun add_to_peer :: "int \<Rightarrow> int \<Rightarrow> halo_section list \<Rightarrow> halo_section list \<Rightarrow> halo_peer list \<Rightarrow> halo_peer list" where
  "add_to_peer rank neighbor sends receives [] =
     [\<lparr>hp_rank = neighbor, hp_local = (neighbor = rank), hp_send_offset = 0, hp_receive_offset = 0, hp_count = 0,
       hp_sends = sends, hp_receives = receives\<rparr>]"
| "add_to_peer rank neighbor sends receives (p # ps) =
     (if hp_rank p = neighbor
      then p\<lparr>hp_sends := hp_sends p @ sends, hp_receives := hp_receives p @ receives\<rparr> # ps
      else p # add_to_peer rank neighbor sends receives ps)"

fun add_faces :: "mesh_patch \<Rightarrow> halo_topology \<Rightarrow> int \<Rightarrow> halo_spec list \<Rightarrow> halo_face list \<Rightarrow> halo_peer list \<Rightarrow>
    status + halo_peer list" where
  "add_faces p t rank specs [] peers = Inr peers"
| "add_faces p t rank specs (f # fs) peers =
     (case neighbor_rank p t f of None \<Rightarrow> add_faces p t rank specs fs peers
      | Some neighbor \<Rightarrow>
          (case face_sections p f 0 specs of Inl e \<Rightarrow> Inl e
           | Inr (sends, receives) \<Rightarrow>
               add_faces p t rank specs fs (add_to_peer rank neighbor sends receives peers)))"

section \<open>Laying the sections out\<close>

definition halo_section_key :: "halo_spec list \<Rightarrow> halo_section \<Rightarrow> nat \<times> field_id" where
  "halo_section_key specs s = (face_number (sc_dest s), hs_field (specs ! sc_slot s))"

fun place_sections :: "halo_section list \<Rightarrow> u64 \<Rightarrow> u64 \<Rightarrow> (halo_section list \<times> u64 \<times> u64) option" where
  "place_sections [] running peer = Some ([], running, peer)"
| "place_sections (s # rest) running peer =
     (case (checked_add running (sc_count s), checked_add peer (sc_count s)) of
        (Some running', Some peer') \<Rightarrow>
          (case place_sections rest running' peer' of None \<Rightarrow> None
           | Some (ss, r, q) \<Rightarrow> Some (s\<lparr>sc_offset := running\<rparr> # ss, r, q))
      | _ \<Rightarrow> None)"

function cut_chunks :: "u64 \<Rightarrow> nat \<Rightarrow> nat \<Rightarrow> u64 \<Rightarrow> u64 \<Rightarrow> nat \<Rightarrow> halo_chunk list option" where
  "cut_chunks maximum_chunk maximum_tag peer whole offset ordinal =
     (if \<not> offset < whole then Some []
      else let part = min (whole - offset) maximum_chunk in
        if ordinal > maximum_tag then None
        else (case cut_chunks maximum_chunk maximum_tag peer whole (offset + part) (ordinal + 1) of None \<Rightarrow> None
          | Some cs \<Rightarrow> Some (\<lparr>hc_peer = peer, hc_offset = offset, hc_count = int (unat part), hc_tag = int ordinal\<rparr> # cs)))"
  by pat_completeness auto
termination
  by (relation "measure (\<lambda>(maximum_chunk, maximum_tag, peer, whole, offset, ordinal). Suc maximum_tag - ordinal)") auto

text \<open>The loop over the sorted peers; \<open>index\<close> is the position of the next peer.\<close>

fun layout_peers :: "u64 \<Rightarrow> nat \<Rightarrow> halo_spec list \<Rightarrow> nat \<Rightarrow> halo_peer list \<Rightarrow> u64 \<Rightarrow> u64 \<Rightarrow>
    status + (halo_peer list \<times> halo_chunk list \<times> u64 \<times> u64)" where
  "layout_peers maximum_chunk maximum_tag specs index [] sent received = Inr ([], [], sent, received)"
| "layout_peers maximum_chunk maximum_tag specs index (p # ps) sent received =
     (case place_sections (sort_key (halo_section_key specs) (hp_sends p)) sent 0 of
        None \<Rightarrow> Inl (failed Invalid_plan 305)
      | Some (sends, sent', peer_send) \<Rightarrow>
      (case place_sections (sort_key (halo_section_key specs) (hp_receives p)) received 0 of
        None \<Rightarrow> Inl (failed Invalid_plan 305)
      | Some (receives, received', peer_receive) \<Rightarrow>
        if peer_send \<noteq> peer_receive then Inl (failed Invalid_plan 303)
        else (case (if hp_local p then Some [] else cut_chunks maximum_chunk maximum_tag index peer_send 0 0) of
          None \<Rightarrow> Inl (failed Invalid_plan 305)
        | Some chunks \<Rightarrow>
          (case layout_peers maximum_chunk maximum_tag specs (index + 1) ps sent' received' of
            Inl e \<Rightarrow> Inl e
          | Inr (peers, later, s, r) \<Rightarrow>
              Inr (p\<lparr>hp_send_offset := sent, hp_receive_offset := received, hp_count := peer_send,
                     hp_sends := sends, hp_receives := receives\<rparr> # peers, chunks @ later, s, r)))))"

definition chunk_limit :: nat where "chunk_limit = 1073741823"

definition halo_specs :: "halo_data \<Rightarrow> halo_spec list" where
  "halo_specs d = map fs_spec (hd_fields d)"

definition build_peers :: "halo_data \<Rightarrow> status + halo_data" where
  "build_peers d =
     (case add_faces (hd_patch d) (hd_topology d) (hd_rank d) (halo_specs d) all_faces (hd_peers d) of
        Inl e \<Rightarrow> Inl e
      | Inr collected \<Rightarrow>
      (case layout_peers (hd_maximum_chunk d) (hd_maximum_tag d) (halo_specs d) 0 (sort_key hp_rank collected) 0 0 of
        Inl e \<Rightarrow> Inl e
      | Inr (peers, chunks, sent, received) \<Rightarrow>
          if length chunks > chunk_limit then Inl (failed Invalid_plan 305)
          else (case checked_multiply sent 8 of None \<Rightarrow> Inl (failed Invalid_plan 305)
            | Some bytes \<Rightarrow>
                let transport = length (filter (\<lambda>p. \<not> hp_local p) peers) in
                Inr (d\<lparr>hd_peers := peers, hd_chunks := chunks, hd_send := replicate (unat sent) 0,
                  hd_receive := replicate (unat received) 0,
                  hd_requests := replicate (length chunks * 2) Null_request,
                  hd_stats := (hd_stats d)\<lparr>ht_send_capacity := sent, ht_receive_capacity := received,
                    ht_maximum_messages := length chunks, ht_maximum_bytes := bytes,
                    ht_transport_peers := transport, ht_local_peers := length peers - transport,
                    ht_requests := length chunks * 2\<rparr>\<rparr>))))"

section \<open>Requests\<close>

text \<open>
  \<open>created k\<close> is the answer of MPI to the \<open>k\<close>-th initialisation, the receive before the send of each
  message. An initialisation that fails leaves the requests after it as they were.
\<close>

definition receive_request :: "halo_data \<Rightarrow> halo_chunk \<Rightarrow> halo_request" where
  "receive_request d c =
     (let p = hd_peers d ! hc_peer c in
      Receive_request (unat (hp_receive_offset p + hc_offset c)) (hc_count c) (hp_rank p) (hc_tag c))"

definition send_request :: "halo_data \<Rightarrow> halo_chunk \<Rightarrow> halo_request" where
  "send_request d c =
     (let p = hd_peers d ! hc_peer c in
      Send_request (unat (hp_send_offset p + hc_offset c)) (hc_count c) (hp_rank p) (hc_tag c))"

fun create_from :: "(nat \<Rightarrow> bool) \<Rightarrow> nat \<Rightarrow> halo_chunk list \<Rightarrow> halo_data \<Rightarrow> status \<times> halo_data" where
  "create_from created index [] d = (status_ok, d)"
| "create_from created index (c # cs) d =
     (if \<not> created (2 * index) then (failed Mpi_failure 307, d)
      else let d = d\<lparr>hd_requests := (hd_requests d)[index := receive_request d c]\<rparr> in
        if \<not> created (2 * index + 1) then (failed Mpi_failure 307, d)
        else create_from created (index + 1) cs
          (d\<lparr>hd_requests := (hd_requests d)[length (hd_chunks d) + index := send_request d c]\<rparr>))"

definition create_requests :: "(nat \<Rightarrow> bool) \<Rightarrow> halo_data \<Rightarrow> status \<times> halo_data" where
  "create_requests created d = create_from created 0 (hd_chunks d) d"

definition recreate_requests :: "(nat \<Rightarrow> bool) \<Rightarrow> halo_data \<Rightarrow> status \<times> halo_data" where
  "recreate_requests created d =
     (case create_requests created
         (d\<lparr>hd_requests := replicate (length (hd_requests d)) Null_request, hd_requests_active := False\<rparr>) of
        (st, d) \<Rightarrow> (st, d\<lparr>hd_poisoned := \<not> is_ok st\<rparr>))"

end
