(* ===== verification/Halo_Engine.thy ===== *)
theory Halo_Engine
  imports Halo_Plan Buffers
begin

text \<open>
  \<^verbatim>\<open>HaloEngine\<close> of \<^verbatim>\<open>parallel_halo.cpp\<close>: the consensus on a status, the collective \<^verbatim>\<open>reserve\<close>, the
  exchange in two halves \<^verbatim>\<open>begin\<close> and \<^verbatim>\<open>finish\<close>, and the prepared epoch, which exchanges without
  any consensus of its own. What MPI answers is an argument. The timers of the engine and the addresses
  in its statistics are left out; the test hooks are off, as in a release build.
\<close>

section \<open>Consensus on a status\<close>

record status_answers =
  sa_min :: "u64 \<Rightarrow> u64 option"
  sa_bcast :: "u64 \<Rightarrow> u64 \<times> u64 \<Rightarrow> (u64 \<times> u64) option"

fun halo_code_valid :: "status_code \<Rightarrow> bool" where
  "halo_code_valid (Unnamed_code _) = False"
| "halo_code_valid _ = True"

definition halo_local :: "status \<Rightarrow> status" where
  "halo_local st = (if halo_code_valid (scode st) then st else failed Invalid_plan 301)"

definition rank_fails :: "status \<Rightarrow> bool" where
  "rank_fails st \<longleftrightarrow> scode (halo_local st) \<noteq> Ok"

definition halo_candidate :: "int \<Rightarrow> status \<Rightarrow> u64" where
  "halo_candidate rank st = (if scode (halo_local st) = Ok then u64_max else word_of_int rank)"

definition raw_collective_status :: "status_answers \<Rightarrow> int \<Rightarrow> int \<Rightarrow> status \<Rightarrow> status \<times> int" where
  "raw_collective_status ans rank ranks st =
     (let failure = (failed Mpi_failure 306, - 1) in
      case sa_min ans (halo_candidate rank st) of None \<Rightarrow> failure
      | Some selected \<Rightarrow>
          if selected = u64_max then (status_ok, - 1)
          else if selected \<ge> word_of_int ranks then failure
          else let wire = (if rank = uint selected then (code_value (scode (halo_local st)), ucast (sdetail (halo_local st))) else (0, 0)) in
            (case sa_bcast ans selected wire of None \<Rightarrow> failure
             | Some (code, detail) \<Rightarrow>
                 if code > code_value Io_failure \<or> detail > 0xFFFFFFFF then failure
                 else (\<lparr>scode = code_of_value code, sdetail = ucast detail\<rparr>, uint selected)))"

definition collective_status :: "status_answers \<Rightarrow> status \<Rightarrow> halo_data \<Rightarrow> status \<times> halo_data" where
  "collective_status ans st d =
     (case raw_collective_status ans (hd_rank d) (hd_size d) st of (agreed, lowest) \<Rightarrow>
        (agreed, d\<lparr>hd_lowest_failing := lowest,
          hd_counters := (hd_counters d)\<lparr>ho_consensus_calls := ho_consensus_calls (hd_counters d) + 1\<rparr>\<rparr>))"

section \<open>Certificates and views\<close>

definition invalidate_certificates :: "halo_data \<Rightarrow> halo_data" where
  "invalidate_certificates d = d\<lparr>hd_fields := map (\<lambda>f. f\<lparr>fs_ghost_revision := 0\<rparr>) (hd_fields d)\<rparr>"

definition valid_view_shape :: "field_view \<Rightarrow> halo_spec \<Rightarrow> mesh_patch \<Rightarrow> bool" where
  "valid_view_shape v s p \<longleftrightarrow>
     (let w = int (unat (hs_width s)); i = fv_interior v; g = fv_ghosts v;
          padded = (\<lambda>n gh. word_of_int n + 2 * word_of_int gh) in
      fv_base v \<noteq> None \<and> fv_field v = hs_field s \<and> i = mp_cells p \<and> \<not> x3 g < w \<and> \<not> y3 g < w \<and> \<not> z3 g < w \<and>
      fv_components v = hs_components s \<and> fv_revision v \<noteq> 0 \<and> fv_storage_identity v \<noteq> 0 \<and> fv_revision_domain v \<noteq> 0 \<and>
      fv_stride_y v \<ge> padded (x3 i) (x3 g) \<and>
      (case checked_multiply (fv_stride_y v) (padded (y3 i) (y3 g)) of None \<Rightarrow> False
       | Some z_minimum \<Rightarrow> fv_stride_z v \<ge> z_minimum \<and>
          (case checked_multiply (fv_stride_z v) (padded (z3 i) (z3 g)) of None \<Rightarrow> False
           | Some component_minimum \<Rightarrow> fv_component_stride v \<ge> component_minimum \<and>
              (case checked_multiply (fv_component_stride v) (ucast (fv_components v)) of None \<Rightarrow> False
               | Some component_extent \<Rightarrow> component_extent \<le> 0x7FFFFFFFFFFFFFFF))))"

definition next_visit :: "halo_data \<Rightarrow> halo_data" where
  "next_visit d =
     (let d = d\<lparr>hd_visit_generation := hd_visit_generation d + 1\<rparr> in
      if hd_visit_generation d = 0
      then d\<lparr>hd_visit_generation := 1, hd_fields := map (\<lambda>f. f\<lparr>fs_seen_generation := 0\<rparr>) (hd_fields d)\<rparr> else d)"

text \<open>
  The loop over the views of a call, in any order: every view names a field of the plan that no earlier
  view named, and is accepted for it.
\<close>

fun visit_views :: "(field_view \<Rightarrow> field_slot \<Rightarrow> mesh_patch \<Rightarrow> bool) \<Rightarrow> (nat \<Rightarrow> field_view \<Rightarrow> halo_data \<Rightarrow> halo_data) \<Rightarrow>
    field_view list \<Rightarrow> halo_data \<Rightarrow> status \<times> halo_data" where
  "visit_views accept store [] d = (status_ok, d)"
| "visit_views accept store (v # vs) d =
     (let look = hd_lookup d (fv_field v); slot = nat look; f = hd_fields d ! slot in
      if look < 0 then (failed Invalid_plan 304, d)
      else if fs_seen_generation f = hd_visit_generation d \<or> \<not> accept v f (hd_patch d) then (failed Invalid_plan 304, d)
      else visit_views accept store vs
        (store slot v (d\<lparr>hd_fields := (hd_fields d)[slot := f\<lparr>fs_seen_generation := hd_visit_generation d\<rparr>]\<rparr>)))"

definition accept_begin :: "field_view \<Rightarrow> field_slot \<Rightarrow> mesh_patch \<Rightarrow> bool" where
  "accept_begin v f p \<longleftrightarrow> valid_view_shape v (fs_spec f) p"

definition store_begin :: "nat \<Rightarrow> field_view \<Rightarrow> halo_data \<Rightarrow> halo_data" where
  "store_begin slot v d = d\<lparr>hd_candidate_views := (hd_candidate_views d)[slot := v]\<rparr>"

definition validate_begin_views :: "field_view span \<Rightarrow> halo_data \<Rightarrow> status \<times> halo_data" where
  "validate_begin_views views d =
     (if span_null views \<or> span_size views \<noteq> length (hd_fields d) then (failed Invalid_plan 304, d)
      else visit_views accept_begin store_begin (span_list views) (next_visit d))"

definition publish_begin_views :: "halo_data \<Rightarrow> halo_data" where
  "publish_begin_views d =
     d\<lparr>hd_fields := map (\<lambda>(f, v). f\<lparr>fs_begin_view := v, fs_pending_revision := fv_revision v\<rparr>)
         (zip (hd_fields d) (hd_candidate_views d))\<rparr>"

definition same_storage :: "field_view \<Rightarrow> field_view \<Rightarrow> bool" where
  "same_storage v source \<longleftrightarrow> fv_base v = fv_base source \<and> fv_stride_y v = fv_stride_y source \<and>
     fv_stride_z v = fv_stride_z source \<and> fv_component_stride v = fv_component_stride source \<and>
     fv_replica v = fv_replica source \<and> fv_revision v = fv_revision source \<and>
     fv_storage_identity v = fv_storage_identity source \<and> fv_revision_domain v = fv_revision_domain source"

definition accept_finish :: "field_view \<Rightarrow> field_slot \<Rightarrow> mesh_patch \<Rightarrow> bool" where
  "accept_finish v f p \<longleftrightarrow> valid_view_shape v (fs_spec f) p \<and> same_storage v (fs_begin_view f)"

definition store_finish :: "nat \<Rightarrow> field_view \<Rightarrow> halo_data \<Rightarrow> halo_data" where
  "store_finish slot v d = d\<lparr>hd_fields := (hd_fields d)[slot := (hd_fields d ! slot)\<lparr>fs_finish_view := v\<rparr>]\<rparr>"

definition bind_finish_views :: "field_view span \<Rightarrow> halo_data \<Rightarrow> status \<times> halo_data" where
  "bind_finish_views views d =
     (if span_null views \<or> span_size views \<noteq> length (hd_fields d) then (failed Invalid_plan 304, d)
      else visit_views accept_finish store_finish (span_list views) (next_visit d))"

section \<open>Moving the data\<close>

definition send_blocks :: "(int \<Rightarrow> u64) \<Rightarrow> halo_data \<Rightarrow> (nat \<times> u64 list) list" where
  "send_blocks m d = concat (map (\<lambda>p. map (\<lambda>s. (unat (sc_offset s),
     pack_section (hd_candidate_views d ! sc_slot s) (fs_spec (hd_fields d ! sc_slot s)) (sc_face s) m)) (hp_sends p)) (hd_peers d))"

definition pack_peers :: "(int \<Rightarrow> u64) \<Rightarrow> halo_data \<Rightarrow> halo_data" where
  "pack_peers m d = d\<lparr>hd_send := write_blocks (send_blocks m d) (hd_send d)\<rparr>"

definition local_blocks :: "halo_data \<Rightarrow> (nat \<times> u64 list) list" where
  "local_blocks d = map (\<lambda>p. (unat (hp_receive_offset p), block (hd_send d) (unat (hp_send_offset p)) (unat (hp_count p))))
     (filter (\<lambda>p. hp_local p \<and> hp_count p \<noteq> 0) (hd_peers d))"

definition copy_local_peers :: "halo_data \<Rightarrow> halo_data" where
  "copy_local_peers d = d\<lparr>hd_receive := write_blocks (local_blocks d) (hd_receive d)\<rparr>"

definition unpack_peers :: "halo_data \<Rightarrow> (int \<Rightarrow> u64) \<Rightarrow> (int \<Rightarrow> u64)" where
  "unpack_peers d m = fold (\<lambda>p. fold (\<lambda>s. let f = hd_fields d ! sc_slot s in
     unpack_section (fs_finish_view f) (fs_spec f) (sc_face s) (drop (unat (sc_offset s)) (hd_receive d))) (hp_receives p)) (hd_peers d) m"

definition finish_exchange_state :: "halo_data \<Rightarrow> halo_data" where
  "finish_exchange_state d = d\<lparr>hd_exchange_active := False, hd_requests_active := False\<rparr>"

text \<open>MPI writes into the receive storage: at each position a value that may depend on what was there.\<close>

definition write_over :: "(u64 list \<Rightarrow> nat \<Rightarrow> u64) \<Rightarrow> u64 list \<Rightarrow> u64 list" where
  "write_over f xs = map (f xs) [0..<length xs]"

text \<open>Cancelled receives may have written to the storage: \<open>drained\<close> is what they leave.\<close>

definition cancel_and_drain :: "(u64 list \<Rightarrow> nat \<Rightarrow> u64) \<Rightarrow> halo_data \<Rightarrow> halo_data" where
  "cancel_and_drain drained d =
     (if \<not> hd_requests_active d \<or> hd_requests d = [] then d\<lparr>hd_requests_active := False\<rparr>
      else d\<lparr>hd_requests_active := False, hd_receive := write_over drained (hd_receive d)\<rparr>)"

section \<open>Begin and finish\<close>

record halo_ticket =
  tk_engine :: u64
  tk_generation :: u64
  tk_stage :: stage_id
  tk_active :: bool

definition no_ticket :: halo_ticket where
  "no_ticket = \<lparr>tk_engine = 0, tk_generation = 0, tk_stage = 0, tk_active = False\<rparr>"

definition count_begin :: "halo_data \<Rightarrow> halo_data" where
  "count_begin d = d\<lparr>hd_counters := (hd_counters d)\<lparr>ho_begin_calls := ho_begin_calls (hd_counters d) + 1\<rparr>\<rparr>"

definition count_finish :: "halo_data \<Rightarrow> halo_data" where
  "count_finish d = d\<lparr>hd_counters := (hd_counters d)\<lparr>ho_finish_calls := ho_finish_calls (hd_counters d) + 1\<rparr>\<rparr>"

definition count_packed :: "halo_data \<Rightarrow> halo_data" where
  "count_packed d = d\<lparr>hd_counters := (hd_counters d)\<lparr>ho_bytes_packed := ho_bytes_packed (hd_counters d) + ht_send_capacity (hd_stats d) * 8\<rparr>\<rparr>"

definition count_unpacked :: "halo_data \<Rightarrow> halo_data" where
  "count_unpacked d = d\<lparr>hd_counters := (hd_counters d)\<lparr>ho_bytes_unpacked := ho_bytes_unpacked (hd_counters d) + ht_receive_capacity (hd_stats d) * 8\<rparr>\<rparr>"

definition count_messages :: "halo_data \<Rightarrow> halo_data" where
  "count_messages d = d\<lparr>hd_counters := (hd_counters d)\<lparr>ho_messages_started := ho_messages_started (hd_counters d) + word_of_nat (length (hd_chunks d))\<rparr>\<rparr>"

text \<open>A new generation, never zero, and the ticket for it.\<close>

definition open_exchange :: "halo_data \<Rightarrow> halo_data" where
  "open_exchange d =
     (let g = hd_generation d + 1 in d\<lparr>hd_generation := (if g = 0 then 1 else g), hd_exchange_active := True\<rparr>)"

definition issue_ticket :: "stage_id \<Rightarrow> halo_data \<Rightarrow> halo_ticket" where
  "issue_ticket stage d = \<lparr>tk_engine = hd_identity d, tk_generation = hd_generation d, tk_stage = stage, tk_active = True\<rparr>"

definition ticket_current :: "halo_ticket \<Rightarrow> halo_data \<Rightarrow> bool" where
  "ticket_current ticket d \<longleftrightarrow> tk_active ticket \<and> tk_engine ticket = hd_identity d \<and> tk_generation ticket = hd_generation d"

record begin_answers =
  ba_created :: "nat \<Rightarrow> bool"
  ba_packed :: status_answers
  ba_start :: bool
  ba_started :: status_answers
  ba_drained :: "u64 list \<Rightarrow> nat \<Rightarrow> u64"
  ba_recreated :: "nat \<Rightarrow> bool"
  ba_restored :: status_answers

text \<open>What a failed start or a failed wait is followed by on every rank.\<close>

definition restore_requests :: "(u64 list \<Rightarrow> nat \<Rightarrow> u64) \<Rightarrow> (nat \<Rightarrow> bool) \<Rightarrow> status_answers \<Rightarrow> halo_data \<Rightarrow> halo_data" where
  "restore_requests drained recreated restored d =
     (let selected = hd_lowest_failing d in
      case recreate_requests recreated (cancel_and_drain drained d) of (st, d) \<Rightarrow>
        (case collective_status restored st d of (agreed, d) \<Rightarrow>
           (if is_ok agreed then d else d\<lparr>hd_poisoned := True\<rparr>)\<lparr>hd_lowest_failing := selected\<rparr>))"

definition begin_preflight :: "begin_answers \<Rightarrow> field_view span \<Rightarrow> status \<Rightarrow> halo_ticket \<Rightarrow> (int \<Rightarrow> u64) \<Rightarrow> halo_data \<Rightarrow>
    status \<times> halo_data" where
  "begin_preflight ans views prerequisite ticket m d =
     (let d = count_begin d; d = (if \<not> hd_exchange_active d then invalidate_certificates d else d);
          st = (if hd_exchange_active d \<or> tk_active ticket \<or> hd_prepared_epoch d then failed Invalid_plan 301 else prerequisite);
          (st, d) = (if is_ok st \<and> hd_poisoned d then recreate_requests (ba_created ans) d else (st, d));
          (st, d) = (if is_ok st then validate_begin_views views d else (st, d)) in
      (st, if is_ok st then pack_peers m d else d))"

definition start_requests :: "bool \<Rightarrow> halo_data \<Rightarrow> status \<times> halo_data" where
  "start_requests start d =
     (if hd_requests d \<noteq> [] then (if start then status_ok else failed Mpi_failure 309, d\<lparr>hd_requests_active := True\<rparr>)
      else (status_ok, d))"

definition halo_begin :: "begin_answers \<Rightarrow> stage_id \<Rightarrow> field_view span \<Rightarrow> status \<Rightarrow> halo_ticket \<Rightarrow> (int \<Rightarrow> u64) \<Rightarrow>
    halo_data option \<Rightarrow> status \<times> halo_ticket \<times> halo_data option" where
  "halo_begin ans stage views prerequisite ticket m engine =
     (case engine of None \<Rightarrow> (failed Invalid_plan 301, ticket, None)
      | Some d \<Rightarrow>
      (case begin_preflight ans views prerequisite ticket m d of (st, d) \<Rightarrow>
      (case collective_status (ba_packed ans) st d of (agreed, d) \<Rightarrow>
        if \<not> is_ok agreed
        then (agreed, ticket\<lparr>tk_active := False\<rparr>, Some (if sdetail agreed = 309 then count_packed d else d))
        else
      (case start_requests (ba_start ans) (count_packed d) of (st, d) \<Rightarrow>
      (case collective_status (ba_started ans) st d of (agreed, d) \<Rightarrow>
        if \<not> is_ok agreed
        then (agreed, ticket\<lparr>tk_active := False\<rparr>,
          Some ((restore_requests (ba_drained ans) (ba_recreated ans) (ba_restored ans) d)\<lparr>hd_exchange_active := False\<rparr>))
        else let d = open_exchange (publish_begin_views (count_messages d)) in
          (status_ok, issue_ticket stage d, Some d))))))"

record finish_answers =
  fa_bound :: status_answers
  fa_wait :: bool
  fa_received :: "u64 list \<Rightarrow> nat \<Rightarrow> u64"
  fa_completed :: status_answers
  fa_drained :: "u64 list \<Rightarrow> nat \<Rightarrow> u64"
  fa_recreated :: "nat \<Rightarrow> bool"
  fa_restored :: status_answers

definition wait_requests :: "finish_answers \<Rightarrow> halo_data \<Rightarrow> status \<times> halo_data" where
  "wait_requests ans d =
     (if hd_requests_active d
      then (if fa_wait ans then (status_ok, d\<lparr>hd_receive := write_over (fa_received ans) (hd_receive d), hd_requests_active := False\<rparr>)
            else (failed Mpi_failure 310, d\<lparr>hd_receive := write_over (fa_received ans) (hd_receive d)\<rparr>))
      else (status_ok, d))"

definition certify_ghosts :: "halo_data \<Rightarrow> halo_data" where
  "certify_ghosts d = d\<lparr>hd_fields := map (\<lambda>f. f\<lparr>fs_ghost_revision := fs_pending_revision f\<rparr>) (hd_fields d)\<rparr>"

definition halo_finish :: "finish_answers \<Rightarrow> halo_ticket \<Rightarrow> field_view span \<Rightarrow> (int \<Rightarrow> u64) \<Rightarrow> halo_data option \<Rightarrow>
    status \<times> halo_ticket \<times> (int \<Rightarrow> u64) \<times> halo_data option" where
  "halo_finish ans ticket views m engine =
     (case engine of None \<Rightarrow> (failed Invalid_plan 301, ticket, m, None)
      | Some d \<Rightarrow>
      (case (let d = count_finish d in
          if \<not> hd_exchange_active d \<or> hd_poisoned d \<or> \<not> ticket_current ticket d then (failed Invalid_plan 301, d)
          else bind_finish_views views d) of (st, d) \<Rightarrow>
      (case collective_status (fa_bound ans) st d of (preflight, d) \<Rightarrow>
        let preflight_rank = hd_lowest_failing d in
      (case wait_requests ans d of (completion, d) \<Rightarrow>
      (case collective_status (fa_completed ans) completion d of (completed, d) \<Rightarrow>
        let completed_rank = hd_lowest_failing d;
            d = (if \<not> is_ok completed \<and> sdetail completed = 310 \<and> scode completed = Mpi_failure
              then restore_requests (fa_drained ans) (fa_recreated ans) (fa_restored ans) d else d) in
        if \<not> is_ok preflight \<or> \<not> is_ok completed
        then (if \<not> is_ok preflight then preflight else completed, no_ticket, m,
          Some ((finish_exchange_state d)\<lparr>hd_lowest_failing := (if \<not> is_ok preflight then preflight_rank else completed_rank)\<rparr>))
        else let d = copy_local_peers d in
          (status_ok, no_ticket, unpack_peers d m,
           Some (finish_exchange_state ((certify_ghosts (count_unpacked d))\<lparr>hd_lowest_failing := - 1\<rparr>))))))))"

section \<open>The prepared epoch\<close>

text \<open>Failures of a rank are kept in \<open>deferred\<close>; the caller agrees on them and closes the epoch.\<close>

definition retain_deferred :: "status \<Rightarrow> status \<Rightarrow> status" where
  "retain_deferred st deferred = (if is_ok deferred \<and> \<not> is_ok st then st else deferred)"

definition enter_prepared_epoch :: "halo_data option \<Rightarrow> status \<times> halo_data option" where
  "enter_prepared_epoch engine =
     (case engine of None \<Rightarrow> (failed Invalid_plan 301, None)
      | Some d \<Rightarrow>
          let d = invalidate_certificates d;
              d = d\<lparr>hd_fields := map (\<lambda>f. f\<lparr>fs_pending_revision := 0\<rparr>) (hd_fields d)\<rparr> in
          if hd_prepared_epoch d \<or> hd_exchange_active d \<or> hd_requests_active d \<or> hd_poisoned d
          then (failed Invalid_plan 301, Some d)
          else (status_ok, Some (d\<lparr>hd_prepared_views_valid := False, hd_prepared_epoch := True, hd_lowest_failing := - 1\<rparr>)))"

definition begin_prepared :: "bool \<Rightarrow> (u64 list \<Rightarrow> nat \<Rightarrow> u64) \<Rightarrow> stage_id \<Rightarrow> field_view span \<Rightarrow> status \<Rightarrow> halo_ticket \<Rightarrow>
    (int \<Rightarrow> u64) \<Rightarrow> halo_data option \<Rightarrow> status \<times> status \<times> halo_ticket \<times> halo_data option" where
  "begin_prepared start drained stage views deferred ticket m engine =
     (case engine of None \<Rightarrow> (failed Invalid_plan 301, deferred, ticket, None)
      | Some d \<Rightarrow>
          let d = count_begin d;
              (st, d) = (if \<not> hd_prepared_epoch d \<or> hd_exchange_active d \<or> tk_active ticket \<or> hd_poisoned d
                then (failed Invalid_plan 301, d) else validate_begin_views views d);
              views_valid = is_ok st; deferred = retain_deferred st deferred;
              d = (if views_valid then count_packed (pack_peers m d) else d);
              (started, d) = start_requests start d in
          if \<not> is_ok started
          then (started, deferred, no_ticket,
            Some ((cancel_and_drain drained d)\<lparr>hd_poisoned := True, hd_exchange_active := False, hd_prepared_views_valid := False\<rparr>))
          else let d = count_messages d; d = (if views_valid then publish_begin_views d else d);
                   d = (open_exchange d)\<lparr>hd_prepared_views_valid := views_valid\<rparr> in
            (status_ok, deferred, issue_ticket stage d, Some d))"

definition finish_prepared :: "finish_answers \<Rightarrow> halo_ticket \<Rightarrow> field_view span \<Rightarrow> status \<Rightarrow> (int \<Rightarrow> u64) \<Rightarrow>
    halo_data option \<Rightarrow> status \<times> status \<times> halo_ticket \<times> (int \<Rightarrow> u64) \<times> halo_data option" where
  "finish_prepared ans ticket views deferred m engine =
     (case engine of None \<Rightarrow> (failed Invalid_plan 301, deferred, ticket, m, None)
      | Some d \<Rightarrow>
          let d = count_finish d;
              st = (if \<not> hd_prepared_epoch d \<or> \<not> hd_exchange_active d \<or> hd_poisoned d \<or> \<not> ticket_current ticket d
                then failed Invalid_plan 301 else status_ok);
              (st, d) = (if is_ok st \<and> hd_prepared_views_valid d then bind_finish_views views d else (st, d));
              views_valid = (hd_prepared_views_valid d \<and> is_ok st); deferred = retain_deferred st deferred;
              (waited, d) = wait_requests ans d in
          if \<not> is_ok waited
          then (waited, deferred, no_ticket, m,
            Some ((finish_exchange_state ((cancel_and_drain (fa_drained ans) d)\<lparr>hd_poisoned := True\<rparr>))\<lparr>hd_prepared_views_valid := False\<rparr>))
          else let d = (if views_valid then copy_local_peers d else d);
                   m = (if views_valid then unpack_peers d m else m);
                   d = (if views_valid then count_unpacked d else d) in
            (status_ok, deferred, no_ticket, m, Some ((finish_exchange_state d)\<lparr>hd_prepared_views_valid := False\<rparr>)))"

definition close_prepared_epoch :: "bool \<Rightarrow> int \<Rightarrow> halo_data option \<Rightarrow> halo_data option" where
  "close_prepared_epoch publish lowest engine =
     (case engine of None \<Rightarrow> None
      | Some d \<Rightarrow>
          if \<not> hd_prepared_epoch d then Some d
          else let clean = (\<not> hd_exchange_active d \<and> \<not> hd_requests_active d \<and> \<not> hd_poisoned d);
                   d = (if publish \<and> clean then (certify_ghosts d)\<lparr>hd_lowest_failing := - 1\<rparr>
                     else (invalidate_certificates d)\<lparr>hd_lowest_failing := lowest\<rparr>) in
            Some (d\<lparr>hd_prepared_epoch := False, hd_prepared_views_valid := False\<rparr>))"

section \<open>Queries\<close>

definition ghost_revision :: "halo_data option \<Rightarrow> field_id \<Rightarrow> revision_token" where
  "ghost_revision engine f =
     (case engine of None \<Rightarrow> 0
      | Some d \<Rightarrow> if hd_lookup d f < 0 then 0 else fs_ghost_revision (hd_fields d ! nat (hd_lookup d f)))"

definition halo_active :: "halo_data option \<Rightarrow> bool" where
  "halo_active engine = (case engine of None \<Rightarrow> False | Some d \<Rightarrow> hd_exchange_active d)"

definition halo_ready :: "halo_data option \<Rightarrow> bool" where
  "halo_ready engine = (case engine of None \<Rightarrow> False | Some d \<Rightarrow> \<not> hd_poisoned d)"

end
