(* ===== verification/Halo_Reserve.thy ===== *)
theory Halo_Reserve
  imports Halo_Engine
begin

text \<open>
  \<^verbatim>\<open>HaloEngine::reserve\<close>: a sequence of phases, each followed by a consensus of all ranks, so that no
  rank enters the next collective call unless all do. The first failure ends it on every rank and leaves
  the engine with the plan it had.
\<close>

section \<open>An empty plan\<close>

definition blank_view :: field_view where
  "blank_view = \<lparr>fv_base = None, fv_interior = origin, fv_ghosts = origin, fv_components = 0, fv_stride_y = 0,
     fv_stride_z = 0, fv_component_stride = 0, fv_replica = 0, fv_field = 0, fv_revision = 0,
     fv_storage_identity = 0, fv_revision_domain = 0\<rparr>"

definition field_slot_of :: "halo_spec \<Rightarrow> field_slot" where
  "field_slot_of s = \<lparr>fs_spec = s, fs_begin_view = blank_view, fs_finish_view = blank_view, fs_pending_revision = 0,
     fs_ghost_revision = 0, fs_seen_generation = 0\<rparr>"

definition maximum_chunk_doubles :: u64 where "maximum_chunk_doubles = 2147483647"

definition blank_halo :: halo_data where
  "blank_halo = \<lparr>hd_patch = \<lparr>mp_begin = origin, mp_cells = origin, mp_grid = origin, mp_coord = origin\<rparr>,
     hd_topology = \<lparr>ht_x = False, ht_y = False, ht_z = False\<rparr>, hd_fields = [], hd_lookup = (\<lambda>_. 0), hd_candidate_views = [],
     hd_peers = [], hd_chunks = [], hd_send = [], hd_receive = [], hd_requests = [],
     hd_stats = \<lparr>ht_transport_peers = 0, ht_local_peers = 0, ht_requests = 0, ht_send_capacity = 0, ht_receive_capacity = 0,
       ht_maximum_messages = 0, ht_maximum_bytes = 0, ht_maximum_tag = 0\<rparr>,
     hd_counters = \<lparr>ho_begin_calls = 0, ho_finish_calls = 0, ho_messages_started = 0, ho_bytes_packed = 0,
       ho_bytes_unpacked = 0, ho_consensus_calls = 0\<rparr>,
     hd_identity = 0, hd_generation = 0, hd_visit_generation = 0, hd_maximum_chunk = maximum_chunk_doubles,
     hd_maximum_tag = 0, hd_rank = - 1, hd_size = 0, hd_lowest_failing = - 1, hd_exchange_active = False,
     hd_requests_active = False, hd_poisoned = False, hd_prepared_epoch = False, hd_prepared_views_valid = False\<rparr>"

section \<open>Phases\<close>

record reserve_answers =
  rv_rank :: "int option"
  rv_size :: "int option"
  rv_memory :: bool
  rv_agree :: "nat \<Rightarrow> status_answers"
  rv_dup_control :: bool
  rv_handler_control :: bool
  rv_dup_transport :: bool
  rv_handler_transport :: bool
  rv_tag :: "int option option"
  rv_tag_min :: "int \<Rightarrow> int option"
  rv_fields_memory :: bool
  rv_contract_min :: "u64 \<Rightarrow> u64 option"
  rv_contract_max :: "u64 \<Rightarrow> u64 option"
  rv_peers_memory :: bool
  rv_wires_memory :: bool
  rv_alltoall :: "u64 list \<Rightarrow> u64 list option"
  rv_created :: "nat \<Rightarrow> bool"

definition validate_request :: "reserve_answers \<Rightarrow> mesh_patch \<Rightarrow> halo_spec span \<Rightarrow> halo_data option \<Rightarrow> int \<Rightarrow> int \<Rightarrow> status" where
  "validate_request ans p specs engine rank ranks =
     (let st = (if \<not> rv_memory ans then failed Allocation_failure 0 else validate_patch p rank ranks);
          st = (if is_ok st \<and> halo_active engine then failed Invalid_plan 301 else st) in
      if is_ok st then validate_specs specs p else st)"

definition mpi_ok :: "bool \<Rightarrow> status" where
  "mpi_ok success = (if success then status_ok else failed Mpi_failure 306)"

definition minimum_tag_bound :: int where "minimum_tag_bound = 32767"

definition tag_phase :: "reserve_answers \<Rightarrow> halo_data \<Rightarrow> status \<times> halo_data" where
  "tag_phase ans d =
     (let st = mpi_ok (rv_tag ans \<noteq> None);
          mine = (case rv_tag ans of Some (Some bound) \<Rightarrow> if bound \<ge> 0 then bound else minimum_tag_bound | _ \<Rightarrow> minimum_tag_bound) in
      case rv_tag_min ans mine of None \<Rightarrow> (if is_ok st then failed Mpi_failure 306 else st, d)
      | Some bound \<Rightarrow>
          if is_ok st
          then (status_ok, d\<lparr>hd_maximum_tag := nat bound, hd_stats := (hd_stats d)\<lparr>ht_maximum_tag := nat bound\<rparr>,
            hd_maximum_chunk := maximum_chunk_doubles\<rparr>)
          else (st, d))"

definition fields_phase :: "reserve_answers \<Rightarrow> halo_spec list \<Rightarrow> halo_data \<Rightarrow> status \<times> halo_data" where
  "fields_phase ans specs d =
     (if \<not> rv_fields_memory ans then (failed Allocation_failure 0, d)
      else let slots = map field_slot_of (sort_key hs_field specs) in
        (status_ok, d\<lparr>hd_fields := slots,
          hd_lookup := fold (\<lambda>i look. look(hs_field (fs_spec (slots ! i)) := int i)) [0..<length slots] (\<lambda>_. - 1),
          hd_candidate_views := replicate (length slots) blank_view\<rparr>))"

definition halo_contract :: "halo_data \<Rightarrow> u64" where
  "halo_contract d =
     (let g = mp_grid (hd_patch d); t = hd_topology d; flag = (\<lambda>b. if b then 1 else 0);
          low = (\<lambda>i. ucast (word_of_int i :: u32));
          words = [low (x3 g), low (y3 g), low (z3 g), flag (ht_x t), flag (ht_y t), flag (ht_z t),
            hd_maximum_chunk d, low (int (hd_maximum_tag d)), word_of_nat (length (hd_fields d))] @
            concat (map (\<lambda>f. [ucast (hs_field (fs_spec f)), ucast (hs_width (fs_spec f)), ucast (hs_components (fs_spec f))]) (hd_fields d)) in
      fold (\<lambda>word h. hash_mix h word) words 1469598103934665603)"

definition contract_phase :: "reserve_answers \<Rightarrow> halo_data \<Rightarrow> status \<times> halo_data" where
  "contract_phase ans d =
     (case (rv_contract_min ans (halo_contract d), rv_contract_max ans (halo_contract d)) of
        (Some low, Some high) \<Rightarrow> (if low = high then status_ok else failed Invalid_plan 303, d)
      | _ \<Rightarrow> (failed Mpi_failure 306, d))"

definition peers_phase :: "reserve_answers \<Rightarrow> halo_data \<Rightarrow> status \<times> halo_data" where
  "peers_phase ans d =
     (if \<not> rv_peers_memory ans then (failed Allocation_failure 0, d)
      else case build_peers d of Inl e \<Rightarrow> (e, d) | Inr d \<Rightarrow> (status_ok, d))"

definition peer_sizes :: "halo_data \<Rightarrow> u64 list" where
  "peer_sizes d = fold (\<lambda>p sizes. sizes[nat (hp_rank p) := hp_count p]) (hd_peers d) (replicate (nat (hd_size d)) 0)"

definition sizes_phase :: "reserve_answers \<Rightarrow> halo_data \<Rightarrow> status \<times> halo_data" where
  "sizes_phase ans d =
     (case rv_alltoall ans (peer_sizes d) of None \<Rightarrow> (failed Mpi_failure 306, d)
      | Some receives \<Rightarrow>
          (if \<exists>r \<in> {..< nat (hd_size d)}. receives ! r \<noteq> peer_sizes d ! r then failed Invalid_plan 303 else status_ok, d))"

text \<open>A phase computes the local status; the consensus decides whether the next phase is entered.\<close>

fun run_phases :: "(nat \<Rightarrow> status_answers) \<Rightarrow> nat \<Rightarrow> (halo_data \<Rightarrow> status \<times> halo_data) list \<Rightarrow> halo_data \<Rightarrow>
    status \<times> halo_data" where
  "run_phases agree k [] d = (status_ok, d)"
| "run_phases agree k (phase # phases) d =
     (case phase d of (st, d) \<Rightarrow>
       (case collective_status (agree k) st d of (agreed, d) \<Rightarrow>
          if is_ok agreed then run_phases agree (k + 1) phases d else (agreed, d)))"

definition reserve_phases :: "reserve_answers \<Rightarrow> halo_spec list \<Rightarrow> (halo_data \<Rightarrow> status \<times> halo_data) list" where
  "reserve_phases ans specs = [tag_phase ans, fields_phase ans specs, contract_phase ans, peers_phase ans,
     \<lambda>d. (if rv_wires_memory ans then status_ok else failed Allocation_failure 0, d),
     sizes_phase ans, create_requests (rv_created ans)]"

text \<open>The first five consensuses are on the communicator of the caller and are not counted.\<close>

fun first_refusal :: "(nat \<Rightarrow> status_answers) \<Rightarrow> int \<Rightarrow> int \<Rightarrow> nat \<Rightarrow> status list \<Rightarrow> (status \<times> int) option" where
  "first_refusal agree rank ranks k [] = None"
| "first_refusal agree rank ranks k (st # rest) =
     (case raw_collective_status (agree k) rank ranks st of (agreed, lowest) \<Rightarrow>
        if is_ok agreed then first_refusal agree rank ranks (k + 1) rest else Some (agreed, lowest))"

definition keep_engine :: "int \<Rightarrow> halo_data option \<Rightarrow> halo_data option" where
  "keep_engine lowest engine = map_option (\<lambda>d. d\<lparr>hd_lowest_failing := lowest\<rparr>) engine"

definition next_identity :: "u64 \<Rightarrow> u64 \<times> u64" where
  "next_identity n = (if n = 0 then (n + 1, n + 2) else (n, n + 1))"

definition halo_reserve :: "reserve_answers \<Rightarrow> bool \<Rightarrow> mesh_patch \<Rightarrow> halo_spec span \<Rightarrow> halo_topology \<Rightarrow> u64 \<Rightarrow>
    halo_data option \<Rightarrow> status \<times> halo_data option \<times> u64" where
  "halo_reserve ans null p specs t identities engine =
     (if null then (failed Invalid_plan 302, engine, identities)
      else case (rv_rank ans, rv_size ans) of
        (Some rank, Some ranks) \<Rightarrow>
          if ranks \<le> 0 then (failed Mpi_failure 306, engine, identities)
          else (case first_refusal (rv_agree ans) rank ranks 0
              [validate_request ans p specs engine rank ranks, mpi_ok (rv_dup_control ans), mpi_ok (rv_handler_control ans),
               mpi_ok (rv_dup_transport ans), mpi_ok (rv_handler_transport ans)] of
            Some (refused, lowest) \<Rightarrow> (refused, keep_engine lowest engine, identities)
          | None \<Rightarrow>
              let d = blank_halo\<lparr>hd_rank := rank, hd_size := ranks, hd_patch := p, hd_topology := t\<rparr> in
              (case run_phases (rv_agree ans) 5 (reserve_phases ans (span_list specs)) d of (st, d) \<Rightarrow>
                if \<not> is_ok st then (st, keep_engine (hd_lowest_failing d) engine, identities)
                else let (identity, identities) = next_identity identities in
                  (case collective_status (rv_agree ans 12) (if identity = 0 then failed Invalid_plan 301 else status_ok)
                      (d\<lparr>hd_identity := identity\<rparr>) of (agreed, d) \<Rightarrow>
                    if \<not> is_ok agreed then (agreed, keep_engine (hd_lowest_failing d) engine, identities)
                    else (status_ok, Some (d\<lparr>hd_lowest_failing := - 1\<rparr>), identities))))
      | _ \<Rightarrow> (failed Mpi_failure 306, engine, identities))"

text \<open>The check of a caller's contract against the plan; the comparison of communicators is MPI's.\<close>

datatype comm_relation = Comm_unknown | Comm_same | Comm_other

definition validate_contract :: "bool \<Rightarrow> bool \<Rightarrow> comm_relation \<Rightarrow> mesh_patch \<Rightarrow> halo_spec span \<Rightarrow> halo_topology \<Rightarrow>
    halo_data option \<Rightarrow> status" where
  "validate_contract null running relation p specs t engine =
     (case engine of None \<Rightarrow> failed Invalid_plan 302
      | Some d \<Rightarrow>
          if null \<or> span_null specs \<or> span_size specs \<noteq> length (hd_fields d) then failed Invalid_plan 302
          else if \<not> running then failed Invalid_plan 301
          else (case relation of Comm_unknown \<Rightarrow> failed Mpi_failure 306 | Comm_other \<Rightarrow> failed Invalid_plan 303
            | Comm_same \<Rightarrow>
                if p \<noteq> hd_patch d then failed Invalid_plan 303
                else if t \<noteq> hd_topology d then failed Invalid_plan 303
                else if \<exists>i \<in> {..< span_size specs}. span_list specs ! i \<noteq> fs_spec (hd_fields d ! i) then failed Invalid_plan 304
                else status_ok))"

end
