(* ===== verification/Halo_Geometry.thy ===== *)
theory Halo_Geometry
  imports Halo_Sections
begin

text \<open>
  Neighbouring patches of one decomposition: the neighbour relation is symmetric, neighbours agree on
  the layer between them, and the ghosts behind a face are, cell by cell and in the order of the loops,
  the inner layer of the neighbour.
\<close>

section \<open>Axes of a position\<close>

lemma with_axis_sel [simp]:
  "k < 3 \<Longrightarrow> axis < 3 \<Longrightarrow> axis_of k (with_axis axis a v) = (if k = axis then a else axis_of k v)"
  by (auto simp: axis_of_def with_axis_def less_Suc_eq numeral_3_eq_3)

lemma axis_below: "face_axis f < 3"
  by (cases f) (simp_all add: face_axis_def)

lemma opposite_face [simp]:
  "opposite (opposite f) = f" "face_axis (opposite f) = face_axis f" "face_minus (opposite f) \<longleftrightarrow> \<not> face_minus f"
  by (cases f; simp add: face_axis_def face_minus_def)+

lemma opposite_inject [simp]: "opposite f = opposite g \<longleftrightarrow> f = g"
  by (metis opposite_face(1))

lemma face_number_inject [simp]: "face_number f = face_number g \<longleftrightarrow> f = g"
  by (cases f; cases g) simp_all

lemma all_faces [simp]: "f \<in> set all_faces"
  by (cases f) (simp_all add: all_faces_def)

lemma int3_axes: "v = w \<longleftrightarrow> (\<forall>k < 3. axis_of k v = axis_of k w)"
  by (cases v; cases w) (auto simp: axis_of_def less_Suc_eq numeral_3_eq_3)

lemma in_box_axes:
  "in_box b n i \<longleftrightarrow> (\<forall>k < 3. axis_of k b \<le> axis_of k i \<and> axis_of k i < axis_of k b + axis_of k n)"
  by (auto simp: in_box_def axis_of_def less_Suc_eq numeral_3_eq_3)

lemma axis_origin [simp]: "axis_of k origin = 0"
  by (simp add: axis_of_def origin_def)

lemma with_axis_box:
  "axis < 3 \<Longrightarrow> in_box origin g c \<Longrightarrow> 0 \<le> a \<Longrightarrow> a < axis_of axis g \<Longrightarrow> in_box origin g (with_axis axis a c)"
  by (simp add: in_box_axes)

lemma with_axis_again [simp]: "axis < 3 \<Longrightarrow> with_axis axis a (with_axis axis b v) = with_axis axis a v"
  by (simp add: int3_axes)

lemma with_axis_same [simp]: "axis < 3 \<Longrightarrow> with_axis axis (axis_of axis v) v = v"
  by (simp add: int3_axes)

lemma with_axis_id: "axis < 3 \<Longrightarrow> axis_of axis v = a \<Longrightarrow> with_axis axis a v = v"
  by auto

section \<open>Neighbours on a process grid\<close>

definition next_coord :: "halo_topology \<Rightarrow> int3 \<Rightarrow> halo_face \<Rightarrow> int3 \<Rightarrow> int3 option" where
  "next_coord t g f c =
     (let axis = face_axis f; a = axis_of axis c + (if face_minus f then - 1 else 1) in
      if 0 \<le> a \<and> a < axis_of axis g then Some (with_axis axis a c)
      else if periodic_axis t axis then Some (with_axis axis (a mod axis_of axis g) c) else None)"

lemma axis_positive: "positive3 g \<Longrightarrow> 0 < axis_of k g"
  by (simp add: positive3_def axis_of_def)

lemma wrap_step:
  fixes c g :: int
  assumes "0 \<le> c" "c < g"
  shows "(c - 1) mod g = (if c = 0 then g - 1 else c - 1)" "(c + 1) mod g = (if c + 1 = g then 0 else c + 1)"
  using assms by (auto simp: zmod_minus1)

lemma neighbor_rank_eq:
  assumes "positive3 (mp_grid p)" "in_box origin (mp_grid p) (mp_coord p)"
  shows "neighbor_rank p t f = map_option (rank_of (mp_grid p)) (next_coord t (mp_grid p) f (mp_coord p))"
proof -
  have c: "0 \<le> axis_of (face_axis f) (mp_coord p)" "axis_of (face_axis f) (mp_coord p) < axis_of (face_axis f) (mp_grid p)"
    using assms(2) axis_below [of f] by (simp_all add: in_box_axes)
  from wrap_step [OF c] show ?thesis
    using c by (auto simp: neighbor_rank_def next_coord_def rank_of_def Let_def split: if_splits)
qed

lemma next_coord_box:
  assumes "in_box origin g c" "next_coord t g f c = Some d"
  shows "in_box origin g d \<and> next_coord t g (opposite f) d = Some c"
proof -
  let ?k = "face_axis f"
  have k: "?k < 3" by (rule axis_below)
  have c: "0 \<le> axis_of ?k c" "axis_of ?k c < axis_of ?k g" using assms(1) k by (simp_all add: in_box_axes)
  note step = wrap_step [OF c]
  show ?thesis
  proof (cases "face_minus f")
    case True
    then have d: "d = with_axis ?k (if axis_of ?k c = 0 then axis_of ?k g - 1 else axis_of ?k c - 1) c"
      and per: "axis_of ?k c = 0 \<longrightarrow> periodic_axis t ?k"
      using assms(2) c step by (auto simp: next_coord_def Let_def split: if_splits)
    then show ?thesis
      using True c k assms(1) with_axis_box [OF k assms(1)] step with_axis_id [OF k, of c 0] by (auto simp: next_coord_def Let_def)
  next
    case False
    then have d: "d = with_axis ?k (if axis_of ?k c + 1 = axis_of ?k g then 0 else axis_of ?k c + 1) c"
      and per: "axis_of ?k c + 1 = axis_of ?k g \<longrightarrow> periodic_axis t ?k"
      using assms(2) c step by (auto simp: next_coord_def Let_def split: if_splits)
    then show ?thesis
      using False c k assms(1) with_axis_box [OF k assms(1)] step with_axis_id [OF k, of c "axis_of ?k g - 1"] by (auto simp: next_coord_def Let_def zmod_minus1)
  qed
qed

section \<open>Patches\<close>

definition mesh_fits :: "int3 \<Rightarrow> int3 \<Rightarrow> bool" where
  "mesh_fits cells g \<longleftrightarrow> positive3 g \<and> (\<forall>k < 3. axis_of k g \<le> axis_of k cells)"

definition grid_ranks :: "int3 \<Rightarrow> int" where
  "grid_ranks g = x3 g * y3 g * z3 g"

lemma patch_axes:
  "axis_of k (mp_begin (patch_of cells g r)) = fst (split_axis (axis_of k cells) (axis_of k g) (axis_of k (coord_of g r)))"
  "axis_of k (mp_cells (patch_of cells g r)) = snd (split_axis (axis_of k cells) (axis_of k g) (axis_of k (coord_of g r)))"
  "mp_grid (patch_of cells g r) = g" "mp_coord (patch_of cells g r) = coord_of g r"
  by (simp_all add: patch_of_def Let_def axis_of_def)

lemma split_next: "fst (split_axis n p (c + 1)) = fst (split_axis n p c) + snd (split_axis n p c)"
  by (simp add: split_axis_def Let_def algebra_simps min_def)

lemma split_ends:
  assumes "0 < p"
  shows "0 \<le> n \<Longrightarrow> fst (split_axis n p 0) = 0"
    and "fst (split_axis n p (p - 1)) + snd (split_axis n p (p - 1)) = n"
proof -
  have e: "0 \<le> n mod p" "n mod p < p" using assms by simp_all
  then show "0 \<le> n \<Longrightarrow> fst (split_axis n p 0) = 0" by (simp add: split_axis_def Let_def)
  have "fst (split_axis n p (p - 1 + 1)) = n"
    using e div_mult_mod_eq [of n p] by (simp add: split_axis_def Let_def mult.commute)
  then show "fst (split_axis n p (p - 1)) + snd (split_axis n p (p - 1)) = n" by (simp only: split_next)
qed

lemma neighbor_coord:
  assumes "positive3 g" "0 \<le> q" "q < grid_ranks g" "neighbor_rank (patch_of cells g q) t f = Some r"
  shows "0 \<le> r \<and> r < grid_ranks g \<and> next_coord t g f (coord_of g q) = Some (coord_of g r)"
proof -
  have c: "in_box origin g (coord_of g q)" using coord_in_grid [OF assms(1,2)] assms(3) by (simp add: grid_ranks_def)
  obtain d where d: "next_coord t g f (coord_of g q) = Some d" "r = rank_of g d"
    using assms(4) neighbor_rank_eq [of "patch_of cells g q" t f] c assms(1) by (auto simp: patch_axes)
  from next_coord_box [OF c d(1)] rank_in_range [OF assms(1), of d] d show ?thesis by (simp add: grid_ranks_def)
qed

lemma neighbor_symmetric:
  assumes "positive3 g" "0 \<le> q" "q < grid_ranks g" "neighbor_rank (patch_of cells g q) t f = Some r"
  shows "neighbor_rank (patch_of cells g r) t (opposite f) = Some q"
proof -
  have c: "in_box origin g (coord_of g q)" using coord_in_grid [OF assms(1,2)] assms(3) by (simp add: grid_ranks_def)
  have r: "0 \<le> r" "r < grid_ranks g" "next_coord t g f (coord_of g q) = Some (coord_of g r)"
    using neighbor_coord [OF assms] by simp_all
  from next_coord_box [OF c r(3)] show ?thesis
    using neighbor_rank_eq [of "patch_of cells g r" t "opposite f"] rank_coord [OF assms(1), of q] assms(1)
    by (simp add: patch_axes)
qed

text \<open>Across the face the neighbour has the same begin and the same number of cells.\<close>

lemma neighbor_aligned:
  assumes "positive3 g" "0 \<le> q" "q < grid_ranks g" "neighbor_rank (patch_of cells g q) t f = Some r"
    and "k < 3" "k \<noteq> face_axis f"
  shows "axis_of k (mp_begin (patch_of cells g r)) = axis_of k (mp_begin (patch_of cells g q)) \<and>
    axis_of k (mp_cells (patch_of cells g r)) = axis_of k (mp_cells (patch_of cells g q))"
proof -
  have "next_coord t g f (coord_of g q) = Some (coord_of g r)" using neighbor_coord [OF assms(1-4)] by simp
  then have "axis_of k (coord_of g r) = axis_of k (coord_of g q)"
    using assms(5,6) axis_below [of f] by (auto simp: next_coord_def Let_def split: if_splits) (metis with_axis_sel)+
  then show ?thesis by (simp add: patch_axes)
qed

text \<open>Along the face axis the patch of the neighbour begins where this one ends, round the mesh.\<close>

lemma neighbor_adjacent:
  assumes fits: "mesh_fits cells g" and q: "0 \<le> q" "q < grid_ranks g"
    and n: "neighbor_rank (patch_of cells g q) t f = Some r"
  defines "k \<equiv> face_axis f"
  shows "(axis_of k (mp_begin (patch_of cells g r)) + (if face_minus f then axis_of k (mp_cells (patch_of cells g r)) else 0)) mod
      axis_of k cells =
    (axis_of k (mp_begin (patch_of cells g q)) + (if face_minus f then 0 else axis_of k (mp_cells (patch_of cells g q)))) mod
      axis_of k cells"
proof -
  have g: "positive3 g" using fits by (simp add: mesh_fits_def)
  have k: "k < 3" unfolding k_def by (rule axis_below)
  have c: "in_box origin g (coord_of g q)" using coord_in_grid [OF g q(1)] q(2) by (simp add: grid_ranks_def)
  let ?n = "axis_of k cells" and ?p = "axis_of k g" and ?c = "axis_of k (coord_of g q)"
  have b: "0 \<le> ?c" "?c < ?p" using c k by (simp_all add: in_box_axes)
  then have p: "0 < ?p" "0 \<le> ?n" using fits k by (auto simp: mesh_fits_def dest: spec [of _ k])
  have "next_coord t g f (coord_of g q) = Some (coord_of g r)" using neighbor_coord [OF g q n] by simp
  then have "coord_of g r = with_axis k ((?c + (if face_minus f then - 1 else 1)) mod ?p) (coord_of g q)"
    by (auto simp: next_coord_def Let_def k_def split: if_splits)
  then have r: "axis_of k (coord_of g r) = (if face_minus f then (if ?c = 0 then ?p - 1 else ?c - 1)
      else if ?c + 1 = ?p then 0 else ?c + 1)"
    using k wrap_step [OF b] by simp
  note e = split_ends [OF p(1)] split_next [of ?n ?p "?c - 1"] split_next [of ?n ?p ?c]
  show ?thesis
  proof (cases "face_minus f")
    case True
    show ?thesis
    proof (cases "?c = 0")
      case True
      then show ?thesis using \<open>face_minus f\<close> r e(1) [OF p(2)] e(2) [of ?n] by (simp add: patch_axes)
    next
      case False
      then show ?thesis using \<open>face_minus f\<close> r e(3) by (simp add: patch_axes)
    qed
  next
    case False
    then have "?c + 1 = ?p \<Longrightarrow> fst (split_axis ?n ?p ?c) + snd (split_axis ?n ?p ?c) = ?n"
      using e(2) [of ?n] by (metis add_diff_cancel_right')
    then show ?thesis using False r e(1) [OF p(2)] e(4) by (simp add: patch_axes)
  qed
qed

end
