(* ===== verification/Halo_Layers.thy ===== *)
theory Halo_Layers
  imports Halo_Geometry
begin

text \<open>
  The cells of a section in the order of the loops: which they are, how many, and that the ghosts behind
  a face are the shifted inner layer of the neighbour, one by one.
\<close>

section \<open>Boxes of positions\<close>

lemma map_shift_upto: "map (\<lambda>x. x + d) [a..b] = [a + d..b + (d :: int)]"
proof (induction a b rule: upto.induct)
  case (1 a b)
  then show ?case by (cases "a \<le> b") (simp_all add: upto.simps [of a] upto.simps [of "a + d"] algebra_simps)
qed

lemma length_box: "length (box_positions xs ys zs) = length xs * length ys * length zs"
  by (simp add: box_positions_def length_concat comp_def sum_list_const_mult sum_list_triv)

lemma set_box: "i \<in> set (box_positions xs ys zs) \<longleftrightarrow> x3 i \<in> set xs \<and> y3 i \<in> set ys \<and> z3 i \<in> set zs"
  by (cases i) (auto simp: box_positions_def)

lemma distinct_map_concat:
  "distinct zs \<Longrightarrow> (\<And>z. z \<in> set zs \<Longrightarrow> distinct (f z)) \<Longrightarrow>
    (\<And>z z' i. z \<in> set zs \<Longrightarrow> z' \<in> set zs \<Longrightarrow> i \<in> set (f z) \<Longrightarrow> i \<in> set (f z') \<Longrightarrow> z = z') \<Longrightarrow> distinct (concat (map f zs))"
proof (induction zs)
  case (Cons z zs)
  have "set (f z) \<inter> set (concat (map f zs)) = {}" using Cons.prems(1,3) by fastforce
  moreover have "distinct (concat (map f zs))" using Cons.prems by (intro Cons.IH) auto
  ultimately show ?case using Cons.prems(2) by simp
qed simp

lemma distinct_box: "distinct xs \<Longrightarrow> distinct ys \<Longrightarrow> distinct zs \<Longrightarrow> distinct (box_positions xs ys zs)"
  unfolding box_positions_def
  by (intro distinct_map_concat) (auto simp: distinct_map inj_on_def)

section \<open>Layers\<close>

lemma set_layer:
  "axis < 3 \<Longrightarrow> i \<in> set (layer_positions n axis start w) \<longleftrightarrow>
     (\<forall>k < 3. if k = axis then start \<le> axis_of k i \<and> axis_of k i < start + w else 0 \<le> axis_of k i \<and> axis_of k i < axis_of k n)"
  by (auto simp: layer_positions_def Let_def set_box axis_of_def less_Suc_eq numeral_3_eq_3)

lemma distinct_layer: "distinct (layer_positions n axis start w)"
  by (simp add: layer_positions_def Let_def distinct_box)

definition face_area :: "int3 \<Rightarrow> nat \<Rightarrow> nat" where
  "face_area n axis = (if axis = 0 then nat (y3 n) * nat (z3 n)
     else if axis = 1 then nat (x3 n) * nat (z3 n) else nat (x3 n) * nat (y3 n))"

lemma length_layer: "length (layer_positions n axis start w) = face_area n axis * nat w"
  by (simp add: layer_positions_def Let_def length_box face_area_def ac_simps)

lemma shift_layer:
  assumes "axis < 3" "\<forall>k < 3. k \<noteq> axis \<longrightarrow> axis_of k n' = axis_of k n"
  shows "layer_positions n' axis (start + d) w =
    map (\<lambda>i. with_axis axis (axis_of axis i + d) i) (layer_positions n axis start w)"
proof -
  have m: "[start + d..start + d + w - 1] = map (\<lambda>x. x + d) [start..start + w - 1]"
    unfolding map_shift_upto by (simp add: algebra_simps)
  consider "axis = 0" | "axis = 1" | "axis = 2" using assms(1) by linarith
  then show ?thesis
  proof cases
    case 1
    then show ?thesis using assms(2)
      by (simp add: layer_positions_def Let_def box_positions_def m map_concat comp_def with_axis_def axis_of_def
          less_Suc_eq numeral_3_eq_3 all_conj_distrib)
  next
    case 2
    then show ?thesis using assms(2)
      by (simp add: layer_positions_def Let_def box_positions_def m map_concat comp_def with_axis_def axis_of_def
          less_Suc_eq numeral_3_eq_3 all_conj_distrib)
  next
    case 3
    then show ?thesis using assms(2)
      by (simp add: layer_positions_def Let_def box_positions_def m map_concat comp_def with_axis_def axis_of_def
          less_Suc_eq numeral_3_eq_3 all_conj_distrib)
  qed
qed

section \<open>Sections\<close>

definition section_volume :: "int3 \<Rightarrow> halo_spec \<Rightarrow> halo_face \<Rightarrow> nat" where
  "section_volume n s f = unat (hs_components s) * (face_area n (face_axis f) * unat (hs_width s))"

lemma length_section: "length (section_cells n s f start) = section_volume n s f"
  by (simp add: section_cells_def length_concat comp_def length_layer section_volume_def sum_list_triv)

lemma component_word: "c < unat (s :: u8) \<Longrightarrow> unat (word_of_nat c :: u8) = c"
proof -
  assume "c < unat s"
  moreover have "unat s < 2 ^ LENGTH(8)" by (rule unsigned_less)
  ultimately show ?thesis by (simp add: unat_of_nat)
qed

lemma set_section:
  "(c, i) \<in> set (section_cells n s f start) \<longleftrightarrow>
     c < hs_components s \<and> i \<in> set (layer_positions n (face_axis f) start (int (unat (hs_width s))))"
proof -
  have "(\<exists>k < unat (hs_components s). c = word_of_nat k) \<longleftrightarrow> c < hs_components s"
  proof
    assume "c < hs_components s"
    then show "\<exists>k < unat (hs_components s). c = word_of_nat k"
      by (intro exI [of _ "unat c"]) (simp add: word_less_nat_alt)
  qed (auto simp: word_less_nat_alt component_word)
  then show ?thesis by (auto simp: section_cells_def)
qed

lemma distinct_section: "distinct (section_cells n s f start)"
  unfolding section_cells_def
proof (rule distinct_map_concat)
  fix c c' p
  assume "c \<in> set [0..<unat (hs_components s)]" "c' \<in> set [0..<unat (hs_components s)]"
    "p \<in> set (map (Pair (word_of_nat c :: u8)) (layer_positions n (face_axis f) start (int (unat (hs_width s)))))"
    "p \<in> set (map (Pair (word_of_nat c')) (layer_positions n (face_axis f) start (int (unat (hs_width s)))))"
  then have "(word_of_nat c :: u8) = word_of_nat c'" "c < unat (hs_components s)" "c' < unat (hs_components s)" by auto
  then show "c = c'" using component_word by metis
qed (simp_all add: distinct_map distinct_layer inj_on_def)

lemma shift_section:
  assumes "\<forall>k < 3. k \<noteq> face_axis f \<longrightarrow> axis_of k n' = axis_of k n"
  shows "section_cells n' s f (start + d) =
    map (\<lambda>(c, i). (c, with_axis (face_axis f) (axis_of (face_axis f) i + d) i)) (section_cells n s f start)"
  using shift_layer [OF axis_below assms, of start d "int (unat (hs_width s))"]
  by (simp add: section_cells_def map_concat comp_def)

lemma face_cells [simp]: "section_cells n s (opposite f) start = section_cells n s f start"
  by (simp add: section_cells_def)

lemma nat_word_count: "0 \<le> i \<Longrightarrow> i < 2 ^ 31 \<Longrightarrow> unat (word_of_int i :: u64) = nat i"
  by (rule unat_word_of_int64) simp_all

lemma section_size_InrD:
  assumes "small3 (mp_cells p)" "section_size p s f = Inr w"
  shows "unat w = section_volume (mp_cells p) s f \<and> w \<noteq> 0"
proof -
  let ?n = "mp_cells p"
  have n: "unat (word_of_int (x3 ?n) :: u64) = nat (x3 ?n)" "unat (word_of_int (y3 ?n) :: u64) = nat (y3 ?n)"
    "unat (word_of_int (z3 ?n) :: u64) = nat (z3 ?n)"
    using assms(1) by (simp_all add: small3_def positive3_def nat_word_count)
  obtain a l where a: "(if face_axis f = 0 then checked_multiply (word_of_int (y3 ?n)) (word_of_int (z3 ?n))
      else if face_axis f = 1 then checked_multiply (word_of_int (x3 ?n)) (word_of_int (z3 ?n))
      else checked_multiply (word_of_int (x3 ?n)) (word_of_int (y3 ?n))) = Some a"
    and l: "checked_multiply a (ucast (hs_width s)) = Some l" "checked_multiply l (ucast (hs_components s)) = Some w" "w \<noteq> 0"
    using assms(2) by (auto simp: section_size_def Let_def split: option.splits if_splits)
  have "unat a = face_area ?n (face_axis f)"
    using a n by (auto simp: face_area_def split: if_splits dest!: checked_multiply_SomeD)
  then show ?thesis
    using checked_multiply_SomeD [OF l(1)] checked_multiply_SomeD [OF l(2)] l(3)
    by (simp add: section_volume_def ac_simps)
qed

lemma section_size_cong:
  assumes "\<forall>k < 3. k \<noteq> face_axis f \<longrightarrow> axis_of k (mp_cells p') = axis_of k (mp_cells p)"
  shows "section_size p' s (opposite f) = section_size p s f"
  using assms axis_below [of f] unfolding section_size_def
  by (auto simp: Let_def axis_of_def less_Suc_eq numeral_3_eq_3)

section \<open>A ghost and its source\<close>

definition ghost_source :: "int3 \<Rightarrow> int3 \<Rightarrow> halo_spec \<Rightarrow> halo_face \<Rightarrow> int3 \<Rightarrow> int3" where
  "ghost_source n n' s f i =
     with_axis (face_axis f) (axis_of (face_axis f) i + (inner_start n' s (opposite f) - ghost_start n s f)) i"

text \<open>The inner layer the neighbour packs for the face is the layer of ghosts, mapped by \<open>ghost_source\<close>.\<close>

lemma source_cells:
  assumes "\<forall>k < 3. k \<noteq> face_axis f \<longrightarrow> axis_of k n' = axis_of k n"
  shows "section_cells n' s (opposite f) (inner_start n' s (opposite f)) =
    map (\<lambda>(c, i). (c, ghost_source n n' s f i)) (section_cells n s f (ghost_start n s f))"
  using shift_section [OF assms, of s "ghost_start n s f" "inner_start n' s (opposite f) - ghost_start n s f"]
  by (simp add: ghost_source_def)

end
