(* ===== verification/Halo_Layout.thy ===== *)
theory Halo_Layout
  imports Halo_Plan Halo_Layers
begin

text \<open>
  What \<^verbatim>\<open>build_peers\<close> builds: one peer per neighbouring rank, its sections in the order of the
  receiving face and of the field, contiguous in the storage, and its messages a partition of its part
  of the storage.
\<close>

section \<open>Collecting\<close>

definition blank_section :: "mesh_patch \<Rightarrow> halo_spec list \<Rightarrow> halo_face \<Rightarrow> halo_face \<Rightarrow> nat \<Rightarrow> halo_section" where
  "blank_section p specs f dest slot =
     \<lparr>sc_slot = slot, sc_face = f, sc_dest = dest, sc_offset = 0, sc_count = projr (section_size p (specs ! slot) f)\<rparr>"

definition face_block :: "mesh_patch \<Rightarrow> halo_spec list \<Rightarrow> halo_face \<Rightarrow> halo_face \<Rightarrow> halo_section list" where
  "face_block p specs f dest = map (blank_section p specs f dest) [0..<length specs]"

lemma face_sections_from:
  assumes "face_sections p f slot specs = Inr (ss, rs)"
  shows "ss = map (\<lambda>j. (blank_section p specs f (opposite f) j)\<lparr>sc_slot := slot + j\<rparr>) [0..<length specs] \<and>
    rs = map (\<lambda>j. (blank_section p specs f f j)\<lparr>sc_slot := slot + j\<rparr>) [0..<length specs] \<and>
    (\<forall>s \<in> set specs. \<exists>w. section_size p s f = Inr w)"
  using assms
proof (induction specs arbitrary: slot ss rs)
  case (Cons s specs)
  then obtain w ss' rs' where w: "section_size p s f = Inr w" and r: "face_sections p f (slot + 1) specs = Inr (ss', rs')"
    and eq: "ss = \<lparr>sc_slot = slot, sc_face = f, sc_dest = opposite f, sc_offset = 0, sc_count = w\<rparr> # ss'"
      "rs = \<lparr>sc_slot = slot, sc_face = f, sc_dest = f, sc_offset = 0, sc_count = w\<rparr> # rs'"
    by (auto split: sum.splits)
  have u: "[0..<length (s # specs)] = 0 # map Suc [0..<length specs]" by (simp add: upt_conv_Cons map_Suc_upt del: upt_Suc)
  show ?case using Cons.IH [OF r] w unfolding u eq by (simp add: blank_section_def)
qed simp

lemma face_sections_InrD:
  assumes "face_sections p f 0 specs = Inr (ss, rs)"
  shows "ss = face_block p specs f (opposite f) \<and> rs = face_block p specs f f \<and>
    (\<forall>s \<in> set specs. \<exists>w. section_size p s f = Inr w)"
  using face_sections_from [OF assms] by (simp add: face_block_def blank_section_def)

definition gathered :: "mesh_patch \<Rightarrow> halo_topology \<Rightarrow> (halo_face \<Rightarrow> halo_section list) \<Rightarrow> halo_face list \<Rightarrow> int \<Rightarrow>
    halo_section list" where
  "gathered p t block fs r = concat (map (\<lambda>f. if neighbor_rank p t f = Some r then block f else []) fs)"

definition gathering :: "mesh_patch \<Rightarrow> halo_topology \<Rightarrow> int \<Rightarrow> halo_spec list \<Rightarrow> halo_face list \<Rightarrow> halo_peer list \<Rightarrow> bool" where
  "gathering p t rank specs fs peers \<longleftrightarrow>
     distinct (map hp_rank peers) \<and> hp_rank ` set peers = {r. \<exists>f \<in> set fs. neighbor_rank p t f = Some r} \<and>
     (\<forall>f \<in> set fs. neighbor_rank p t f \<noteq> None \<longrightarrow> (\<forall>s \<in> set specs. \<exists>w. section_size p s f = Inr w)) \<and>
     (\<forall>x \<in> set peers. hp_local x = (hp_rank x = rank) \<and>
       hp_sends x = gathered p t (\<lambda>f. face_block p specs f (opposite f)) fs (hp_rank x) \<and>
       hp_receives x = gathered p t (\<lambda>f. face_block p specs f f) fs (hp_rank x))"

lemma gathered_snoc:
  "gathered p t block (fs @ [f]) r = gathered p t block fs r @ (if neighbor_rank p t f = Some r then block f else [])"
  by (simp add: gathered_def)

lemma gathered_none: "\<forall>f \<in> set fs. neighbor_rank p t f \<noteq> Some r \<Longrightarrow> gathered p t block fs r = []"
  by (auto simp: gathered_def)

lemma add_to_peer_ranks:
  "map hp_rank (add_to_peer rank n ss rs peers) =
     (if n \<in> hp_rank ` set peers then map hp_rank peers else map hp_rank peers @ [n])"
  by (induction peers) auto

lemma add_to_peer_in:
  assumes "x \<in> set (add_to_peer rank n ss rs peers)" "distinct (map hp_rank peers)"
  shows "x \<in> set peers \<and> hp_rank x \<noteq> n \<or>
    (\<exists>y \<in> set peers. hp_rank y = n \<and> x = y\<lparr>hp_sends := hp_sends y @ ss, hp_receives := hp_receives y @ rs\<rparr>) \<or>
    n \<notin> hp_rank ` set peers \<and> hp_rank x = n \<and> hp_local x = (n = rank) \<and> hp_sends x = ss \<and> hp_receives x = rs"
  using assms
proof (induction peers)
  case (Cons p ps)
  show ?case
  proof (cases "hp_rank p = n")
    case True
    then have "n \<notin> hp_rank ` set ps" using Cons.prems(2) by simp
    then have apart: "x \<in> set ps \<Longrightarrow> hp_rank x \<noteq> n" by blast
    have "x = p\<lparr>hp_sends := hp_sends p @ ss, hp_receives := hp_receives p @ rs\<rparr> \<or> x \<in> set ps"
      using Cons.prems(1) True by simp
    then show ?thesis
    proof
      assume "x = p\<lparr>hp_sends := hp_sends p @ ss, hp_receives := hp_receives p @ rs\<rparr>"
      then show ?thesis using True by (intro disjI2 disjI1 bexI [of _ p]) simp_all
    qed (use apart in simp)
  next
    case False
    then show ?thesis using Cons by auto
  qed
qed simp

lemma gathering_step:
  assumes g: "gathering p t rank specs fs peers" and n: "neighbor_rank p t f = Some r"
    and s: "face_sections p f 0 specs = Inr (ss, rs)"
  shows "gathering p t rank specs (fs @ [f]) (add_to_peer rank r ss rs peers)"
proof -
  note fb = face_sections_InrD [OF s]
  have d: "distinct (map hp_rank peers)" and ranks: "hp_rank ` set peers = {r. \<exists>f \<in> set fs. neighbor_rank p t f = Some r}"
    using g by (simp_all add: gathering_def)
  have "hp_local x = (hp_rank x = rank) \<and>
      hp_sends x = gathered p t (\<lambda>f. face_block p specs f (opposite f)) (fs @ [f]) (hp_rank x) \<and>
      hp_receives x = gathered p t (\<lambda>f. face_block p specs f f) (fs @ [f]) (hp_rank x)"
    if "x \<in> set (add_to_peer rank r ss rs peers)" for x
    using add_to_peer_in [OF that d]
  proof (elim disjE bexE conjE)
    assume "r \<notin> hp_rank ` set peers" "hp_rank x = r" "hp_local x = (r = rank)" "hp_sends x = ss" "hp_receives x = rs"
    then show ?thesis using fb n ranks by (simp add: gathered_snoc gathered_none)
  qed (use g n fb in \<open>auto simp: gathering_def gathered_snoc\<close>)
  moreover have "hp_rank ` set (add_to_peer rank r ss rs peers) = {r. \<exists>f \<in> set (fs @ [f]). neighbor_rank p t f = Some r}"
    using arg_cong [OF add_to_peer_ranks [of rank r ss rs peers], of set] ranks n by (auto split: if_splits)
  moreover have "distinct (map hp_rank (add_to_peer rank r ss rs peers))" using d by (auto simp: add_to_peer_ranks)
  ultimately show ?thesis using g fb unfolding gathering_def by auto
qed

lemma add_faces_gathers:
  "add_faces p t rank specs fs peers = Inr peers' \<Longrightarrow> gathering p t rank specs done peers \<Longrightarrow>
    gathering p t rank specs (done @ fs) peers'"
proof (induction fs arbitrary: "done" peers)
  case (Cons f fs)
  show ?case
  proof (cases "neighbor_rank p t f")
    case None
    then have "gathering p t rank specs (done @ [f]) peers"
      using Cons.prems(2) by (auto simp: gathering_def gathered_snoc)
    with None Cons.prems(1) Cons.IH [of peers "done @ [f]"] show ?thesis by simp
  next
    case (Some r)
    then obtain ss rs where s: "face_sections p f 0 specs = Inr (ss, rs)"
      and a: "add_faces p t rank specs fs (add_to_peer rank r ss rs peers) = Inr peers'"
      using Cons.prems(1) by (auto split: sum.splits)
    from Cons.IH [OF a gathering_step [OF Cons.prems(2) Some s]] show ?thesis by simp
  qed
qed simp

lemma gathering_start: "gathering p t rank specs [] []"
  by (simp add: gathering_def)

section \<open>The canonical order\<close>

text \<open>Sections to and from a rank in the order of the receiving face, then of the field.\<close>

definition send_order :: "mesh_patch \<Rightarrow> halo_topology \<Rightarrow> halo_spec list \<Rightarrow> int \<Rightarrow> halo_section list" where
  "send_order p t specs r =
     concat (map (\<lambda>d. if neighbor_rank p t (opposite d) = Some r then face_block p specs (opposite d) d else []) all_faces)"

definition receive_order :: "mesh_patch \<Rightarrow> halo_topology \<Rightarrow> halo_spec list \<Rightarrow> int \<Rightarrow> halo_section list" where
  "receive_order p t specs r =
     concat (map (\<lambda>d. if neighbor_rank p t d = Some r then face_block p specs d d else []) all_faces)"

definition ordered_specs :: "halo_spec list \<Rightarrow> bool" where
  "ordered_specs specs \<longleftrightarrow> sorted (map hs_field specs) \<and> distinct (map hs_field specs)"

lemma face_block_in:
  "s \<in> set (face_block p specs f d) \<Longrightarrow> sc_slot s < length specs \<and> s = blank_section p specs f d (sc_slot s)"
  by (auto simp: face_block_def blank_section_def)

lemma face_block_sel:
  "s \<in> set (face_block p specs f d) \<Longrightarrow> sc_face s = f \<and> sc_dest s = d \<and> sc_slot s < length specs"
  by (auto simp: face_block_def blank_section_def)

lemma sorted_face_block:
  assumes "ordered_specs specs"
  shows "sorted (map (halo_section_key specs) (face_block p specs f d))"
  using assms unfolding ordered_specs_def face_block_def
  by (auto simp: sorted_wrt_map sorted_wrt_iff_nth_less halo_section_key_def blank_section_def less_eq_prod_def)

lemma sorted_blocks:
  assumes "ordered_specs specs" "sorted (map face_number ds)" "distinct ds"
  shows "sorted (map (halo_section_key specs) (concat (map (\<lambda>d. if P d then face_block p specs (g d) d else []) ds)))"
  using assms(2,3)
proof (induction ds)
  case (Cons d ds)
  have "halo_section_key specs x \<le> halo_section_key specs y"
    if "x \<in> set (face_block p specs (g d) d)" "y \<in> set (face_block p specs (g e) e)" "e \<in> set ds" for x y e
  proof -
    have "face_number d < face_number e"
      using Cons.prems that(3) by (auto simp: less_le)
    then show ?thesis
      using face_block_sel [OF that(1)] face_block_sel [OF that(2)]
      by (simp add: halo_section_key_def less_eq_prod_def)
  qed
  then show ?case using Cons sorted_face_block [OF assms(1)] by (auto simp: sorted_append)
qed simp

lemma faces_sorted: "sorted (map face_number all_faces)" "distinct all_faces"
  by (simp_all add: all_faces_def)

lemma key_inject:
  assumes "ordered_specs specs" "s = blank_section p specs (g d) d k" "s' = blank_section p specs (g d') d' k'"
    and "k < length specs" "k' < length specs" "halo_section_key specs s = halo_section_key specs s'"
  shows "s = s'"
proof -
  have "d = d'" "map hs_field specs ! k = map hs_field specs ! k'"
    using assms by (auto simp: halo_section_key_def blank_section_def)
  moreover have "distinct (map hs_field specs)" using assms(1) by (simp add: ordered_specs_def)
  ultimately show ?thesis using assms(2-5) by (metis length_map nth_eq_iff_index_eq)
qed

lemma sort_blocks:
  assumes "ordered_specs specs" "mset xs = mset (concat (map (\<lambda>d. if P d then face_block p specs (g d) d else []) all_faces))"
  shows "sort_key (halo_section_key specs) xs = concat (map (\<lambda>d. if P d then face_block p specs (g d) d else []) all_faces)"
proof (rule sort_key_inj_key_eq [OF assms(2) _ sorted_blocks [OF assms(1) faces_sorted]])
  show "inj_on (halo_section_key specs) (set xs)"
  proof (rule inj_onI)
    fix s s' assume "s \<in> set xs" "s' \<in> set xs" "halo_section_key specs s = halo_section_key specs s'"
    moreover from mset_eq_setD [OF assms(2)] this(1,2) obtain d d' where
      "s \<in> set (face_block p specs (g d) d)" "s' \<in> set (face_block p specs (g d') d')" by (auto split: if_splits)
    ultimately show "s = s'" using key_inject [OF assms(1)] face_block_in by meson
  qed
qed

lemma sorted_sends:
  assumes "ordered_specs specs"
  shows "sort_key (halo_section_key specs) (gathered p t (\<lambda>f. face_block p specs f (opposite f)) all_faces r) =
    send_order p t specs r"
  unfolding send_order_def
  by (rule sort_blocks [OF assms]) (simp add: gathered_def all_faces_def ac_simps)

lemma sorted_receives:
  assumes "ordered_specs specs"
  shows "sort_key (halo_section_key specs) (gathered p t (\<lambda>f. face_block p specs f f) all_faces r) =
    receive_order p t specs r"
  unfolding receive_order_def
  by (rule sort_blocks [OF assms]) (simp add: gathered_def)

end
