(* ===== verification/Halo_Offsets.thy ===== *)
theory Halo_Offsets
  imports Halo_Layout
begin

text \<open>
  Where the sections of a plan lie: contiguous in the storage, in canonical order, and cut into
  messages that cover the part of a peer.
\<close>

section \<open>Sections\<close>

definition counts_before :: "halo_section list \<Rightarrow> nat \<Rightarrow> nat" where
  "counts_before ss k = sum_list (map (unat \<circ> sc_count) (take k ss))"

definition placed_from :: "nat \<Rightarrow> halo_section list \<Rightarrow> halo_section list \<Rightarrow> bool" where
  "placed_from start ss qs \<longleftrightarrow> length qs = length ss \<and>
     (\<forall>k < length ss. (\<exists>w. qs ! k = (ss ! k)\<lparr>sc_offset := w\<rparr>) \<and>
       unat (sc_offset (qs ! k)) = start + counts_before ss k)"

lemma counts_Cons: "counts_before (s # ss) (Suc k) = unat (sc_count s) + counts_before ss k"
  by (simp add: counts_before_def)

lemma counts_0 [simp]: "counts_before ss 0 = 0"
  by (simp add: counts_before_def)

lemma place_sections_SomeD:
  assumes "place_sections ss running peer = Some (ts, running', peer')"
  shows "placed_from (unat running) ss ts \<and>
    unat running' = unat running + counts_before ss (length ss) \<and>
    unat peer' = unat peer + counts_before ss (length ss)"
  using assms
proof (induction ss arbitrary: running peer ts)
  case (Cons s ss)
  then obtain r q us where r: "checked_add running (sc_count s) = Some r" and q: "checked_add peer (sc_count s) = Some q"
    and p: "place_sections ss r q = Some (us, running', peer')" and ts: "ts = s\<lparr>sc_offset := running\<rparr> # us"
    by (auto split: option.splits)
  note ih = Cons.IH [OF p] checked_add_SomeD [OF r] checked_add_SomeD [OF q]
  have "(\<exists>w. ts ! k = ((s # ss) ! k)\<lparr>sc_offset := w\<rparr>) \<and>
      unat (sc_offset (ts ! k)) = unat running + counts_before (s # ss) k" if "k < length (s # ss)" for k
    using ih that unfolding ts by (cases k) (auto simp: placed_from_def counts_Cons)
  with ih show ?case unfolding placed_from_def ts by (simp add: counts_Cons)
qed (simp add: placed_from_def)

section \<open>Messages\<close>

text \<open>The messages of \<open>e\<close> doubles in pieces of at most \<open>c\<close>.\<close>

definition chunks_ok :: "nat \<Rightarrow> nat \<Rightarrow> nat \<Rightarrow> nat \<Rightarrow> nat \<Rightarrow> halo_chunk list \<Rightarrow> bool" where
  "chunks_ok c index e start ordinal cs \<longleftrightarrow>
     (\<forall>j < length cs. hc_peer (cs ! j) = index \<and> hc_tag (cs ! j) = int (ordinal + j) \<and>
       unat (hc_offset (cs ! j)) = start + j * c \<and> start + j * c < e \<and>
       hc_count (cs ! j) = int (min c (e - (start + j * c)))) \<and>
     e \<le> start + length cs * c"

declare cut_chunks.simps [simp del]

lemma cut_chunks_SomeD:
  assumes "cut_chunks c maximum_tag index e start ordinal = Some cs" "0 < unat c"
  shows "chunks_ok (unat c) index (unat e) (unat start) ordinal cs"
  using assms
proof (induction c maximum_tag index e start ordinal arbitrary: cs rule: cut_chunks.induct)
  case (1 c maximum_tag index e start ordinal)
  note unfold = cut_chunks.simps [of c maximum_tag index e start ordinal]
  show ?case
  proof (cases "start < e")
    case False
    then show ?thesis using "1.prems" by (simp add: unfold chunks_ok_def word_less_nat_alt)
  next
    case True
    let ?part = "min (e - start) c"
    obtain ds where o: "\<not> ordinal > maximum_tag"
      and ds: "cut_chunks c maximum_tag index e (start + ?part) (ordinal + 1) = Some ds"
      and cs: "cs = \<lparr>hc_peer = index, hc_offset = start, hc_count = int (unat ?part), hc_tag = int ordinal\<rparr> # ds"
      using "1.prems"(1) True by (auto simp: unfold Let_def split: if_splits option.splits)
    have le: "unat start < unat e" using True by (simp add: word_less_nat_alt)
    then have d: "unat (e - start) = unat e - unat start" by (simp add: unat_sub word_le_nat_alt)
    then have part: "unat ?part = min (unat c) (unat e - unat start)"
      by (auto simp: min_def word_le_nat_alt)
    have "unat start + unat ?part < 2 ^ 64" using part le unat_u64_less [of e] by simp
    then have s: "unat (start + ?part) = unat start + unat ?part"
      by (simp add: unat_word_ariths)
    have ih: "chunks_ok (unat c) index (unat e) (unat (start + ?part)) (ordinal + 1) ds"
      using "1.IH" True o ds "1.prems"(2) by blast
    show ?thesis
    proof (cases "unat c \<le> unat e - unat start")
      case True
      then have p: "unat ?part = unat c" using part by simp
      have "hc_peer (cs ! j) = index \<and> hc_tag (cs ! j) = int (ordinal + j) \<and>
          unat (hc_offset (cs ! j)) = unat start + j * unat c \<and> unat start + j * unat c < unat e \<and>
          hc_count (cs ! j) = int (min (unat c) (unat e - (unat start + j * unat c)))" if "j < length cs" for j
        using ih that le part unfolding chunks_ok_def s p cs by (cases j) (auto simp: algebra_simps)
      then show ?thesis using ih unfolding chunks_ok_def s p cs by (simp add: algebra_simps)
    next
      case False
      then have p: "unat ?part = unat e - unat start" using part by simp
      then have "start + ?part = e" using s le by (simp add: word_unat_eq_iff)
      then have "ds = []" using ds by (simp add: cut_chunks.simps [of c maximum_tag index e e])
      then show ?thesis using False le part unfolding chunks_ok_def cs by simp
    qed
  qed
qed

lemma chunks_cover:
  assumes "chunks_ok c index e 0 ordinal cs" "x < e" "0 < c"
  shows "\<exists>j < length cs. unat (hc_offset (cs ! j)) = j * c \<and> j * c \<le> x \<and> x < j * c + nat (hc_count (cs ! j))"
proof -
  have "x < length cs * c" using assms(1,2) by (simp add: chunks_ok_def)
  then have j: "x div c < length cs" using assms(3) by (simp add: less_mult_imp_div_less)
  moreover have "x div c * c \<le> x" "x < x div c * c + c" using assms(3) dividend_less_div_times [of c x] by simp_all
  ultimately show ?thesis using assms(1,2) by (intro exI [of _ "x div c"]) (auto simp: chunks_ok_def)
qed

text \<open>The cut depends on the number of doubles only.\<close>

lemma cut_chunks_same:
  assumes "chunks_ok c index e 0 0 cs" "chunks_ok c index' e 0 0 cs'" "0 < c"
  shows "length cs = length cs'"
proof -
  have "length ds \<le> length ds'" if "chunks_ok c i e 0 0 ds" "chunks_ok c i' e 0 0 ds'" for i i' ds ds'
  proof (rule ccontr)
    assume "\<not> length ds \<le> length ds'"
    then have "length ds' * c < e" using that(1) by (simp add: chunks_ok_def)
    then show False using that(2) by (simp add: chunks_ok_def)
  qed
  from this [OF assms(1,2)] this [OF assms(2,1)] show ?thesis by simp
qed

section \<open>Peers\<close>

definition peers_before :: "halo_peer list \<Rightarrow> nat \<Rightarrow> nat" where
  "peers_before ps k = sum_list (map (unat \<circ> hp_count) (take k ps))"

definition peer_laid :: "halo_spec list \<Rightarrow> nat \<Rightarrow> nat \<Rightarrow> halo_peer \<Rightarrow> halo_peer \<Rightarrow> bool" where
  "peer_laid specs sent received p q \<longleftrightarrow> hp_rank q = hp_rank p \<and> hp_local q = hp_local p \<and>
     unat (hp_send_offset q) = sent \<and> unat (hp_receive_offset q) = received \<and>
     (let ss = sort_key (halo_section_key specs) (hp_sends p); rs = sort_key (halo_section_key specs) (hp_receives p) in
      placed_from sent ss (hp_sends q) \<and> placed_from received rs (hp_receives q) \<and>
      unat (hp_count q) = counts_before ss (length ss) \<and> unat (hp_count q) = counts_before rs (length rs))"

definition peer_chunks :: "u64 \<Rightarrow> nat \<Rightarrow> nat \<Rightarrow> halo_peer \<Rightarrow> halo_chunk list \<Rightarrow> bool" where
  "peer_chunks c maximum_tag index p cs \<longleftrightarrow>
     (if hp_local p then cs = [] else cut_chunks c maximum_tag index (hp_count p) 0 0 = Some cs)"

lemma peers_before_Cons: "peers_before (p # ps) (Suc k) = unat (hp_count p) + peers_before ps k"
  by (simp add: peers_before_def)

lemma peers_before_0 [simp]: "peers_before ps 0 = 0"
  by (simp add: peers_before_def)

lemma layout_peers_InrD:
  assumes "layout_peers c maximum_tag specs index ps sent received = Inr (qs, chunks, s, r)"
  shows "length qs = length ps \<and>
    (\<forall>k < length ps. peer_laid specs (unat sent + peers_before qs k) (unat received + peers_before qs k) (ps ! k) (qs ! k)) \<and>
    (\<exists>css. length css = length ps \<and> chunks = concat css \<and>
      (\<forall>k < length ps. peer_chunks c maximum_tag (index + k) (qs ! k) (css ! k))) \<and>
    unat s = unat sent + peers_before qs (length qs) \<and> unat r = unat received + peers_before qs (length qs)"
  using assms
proof (induction ps arbitrary: index sent received qs chunks)
  case (Cons p ps)
  obtain sends sent' peer_send receives received' peer_receive cs qs' later where
    a: "place_sections (sort_key (halo_section_key specs) (hp_sends p)) sent 0 = Some (sends, sent', peer_send)"
    and b: "place_sections (sort_key (halo_section_key specs) (hp_receives p)) received 0 = Some (receives, received', peer_receive)"
    and eq: "peer_send = peer_receive"
    and cs: "(if hp_local p then Some [] else cut_chunks c maximum_tag index peer_send 0 0) = Some cs"
    and l: "layout_peers c maximum_tag specs (index + 1) ps sent' received' = Inr (qs', later, s, r)"
    and qs: "qs = p\<lparr>hp_send_offset := sent, hp_receive_offset := received, hp_count := peer_send,
                     hp_sends := sends, hp_receives := receives\<rparr> # qs'" (is "_ = ?q # _")
    and chunks: "chunks = cs @ later"
    using Cons.prems by (simp add: Let_def split: option.splits sum.splits if_splits prod.splits)
  note pa = place_sections_SomeD [OF a] and pb = place_sections_SomeD [OF b] and ih = Cons.IH [OF l]
  have e: "unat sent' = unat sent + unat (hp_count ?q)" "unat received' = unat received + unat (hp_count ?q)"
    using pa pb eq by simp_all
  obtain css where css: "length css = length ps" "later = concat css"
    "\<forall>k < length ps. peer_chunks c maximum_tag (index + 1 + k) (qs' ! k) (css ! k)" using ih by blast
  have "peer_laid specs (unat sent + peers_before qs k) (unat received + peers_before qs k) ((p # ps) ! k) (qs ! k) \<and>
      peer_chunks c maximum_tag (index + k) (qs ! k) ((cs # css) ! k)" if "k < length (p # ps)" for k
  proof (cases k)
    case 0
    then show ?thesis using pa pb eq cs unfolding qs by (simp add: peer_laid_def peer_chunks_def Let_def split: if_splits)
  next
    case (Suc j)
    then show ?thesis using ih css(3) that e unfolding qs by (simp add: peers_before_Cons add.assoc)
  qed
  moreover have "length (cs # css) = length (p # ps)" "chunks = concat (cs # css)" using css chunks by simp_all
  moreover have "length qs = length (p # ps)" "unat s = unat sent + peers_before qs (length qs)"
    "unat r = unat received + peers_before qs (length qs)" using ih e unfolding qs by (simp_all add: peers_before_Cons)
  ultimately show ?case by blast
qed simp

end
