(* ===== verification/Halo_Reciprocal.thy ===== *)
theory Halo_Reciprocal
  imports Halo_Offsets
begin

text \<open>
  The plans of the ranks of one decomposition fit together: what a rank sends to a neighbour is, section
  by section and message by message, what the neighbour expects to receive from it.
\<close>

section \<open>Linked faces\<close>

text \<open>
  What the planner needs of the decomposition: the neighbour relation is symmetric and the two sides of
  a face agree on the size of a section.
\<close>

locale linked_faces =
  fixes linked :: "'w \<Rightarrow> bool"
    and ranks :: "'w \<Rightarrow> int set"
    and neighbor :: "'w \<Rightarrow> int \<Rightarrow> halo_face \<Rightarrow> int option"
    and amount :: "'w \<Rightarrow> int \<Rightarrow> halo_spec \<Rightarrow> halo_face \<Rightarrow> u64"
  assumes symmetric: "linked w \<Longrightarrow> q \<in> ranks w \<Longrightarrow> neighbor w q f = Some r \<Longrightarrow>
      r \<in> ranks w \<and> neighbor w r (opposite f) = Some q"
    and same_amount: "linked w \<Longrightarrow> q \<in> ranks w \<Longrightarrow> neighbor w q f = Some r \<Longrightarrow>
      amount w r s (opposite f) = amount w q s f"
begin

definition parcel :: "'w \<Rightarrow> halo_spec list \<Rightarrow> int \<Rightarrow> halo_face \<Rightarrow> halo_face \<Rightarrow> (nat \<times> halo_face \<times> u64) list" where
  "parcel w specs q f d = map (\<lambda>k. (k, d, amount w q (specs ! k) f)) [0..<length specs]"

definition outgoing :: "'w \<Rightarrow> halo_spec list \<Rightarrow> int \<Rightarrow> int \<Rightarrow> (nat \<times> halo_face \<times> u64) list" where
  "outgoing w specs q r =
     concat (map (\<lambda>d. if neighbor w q (opposite d) = Some r then parcel w specs q (opposite d) d else []) all_faces)"

definition incoming :: "'w \<Rightarrow> halo_spec list \<Rightarrow> int \<Rightarrow> int \<Rightarrow> (nat \<times> halo_face \<times> u64) list" where
  "incoming w specs r q = concat (map (\<lambda>d. if neighbor w r d = Some q then parcel w specs r d d else []) all_faces)"

lemma linked_back:
  assumes "linked w" "q \<in> ranks w" "r \<in> ranks w"
  shows "neighbor w q (opposite d) = Some r \<longleftrightarrow> neighbor w r d = Some q"
  using symmetric [OF assms(1,2), of "opposite d" r] symmetric [OF assms(1,3), of d q] by auto

lemma outgoing_incoming:
  assumes "linked w" "q \<in> ranks w" "r \<in> ranks w"
  shows "outgoing w specs q r = incoming w specs r q"
proof -
  have "(if neighbor w q (opposite d) = Some r then parcel w specs q (opposite d) d else []) =
      (if neighbor w r d = Some q then parcel w specs r d d else [])" for d
    using linked_back [OF assms] same_amount [OF assms(1,3), of d q] by (auto simp: parcel_def)
  then show ?thesis by (simp add: outgoing_def incoming_def)
qed

end

section \<open>The faces of a decomposition\<close>

record halo_mesh =
  hm_cells :: int3
  hm_grid :: int3
  hm_topology :: halo_topology

definition mesh_linked :: "halo_mesh \<Rightarrow> bool" where
  "mesh_linked w \<longleftrightarrow> mesh_fits (hm_cells w) (hm_grid w)"

definition mesh_ranks :: "halo_mesh \<Rightarrow> int set" where
  "mesh_ranks w = {0..<grid_ranks (hm_grid w)}"

definition mesh_patch_of :: "halo_mesh \<Rightarrow> int \<Rightarrow> mesh_patch" where
  "mesh_patch_of w q = patch_of (hm_cells w) (hm_grid w) q"

definition mesh_neighbor :: "halo_mesh \<Rightarrow> int \<Rightarrow> halo_face \<Rightarrow> int option" where
  "mesh_neighbor w q f = neighbor_rank (mesh_patch_of w q) (hm_topology w) f"

definition mesh_amount :: "halo_mesh \<Rightarrow> int \<Rightarrow> halo_spec \<Rightarrow> halo_face \<Rightarrow> u64" where
  "mesh_amount w q s f = projr (section_size (mesh_patch_of w q) s f)"

interpretation mesh: linked_faces mesh_linked mesh_ranks mesh_neighbor mesh_amount
proof (unfold_locales, goal_cases)
  case (1 w q f r)
  then show ?case
    using neighbor_coord [of "hm_grid w" q "hm_cells w" "hm_topology w" f r]
      neighbor_symmetric [of "hm_grid w" q "hm_cells w" "hm_topology w" f r]
    by (simp add: mesh_linked_def mesh_fits_def mesh_ranks_def mesh_neighbor_def mesh_patch_of_def)
next
  case (2 w q f r s)
  then have "section_size (mesh_patch_of w r) s (opposite f) = section_size (mesh_patch_of w q) s f"
    using neighbor_aligned [of "hm_grid w" q "hm_cells w" "hm_topology w" f r]
    by (intro section_size_cong) (simp add: mesh_linked_def mesh_fits_def mesh_ranks_def mesh_neighbor_def mesh_patch_of_def)
  then show ?case by (simp add: mesh_amount_def)
qed

section \<open>A plan that was built\<close>

text \<open>The data \<^verbatim>\<open>reserve\<close> hands to \<^verbatim>\<open>build_peers\<close> on rank \<open>q\<close>, and what comes out.\<close>

definition plan_input :: "halo_mesh \<Rightarrow> halo_spec list \<Rightarrow> u64 \<Rightarrow> nat \<Rightarrow> int \<Rightarrow> halo_data \<Rightarrow> bool" where
  "plan_input w specs c maximum_tag q d \<longleftrightarrow> hd_patch d = mesh_patch_of w q \<and> hd_topology d = hm_topology w \<and>
     hd_rank d = q \<and> halo_specs d = specs \<and> hd_peers d = [] \<and> hd_maximum_chunk d = c \<and> hd_maximum_tag d = maximum_tag"

definition contents :: "halo_section list \<Rightarrow> (nat \<times> halo_face \<times> u64) list" where
  "contents ss = map (\<lambda>s. (sc_slot s, sc_dest s, sc_count s)) ss"

definition plan_ok :: "halo_mesh \<Rightarrow> halo_spec list \<Rightarrow> u64 \<Rightarrow> nat \<Rightarrow> int \<Rightarrow> halo_data \<Rightarrow> bool" where
  "plan_ok w specs c maximum_tag q d \<longleftrightarrow>
     distinct (map hp_rank (hd_peers d)) \<and>
     hp_rank ` set (hd_peers d) = {r. \<exists>f. mesh_neighbor w q f = Some r} \<and>
     (\<forall>f. mesh_neighbor w q f \<noteq> None \<longrightarrow> (\<forall>s \<in> set specs. \<exists>n. section_size (mesh_patch_of w q) s f = Inr n)) \<and>
     (\<forall>k < length (hd_peers d). let p = hd_peers d ! k in
        hp_local p = (hp_rank p = q) \<and>
        unat (hp_send_offset p) = peers_before (hd_peers d) k \<and> unat (hp_receive_offset p) = peers_before (hd_peers d) k \<and>
        placed_from (unat (hp_send_offset p)) (send_order (mesh_patch_of w q) (hm_topology w) specs (hp_rank p)) (hp_sends p) \<and>
        placed_from (unat (hp_receive_offset p)) (receive_order (mesh_patch_of w q) (hm_topology w) specs (hp_rank p)) (hp_receives p) \<and>
        unat (hp_count p) = counts_before (hp_sends p) (length (hp_sends p)) \<and>
        unat (hp_count p) = counts_before (hp_receives p) (length (hp_receives p))) \<and>
     (\<exists>css. length css = length (hd_peers d) \<and> hd_chunks d = concat css \<and>
        (\<forall>k < length (hd_peers d). peer_chunks c maximum_tag k (hd_peers d ! k) (css ! k))) \<and>
     length (hd_send d) = peers_before (hd_peers d) (length (hd_peers d)) \<and>
     length (hd_receive d) = peers_before (hd_peers d) (length (hd_peers d)) \<and> length (hd_send d) < 2 ^ 64 \<and>
     length (hd_requests d) = 2 * length (hd_chunks d)"

lemma placed_contents:
  assumes "placed_from start ss ts"
  shows "contents ts = contents ss \<and> (\<forall>k. counts_before ts k = counts_before ss k) \<and>
    (\<forall>k < length ss. sc_face (ts ! k) = sc_face (ss ! k))"
proof -
  have l: "length ts = length ss" using assms by (simp add: placed_from_def)
  have e: "sc_slot (ts ! k) = sc_slot (ss ! k) \<and> sc_dest (ts ! k) = sc_dest (ss ! k) \<and> sc_count (ts ! k) = sc_count (ss ! k) \<and>
      sc_face (ts ! k) = sc_face (ss ! k)" if "k < length ss" for k
    using assms that by (auto simp: placed_from_def)
  then have c: "contents ts = contents ss" using l by (auto simp: contents_def intro: nth_equalityI)
  have "map (unat \<circ> sc_count) ts = map (unat \<circ> sc_count) ss" using e l by (auto intro: nth_equalityI)
  then have "counts_before ts k = counts_before ss k" for k by (simp add: counts_before_def take_map [symmetric])
  with c e show ?thesis by blast
qed

lemma counts_contents: "counts_before ss k = sum_list (map (unat \<circ> snd \<circ> snd) (take k (contents ss)))"
  by (simp add: counts_before_def contents_def take_map comp_def)

lemma built_plan:
  assumes i: "plan_input w specs c maximum_tag q d" and o: "ordered_specs specs" and b: "build_peers d = Inr e"
  shows "plan_ok w specs c maximum_tag q e \<and> hd_fields e = hd_fields d \<and> hd_patch e = hd_patch d \<and> hd_topology e = hd_topology d \<and>
    hd_rank e = hd_rank d \<and> hd_size e = hd_size d \<and> hd_lookup e = hd_lookup d \<and>
    hd_maximum_chunk e = hd_maximum_chunk d \<and> hd_maximum_tag e = hd_maximum_tag d"
proof -
  let ?p = "mesh_patch_of w q" and ?t = "hm_topology w"
  note in_d = i [unfolded plan_input_def]
  obtain collected peers chunks sent received bytes where
    a: "add_faces ?p ?t q specs all_faces [] = Inr collected"
    and l: "layout_peers c maximum_tag specs 0 (sort_key hp_rank collected) 0 0 = Inr (peers, chunks, sent, received)"
    and e: "e = d\<lparr>hd_peers := peers, hd_chunks := chunks, hd_send := replicate (unat sent) 0,
                  hd_receive := replicate (unat received) 0,
                  hd_requests := replicate (length chunks * 2) Null_request,
                  hd_stats := (hd_stats d)\<lparr>ht_send_capacity := sent, ht_receive_capacity := received,
                    ht_maximum_messages := length chunks, ht_maximum_bytes := bytes,
                    ht_transport_peers := length (filter (\<lambda>p. \<not> hp_local p) peers),
                    ht_local_peers := length peers - length (filter (\<lambda>p. \<not> hp_local p) peers),
                    ht_requests := length chunks * 2\<rparr>\<rparr>"
    using b in_d by (auto simp: build_peers_def Let_def split: sum.splits option.splits if_splits)
  have g: "gathering ?p ?t q specs all_faces collected"
    using add_faces_gathers [OF a gathering_start] by simp
  note L = layout_peers_InrD [OF l]
  let ?s = "sort_key hp_rank collected"
  have s: "set ?s = set collected" "distinct (map hp_rank ?s)" "length peers = length ?s"
    using g L by (simp_all add: gathering_def distinct_map)
  have laid: "peer_laid specs (peers_before peers k) (peers_before peers k) (?s ! k) (peers ! k)" if "k < length peers" for k
    using L that s(3) by simp
  have ranks: "map hp_rank peers = map hp_rank ?s"
    using laid s(3) by (intro nth_equalityI) (simp_all add: peer_laid_def)
  have "let p = peers ! k in hp_local p = (hp_rank p = q) \<and>
        unat (hp_send_offset p) = peers_before peers k \<and> unat (hp_receive_offset p) = peers_before peers k \<and>
        placed_from (unat (hp_send_offset p)) (send_order ?p ?t specs (hp_rank p)) (hp_sends p) \<and>
        placed_from (unat (hp_receive_offset p)) (receive_order ?p ?t specs (hp_rank p)) (hp_receives p) \<and>
        unat (hp_count p) = counts_before (hp_sends p) (length (hp_sends p)) \<and>
        unat (hp_count p) = counts_before (hp_receives p) (length (hp_receives p))" if k: "k < length peers" for k
  proof -
    have "?s ! k \<in> set collected" using k s by (metis nth_mem)
    then have x: "hp_local (?s ! k) = (hp_rank (?s ! k) = q)"
      "hp_sends (?s ! k) = gathered ?p ?t (\<lambda>f. face_block ?p specs f (opposite f)) all_faces (hp_rank (?s ! k))"
      "hp_receives (?s ! k) = gathered ?p ?t (\<lambda>f. face_block ?p specs f f) all_faces (hp_rank (?s ! k))"
      using g by (simp_all add: gathering_def)
    note y = laid [OF k, unfolded peer_laid_def Let_def x sorted_sends [OF o] sorted_receives [OF o]]
    from y have "placed_from (peers_before peers k) (send_order ?p ?t specs (hp_rank (?s ! k))) (hp_sends (peers ! k))"
      "placed_from (peers_before peers k) (receive_order ?p ?t specs (hp_rank (?s ! k))) (hp_receives (peers ! k))" by blast+
    note placed_contents [OF this(1)] placed_contents [OF this(2)] this
    with y x(1) show ?thesis by (simp add: Let_def placed_from_def)
  qed
  moreover have "hp_rank ` set peers = {r. \<exists>f. mesh_neighbor w q f = Some r}"
    using g arg_cong [OF ranks, of set] s(1) by (auto simp: gathering_def mesh_neighbor_def)
  moreover have "\<exists>css. length css = length peers \<and> chunks = concat css \<and>
      (\<forall>k < length peers. peer_chunks c maximum_tag k (peers ! k) (css ! k))" using L s(3) by auto
  moreover have "unat sent = peers_before peers (length peers)" "unat received = peers_before peers (length peers)"
    using L by simp_all
  moreover have "unat sent < 2 ^ 64" by (rule unat_u64_less)
  ultimately show ?thesis
    using g ranks s(2) unfolding plan_ok_def e by (simp add: gathering_def mesh_neighbor_def)
qed

section \<open>Two ranks\<close>

lemma contents_block:
  "contents (face_block (mesh_patch_of w q) specs f d) = mesh.parcel w specs q f d"
  by (simp add: contents_def face_block_def blank_section_def mesh.parcel_def mesh_amount_def)

lemma contents_concat: "contents (concat xss) = concat (map contents xss)"
  by (induction xss) (simp_all add: contents_def)

lemma contents_Nil [simp]: "contents [] = []"
  by (simp add: contents_def)

lemma contents_sends: "contents (send_order (mesh_patch_of w q) (hm_topology w) specs r) = mesh.outgoing w specs q r"
  by (simp add: send_order_def mesh.outgoing_def contents_concat contents_block comp_def if_distrib mesh_neighbor_def cong: if_cong)

lemma contents_receives: "contents (receive_order (mesh_patch_of w r) (hm_topology w) specs q) = mesh.incoming w specs r q"
  by (simp add: receive_order_def mesh.incoming_def contents_concat contents_block comp_def if_distrib mesh_neighbor_def cong: if_cong)

lemma length_contents [simp]: "length (contents ss) = length ss"
  by (simp add: contents_def)

lemma plan_peer:
  assumes "plan_ok w specs c maximum_tag q d" "mesh_neighbor w q f = Some r"
  obtains k where "k < length (hd_peers d)" "hp_rank (hd_peers d ! k) = r"
proof -
  have "r \<in> hp_rank ` set (hd_peers d)" using assms by (auto simp: plan_ok_def)
  then show ?thesis using that by (auto simp: in_set_conv_nth)
qed

lemma plan_peerD:
  assumes "plan_ok w specs c maximum_tag q d" "k < length (hd_peers d)"
  shows "hp_local (hd_peers d ! k) = (hp_rank (hd_peers d ! k) = q)"
    and "unat (hp_send_offset (hd_peers d ! k)) = peers_before (hd_peers d) k"
    and "unat (hp_receive_offset (hd_peers d ! k)) = peers_before (hd_peers d) k"
    and "placed_from (peers_before (hd_peers d) k)
      (send_order (mesh_patch_of w q) (hm_topology w) specs (hp_rank (hd_peers d ! k))) (hp_sends (hd_peers d ! k))"
    and "placed_from (peers_before (hd_peers d) k)
      (receive_order (mesh_patch_of w q) (hm_topology w) specs (hp_rank (hd_peers d ! k))) (hp_receives (hd_peers d ! k))"
    and "unat (hp_count (hd_peers d ! k)) = counts_before (hp_sends (hd_peers d ! k)) (length (hp_sends (hd_peers d ! k)))"
    and "unat (hp_count (hd_peers d ! k)) = counts_before (hp_receives (hd_peers d ! k)) (length (hp_receives (hd_peers d ! k)))"
    and "\<exists>f. mesh_neighbor w q f = Some (hp_rank (hd_peers d ! k))"
proof -
  have "hp_rank (hd_peers d ! k) \<in> hp_rank ` set (hd_peers d)" using assms(2) by simp
  also have "\<dots> = {r. \<exists>f. mesh_neighbor w q f = Some r}" using assms(1) unfolding plan_ok_def by blast
  finally show "\<exists>f. mesh_neighbor w q f = Some (hp_rank (hd_peers d ! k))" by simp
next
  let ?p = "hd_peers d ! k"
  have f: "hp_local ?p = (hp_rank ?p = q)" "unat (hp_send_offset ?p) = peers_before (hd_peers d) k"
    "unat (hp_receive_offset ?p) = peers_before (hd_peers d) k"
    "placed_from (unat (hp_send_offset ?p)) (send_order (mesh_patch_of w q) (hm_topology w) specs (hp_rank ?p)) (hp_sends ?p)"
    "placed_from (unat (hp_receive_offset ?p)) (receive_order (mesh_patch_of w q) (hm_topology w) specs (hp_rank ?p)) (hp_receives ?p)"
    "unat (hp_count ?p) = counts_before (hp_sends ?p) (length (hp_sends ?p))"
    "unat (hp_count ?p) = counts_before (hp_receives ?p) (length (hp_receives ?p))"
    using assms unfolding plan_ok_def Let_def by blast+
  show "hp_local ?p = (hp_rank ?p = q)" "unat (hp_send_offset ?p) = peers_before (hd_peers d) k"
    "unat (hp_receive_offset ?p) = peers_before (hd_peers d) k"
    "unat (hp_count ?p) = counts_before (hp_sends ?p) (length (hp_sends ?p))"
    "unat (hp_count ?p) = counts_before (hp_receives ?p) (length (hp_receives ?p))"
    by (fact f)+
  show "placed_from (peers_before (hd_peers d) k) (send_order (mesh_patch_of w q) (hm_topology w) specs (hp_rank ?p)) (hp_sends ?p)"
    "placed_from (peers_before (hd_peers d) k) (receive_order (mesh_patch_of w q) (hm_topology w) specs (hp_rank ?p)) (hp_receives ?p)"
    using f(4,5) unfolding f(2,3) by blast+
qed

lemma counts_all: "counts_before ss (length ss) = sum_list (map (unat \<circ> snd \<circ> snd) (contents ss))"
  by (simp add: counts_contents)

lemma plan_contents:
  assumes "plan_ok w specs c maximum_tag q d" "k < length (hd_peers d)"
  shows "contents (hp_sends (hd_peers d ! k)) = mesh.outgoing w specs q (hp_rank (hd_peers d ! k))"
    and "contents (hp_receives (hd_peers d ! k)) = mesh.incoming w specs q (hp_rank (hd_peers d ! k))"
  using placed_contents [OF plan_peerD(4) [OF assms]] placed_contents [OF plan_peerD(5) [OF assms]]
  by (simp_all add: contents_sends contents_receives)

lemma order_faces:
  "s \<in> set (send_order p t specs r) \<Longrightarrow> sc_face s = opposite (sc_dest s)"
  "s \<in> set (receive_order p t specs r) \<Longrightarrow> sc_face s = sc_dest s"
  by (auto simp: send_order_def receive_order_def dest!: face_block_sel split: if_splits)

lemma placed_faces:
  assumes "placed_from start ss ts" "j < length ts"
  obtains s where "s \<in> set ss" "sc_face (ts ! j) = sc_face s" "sc_dest (ts ! j) = sc_dest s"
proof -
  obtain v where "ts ! j = (ss ! j)\<lparr>sc_offset := v\<rparr>" "ss ! j \<in> set ss" using assms by (auto simp: placed_from_def)
  then show ?thesis using that [of "ss ! j"] by simp
qed

lemma plan_faces:
  assumes "plan_ok w specs c maximum_tag q d" "k < length (hd_peers d)"
  shows "j < length (hp_sends (hd_peers d ! k)) \<Longrightarrow>
      sc_face (hp_sends (hd_peers d ! k) ! j) = opposite (sc_dest (hp_sends (hd_peers d ! k) ! j))"
    and "j < length (hp_receives (hd_peers d ! k)) \<Longrightarrow>
      sc_face (hp_receives (hd_peers d ! k) ! j) = sc_dest (hp_receives (hd_peers d ! k) ! j)"
  using order_faces by (metis placed_faces [OF plan_peerD(4) [OF assms]], metis placed_faces [OF plan_peerD(5) [OF assms]])

lemma plan_offsets:
  assumes "plan_ok w specs c maximum_tag q d" "k < length (hd_peers d)"
  defines "p \<equiv> hd_peers d ! k"
  shows "j < length (hp_sends p) \<Longrightarrow> unat (sc_offset (hp_sends p ! j)) = peers_before (hd_peers d) k + counts_before (hp_sends p) j"
    and "j < length (hp_receives p) \<Longrightarrow>
      unat (sc_offset (hp_receives p ! j)) = peers_before (hd_peers d) k + counts_before (hp_receives p) j"
  using plan_peerD(4,5) [OF assms(1,2)] placed_contents [OF plan_peerD(4) [OF assms(1,2)]]
    placed_contents [OF plan_peerD(5) [OF assms(1,2)]]
  unfolding p_def by (simp_all add: placed_from_def)

text \<open>The messages a rank exchanges with another: offset within the part of the peer, length and tag.\<close>

definition messages_with :: "halo_data \<Rightarrow> int \<Rightarrow> (u64 \<times> int \<times> int) list" where
  "messages_with d r = map (\<lambda>m. (hc_offset m, hc_count m, hc_tag m))
     (filter (\<lambda>m. hp_rank (hd_peers d ! hc_peer m) = r) (hd_chunks d))"

lemma filter_concat_one:
  assumes "length css = n" "k < n" "\<And>j m. j < n \<Longrightarrow> m \<in> set (css ! j) \<Longrightarrow> P m = (j = k)"
  shows "filter P (concat css) = css ! k"
  using assms
proof (induction css arbitrary: n k)
  case (Cons cs css)
  show ?case
  proof (cases k)
    case 0
    then have "\<forall>m \<in> set cs. P m" using Cons.prems(1,2) Cons.prems(3) [of 0] by auto
    moreover have "\<not> P m" if m: "m \<in> set (concat css)" for m
    proof -
      obtain ms where "ms \<in> set css" "m \<in> set ms" using m by auto
      then obtain j where "j < length css" "m \<in> set (css ! j)" by (auto simp: in_set_conv_nth [of ms])
      then show ?thesis using Cons.prems(1) Cons.prems(3) [of "Suc j" m] 0 by auto
    qed
    ultimately show ?thesis using 0 by (simp add: filter_id_conv filter_empty_conv)
  next
    case (Suc i)
    then have "\<forall>m \<in> set cs. \<not> P m" using Cons.prems(1,2) Cons.prems(3) [of 0] by auto
    moreover have "filter P (concat css) = css ! i"
    proof (rule Cons.IH [of "n - 1"])
      fix j m assume "j < n - 1" "m \<in> set (css ! j)"
      then show "P m = (j = i)" using Cons.prems(1) Cons.prems(3) [of "Suc j" m] Suc by auto
    qed (use Cons.prems(1,2) Suc in auto)
    ultimately show ?thesis using Suc by (simp add: filter_empty_conv)
  qed
qed simp

lemma plan_messages:
  assumes p: "plan_ok w specs c maximum_tag q d" and c: "0 < unat c" and k: "k < length (hd_peers d)"
    and r: "hp_rank (hd_peers d ! k) = r"
  obtains cs where "messages_with d r = map (\<lambda>m. (hc_offset m, hc_count m, hc_tag m)) cs"
    "r \<noteq> q \<longrightarrow> chunks_ok (unat c) k (unat (hp_count (hd_peers d ! k))) 0 0 cs" "r = q \<longrightarrow> cs = []"
    "set cs = {m \<in> set (hd_chunks d). hc_peer m = k}"
proof -
  obtain css where css: "length css = length (hd_peers d)" "hd_chunks d = concat css"
    "\<forall>k < length (hd_peers d). peer_chunks c maximum_tag k (hd_peers d ! k) (css ! k)"
    using p by (auto simp: plan_ok_def)
  have ok: "chunks_ok (unat c) j (unat (hp_count (hd_peers d ! j))) 0 0 (css ! j)" if "j < length (hd_peers d)" "css ! j \<noteq> []" for j
    using css(3) that cut_chunks_SomeD [OF _ c] by (fastforce simp: peer_chunks_def split: if_splits)
  have peer: "hc_peer m = j" if "j < length (hd_peers d)" "m \<in> set (css ! j)" for j m
  proof -
    have "css ! j \<noteq> []" using that(2) by auto
    from ok [OF that(1) this] that(2) show ?thesis by (auto simp: chunks_ok_def in_set_conv_nth)
  qed
  have d: "distinct (map hp_rank (hd_peers d))" using p by (simp add: plan_ok_def)
  have "hp_rank (hd_peers d ! j) = r \<longleftrightarrow> j = k" if "j < length (hd_peers d)" for j
    using nth_eq_iff_index_eq [OF d, of j k] that k r by auto
  then have "filter (\<lambda>m. hp_rank (hd_peers d ! hc_peer m) = r) (concat css) = css ! k"
    using peer by (intro filter_concat_one [OF css(1) k]) auto
  moreover have "filter (\<lambda>m. hc_peer m = k) (concat css) = css ! k"
    using peer by (intro filter_concat_one [OF css(1) k]) auto
  then have "set (css ! k) = {m \<in> set (hd_chunks d). hc_peer m = k}" unfolding css(2) by (metis set_filter)
  moreover have "r = q \<Longrightarrow> css ! k = []"
    using css(3) k plan_peerD(1) [OF p k] r by (auto simp: peer_chunks_def)
  moreover have "r \<noteq> q \<Longrightarrow> chunks_ok (unat c) k (unat (hp_count (hd_peers d ! k))) 0 0 (css ! k)"
    using css(3) k plan_peerD(1) [OF p k] r cut_chunks_SomeD [OF _ c, of maximum_tag k _ 0 0] by (auto simp: peer_chunks_def)
  ultimately show ?thesis using that [of "css ! k"] by (simp add: messages_with_def css(2))
qed

lemma plan_back:
  assumes l: "mesh_linked w" and q: "q \<in> mesh_ranks w" and p: "plan_ok w specs c maximum_tag q d"
    and k: "k < length (hd_peers d)" and r: "hp_rank (hd_peers d ! k) = r"
    and e: "plan_ok w specs c tag' r e"
  obtains j where "r \<in> mesh_ranks w" "j < length (hd_peers e)" "hp_rank (hd_peers e ! j) = q"
    "contents (hp_receives (hd_peers e ! j)) = contents (hp_sends (hd_peers d ! k))"
    "contents (hp_sends (hd_peers e ! j)) = contents (hp_receives (hd_peers d ! k))"
    "hp_count (hd_peers e ! j) = hp_count (hd_peers d ! k)"
proof -
  obtain f where f: "mesh_neighbor w q f = Some r" using plan_peerD(8) [OF p k] r by blast
  note s = mesh.symmetric [OF l q f]
  obtain j where j: "j < length (hd_peers e)" "hp_rank (hd_peers e ! j) = q"
    using plan_peer [OF e, of "opposite f" q] s by blast
  have c: "contents (hp_receives (hd_peers e ! j)) = contents (hp_sends (hd_peers d ! k))"
    "contents (hp_sends (hd_peers e ! j)) = contents (hp_receives (hd_peers d ! k))"
    using plan_contents [OF p k] plan_contents [OF e j(1)] mesh.outgoing_incoming [OF l q, of r] mesh.outgoing_incoming [OF l _ q, of r] s
    by (simp_all add: r j(2))
  have "unat (hp_count (hd_peers e ! j)) = unat (hp_count (hd_peers d ! k))"
    using plan_peerD(7) [OF e j(1)] plan_peerD(6) [OF p k] c(1) by (simp add: counts_all)
  with that [OF _ j c] s show ?thesis by (simp add: word_unat_eq_iff)
qed

end
