(* ===== verification/Halo_State.thy ===== *)
theory Halo_State
  imports Halo_Reserve Halo_Reciprocal
begin

text \<open>
  The state of an engine between calls: the plan \<^verbatim>\<open>reserve\<close> built, the lookup of the fields and the
  requests. Every operation keeps it. A begin that succeeds has bound a valid view to every field and
  packed every section; a finish that succeeds has bound the same storage again.
\<close>

section \<open>Requests\<close>

lemma create_from_ok:
  assumes "create_from created index cs d = (st, d')" "is_ok st" "hd_chunks d = pre @ cs" "length pre = index"
    and "length (hd_requests d) = 2 * length (hd_chunks d)"
  shows "d' = d\<lparr>hd_requests := hd_requests d'\<rparr> \<and> length (hd_requests d') = length (hd_requests d) \<and>
    (\<forall>j < length (hd_requests d). hd_requests d' ! j =
      (if index \<le> j \<and> j < length (hd_chunks d) then receive_request d (hd_chunks d ! j)
       else if length (hd_chunks d) + index \<le> j then send_request d (hd_chunks d ! (j - length (hd_chunks d)))
       else hd_requests d ! j))"
  using assms
proof (induction cs arbitrary: index d pre)
  case (Cons c cs)
  let ?n = "length (hd_chunks d)"
  let ?e = "d\<lparr>hd_requests := (hd_requests d)[index := receive_request d c, ?n + index := send_request d c]\<rparr>"
  have at: "hd_chunks d ! index = c" "index < ?n" using Cons.prems(3,4) by auto
  have r: "create_from created (index + 1) cs ?e = (st, d')"
    using Cons.prems(1,2) by (auto simp: Let_def receive_request_def send_request_def split: if_splits)
  have same: "receive_request ?e = receive_request d" "send_request ?e = send_request d"
    by (simp_all add: receive_request_def send_request_def fun_eq_iff)
  have ih: "d' = ?e\<lparr>hd_requests := hd_requests d'\<rparr> \<and> length (hd_requests d') = length (hd_requests ?e) \<and>
      (\<forall>j < length (hd_requests ?e). hd_requests d' ! j =
        (if index + 1 \<le> j \<and> j < length (hd_chunks ?e) then receive_request ?e (hd_chunks ?e ! j)
         else if length (hd_chunks ?e) + (index + 1) \<le> j then send_request ?e (hd_chunks ?e ! (j - length (hd_chunks ?e)))
         else hd_requests ?e ! j))"
    using Cons.prems(2-5) by (intro Cons.IH [OF r, of "pre @ [c]"]) simp_all
  have "hd_requests d' ! j =
      (if index \<le> j \<and> j < ?n then receive_request d (hd_chunks d ! j)
       else if ?n + index \<le> j then send_request d (hd_chunks d ! (j - ?n)) else hd_requests d ! j)"
    if j: "j < length (hd_requests d)" for j
    using ih j at Cons.prems(5) unfolding same
    by (cases "j = index"; cases "j = ?n + index") (auto simp: nth_list_update)
  moreover have "d' = d\<lparr>hd_requests := hd_requests d'\<rparr>" "length (hd_requests d') = length (hd_requests d)"
    using ih by simp_all
  ultimately show ?case by blast
qed auto

lemma create_requests_ok:
  assumes "create_requests created d = (st, d')" "is_ok st" "length (hd_requests d) = 2 * length (hd_chunks d)"
  shows "d' = d\<lparr>hd_requests := map (receive_request d) (hd_chunks d) @ map (send_request d) (hd_chunks d)\<rparr>"
proof -
  note c = create_from_ok [OF assms(1) [unfolded create_requests_def] assms(2) _ _ assms(3), of "[]", simplified]
  then have "hd_requests d' = map (receive_request d) (hd_chunks d) @ map (send_request d) (hd_chunks d)"
    using assms(3) by (intro nth_equalityI) (auto simp: nth_append)
  with c show ?thesis by metis
qed

lemma create_from_frame:
  assumes "create_from created index cs d = (st, d')"
  shows "\<exists>rs. d' = d\<lparr>hd_requests := rs\<rparr> \<and> length rs = length (hd_requests d)"
  using assms
proof (induction cs arbitrary: index d)
  case (Cons c cs)
  let ?e = "d\<lparr>hd_requests := (hd_requests d)[index := receive_request d c]\<rparr>"
  let ?g = "?e\<lparr>hd_requests := (hd_requests ?e)[length (hd_chunks ?e) + index := send_request ?e c]\<rparr>"
  consider "d' = d" | "d' = ?e" | "create_from created (index + 1) cs ?g = (st, d')"
    using Cons.prems by (auto simp: Let_def split: if_splits)
  then show ?case
  proof cases
    case 1
    then show ?thesis by (intro exI [of _ "hd_requests d"]) simp
  next
    case 3
    from Cons.IH [OF this] obtain rs where "d' = ?g\<lparr>hd_requests := rs\<rparr>" "length rs = length (hd_requests ?g)" by blast
    then show ?thesis by (intro exI [of _ rs]) simp
  next
    case 2
    then show ?thesis by (intro exI [of _ "(hd_requests d)[index := receive_request d c]"]) simp
  qed
next
  case Nil
  then show ?case by (intro exI [of _ "hd_requests d"]) simp
qed

section \<open>The invariant\<close>

definition requests_ok :: "halo_data \<Rightarrow> bool" where
  "requests_ok d \<longleftrightarrow> hd_requests d = map (receive_request d) (hd_chunks d) @ map (send_request d) (hd_chunks d)"

definition engine_ok :: "halo_mesh \<Rightarrow> halo_spec list \<Rightarrow> int \<Rightarrow> halo_data \<Rightarrow> bool" where
  "engine_ok w specs q d \<longleftrightarrow>
     plan_ok w specs maximum_chunk_doubles (hd_maximum_tag d) q d \<and> halo_specs d = specs \<and> ordered_specs specs \<and>
     hd_patch d = mesh_patch_of w q \<and> hd_rank d = q \<and> hd_size d = grid_ranks (hm_grid w) \<and>
     length (hd_candidate_views d) = length specs \<and>
     (\<forall>k < length specs. hd_lookup d (hs_field (specs ! k)) = int k) \<and>
     (\<forall>f. f \<notin> hs_field ` set specs \<longrightarrow> hd_lookup d f = - 1) \<and>
     (\<forall>x \<in> set (hd_fields d). fs_seen_generation x \<le> hd_visit_generation d) \<and>
     (\<not> hd_poisoned d \<longrightarrow> requests_ok d)"

text \<open>What of the state the invariant depends on.\<close>

definition plan_part :: "halo_data \<Rightarrow> halo_peer list \<times> halo_chunk list \<times> nat \<times> nat \<times> nat" where
  "plan_part d = (hd_peers d, hd_chunks d, length (hd_send d), length (hd_receive d), length (hd_requests d))"

lemma plan_ok_part: "plan_part d' = plan_part d \<Longrightarrow> plan_ok w specs c t q d' = plan_ok w specs c t q d"
  by (simp add: plan_ok_def plan_part_def)

definition frame_part :: "halo_data \<Rightarrow> (halo_peer list \<times> halo_chunk list \<times> nat \<times> nat \<times> nat) \<times> nat \<times> mesh_patch \<times> int \<times> int \<times>
    nat \<times> (field_id \<Rightarrow> int) \<times> halo_spec list" where
  "frame_part d = (plan_part d, hd_maximum_tag d, hd_patch d, hd_rank d, hd_size d, length (hd_candidate_views d), hd_lookup d,
     halo_specs d)"

lemma engine_ok_frame:
  assumes "engine_ok w specs q d" "frame_part d' = frame_part d"
    and "\<forall>x \<in> set (hd_fields d'). fs_seen_generation x \<le> hd_visit_generation d'"
    and "\<not> hd_poisoned d' \<longrightarrow> requests_ok d'"
  shows "engine_ok w specs q d'"
  using assms plan_ok_part [of d' d] by (simp add: engine_ok_def frame_part_def)

lemma requests_ok_same:
  "hd_requests d' = hd_requests d \<Longrightarrow> hd_peers d' = hd_peers d \<Longrightarrow> hd_chunks d' = hd_chunks d \<Longrightarrow> requests_ok d' = requests_ok d"
  by (simp add: requests_ok_def receive_request_def [abs_def] send_request_def [abs_def])

section \<open>What reserve establishes\<close>

lemma run_phases_Cons:
  assumes "run_phases agree k (phase # phases) d = (st, e)" "is_ok st"
  obtains local d1 lowest counters where "phase d = (local, d1)"
    "run_phases agree (k + 1) phases (d1\<lparr>hd_lowest_failing := lowest, hd_counters := counters\<rparr>) = (st, e)"
    "is_ok (fst (raw_collective_status (agree k) (hd_rank d1) (hd_size d1) local))"
  using assms by (auto simp: collective_status_def split: prod.splits if_splits)

lemma tag_phase_ok:
  "tag_phase ans d = (st, e) \<Longrightarrow> is_ok st \<Longrightarrow>
    \<exists>tag stats. e = d\<lparr>hd_maximum_tag := tag, hd_stats := stats, hd_maximum_chunk := maximum_chunk_doubles\<rparr>"
  by (auto simp: tag_phase_def Let_def mpi_ok_def split: option.splits if_splits)

lemma lookup_fold:
  assumes "distinct (map hs_field specs)"
  defines "look \<equiv> \<lambda>n. fold (\<lambda>i look. look(hs_field (specs ! i) := int i)) [0..<n] (\<lambda>_. - 1)"
  shows "n \<le> length specs \<Longrightarrow>
    (\<forall>k < n. look n (hs_field (specs ! k)) = int k) \<and> (\<forall>f. f \<notin> hs_field ` set (take n specs) \<longrightarrow> look n f = - 1)"
proof (induction n)
  case (Suc n)
  have "hs_field (specs ! k) \<noteq> hs_field (specs ! n)" if "k < n" for k
    using nth_eq_iff_index_eq [OF assms(1), of k n] that Suc.prems by simp
  moreover have "take (Suc n) specs = take n specs @ [specs ! n]" using Suc.prems by (simp add: take_Suc_conv_app_nth)
  ultimately show ?case using Suc by (auto simp: look_def less_Suc_eq)
qed (simp add: look_def)

lemma fields_phase_ok:
  assumes "fields_phase ans raw d = (st, e)" "is_ok st" "distinct (map hs_field raw)"
  defines "specs \<equiv> sort_key hs_field raw"
  shows "e = d\<lparr>hd_fields := map field_slot_of specs, hd_lookup := hd_lookup e, hd_candidate_views := replicate (length specs) blank_view\<rparr> \<and>
    ordered_specs specs \<and> (\<forall>k < length specs. hd_lookup e (hs_field (specs ! k)) = int k) \<and>
    (\<forall>f. f \<notin> hs_field ` set specs \<longrightarrow> hd_lookup e f = - 1)"
proof -
  have d: "distinct (map hs_field specs)" using assms(3) by (simp add: specs_def distinct_map)
  then have o: "ordered_specs specs" by (simp add: ordered_specs_def specs_def)
  have "fold (\<lambda>i look. look(hs_field (fs_spec (map field_slot_of specs ! i)) := int i)) [0..<length specs] (\<lambda>_. - 1) =
      fold (\<lambda>i look. look(hs_field (specs ! i) := int i)) [0..<length specs] (\<lambda>_. - 1)"
    by (rule fold_cong) (simp_all add: field_slot_of_def)
  then have e: "e = d\<lparr>hd_fields := map field_slot_of specs,
      hd_lookup := fold (\<lambda>i look. look(hs_field (specs ! i) := int i)) [0..<length specs] (\<lambda>_. - 1),
      hd_candidate_views := replicate (length specs) blank_view\<rparr>"
    using assms(1,2) by (auto simp: fields_phase_def Let_def specs_def split: if_splits)
  then show ?thesis using o lookup_fold [OF d, of "length specs"] by simp
qed

lemma contract_phase_same: "contract_phase ans d = (st, e) \<Longrightarrow> e = d"
  by (auto simp: contract_phase_def split: option.splits)

lemma sizes_phase_same: "sizes_phase ans d = (st, e) \<Longrightarrow> e = d"
  by (auto simp: sizes_phase_def split: option.splits)

text \<open>The specs of a field are pairwise distinct once the request has been validated.\<close>

lemma check_specs_distinct:
  "is_ok (check_specs p prior specs) \<Longrightarrow> distinct (map hs_field specs) \<and> hs_field ` set specs \<inter> set prior = {} \<and>
    (\<forall>s \<in> set specs. hs_width s \<noteq> 0 \<and> hs_components s \<noteq> 0 \<and> int (unat (hs_width s)) \<le> x3 (mp_cells p) \<and>
      int (unat (hs_width s)) \<le> y3 (mp_cells p) \<and> int (unat (hs_width s)) \<le> z3 (mp_cells p))"
proof (induction specs arbitrary: prior)
  case (Cons s specs)
  let ?w = "int (unat (hs_width s))"
  have c: "hs_width s \<noteq> 0" "hs_components s \<noteq> 0" "?w \<le> x3 (mp_cells p)" "?w \<le> y3 (mp_cells p)" "?w \<le> z3 (mp_cells p)"
    "hs_field s \<notin> set prior" "is_ok (check_specs p (prior @ [hs_field s]) specs)"
    using Cons.prems by (simp_all add: Let_def not_less split: if_splits)
  from Cons.IH [OF c(7)] c(1-6) show ?case by auto
qed simp

end
