(* ===== verification/Halo_History.thy ===== *)
theory Halo_History
  imports Halo_State
begin

text \<open>
  Every engine that a history of calls produces is well formed, whatever the callers pass and whatever
  MPI answers, as long as no rank is told that all ranks succeeded when it failed itself.
\<close>

section \<open>Reserve\<close>

definition truthful :: "int \<Rightarrow> int \<Rightarrow> status_answers \<Rightarrow> bool" where
  "truthful rank ranks ans \<longleftrightarrow> (\<forall>st. is_ok (fst (raw_collective_status ans rank ranks st)) \<longrightarrow> \<not> rank_fails st)"

lemma not_fails_ok: "\<not> rank_fails st \<longleftrightarrow> is_ok st"
  by (cases "scode st") (simp_all add: rank_fails_def halo_local_def is_ok_def failed_def)

text \<open>The states between the phases when every phase has succeeded.\<close>

definition noted :: "halo_data \<Rightarrow> int \<Rightarrow> halo_counters \<Rightarrow> halo_data" where
  "noted d lowest counters = d\<lparr>hd_lowest_failing := lowest, hd_counters := counters\<rparr>"

lemma noted_sel [simp]:
  "hd_patch (noted d l u) = hd_patch d" "hd_topology (noted d l u) = hd_topology d" "hd_fields (noted d l u) = hd_fields d"
  "hd_lookup (noted d l u) = hd_lookup d" "hd_candidate_views (noted d l u) = hd_candidate_views d"
  "hd_peers (noted d l u) = hd_peers d" "hd_chunks (noted d l u) = hd_chunks d" "hd_send (noted d l u) = hd_send d"
  "hd_receive (noted d l u) = hd_receive d" "hd_requests (noted d l u) = hd_requests d" "hd_identity (noted d l u) = hd_identity d"
  "hd_generation (noted d l u) = hd_generation d" "hd_visit_generation (noted d l u) = hd_visit_generation d"
  "hd_maximum_chunk (noted d l u) = hd_maximum_chunk d" "hd_maximum_tag (noted d l u) = hd_maximum_tag d"
  "hd_rank (noted d l u) = hd_rank d" "hd_size (noted d l u) = hd_size d" "hd_exchange_active (noted d l u) = hd_exchange_active d"
  "hd_requests_active (noted d l u) = hd_requests_active d" "hd_poisoned (noted d l u) = hd_poisoned d"
  "hd_prepared_epoch (noted d l u) = hd_prepared_epoch d" "hd_stats (noted d l u) = hd_stats d"
  "halo_specs (noted d l u) = halo_specs d"
  by (simp_all add: noted_def halo_specs_def)

fun phases_reach :: "(halo_data \<Rightarrow> status \<times> halo_data) list \<Rightarrow> halo_data \<Rightarrow> halo_data \<Rightarrow> bool" where
  "phases_reach [] d e \<longleftrightarrow> e = d"
| "phases_reach (phase # phases) d e \<longleftrightarrow>
     (\<exists>st d1 l u. phase d = (st, d1) \<and> is_ok st \<and> phases_reach phases (noted d1 l u) e)"

lemma run_phases_reach:
  assumes "run_phases agree k phases d = (st, e)" "is_ok st" "\<forall>k. truthful (hd_rank d) (hd_size d) (agree k)"
    and "\<forall>phase \<in> set phases. \<forall>d st d1. phase d = (st, d1) \<longrightarrow> hd_rank d1 = hd_rank d \<and> hd_size d1 = hd_size d"
  shows "phases_reach phases d e"
  using assms
proof (induction phases arbitrary: k d)
  case (Cons phase phases)
  obtain loc d1 where p: "phase d = (loc, d1)" by fastforce
  have s: "hd_rank d1 = hd_rank d" "hd_size d1 = hd_size d" using Cons.prems(4) p by auto
  obtain agreed lowest where r: "raw_collective_status (agree k) (hd_rank d) (hd_size d) loc = (agreed, lowest)" by fastforce
  let ?u = "(hd_counters d1)\<lparr>ho_consensus_calls := ho_consensus_calls (hd_counters d1) + 1\<rparr>"
  have a: "is_ok agreed" and c: "run_phases agree (k + 1) phases (noted d1 lowest ?u) = (st, e)"
    using Cons.prems(1,2) by (auto simp: p s r collective_status_def noted_def split: if_splits)
  have "truthful (hd_rank d) (hd_size d) (agree k)" using Cons.prems(3) by blast
  then have "is_ok loc" using a r not_fails_ok [of loc] by (auto simp: truthful_def)
  moreover have "phases_reach phases (noted d1 lowest ?u) e"
    using Cons.prems(2-4) s by (intro Cons.IH [OF c]) auto
  ultimately show ?case using p by auto
qed simp

lemma build_peers_world:
  "build_peers d = Inr e \<Longrightarrow> hd_rank e = hd_rank d \<and> hd_size e = hd_size d"
  by (auto simp: build_peers_def Let_def split: sum.splits option.splits if_splits)

lemma reserve_phases_world:
  "\<forall>phase \<in> set (reserve_phases ans raw). \<forall>d st d1. phase d = (st, d1) \<longrightarrow> hd_rank d1 = hd_rank d \<and> hd_size d1 = hd_size d"
proof -
  have "hd_rank d1 = hd_rank d \<and> hd_size d1 = hd_size d" if "create_requests created d = (st, d1)" for created d st d1
    using create_from_frame [OF that [unfolded create_requests_def]] by auto
  then show ?thesis
    by (auto simp: reserve_phases_def tag_phase_def fields_phase_def peers_phase_def Let_def
        dest: contract_phase_same sizes_phase_same build_peers_world split: option.splits if_splits sum.splits)
qed

lemma build_peers_frame:
  assumes "build_peers d = Inr e"
  obtains peers chunks send receive requests stats where "e = d\<lparr>hd_peers := peers, hd_chunks := chunks, hd_send := send,
     hd_receive := receive, hd_requests := requests, hd_stats := stats\<rparr>"
proof -
  obtain peers chunks sent received bytes where
    e: "e = d\<lparr>hd_peers := peers, hd_chunks := chunks, hd_send := replicate (unat sent) 0,
                  hd_receive := replicate (unat received) 0,
                  hd_requests := replicate (length chunks * 2) Null_request,
                  hd_stats := (hd_stats d)\<lparr>ht_send_capacity := sent, ht_receive_capacity := received,
                    ht_maximum_messages := length chunks, ht_maximum_bytes := bytes,
                    ht_transport_peers := length (filter (\<lambda>p. \<not> hp_local p) peers),
                    ht_local_peers := length peers - length (filter (\<lambda>p. \<not> hp_local p) peers),
                    ht_requests := length chunks * 2\<rparr>\<rparr>"
    using assms by (auto simp: build_peers_def Let_def split: sum.splits option.splits if_splits)
  show thesis by (rule that [OF e])
qed

lemma section_size_error: "section_size p s f = Inl e \<Longrightarrow> \<not> is_ok e"
  by (auto simp: section_size_def Let_def split: option.splits if_splits)

lemma face_sections_error: "face_sections p f slot specs = Inl e \<Longrightarrow> \<not> is_ok e"
  by (induction specs arbitrary: slot) (auto split: sum.splits dest: section_size_error)

lemma add_faces_error: "add_faces p t rank specs fs peers = Inl e \<Longrightarrow> \<not> is_ok e"
  by (induction fs arbitrary: peers) (auto split: sum.splits option.splits dest: face_sections_error)

lemma layout_peers_error: "layout_peers c tag specs index ps sent received = Inl e \<Longrightarrow> \<not> is_ok e"
proof (induction ps arbitrary: index sent received)
  case (Cons p ps)
  show ?case
  proof (cases "place_sections (sort_key (halo_section_key specs) (hp_sends p)) sent 0")
    case None
    then show ?thesis using Cons.prems by auto
  next
    case s: (Some x)
    obtain a b b' where x: "x = (a, b, b')" by (cases x)
    show ?thesis
    proof (cases "place_sections (sort_key (halo_section_key specs) (hp_receives p)) received 0")
      case None
      then show ?thesis using Cons.prems s x by auto
    next
      case r: (Some y)
      obtain g h h' where y: "y = (g, h, h')" by (cases y)
      show ?thesis
      proof (cases "b' = h'")
        case True
        then show ?thesis using Cons.prems s r x y Cons.IH [of "index + 1" b h]
          by (cases "if hp_local p then Some [] else cut_chunks c tag index h' 0 0") (auto split: sum.splits)
      next
        case False
        then show ?thesis using Cons.prems s r x y by auto
      qed
    qed
  qed
qed simp

lemma build_peers_error: "build_peers d = Inl e \<Longrightarrow> \<not> is_ok e"
  by (auto simp: build_peers_def Let_def split: sum.splits option.splits if_splits dest: add_faces_error layout_peers_error)

lemma reserve_phases_ok:
  assumes run: "run_phases (rv_agree ans) k (reserve_phases ans raw)
      (blank_halo\<lparr>hd_rank := q, hd_size := grid_ranks (hm_grid w), hd_patch := mesh_patch_of w q, hd_topology := hm_topology w\<rparr>) = (st, d)"
    and ok: "is_ok st" and t: "\<forall>k. truthful q (grid_ranks (hm_grid w)) (rv_agree ans k)" and raw: "distinct (map hs_field raw)"
  defines "specs \<equiv> sort_key hs_field raw"
  shows "engine_ok w specs q d \<and> \<not> hd_poisoned d \<and> \<not> hd_exchange_active d \<and> \<not> hd_requests_active d \<and> \<not> hd_prepared_epoch d \<and>
    (\<forall>x \<in> set (hd_fields d). fs_ghost_revision x = 0 \<and> fs_pending_revision x = 0)"
proof -
  let ?d = "blank_halo\<lparr>hd_rank := q, hd_size := grid_ranks (hm_grid w), hd_patch := mesh_patch_of w q, hd_topology := hm_topology w\<rparr>"
  have "phases_reach (reserve_phases ans raw) ?d d"
    using t by (intro run_phases_reach [OF run ok _ reserve_phases_world]) simp
  then obtain s1 d1 l1 u1 s2 d2 l2 u2 s3 d3 l3 u3 s4 d4 l4 u4 l5 u5 s6 d6 l6 u6 s7 d7 l7 u7 where
    1: "tag_phase ans ?d = (s1, d1)" "is_ok s1" and 2: "fields_phase ans raw (noted d1 l1 u1) = (s2, d2)" "is_ok s2"
    and 3: "contract_phase ans (noted d2 l2 u2) = (s3, d3)" and 4: "peers_phase ans (noted d3 l3 u3) = (s4, d4)" "is_ok s4"
    and 6: "sizes_phase ans (noted (noted d4 l4 u4) l5 u5) = (s6, d6)"
    and 7: "create_requests (rv_created ans) (noted d6 l6 u6) = (s7, d7)" "is_ok s7" and d: "d = noted d7 l7 u7"
    by (auto simp: reserve_phases_def)
  obtain tag stats where d1: "d1 = ?d\<lparr>hd_maximum_tag := tag, hd_stats := stats, hd_maximum_chunk := maximum_chunk_doubles\<rparr>"
    using tag_phase_ok [OF 1] by blast
  note f = fields_phase_ok [OF 2 raw, folded specs_def]
  have d2: "hd_patch d2 = mesh_patch_of w q" "hd_topology d2 = hm_topology w" "hd_rank d2 = q" "hd_size d2 = grid_ranks (hm_grid w)"
    "halo_specs d2 = specs" "hd_peers d2 = []" "hd_maximum_chunk d2 = maximum_chunk_doubles" "hd_fields d2 = map field_slot_of specs"
    "hd_candidate_views d2 = replicate (length specs) blank_view" "\<not> hd_poisoned d2" "\<not> hd_exchange_active d2"
    "\<not> hd_requests_active d2" "\<not> hd_prepared_epoch d2" "hd_visit_generation d2 = 0"
    by (subst conjunct1 [OF f]; simp add: d1 blank_halo_def halo_specs_def field_slot_of_def comp_def)+
  have d3: "d3 = noted d2 l2 u2" by (rule contract_phase_same [OF 3])
  have b: "build_peers (noted d3 l3 u3) = Inr d4" using 4 by (auto simp: peers_phase_def split: if_splits sum.splits dest: build_peers_error)
  have i: "plan_input w specs maximum_chunk_doubles (hd_maximum_tag d2) q (noted d3 l3 u3)"
    using d2 by (simp add: plan_input_def d3)
  have o: "ordered_specs specs" using f by blast
  note p = built_plan [OF i o b]
  obtain peers chunks send receive requests stats4 where d4: "d4 = (noted d3 l3 u3)\<lparr>hd_peers := peers, hd_chunks := chunks,
     hd_send := send, hd_receive := receive, hd_requests := requests, hd_stats := stats4\<rparr>"
    by (rule build_peers_frame [OF b])
  have s4: "hd_candidate_views d4 = replicate (length specs) blank_view" "\<not> hd_poisoned d4" "\<not> hd_exchange_active d4"
    "\<not> hd_requests_active d4" "\<not> hd_prepared_epoch d4" "hd_visit_generation d4 = 0" "hd_fields d4 = map field_slot_of specs"
    using d2 by (subst d4; simp add: d3)+
  have d6: "d6 = noted (noted d4 l4 u4) l5 u5" by (rule sizes_phase_same [OF 6])
  let ?e = "noted d6 l6 u6"
  have l: "length (hd_requests ?e) = 2 * length (hd_chunks ?e)" using p by (simp add: d6 plan_ok_def)
  note d7 = create_requests_ok [OF 7 l]
  have r: "requests_ok d7" using d7 by (subst d7; simp add: requests_ok_def receive_request_def [abs_def] send_request_def [abs_def])
  have part: "plan_part d7 = plan_part d4" using p by (subst d7; simp add: plan_part_def d6 plan_ok_def)
  have s7: "hd_fields d7 = map field_slot_of specs" "hd_patch d7 = mesh_patch_of w q" "hd_rank d7 = q"
    "hd_size d7 = grid_ranks (hm_grid w)" "hd_candidate_views d7 = replicate (length specs) blank_view" "hd_lookup d7 = hd_lookup d2"
    "hd_visit_generation d7 = 0" "hd_maximum_tag d7 = hd_maximum_tag d2" "\<not> hd_poisoned d7" "\<not> hd_exchange_active d7"
    "\<not> hd_requests_active d7" "\<not> hd_prepared_epoch d7"
    using s4 p d2 by (subst d7; simp add: d6 d3)+
  have "plan_ok w specs maximum_chunk_doubles (hd_maximum_tag d2) q d7"
    using p plan_ok_part [OF part] by simp
  then have e7: "engine_ok w specs q d7"
    using s7 r o f by (simp add: engine_ok_def halo_specs_def field_slot_of_def comp_def)
  have fr: "frame_part d = frame_part d7" by (simp add: d frame_part_def plan_part_def)
  have seen: "\<forall>x \<in> set (hd_fields d). fs_seen_generation x \<le> hd_visit_generation d" by (simp add: d s7 field_slot_of_def)
  have req: "requests_ok d" using r requests_ok_same [of d d7] by (simp add: d)
  have "engine_ok w specs q d" by (rule engine_ok_frame [OF e7 fr seen]) (use req in blast)
  then show ?thesis using s7 by (auto simp: d field_slot_of_def)
qed

end
