(* ===== verification/Halo_Plans.thy ===== *)
theory Halo_Plans
  imports Halo_History
begin

text \<open>
  The plans of two neighbouring ranks fit together. The property is evaluated on a mesh of two ranks, periodic in one direction, which the other properties of the exchange use too: each rank has two cells, and the other rank behind two of its faces.
\<close>

section \<open>Two ranks\<close>

definition two_ranks :: halo_mesh where
  "two_ranks = \<lparr>hm_cells = \<lparr>x3 = 4, y3 = 1, z3 = 1\<rparr>, hm_grid = \<lparr>x3 = 2, y3 = 1, z3 = 1\<rparr>,
     hm_topology = \<lparr>ht_x = True, ht_y = False, ht_z = False\<rparr>\<rparr>"

definition one_field :: "halo_spec list" where
  "one_field = [\<lparr>hs_field = 7, hs_width = 1, hs_components = 1\<rparr>]"

definition planned_input :: "int \<Rightarrow> halo_data" where
  "planned_input q = blank_halo\<lparr>hd_rank := q, hd_size := 2, hd_patch := mesh_patch_of two_ranks q,
     hd_topology := hm_topology two_ranks, hd_maximum_tag := 1, hd_stats := (hd_stats blank_halo)\<lparr>ht_maximum_tag := 1\<rparr>,
     hd_fields := map field_slot_of one_field, hd_lookup := (\<lambda>_. - 1)(7 := 0), hd_candidate_views := [blank_view]\<rparr>"

definition planned_peers :: "int \<Rightarrow> halo_peer list" where
  "planned_peers q = [\<lparr>hp_rank = 1 - q, hp_local = False, hp_send_offset = 0, hp_receive_offset = 0, hp_count = 2,
     hp_sends = [\<lparr>sc_slot = 0, sc_face = Xp, sc_dest = Xm, sc_offset = 0, sc_count = 1\<rparr>,
       \<lparr>sc_slot = 0, sc_face = Xm, sc_dest = Xp, sc_offset = 1, sc_count = 1\<rparr>],
     hp_receives = [\<lparr>sc_slot = 0, sc_face = Xm, sc_dest = Xm, sc_offset = 0, sc_count = 1\<rparr>,
       \<lparr>sc_slot = 0, sc_face = Xp, sc_dest = Xp, sc_offset = 1, sc_count = 1\<rparr>]\<rparr>]"

definition planned_chunks :: "halo_chunk list" where
  "planned_chunks = [\<lparr>hc_peer = 0, hc_offset = 0, hc_count = 2, hc_tag = 0\<rparr>]"

lemma planned_layout:
  assumes "q = 0 \<or> q = 1"
  shows "add_faces (mesh_patch_of two_ranks q) (hm_topology two_ranks) q one_field all_faces [] =
    Inr [\<lparr>hp_rank = 1 - q, hp_local = False, hp_send_offset = 0, hp_receive_offset = 0, hp_count = 0,
     hp_sends = [\<lparr>sc_slot = 0, sc_face = Xm, sc_dest = Xp, sc_offset = 0, sc_count = 1\<rparr>,
       \<lparr>sc_slot = 0, sc_face = Xp, sc_dest = Xm, sc_offset = 0, sc_count = 1\<rparr>],
     hp_receives = [\<lparr>sc_slot = 0, sc_face = Xm, sc_dest = Xm, sc_offset = 0, sc_count = 1\<rparr>,
       \<lparr>sc_slot = 0, sc_face = Xp, sc_dest = Xp, sc_offset = 0, sc_count = 1\<rparr>]\<rparr>]"
  using assms by (elim disjE; simp only:; code_simp)

lemma planned_cut: "cut_chunks maximum_chunk_doubles 1 0 2 0 0 = Some planned_chunks"
  by code_simp

lemma planned_sorted:
  assumes "q = 0 \<or> q = 1"
  shows "layout_peers maximum_chunk_doubles 1 one_field 0 (sort_key hp_rank (projr
      (add_faces (mesh_patch_of two_ranks q) (hm_topology two_ranks) q one_field all_faces []))) 0 0 =
    Inr (planned_peers q, planned_chunks, 2, 2)"
  using assms by (elim disjE; simp only:; code_simp)

definition planned :: "int \<Rightarrow> halo_data" where
  "planned q = (planned_input q)\<lparr>hd_peers := planned_peers q, hd_chunks := planned_chunks, hd_send := [0, 0], hd_receive := [0, 0],
     hd_requests := [Null_request, Null_request],
     hd_stats := \<lparr>ht_transport_peers = 1, ht_local_peers = 0, ht_requests = 2, ht_send_capacity = 2, ht_receive_capacity = 2,
       ht_maximum_messages = 1, ht_maximum_bytes = 16, ht_maximum_tag = 1\<rparr>\<rparr>"

lemma planned_specs: "halo_specs (planned_input q) = one_field"
  by (simp add: halo_specs_def planned_input_def one_field_def field_slot_of_def)

lemma planned_ok:
  assumes "q = 0 \<or> q = 1"
  shows "build_peers (planned_input q) = Inr (planned q)"
proof -
  have i: "hd_patch (planned_input q) = mesh_patch_of two_ranks q" "hd_topology (planned_input q) = hm_topology two_ranks"
    "hd_rank (planned_input q) = q" "hd_peers (planned_input q) = []" "hd_maximum_chunk (planned_input q) = maximum_chunk_doubles"
    "hd_maximum_tag (planned_input q) = 1"
    by (simp_all add: planned_input_def blank_halo_def)
  have n: "length (planned_chunks) = 1" "length (filter (\<lambda>p. \<not> hp_local p) (planned_peers q)) = 1" "length (planned_peers q) = 1"
    by (simp_all add: planned_chunks_def planned_peers_def)
  have m: "checked_multiply 2 8 = Some (16 :: u64)" by code_simp
  have two: "replicate (2 :: nat) 0 = [0, 0 :: u64]" "replicate (2 :: nat) Null_request = [Null_request, Null_request]"
    by code_simp+
  let ?c = "[\<lparr>hp_rank = 1 - q, hp_local = False, hp_send_offset = 0, hp_receive_offset = 0, hp_count = 0,
     hp_sends = [\<lparr>sc_slot = 0, sc_face = Xm, sc_dest = Xp, sc_offset = 0, sc_count = 1\<rparr>,
       \<lparr>sc_slot = 0, sc_face = Xp, sc_dest = Xm, sc_offset = 0, sc_count = 1\<rparr>],
     hp_receives = [\<lparr>sc_slot = 0, sc_face = Xm, sc_dest = Xm, sc_offset = 0, sc_count = 1\<rparr>,
       \<lparr>sc_slot = 0, sc_face = Xp, sc_dest = Xp, sc_offset = 0, sc_count = 1\<rparr>]\<rparr>]"
  have l: "layout_peers maximum_chunk_doubles 1 one_field 0 (sort_key hp_rank ?c) 0 0 = Inr (planned_peers q, planned_chunks, 2, 2)"
    using planned_sorted [OF assms] unfolding planned_layout [OF assms] sum.sel .
  show ?thesis
    unfolding build_peers_def i planned_specs planned_layout [OF assms] sum.case l prod.case n m option.case Let_def
    by (simp add: n two chunk_limit_def planned_def) (simp add: planned_input_def blank_halo_def)
qed

lemma planned_for: "q = 0 \<or> q = 1 \<Longrightarrow> plan_input two_ranks one_field maximum_chunk_doubles 1 q (planned_input q)"
  using planned_specs by (simp add: plan_input_def planned_input_def blank_halo_def)

lemma two_ranks_linked: "mesh_linked two_ranks" "mesh_ranks two_ranks = {0, 1}" "ordered_specs one_field"
proof -
  show "mesh_linked two_ranks"
    by (simp add: mesh_linked_def mesh_fits_def two_ranks_def positive3_def axis_of_def)
  show "mesh_ranks two_ranks = {0, 1}" by (auto simp: mesh_ranks_def grid_ranks_def two_ranks_def)
  show "ordered_specs one_field" by (simp add: ordered_specs_def one_field_def)
qed

section \<open>The property\<close>

text \<open>
  C7. The plans of two neighbouring ranks fit together: the sections one sends are the sections the other
  expects, in the same order and at the same offsets within the part of the peer, for the same fields,
  faces and numbers of doubles; and the messages agree in offset, length and tag, a tag being used once
  per peer. It holds when both neighbours along an axis are the same rank, and when a rank is its own.
\<close>

theorem halo_plans_reciprocal:
  assumes "mesh_linked w" "ordered_specs specs" "0 < unat c" "q \<in> mesh_ranks w"
    and "plan_input w specs c maximum_tag q dq" "build_peers dq = Inr q_plan"
    and "k < length (hd_peers q_plan)" "hp_rank (hd_peers q_plan ! k) = r"
    and "plan_input w specs c maximum_tag r dr" "build_peers dr = Inr r_plan"
  shows "\<exists>j < length (hd_peers r_plan). hp_rank (hd_peers r_plan ! j) = q \<and>
    (let p = hd_peers q_plan ! k; p' = hd_peers r_plan ! j in
      hp_count p' = hp_count p \<and> length (hp_receives p') = length (hp_sends p) \<and>
      (\<forall>i < length (hp_sends p). sc_slot (hp_receives p' ! i) = sc_slot (hp_sends p ! i) \<and>
        sc_face (hp_receives p' ! i) = opposite (sc_face (hp_sends p ! i)) \<and>
        sc_count (hp_receives p' ! i) = sc_count (hp_sends p ! i) \<and>
        unat (sc_offset (hp_receives p' ! i)) - unat (hp_receive_offset p') =
          unat (sc_offset (hp_sends p ! i)) - unat (hp_send_offset p)) \<and>
      messages_with r_plan q = messages_with q_plan r \<and> distinct (map (snd \<circ> snd) (messages_with q_plan r)))"
proof -
  have p: "plan_ok w specs c maximum_tag q q_plan" and e: "plan_ok w specs c maximum_tag r r_plan"
    using built_plan assms(2,5,6,9,10) by blast+
  obtain j where j: "r \<in> mesh_ranks w" "j < length (hd_peers r_plan)" "hp_rank (hd_peers r_plan ! j) = q"
    and c: "contents (hp_receives (hd_peers r_plan ! j)) = contents (hp_sends (hd_peers q_plan ! k))"
      "contents (hp_sends (hd_peers r_plan ! j)) = contents (hp_receives (hd_peers q_plan ! k))"
      "hp_count (hd_peers r_plan ! j) = hp_count (hd_peers q_plan ! k)"
    by (rule plan_back [OF assms(1,4) p assms(7,8) e])
  have l: "length (hp_receives (hd_peers r_plan ! j)) = length (hp_sends (hd_peers q_plan ! k))"
    using arg_cong [OF c(1), of length] by simp
  have "sc_slot (hp_receives (hd_peers r_plan ! j) ! i) = sc_slot (hp_sends (hd_peers q_plan ! k) ! i) \<and>
      sc_face (hp_receives (hd_peers r_plan ! j) ! i) = opposite (sc_face (hp_sends (hd_peers q_plan ! k) ! i)) \<and>
      sc_count (hp_receives (hd_peers r_plan ! j) ! i) = sc_count (hp_sends (hd_peers q_plan ! k) ! i) \<and>
      unat (sc_offset (hp_receives (hd_peers r_plan ! j) ! i)) - unat (hp_receive_offset (hd_peers r_plan ! j)) =
        unat (sc_offset (hp_sends (hd_peers q_plan ! k) ! i)) - unat (hp_send_offset (hd_peers q_plan ! k))"
    if i: "i < length (hp_sends (hd_peers q_plan ! k))" for i
  proof -
    have "contents (hp_receives (hd_peers r_plan ! j)) ! i = contents (hp_sends (hd_peers q_plan ! k)) ! i" by (simp add: c(1))
    then have "sc_slot (hp_receives (hd_peers r_plan ! j) ! i) = sc_slot (hp_sends (hd_peers q_plan ! k) ! i) \<and>
        sc_dest (hp_receives (hd_peers r_plan ! j) ! i) = sc_dest (hp_sends (hd_peers q_plan ! k) ! i) \<and>
        sc_count (hp_receives (hd_peers r_plan ! j) ! i) = sc_count (hp_sends (hd_peers q_plan ! k) ! i)"
      using i l by (simp add: contents_def)
    moreover have "counts_before (hp_receives (hd_peers r_plan ! j)) i = counts_before (hp_sends (hd_peers q_plan ! k)) i"
      by (simp add: counts_contents c(1))
    ultimately show ?thesis
      using plan_faces(2) [OF e j(2)] plan_faces(1) [OF p assms(7)] i l plan_offsets(2) [OF e j(2), of i]
        plan_offsets(1) [OF p assms(7), of i] plan_peerD(2) [OF p assms(7)] plan_peerD(3) [OF e j(2)]
      by simp
  qed
  moreover obtain cs where cs: "messages_with q_plan r = map (\<lambda>m. (hc_offset m, hc_count m, hc_tag m)) cs"
    "r \<noteq> q \<longrightarrow> chunks_ok (unat c) k (unat (hp_count (hd_peers q_plan ! k))) 0 0 cs" "r = q \<longrightarrow> cs = []"
    "set cs = {m \<in> set (hd_chunks q_plan). hc_peer m = k}"
    using plan_messages [OF p assms(3,7,8)] by blast
  moreover obtain ds where ds: "messages_with r_plan q = map (\<lambda>m. (hc_offset m, hc_count m, hc_tag m)) ds"
    "q \<noteq> r \<longrightarrow> chunks_ok (unat c) j (unat (hp_count (hd_peers r_plan ! j))) 0 0 ds" "q = r \<longrightarrow> ds = []"
    "set ds = {m \<in> set (hd_chunks r_plan). hc_peer m = j}"
    using plan_messages [OF e assms(3) j(2,3)] by blast
  moreover have "messages_with r_plan q = messages_with q_plan r \<and> distinct (map (snd \<circ> snd) (messages_with q_plan r))"
  proof (cases "r = q")
    case False
    then have a: "chunks_ok (unat c) k (unat (hp_count (hd_peers q_plan ! k))) 0 0 cs"
      "chunks_ok (unat c) j (unat (hp_count (hd_peers q_plan ! k))) 0 0 ds" using cs(2) ds(2) c(3) by simp_all
    have len: "length cs = length ds" by (rule cut_chunks_same [OF a assms(3)])
    have "(\<lambda>m. (hc_offset m, hc_count m, hc_tag m)) (ds ! i) = (\<lambda>m. (hc_offset m, hc_count m, hc_tag m)) (cs ! i)" if "i < length ds" for i
      using a that len by (simp add: chunks_ok_def word_unat_eq_iff)
    then have "messages_with r_plan q = messages_with q_plan r"
      unfolding cs(1) ds(1) using len by (intro nth_equalityI) simp_all
    moreover have "map (snd \<circ> snd) (messages_with q_plan r) = map int [0..<length cs]"
      unfolding cs(1) using a(1) by (intro nth_equalityI) (simp_all add: chunks_ok_def)
    ultimately show ?thesis by (simp add: distinct_map)
  qed (use cs ds in simp)
  ultimately show ?thesis using j l c(3) by (intro exI [of _ j]) (simp add: Let_def)
qed

theorem halo_plans_reciprocal_witness:
  "\<exists>j < length (hd_peers (planned 1)). hp_rank (hd_peers (planned 1) ! j) = 0 \<and>
    hp_count (hd_peers (planned 1) ! j) = hp_count (hd_peers (planned 0) ! 0) \<and>
    messages_with (planned 1) 0 = messages_with (planned 0) 1 \<and> length (messages_with (planned 0) 1) = 1"
proof -
  have l: "0 < length (hd_peers (planned 0))" "hp_rank (hd_peers (planned 0) ! 0) = 1" "length (messages_with (planned 0) 1) = 1"
    by code_simp+
  have c: "0 < unat maximum_chunk_doubles" by (simp add: maximum_chunk_doubles_def)
  have q: "0 \<in> mesh_ranks two_ranks" by (simp add: two_ranks_linked)
  from halo_plans_reciprocal [OF two_ranks_linked(1,3) c q planned_for planned_ok l(1,2) planned_for planned_ok] l(3)
  show ?thesis by (auto simp: Let_def)
qed

end
