(* ===== verification/Halo_Views.thy ===== *)
theory Halo_Views
  imports Halo_History
begin

text \<open>
  Binding the views of a call to the fields of the plan. \<^verbatim>\<open>begin\<close> and \<^verbatim>\<open>finish\<close> run the same loop and
  store the view in different places; when the loop succeeds every field has one of the views, accepted
  for it.
\<close>

section \<open>The contract of a binding\<close>

definition slot_key :: "field_slot \<Rightarrow> halo_spec \<times> field_view \<times> revision_token \<times> revision_token" where
  "slot_key f = (fs_spec f, fs_begin_view f, fs_pending_revision f, fs_ghost_revision f)"

text \<open>What a store may not change: everything but the bound views.\<close>

definition stay_part :: "halo_data \<Rightarrow> ((halo_peer list \<times> halo_chunk list \<times> nat \<times> nat \<times> nat) \<times> nat \<times> mesh_patch \<times> int \<times> int \<times>
    nat \<times> (field_id \<Rightarrow> int) \<times> halo_spec list) \<times> (halo_spec \<times> field_view \<times> revision_token \<times> revision_token) list \<times>
    halo_request list \<times> bool \<times> bool \<times> bool \<times> bool \<times> bool \<times> u64 list \<times> u64 list \<times> u64 \<times> u64" where
  "stay_part d = (frame_part d, map slot_key (hd_fields d), hd_requests d, hd_poisoned d, hd_exchange_active d,
     hd_requests_active d, hd_prepared_epoch d, hd_prepared_views_valid d, hd_send d, hd_receive d, hd_identity d, hd_generation d)"

definition visit_part :: "halo_data \<Rightarrow> (((halo_peer list \<times> halo_chunk list \<times> nat \<times> nat \<times> nat) \<times> nat \<times> mesh_patch \<times> int \<times> int \<times>
    nat \<times> (field_id \<Rightarrow> int) \<times> halo_spec list) \<times> (halo_spec \<times> field_view \<times> revision_token \<times> revision_token) list \<times>
    halo_request list \<times> bool \<times> bool \<times> bool \<times> bool \<times> bool \<times> u64 list \<times> u64 list \<times> u64 \<times> u64) \<times> u64" where
  "visit_part d = (stay_part d, hd_visit_generation d)"

locale view_binding =
  fixes accept :: "field_view \<Rightarrow> field_slot \<Rightarrow> mesh_patch \<Rightarrow> bool"
    and store :: "nat \<Rightarrow> field_view \<Rightarrow> halo_data \<Rightarrow> halo_data"
    and bound :: "nat \<Rightarrow> halo_data \<Rightarrow> field_view"
  assumes accept_key: "slot_key f = slot_key f' \<Longrightarrow> accept v f p = accept v f' p"
    and stored: "slot < length (hd_fields d) \<Longrightarrow> length (hd_candidate_views d) = length (hd_fields d) \<Longrightarrow>
      bound slot (store slot v d) = v"
    and kept: "slot < length (hd_fields d) \<Longrightarrow> other \<noteq> slot \<Longrightarrow> bound other (store slot v d) = bound other d"
    and marked: "slot < length (hd_fields d) \<Longrightarrow>
      bound other (d\<lparr>hd_fields := (hd_fields d)[slot := (hd_fields d ! slot)\<lparr>fs_seen_generation := g\<rparr>]\<rparr>) = bound other d"
    and frame: "slot < length (hd_fields d) \<Longrightarrow> visit_part (store slot v d) = visit_part d \<and>
      map fs_seen_generation (hd_fields (store slot v d)) = map fs_seen_generation (hd_fields d)"
begin

text \<open>The fields a visit has seen.\<close>

definition seen :: "halo_data \<Rightarrow> nat set" where
  "seen d = {k. k < length (hd_fields d) \<and> map fs_seen_generation (hd_fields d) ! k = hd_visit_generation d}"

definition lookup_ok :: "halo_data \<Rightarrow> bool" where
  "lookup_ok d \<longleftrightarrow> length (hd_candidate_views d) = length (hd_fields d) \<and>
     (\<forall>f. hd_lookup d f \<ge> 0 \<longrightarrow> nat (hd_lookup d f) < length (hd_fields d))"

lemma mark_part:
  fixes g :: u64
  assumes "slot < length (hd_fields d)"
  defines "e \<equiv> d\<lparr>hd_fields := (hd_fields d)[slot := (hd_fields d ! slot)\<lparr>fs_seen_generation := g\<rparr>]\<rparr>"
  shows "visit_part e = visit_part d \<and>
    map fs_seen_generation (hd_fields e) = (map fs_seen_generation (hd_fields d))[slot := g]"
proof -
  have "map slot_key (hd_fields e) = map slot_key (hd_fields d)" "map fs_spec (hd_fields e) = map fs_spec (hd_fields d)"
    using assms(1) by (simp_all add: e_def map_update list_update_same_conv slot_key_def)
  then show ?thesis by (simp add: e_def visit_part_def stay_part_def frame_part_def plan_part_def halo_specs_def map_update)
qed

lemma part_length: "visit_part d = visit_part e \<Longrightarrow> length (hd_fields d) = length (hd_fields e)"
  unfolding visit_part_def stay_part_def by (metis (no_types, lifting) length_map prod.inject)

lemma part_lookup: "visit_part d = visit_part e \<Longrightarrow> lookup_ok d = lookup_ok e"
  using part_length [of d e] by (simp add: lookup_ok_def visit_part_def stay_part_def frame_part_def)

lemma visit_step:
  assumes "lookup_ok d" "hd_lookup d (fv_field v) \<ge> 0"
  defines "slot \<equiv> nat (hd_lookup d (fv_field v))"
  defines "e \<equiv> store slot v (d\<lparr>hd_fields := (hd_fields d)[slot := (hd_fields d ! slot)\<lparr>fs_seen_generation := hd_visit_generation d\<rparr>]\<rparr>)"
  shows "slot < length (hd_fields d)" "visit_part e = visit_part d" "lookup_ok e" "seen e = insert slot (seen d)"
    "bound slot e = v" "\<And>k. k \<noteq> slot \<Longrightarrow> bound k e = bound k d"
    "map fs_seen_generation (hd_fields e) = (map fs_seen_generation (hd_fields d))[slot := hd_visit_generation d]"
proof -
  show s: "slot < length (hd_fields d)" using assms(1,2) by (simp add: lookup_ok_def slot_def)
  define m where "m = d\<lparr>hd_fields := (hd_fields d)[slot := (hd_fields d ! slot)\<lparr>fs_seen_generation := hd_visit_generation d\<rparr>]\<rparr>"
  note mp = mark_part [OF s, of "hd_visit_generation d", folded m_def]
  have l: "length (hd_fields m) = length (hd_fields d)" by (simp add: m_def)
  have e: "e = store slot v m" by (simp add: e_def m_def)
  have f: "visit_part e = visit_part m" "map fs_seen_generation (hd_fields e) = map fs_seen_generation (hd_fields m)"
    unfolding e using frame [of slot m v] s l by simp_all
  then show part: "visit_part e = visit_part d" using mp by simp
  show lk: "lookup_ok e" using part_lookup [OF part] assms(1) by simp
  show g: "map fs_seen_generation (hd_fields e) = (map fs_seen_generation (hd_fields d))[slot := hd_visit_generation d]"
    using f mp by simp
  have v: "hd_visit_generation e = hd_visit_generation d" "length (hd_fields e) = length (hd_fields d)"
    using part part_length [OF part] by (simp_all add: visit_part_def stay_part_def)
  show "seen e = insert slot (seen d)" using s unfolding seen_def g v by (auto simp: nth_list_update)
  show "bound slot e = v" unfolding e using s l assms(1) by (intro stored) (simp_all add: m_def lookup_ok_def)
  show "bound k e = bound k d" if "k \<noteq> slot" for k
    using kept [of slot m k v] marked [OF s, of k] that s l by (simp add: e m_def)
qed

lemma visit_frame:
  "visit_views accept store vs d = (st, e) \<Longrightarrow> lookup_ok d \<Longrightarrow> visit_part e = visit_part d \<and>
    (\<forall>x \<in> set (map fs_seen_generation (hd_fields e)). x \<in> set (map fs_seen_generation (hd_fields d)) \<or> x = hd_visit_generation d)"
proof (induction vs arbitrary: d)
  case (Cons v vs)
  let ?slot = "nat (hd_lookup d (fv_field v))"
  let ?m = "store ?slot v (d\<lparr>hd_fields := (hd_fields d)[?slot := (hd_fields d ! ?slot)\<lparr>fs_seen_generation := hd_visit_generation d\<rparr>]\<rparr>)"
  show ?case
  proof (cases "e = d")
    case False
    then have l: "hd_lookup d (fv_field v) \<ge> 0" and r: "visit_views accept store vs ?m = (st, e)"
      using Cons.prems(1) by (auto simp: Let_def split: if_splits)
    note s = visit_step [OF Cons.prems(2) l]
    have vg: "hd_visit_generation ?m = hd_visit_generation d" using s(2) by (simp add: visit_part_def stay_part_def)
    note ih = Cons.IH [OF r s(3)]
    have "x \<in> set (map fs_seen_generation (hd_fields d)) \<or> x = hd_visit_generation d"
      if "x \<in> set (map fs_seen_generation (hd_fields e))" for x
    proof -
      have "x \<in> set (map fs_seen_generation (hd_fields ?m)) \<or> x = hd_visit_generation d" using ih that vg by blast
      then show ?thesis using s(7) set_update_subset_insert by (metis insertE subsetD)
    qed
    moreover have "visit_part e = visit_part d" using ih s(2) by simp
    ultimately show ?thesis by blast
  qed simp
qed simp

lemma visit_success:
  assumes "visit_views accept store vs d = (st, e)" "is_ok st" "lookup_ok d"
  shows "card (seen e) = card (seen d) + length vs \<and> seen d \<subseteq> seen e \<and> (\<forall>k \<in> seen d. bound k e = bound k d) \<and>
    (\<forall>k \<in> seen e - seen d. bound k e \<in> set vs \<and> accept (bound k e) (hd_fields d ! k) (hd_patch d))"
  using assms
proof (induction vs arbitrary: d)
  case (Cons v vs)
  let ?slot = "nat (hd_lookup d (fv_field v))"
  let ?m = "store ?slot v (d\<lparr>hd_fields := (hd_fields d)[?slot := (hd_fields d ! ?slot)\<lparr>fs_seen_generation := hd_visit_generation d\<rparr>]\<rparr>)"
  have l: "hd_lookup d (fv_field v) \<ge> 0" and n: "fs_seen_generation (hd_fields d ! ?slot) \<noteq> hd_visit_generation d"
    and a: "accept v (hd_fields d ! ?slot) (hd_patch d)" and r: "visit_views accept store vs ?m = (st, e)"
    using Cons.prems(1,2) by (auto simp: Let_def split: if_splits)
  note s = visit_step [OF Cons.prems(3) l]
  have new: "?slot \<notin> seen d" using n s(1) by (simp add: seen_def)
  have fin: "finite (seen d)" by (simp add: seen_def)
  have part: "hd_patch ?m = hd_patch d" "map slot_key (hd_fields ?m) = map slot_key (hd_fields d)"
    "length (hd_fields ?m) = length (hd_fields d)"
    using s(2) part_length [OF s(2)] by (simp_all add: visit_part_def stay_part_def frame_part_def)
  have acc: "accept u (hd_fields ?m ! k) p = accept u (hd_fields d ! k) p" if "k < length (hd_fields d)" for u k p
    using arg_cong [OF part(2), of "\<lambda>xs. xs ! k"] that part(3) by (intro accept_key) simp
  note ih = Cons.IH [OF r Cons.prems(2) s(3)]
  have "\<forall>k \<in> seen e - seen d. bound k e \<in> set (v # vs) \<and> accept (bound k e) (hd_fields d ! k) (hd_patch d)"
  proof
    fix k assume k: "k \<in> seen e - seen d"
    show "bound k e \<in> set (v # vs) \<and> accept (bound k e) (hd_fields d ! k) (hd_patch d)"
    proof (cases "k = ?slot")
      case True
      then have "bound k e = v" using ih s(4,5) by auto
      then show ?thesis using a True by simp
    next
      case False
      then have "k \<in> seen e - seen ?m" using k s(4) by auto
      moreover have "k < length (hd_fields d)"
      proof -
        have "visit_part e = visit_part ?m" using visit_frame [OF r s(3)] by simp
        then have "length (hd_fields e) = length (hd_fields d)" using part_length part(3) by metis
        then show ?thesis using k by (simp add: seen_def)
      qed
      moreover have "bound k e \<in> set vs \<and> accept (bound k e) (hd_fields ?m ! k) (hd_patch ?m)" using ih \<open>k \<in> seen e - seen ?m\<close> by blast
      ultimately show ?thesis using acc [of k "bound k e" "hd_patch d"] unfolding part(1) by simp
    qed
  qed
  moreover have "card (seen e) = card (seen d) + length (v # vs)" using ih s(4) new fin by simp
  moreover have "seen d \<subseteq> seen e" using ih s(4) by blast
  moreover have "\<forall>k \<in> seen d. bound k e = bound k d"
  proof
    fix k assume k: "k \<in> seen d"
    then have "k \<noteq> ?slot" using new by blast
    then show "bound k e = bound k d" using ih s(4,6) k by simp
  qed
  ultimately show ?case by blast
qed simp

text \<open>As many views as fields, none seen before: every field gets one.\<close>

lemma visit_all:
  assumes "visit_views accept store vs d = (st, e)" "is_ok st" "lookup_ok d" "seen d = {}" "length vs = length (hd_fields d)"
  shows "\<forall>k < length (hd_fields d). bound k e \<in> set vs \<and> accept (bound k e) (hd_fields d ! k) (hd_patch d)"
proof -
  note s = visit_success [OF assms(1-3)]
  have "length (hd_fields e) = length (hd_fields d)" using visit_frame [OF assms(1,3)] part_length by blast
  then have "seen e \<subseteq> {..< length (hd_fields d)}" by (auto simp: seen_def)
  moreover have "card (seen e) = card {..< length (hd_fields d)}" using s assms(4,5) by simp
  ultimately have "seen e = {..< length (hd_fields d)}" by (intro card_subset_eq) simp_all
  then show ?thesis using s assms(4) by simp
qed

end

section \<open>The two bindings\<close>

interpretation begins: view_binding accept_begin store_begin "\<lambda>k d. hd_candidate_views d ! k"
proof (unfold_locales, goal_cases)
  case (1 f f' v p)
  then show ?case by (simp add: accept_begin_def slot_key_def)
qed (simp_all add: store_begin_def visit_part_def stay_part_def frame_part_def plan_part_def halo_specs_def)

interpretation finishes: view_binding accept_finish store_finish "\<lambda>k d. fs_finish_view (hd_fields d ! k)"
proof (unfold_locales, goal_cases)
  case (1 f f' v p)
  then show ?case by (simp add: accept_finish_def slot_key_def)
next
  case (4 slot d other g)
  then show ?case by (cases "other = slot") simp_all
next
  case (5 slot d v)
  then have "map slot_key ((hd_fields d)[slot := (hd_fields d ! slot)\<lparr>fs_finish_view := v\<rparr>]) = map slot_key (hd_fields d)"
    "map fs_spec ((hd_fields d)[slot := (hd_fields d ! slot)\<lparr>fs_finish_view := v\<rparr>]) = map fs_spec (hd_fields d)"
    "map fs_seen_generation ((hd_fields d)[slot := (hd_fields d ! slot)\<lparr>fs_finish_view := v\<rparr>]) = map fs_seen_generation (hd_fields d)"
    by (simp_all add: map_update list_update_same_conv slot_key_def)
  then show ?case by (simp add: store_finish_def visit_part_def stay_part_def frame_part_def plan_part_def halo_specs_def)
qed (simp_all add: store_finish_def)

end
