(* ===== verification/Halo_Transfer.thy ===== *)
theory Halo_Transfer
  imports Halo_Views
begin

text \<open>
  What travels: packing writes every section at its place in the send storage, a message carries a part
  of a peer, and the receive storage ends up with the sections the neighbours packed.
\<close>

section \<open>Sections of a plan\<close>

lemma split_within:
  assumes "0 < p" "p \<le> n" "0 \<le> k" "k < p"
  shows "0 < snd (split_axis n p k) \<and> snd (split_axis n p k) \<le> n"
proof -
  let ?b = "fst (split_axis n p k)" and ?c = "snd (split_axis n p k)"
  have c: "0 < ?c" using assms(1-3) by (rule split_axis_count)
  then have "in_part n p k ?b" "in_part n p k (?b + ?c - 1)" by (simp_all add: in_part_def Let_def split_beta)
  then have "0 \<le> ?b" "?b + ?c - 1 < n"
    using in_part_bounds [of p n k ?b] in_part_bounds [of p n k "?b + ?c - 1"] assms by simp_all
  with c show ?thesis by simp
qed

lemma patch_small:
  assumes "mesh_linked w" "small3 (hm_cells w)" "q \<in> mesh_ranks w"
  shows "small3 (mp_cells (mesh_patch_of w q))"
proof -
  have g: "positive3 (hm_grid w)" and f: "\<And>k. k < 3 \<Longrightarrow> axis_of k (hm_grid w) \<le> axis_of k (hm_cells w)"
    using assms(1) by (simp_all add: mesh_linked_def mesh_fits_def)
  have c: "in_box origin (hm_grid w) (coord_of (hm_grid w) q)"
    using coord_in_grid [OF g] assms(3) by (simp add: mesh_ranks_def grid_ranks_def)
  have s: "0 < axis_of k (mp_cells (mesh_patch_of w q)) \<and> axis_of k (mp_cells (mesh_patch_of w q)) \<le> axis_of k (hm_cells w)" if k: "k < 3" for k
    using split_within [OF axis_positive [OF g] f [OF k]] c k
    by (simp add: mesh_patch_of_def patch_axes in_box_axes)
  show ?thesis using s [of 0] s [of 1] s [of 2] assms(2) by (simp add: small3_def positive3_def axis_of_def)
qed

lemma plan_section:
  assumes "plan_ok w specs c maximum_tag q d" "mesh_linked w" "small3 (hm_cells w)" "q \<in> mesh_ranks w"
    and k: "k < length (hd_peers d)"
  shows "s \<in> set (hp_sends (hd_peers d ! k)) \<Longrightarrow> sc_slot s < length specs \<and> mesh_neighbor w q (sc_face s) = Some (hp_rank (hd_peers d ! k)) \<and>
      unat (sc_count s) = section_volume (mp_cells (mesh_patch_of w q)) (specs ! sc_slot s) (sc_face s)"
    and "s \<in> set (hp_receives (hd_peers d ! k)) \<Longrightarrow> sc_slot s < length specs \<and> mesh_neighbor w q (sc_face s) = Some (hp_rank (hd_peers d ! k)) \<and>
      unat (sc_count s) = section_volume (mp_cells (mesh_patch_of w q)) (specs ! sc_slot s) (sc_face s)"
proof -
  let ?r = "hp_rank (hd_peers d ! k)"
  have sizes: "\<forall>f. mesh_neighbor w q f \<noteq> None \<longrightarrow> (\<forall>s \<in> set specs. \<exists>n. section_size (mesh_patch_of w q) s f = Inr n)"
    using assms(1) unfolding plan_ok_def by (elim conjE)
  have amount: "unat (mesh_amount w q (specs ! j) f) = section_volume (mp_cells (mesh_patch_of w q)) (specs ! j) f"
    if nj: "mesh_neighbor w q f = Some ?r" "j < length specs" for j f
  proof -
    obtain n where n: "section_size (mesh_patch_of w q) (specs ! j) f = Inr n"
      using sizes [rule_format, of f "specs ! j"] nj nth_mem [OF nj(2)] by auto
    show ?thesis using section_size_InrD [OF patch_small [OF assms(2-4)] n] n by (simp add: mesh_amount_def)
  qed
  note con = plan_contents [OF assms(1) k]
  have part: "(j, g, m) \<in> set (mesh.parcel w specs q f e) \<Longrightarrow> j < length specs \<and> g = e \<and> m = mesh_amount w q (specs ! j) f" for j g m f e
    by (auto simp: mesh.parcel_def)
  {
    assume s: "s \<in> set (hp_sends (hd_peers d ! k))"
    then obtain j where j: "j < length (hp_sends (hd_peers d ! k))" "s = hp_sends (hd_peers d ! k) ! j" by (auto simp: in_set_conv_nth)
    have f: "sc_face s = opposite (sc_dest s)" using plan_faces(1) [OF assms(1) k j(1)] j(2) by simp
    have "(sc_slot s, sc_dest s, sc_count s) \<in> set (contents (hp_sends (hd_peers d ! k)))" using s by (auto simp: contents_def)
    then have "(sc_slot s, sc_dest s, sc_count s) \<in> set (mesh.outgoing w specs q ?r)" by (simp only: con)
    then obtain e where e: "mesh_neighbor w q (opposite e) = Some ?r" "(sc_slot s, sc_dest s, sc_count s) \<in> set (mesh.parcel w specs q (opposite e) e)"
      by (auto simp: mesh.outgoing_def split: if_splits)
    show "sc_slot s < length specs \<and> mesh_neighbor w q (sc_face s) = Some ?r \<and>
      unat (sc_count s) = section_volume (mp_cells (mesh_patch_of w q)) (specs ! sc_slot s) (sc_face s)"
      using part [OF e(2)] e(1) amount [OF e(1)] f by simp
  next
    assume s: "s \<in> set (hp_receives (hd_peers d ! k))"
    then obtain j where j: "j < length (hp_receives (hd_peers d ! k))" "s = hp_receives (hd_peers d ! k) ! j" by (auto simp: in_set_conv_nth)
    have f: "sc_face s = sc_dest s" using plan_faces(2) [OF assms(1) k j(1)] j(2) by simp
    have "(sc_slot s, sc_dest s, sc_count s) \<in> set (contents (hp_receives (hd_peers d ! k)))" using s by (auto simp: contents_def)
    then have "(sc_slot s, sc_dest s, sc_count s) \<in> set (mesh.incoming w specs q ?r)" by (simp only: con)
    then obtain e where e: "mesh_neighbor w q e = Some ?r" "(sc_slot s, sc_dest s, sc_count s) \<in> set (mesh.parcel w specs q e e)"
      by (auto simp: mesh.incoming_def split: if_splits)
    show "sc_slot s < length specs \<and> mesh_neighbor w q (sc_face s) = Some ?r \<and>
      unat (sc_count s) = section_volume (mp_cells (mesh_patch_of w q)) (specs ! sc_slot s) (sc_face s)"
      using part [OF e(2)] e(1) amount [OF e(1)] f by simp
  }
qed

section \<open>Packing\<close>

lemma section_key_specs: "j < length specs \<Longrightarrow> halo_specs d = specs \<Longrightarrow> fs_spec (hd_fields d ! j) = specs ! j"
  by (auto simp: halo_specs_def)

lemma peers_before_Suc: "k < length ps \<Longrightarrow> peers_before ps (Suc k) = peers_before ps k + unat (hp_count (ps ! k))"
  by (simp add: peers_before_def take_Suc_conv_app_nth)

lemma peers_before_mono: "i \<le> j \<Longrightarrow> peers_before ps i \<le> peers_before ps j"
proof -
  assume "i \<le> j"
  then have "take j ps = take i ps @ take (j - i) (drop i ps)" by (metis le_add_diff_inverse take_add)
  then show ?thesis by (simp add: peers_before_def)
qed

lemma counts_before_take: "counts_before ss j = sum_list (map (unat \<circ> sc_count) (take j ss))"
  by (simp add: counts_before_def)

lemma length_pack: "length (pack_section v s f m) = section_volume (fv_interior v) s f"
  by (simp add: pack_section_def length_section)

text \<open>Views whose interior is the patch.\<close>

definition fits_patch :: "halo_data \<Rightarrow> bool" where
  "fits_patch d \<longleftrightarrow> (\<forall>k < length (hd_fields d). fv_interior (hd_candidate_views d ! k) = mp_cells (hd_patch d))"

lemma packed:
  assumes p: "plan_ok w specs c maximum_tag q d" and w: "mesh_linked w" "small3 (hm_cells w)" "q \<in> mesh_ranks w"
    and f: "fits_patch d" and d: "halo_specs d = specs" "hd_patch d = mesh_patch_of w q"
  shows "length (hd_send (pack_peers m d)) = length (hd_send d) \<and>
    (\<forall>k < length (hd_peers d). \<forall>s \<in> set (hp_sends (hd_peers d ! k)).
      block (hd_send (pack_peers m d)) (unat (sc_offset s)) (unat (sc_count s)) =
        pack_section (hd_candidate_views d ! sc_slot s) (specs ! sc_slot s) (sc_face s) m)"
proof -
  let ?ps = "hd_peers d"
  define part where "part = (\<lambda>s :: halo_section. (unat (sc_offset s), pack_section (hd_candidate_views d ! sc_slot s) (fs_spec (hd_fields d ! sc_slot s)) (sc_face s) m))"
  define bss where "bss = map (\<lambda>p. map part (hp_sends p)) ?ps"
  have len: "length (hd_fields d) = length specs" using d(1) by (auto simp: halo_specs_def)
  have part: "fst (part s) = unat (sc_offset s)" "length (snd (part s)) = unat (sc_count s)"
    "snd (part s) = pack_section (hd_candidate_views d ! sc_slot s) (specs ! sc_slot s) (sc_face s) m"
    if "k < length ?ps" "s \<in> set (hp_sends (?ps ! k))" for k s
  proof -
    note s = plan_section(1) [OF p w that]
    show "fst (part s) = unat (sc_offset s)" by (simp add: part_def)
    show e: "snd (part s) = pack_section (hd_candidate_views d ! sc_slot s) (specs ! sc_slot s) (sc_face s) m"
      using s section_key_specs [OF _ d(1)] by (simp add: part_def)
    have "fv_interior (hd_candidate_views d ! sc_slot s) = mp_cells (mesh_patch_of w q)"
      using f s len d(2) by (simp add: fits_patch_def)
    then show "length (snd (part s)) = unat (sc_count s)" unfolding e using s by (simp add: length_pack)
  qed
  have sizes: "map (length \<circ> snd) (map part ss) = map (unat \<circ> sc_count) ss" if "k < length ?ps" "set ss \<subseteq> set (hp_sends (?ps ! k))" for k ss
    using part(2) [OF that(1)] that(2) by auto
  have "stacked (peers_before ?ps k) (bss ! k) \<and> peers_before ?ps (Suc k) = peers_before ?ps k + stack_size (bss ! k)"
    if k: "k < length bss" for k
  proof -
    have k': "k < length ?ps" using k by (simp add: bss_def)
    let ?ss = "hp_sends (?ps ! k)"
    have b: "bss ! k = map part ?ss" using k' by (simp add: bss_def)
    have "fst (bss ! k ! j) = peers_before ?ps k + sum_list (map (length \<circ> snd) (take j (bss ! k)))" if "j < length (bss ! k)" for j
    proof -
      have j: "j < length ?ss" using that b by simp
      have "map (length \<circ> snd) (map part (take j ?ss)) = map (unat \<circ> sc_count) (take j ?ss)"
        by (rule sizes [OF k']) (rule set_take_subset)
      then have "sum_list (map (length \<circ> snd) (take j (bss ! k))) = counts_before ?ss j"
        unfolding b take_map counts_before_take by (rule arg_cong)
      then show ?thesis using plan_offsets(1) [OF p k' j] j part(1) [OF k'] unfolding b by simp
    qed
    then have "stacked (peers_before ?ps k) (bss ! k)" by (intro stacked_offsets) blast
    moreover have "stack_size (bss ! k) = unat (hp_count (?ps ! k))"
      using arg_cong [OF sizes [OF k' order_refl], of sum_list] plan_peerD(6) [OF p k']
      unfolding b stack_size_def counts_before_take take_all [OF order_refl] by simp
    ultimately show ?thesis using peers_before_Suc [OF k'] by simp
  qed
  then have st: "stacked 0 (concat bss)" "peers_before ?ps (length bss) = stack_size (concat bss)"
    using stacked_concat [of bss "peers_before ?ps"] by simp_all
  have "length (hd_send d) = peers_before ?ps (length ?ps)" using p unfolding plan_ok_def by blast
  then have fit: "0 + stack_size (concat bss) \<le> length (hd_send d)" using st(2) by (simp add: bss_def)
  have sb: "send_blocks m d = concat bss" by (simp add: send_blocks_def bss_def part_def)
  note wr = write_stacked [OF st(1) fit]
  have "block (hd_send (pack_peers m d)) (unat (sc_offset s)) (unat (sc_count s)) =
        pack_section (hd_candidate_views d ! sc_slot s) (specs ! sc_slot s) (sc_face s) m"
    if "k < length ?ps" "s \<in> set (hp_sends (?ps ! k))" for k s
  proof -
    have "part s \<in> set (concat bss)" using that by (fastforce simp: bss_def in_set_conv_nth)
    then have "block (write_blocks (concat bss) (hd_send d)) (fst (part s)) (length (snd (part s))) = snd (part s)"
      using wr by (cases "part s") auto
    then show ?thesis using part [OF that] by (simp add: pack_peers_def sb)
  qed
  then show ?thesis using wr by (simp add: pack_peers_def sb)
qed

section \<open>Delivery\<close>

text \<open>
  What MPI documents of a matched pair of requests: what the sender has at the place of its request, the
  receiver finds at the place of its own.
\<close>

definition delivers :: "halo_request list \<Rightarrow> u64 list \<Rightarrow> halo_request list \<Rightarrow> u64 list \<Rightarrow> int \<Rightarrow> int \<Rightarrow> bool" where
  "delivers sending sent receiving received q r \<longleftrightarrow>
     (\<forall>x \<in> set receiving. \<forall>y \<in> set sending. case (x, y) of
        (Receive_request position amount source tag, Send_request position' amount' target tag') \<Rightarrow>
          source = q \<and> target = r \<and> tag' = tag \<and> amount' \<le> amount \<longrightarrow>
          block received position (nat amount') = block sent position' (nat amount')
      | _ \<Rightarrow> True)"

lemma request_positions:
  assumes p: "plan_ok w specs c maximum_tag q d" and k: "k < length (hd_peers d)" and h: "hc_peer h = k"
    and o: "unat (hc_offset h) < unat (hp_count (hd_peers d ! k))"
  shows "receive_request d h = Receive_request (peers_before (hd_peers d) k + unat (hc_offset h)) (hc_count h) (hp_rank (hd_peers d ! k)) (hc_tag h)"
    and "send_request d h = Send_request (peers_before (hd_peers d) k + unat (hc_offset h)) (hc_count h) (hp_rank (hd_peers d ! k)) (hc_tag h)"
    and "peers_before (hd_peers d) (Suc k) \<le> peers_before (hd_peers d) (length (hd_peers d))"
proof -
  show le: "peers_before (hd_peers d) (Suc k) \<le> peers_before (hd_peers d) (length (hd_peers d))"
    using k by (intro peers_before_mono) simp
  have "peers_before (hd_peers d) (length (hd_peers d)) < 2 ^ 64" using p unfolding plan_ok_def by metis
  then have small: "peers_before (hd_peers d) k + unat (hc_offset h) < 2 ^ 64" using le o peers_before_Suc [OF k] by simp
  have "unat (a + b) = unat a + unat b" if "unat a + unat b < 2 ^ 64" for a b :: u64
    using that by (simp add: unat_word_ariths)
  then show "receive_request d h = Receive_request (peers_before (hd_peers d) k + unat (hc_offset h)) (hc_count h) (hp_rank (hd_peers d ! k)) (hc_tag h)"
    "send_request d h = Send_request (peers_before (hd_peers d) k + unat (hc_offset h)) (hc_count h) (hp_rank (hd_peers d ! k)) (hc_tag h)"
    using plan_peerD(2,3) [OF p k] small h by (simp_all add: receive_request_def send_request_def)
qed

text \<open>The part of a neighbour arrives whole.\<close>

lemma remote_part:
  assumes p: "plan_ok w specs c maximum_tag r d" and e: "plan_ok w specs c tag' q e" and c: "0 < unat c"
    and rd: "requests_ok d" and re: "requests_ok e" and ne: "q \<noteq> r"
    and k: "k < length (hd_peers d)" "hp_rank (hd_peers d ! k) = q" and j: "j < length (hd_peers e)" "hp_rank (hd_peers e ! j) = r"
    and n: "hp_count (hd_peers e ! j) = hp_count (hd_peers d ! k)"
    and t: "delivers (hd_requests e) sent (hd_requests d) received q r"
    and l: "length received = length (hd_receive d)" "length sent = length (hd_send e)"
  defines "whole \<equiv> unat (hp_count (hd_peers d ! k))"
  shows "block received (peers_before (hd_peers d) k) whole = block sent (peers_before (hd_peers e) j) whole"
proof -
  let ?a = "peers_before (hd_peers d) k" and ?b = "peers_before (hd_peers e) j"
  obtain cs where cs: "chunks_ok (unat c) k whole 0 0 cs" "set cs = {m \<in> set (hd_chunks d). hc_peer m = k}"
    using plan_messages [OF p c k] ne unfolding whole_def by metis
  obtain ds where ds: "chunks_ok (unat c) j whole 0 0 ds" "set ds = {m \<in> set (hd_chunks e). hc_peer m = j}"
    using plan_messages [OF e c j] ne n unfolding whole_def by metis
  have same: "length cs = length ds" by (rule cut_chunks_same [OF cs(1) ds(1) c])
  have ra: "?a + whole \<le> length received"
  proof -
    have "length (hd_receive d) = peers_before (hd_peers d) (length (hd_peers d))" using p unfolding plan_ok_def by (elim conjE)
    moreover have "peers_before (hd_peers d) (Suc k) \<le> peers_before (hd_peers d) (length (hd_peers d))"
      using k(1) by (intro peers_before_mono) simp
    ultimately show ?thesis using peers_before_Suc [OF k(1)] l(1) by (simp add: whole_def)
  qed
  have sb: "?b + whole \<le> length sent"
  proof -
    have "length (hd_send e) = peers_before (hd_peers e) (length (hd_peers e))" using e unfolding plan_ok_def by (elim conjE)
    moreover have "peers_before (hd_peers e) (Suc j) \<le> peers_before (hd_peers e) (length (hd_peers e))"
      using j(1) by (intro peers_before_mono) simp
    ultimately show ?thesis using peers_before_Suc [OF j(1)] l(2) n by (simp add: whole_def)
  qed
  show ?thesis
  proof (rule nth_equalityI)
    show "length (block received ?a whole) = length (block sent ?b whole)" using ra sb by (simp add: length_block)
  next
    fix x assume "x < length (block received ?a whole)"
    then have x: "x < whole" using ra by (simp add: length_block)
    obtain i where i: "i < length cs" "i * unat c \<le> x" "x < i * unat c + nat (hc_count (cs ! i))"
      using chunks_cover [OF cs(1) x c] by blast
    let ?h = "cs ! i" and ?g = "ds ! i" and ?o = "i * unat c" and ?m = "nat (hc_count (cs ! i))"
    have h: "?h \<in> set (hd_chunks d)" "hc_peer ?h = k" using cs(2) nth_mem [OF i(1)] by auto
    have g: "?g \<in> set (hd_chunks e)" "hc_peer ?g = j" using ds(2) nth_mem [of i ds] i(1) same by auto
    have f: "unat (hc_offset ?h) = ?o" "unat (hc_offset ?g) = ?o" "?o < whole" "hc_count ?g = hc_count ?h" "hc_tag ?g = hc_tag ?h"
      "?o + ?m \<le> whole" "0 \<le> hc_count ?h"
      using cs(1) ds(1) i(1) same unfolding chunks_ok_def by auto
    note rh = request_positions(1) [OF p k(1) h(2)] and sg = request_positions(2) [OF e j(1) g(2)]
    have "receive_request d ?h \<in> set (hd_requests d)" "send_request e ?g \<in> set (hd_requests e)"
      using rd re h g by (simp_all add: requests_ok_def)
    then have "block received (?a + ?o) ?m = block sent (?b + ?o) ?m"
      using t rh sg f k(2) j(2) n unfolding delivers_def whole_def by fastforce
    then have "block received (?a + ?o) ?m ! (x - ?o) = block sent (?b + ?o) ?m ! (x - ?o)" by simp
    then show "block received ?a whole ! x = block sent ?b whole ! x"
      using ra sb x i f(6) by (simp add: nth_block)
  qed
qed

end
