(* ===== verification/Halo_Delivery.thy ===== *)
theory Halo_Delivery
  imports Halo_Transfer
begin

text \<open>The receive storage before unpacking: every section holds what the neighbour packed for it.\<close>

section \<open>A rank that is its own neighbour\<close>

lemma plan_storage:
  assumes p: "plan_ok w specs c maximum_tag q d" and k: "k < length (hd_peers d)"
  shows "peers_before (hd_peers d) k + unat (hp_count (hd_peers d ! k)) \<le> length (hd_send d)"
    "length (hd_receive d) = length (hd_send d)"
proof -
  have l: "length (hd_send d) = peers_before (hd_peers d) (length (hd_peers d))"
    "length (hd_receive d) = peers_before (hd_peers d) (length (hd_peers d))" 
    using p unfolding plan_ok_def by simp_all
  then show "length (hd_receive d) = length (hd_send d)" by simp
  have "peers_before (hd_peers d) (Suc k) \<le> peers_before (hd_peers d) (length (hd_peers d))"
    using k by (intro peers_before_mono) simp
  then show "peers_before (hd_peers d) k + unat (hp_count (hd_peers d ! k)) \<le> length (hd_send d)"
    using peers_before_Suc [OF k] l by simp
qed

lemma parts_apart:
  assumes "i < j" "j < length ps"
  shows "peers_before ps i + unat (hp_count (ps ! i)) \<le> peers_before ps j"
  using peers_before_Suc [of i ps] peers_before_mono [of "Suc i" j ps] assms by simp

lemma copied:
  assumes p: "plan_ok w specs c maximum_tag q d" and r: "length received = length (hd_receive d)"
  defines "after \<equiv> hd_receive (copy_local_peers (d\<lparr>hd_receive := received\<rparr>))"
  shows "length after = length received"
    and "k < length (hd_peers d) \<Longrightarrow> block after (peers_before (hd_peers d) k) (unat (hp_count (hd_peers d ! k))) =
      block (if hp_local (hd_peers d ! k) then hd_send d else received) (peers_before (hd_peers d) k) (unat (hp_count (hd_peers d ! k)))"
proof -
  let ?ps = "hd_peers d"
  define part where "part = (\<lambda>p :: halo_peer. (unat (hp_receive_offset p), block (hd_send d) (unat (hp_send_offset p)) (unat (hp_count p))))"
  define bs where "bs = map part (filter (\<lambda>p. hp_local p \<and> hp_count p \<noteq> 0) ?ps)"
  have lb: "local_blocks (d\<lparr>hd_receive := received\<rparr>) = bs" by (simp add: local_blocks_def bs_def part_def)
  have part: "fst (part (?ps ! k)) = peers_before ?ps k" "length (snd (part (?ps ! k))) = unat (hp_count (?ps ! k))"
    "snd (part (?ps ! k)) = block (hd_send d) (peers_before ?ps k) (unat (hp_count (?ps ! k)))" if k: "k < length ?ps" for k
    using plan_peerD(2,3) [OF p k] plan_storage(1) [OF p k] by (simp_all add: part_def length_block)
  have "sorted_wrt (\<lambda>a b. fst (part a) + length (snd (part a)) \<le> fst (part b)) ?ps"
    unfolding sorted_wrt_iff_nth_less using part parts_apart by auto
  then have o: "in_order bs" by (simp add: in_order_def bs_def sorted_wrt_map sorted_wrt_filter)
  have from_peer: "\<exists>i < length ?ps. b = part (?ps ! i) \<and> hp_local (?ps ! i)" if "b \<in> set bs" for b
    using that by (auto simp: bs_def in_set_conv_nth)
  have inside: "\<forall>(position, ws) \<in> set bs. position + length ws \<le> length received"
  proof (rule ballI)
    fix b assume "b \<in> set bs"
    then obtain i where "i < length ?ps" "b = part (?ps ! i)" using from_peer by blast
    then show "case b of (position, ws) \<Rightarrow> position + length ws \<le> length received"
      using part plan_storage [OF p] r by (simp add: split_beta)
  qed
  have after: "after = write_blocks bs received" by (simp add: after_def copy_local_peers_def lb)
  show "length after = length received" unfolding after by (rule write_blocks_keeps(1) [OF inside])
  assume k: "k < length ?ps"
  show "block after (peers_before ?ps k) (unat (hp_count (?ps ! k))) =
      block (if hp_local (?ps ! k) then hd_send d else received) (peers_before ?ps k) (unat (hp_count (?ps ! k)))"
  proof (cases "hp_local (?ps ! k)")
    case True
    show ?thesis
    proof (cases "hp_count (?ps ! k) = 0")
      case False
      then have "part (?ps ! k) \<in> set bs" using True k by (auto simp: bs_def)
      then have "(fst (part (?ps ! k)), snd (part (?ps ! k))) \<in> set bs" by simp
      from write_blocks_block [OF o inside this] show ?thesis using part [OF k] True unfolding after by simp
    qed (simp add: block_def)
  next
    case False
    have "\<forall>(position, ws) \<in> set bs. peers_before ?ps k + unat (hp_count (?ps ! k)) \<le> position \<or> position + length ws \<le> peers_before ?ps k"
    proof (rule ballI)
      fix b assume "b \<in> set bs"
      then obtain i where i: "i < length ?ps" "b = part (?ps ! i)" "hp_local (?ps ! i)" using from_peer by blast
      then have "i < k \<or> k < i" using False by (metis linorder_neqE_nat)
      then show "case b of (position, ws) \<Rightarrow>
          peers_before ?ps k + unat (hp_count (?ps ! k)) \<le> position \<or> position + length ws \<le> peers_before ?ps k"
        using parts_apart [of i k ?ps] parts_apart [of k i ?ps] i part [OF i(1)] k by (auto simp: split_beta)
    qed
    from write_blocks_keeps(2) [OF inside this] show ?thesis using False unfolding after by simp
  qed
qed

section \<open>Every section arrives\<close>

lemma sections_delivered:
  assumes w: "mesh_linked w" "0 < unat c"
    and plans: "\<And>q. q \<in> mesh_ranks w \<Longrightarrow> plan_ok w specs c (tag q) q (e q) \<and> requests_ok (e q)"
    and len: "length received = length (hd_receive (e r))"
    and mpi: "\<And>q. q \<in> mesh_ranks w \<Longrightarrow> delivers (hd_requests (e q)) (hd_send (e q)) (hd_requests (e r)) received q r"
    and packed: "\<And>q k s. q \<in> mesh_ranks w \<Longrightarrow> k < length (hd_peers (e q)) \<Longrightarrow> s \<in> set (hp_sends (hd_peers (e q) ! k)) \<Longrightarrow>
      block (hd_send (e q)) (unat (sc_offset s)) (unat (sc_count s)) = content q (sc_slot s) (sc_face s)"
    and r: "r \<in> mesh_ranks w" and k: "k < length (hd_peers (e r))" and s: "s \<in> set (hp_receives (hd_peers (e r) ! k))"
  shows "block (hd_receive (copy_local_peers ((e r)\<lparr>hd_receive := received\<rparr>))) (unat (sc_offset s)) (unat (sc_count s)) =
    content (hp_rank (hd_peers (e r) ! k)) (sc_slot s) (opposite (sc_face s))"
proof -
  define q where "q = hp_rank (hd_peers (e r) ! k)"
  have p: "plan_ok w specs c (tag r) r (e r)" using plans [OF r] by simp
  obtain f where "mesh_neighbor w r f = Some q" using plan_peerD(8) [OF p k] unfolding q_def by blast
  then have q: "q \<in> mesh_ranks w" using mesh.symmetric [OF w(1) r] by blast
  then have e: "plan_ok w specs c (tag q) q (e q)" using plans by simp
  obtain j where j: "j < length (hd_peers (e q))" "hp_rank (hd_peers (e q) ! j) = r"
    and con: "contents (hp_sends (hd_peers (e q) ! j)) = contents (hp_receives (hd_peers (e r) ! k))"
    and n: "hp_count (hd_peers (e q) ! j) = hp_count (hd_peers (e r) ! k)"
    by (rule plan_back [OF w(1) r p k q_def [symmetric] e])
  let ?a = "peers_before (hd_peers (e r)) k" and ?b = "peers_before (hd_peers (e q)) j" and ?whole = "unat (hp_count (hd_peers (e r) ! k))"
  let ?after = "hd_receive (copy_local_peers ((e r)\<lparr>hd_receive := received\<rparr>))"
  have part: "block ?after ?a ?whole = block (hd_send (e q)) ?b ?whole"
  proof (cases "q = r")
    case True
    have "distinct (map hp_rank (hd_peers (e r)))" using p unfolding plan_ok_def by (elim conjE)
    then have "j = k" using nth_eq_iff_index_eq [of "map hp_rank (hd_peers (e r))" j k] j k True by (simp add: q_def)
    then show ?thesis using copied(2) [OF p len k] plan_peerD(1) [OF p k] True by (simp add: q_def)
  next
    case False
    then have "block ?after ?a ?whole = block received ?a ?whole"
      using copied(2) [OF p len k] plan_peerD(1) [OF p k] by (simp add: q_def)
    also have "\<dots> = block (hd_send (e q)) ?b ?whole"
      using plans [OF r] plans [OF q]
      by (intro remote_part [OF p e w(2) _ _ False k q_def [symmetric] j n mpi [OF q] len]) simp_all
    finally show ?thesis .
  qed
  let ?rs = "hp_receives (hd_peers (e r) ! k)" and ?ss = "hp_sends (hd_peers (e q) ! j)"
  obtain i where i: "i < length ?rs" "s = ?rs ! i" using s by (auto simp: in_set_conv_nth)
  have l: "i < length ?ss" using arg_cong [OF con, of length] i(1) by simp
  have "contents ?ss ! i = contents ?rs ! i" by (simp add: con)
  then have x: "sc_slot (?ss ! i) = sc_slot s" "sc_dest (?ss ! i) = sc_dest s" "sc_count (?ss ! i) = sc_count s"
    using i l by (simp_all add: contents_def)
  have cb: "counts_before ?ss i = counts_before ?rs i" by (simp add: counts_contents con)
  have "take (Suc i) ?rs = take i ?rs @ [s]" using i by (simp add: take_Suc_conv_app_nth)
  then have "counts_before ?rs i + unat (sc_count s) = counts_before ?rs (Suc i)" by (simp add: counts_before_def)
  also have "\<dots> \<le> counts_before ?rs (length ?rs)"
  proof -
    have "?rs = take (Suc i) ?rs @ drop (Suc i) ?rs" by simp
    then have "counts_before ?rs (length ?rs) = counts_before ?rs (Suc i) + sum_list (map (unat \<circ> sc_count) (drop (Suc i) ?rs))"
      unfolding counts_before_def by (metis map_append order_refl sum_list_append take_all)
    then show ?thesis by simp
  qed
  finally have fit: "counts_before ?rs i + unat (sc_count s) \<le> ?whole" using plan_peerD(7) [OF p k] by simp
  have o: "unat (sc_offset s) = ?a + counts_before ?rs i" "unat (sc_offset (?ss ! i)) = ?b + counts_before ?rs i"
    using plan_offsets(2) [OF p k i(1)] plan_offsets(1) [OF e j(1) l] i(2) cb by simp_all
  have "block ?after (unat (sc_offset s)) (unat (sc_count s)) = block (hd_send (e q)) (unat (sc_offset (?ss ! i))) (unat (sc_count s))"
    unfolding o block_block [OF fit, symmetric] part ..
  also have "\<dots> = content q (sc_slot s) (sc_face (?ss ! i))"
    using packed [OF q j(1) nth_mem [OF l]] x by simp
  also have "sc_face (?ss ! i) = opposite (sc_face s)"
    using plan_faces(1) [OF e j(1) l] plan_faces(2) [OF p k i(1)] i(2) x(2) by simp
  finally show ?thesis by (simp add: q_def)
qed

end
