(* ===== verification/Halo_Steps.thy ===== *)
theory Halo_Steps
  imports Halo_Delivery
begin

text \<open>
  Every operation keeps the engine well formed, whatever the caller passes and whatever MPI answers, and
  a certificate for the ghosts of a field stands only while no exchange is under way.
\<close>

section \<open>The invariant of a call\<close>

lemma plan_ok_update [simp]:
  "plan_ok w s c t q (d\<lparr>hd_fields := a1\<rparr>) = plan_ok w s c t q d"
  "plan_ok w s c t q (d\<lparr>hd_candidate_views := a2\<rparr>) = plan_ok w s c t q d"
  "plan_ok w s c t q (d\<lparr>hd_counters := a3\<rparr>) = plan_ok w s c t q d"
  "plan_ok w s c t q (d\<lparr>hd_generation := a4\<rparr>) = plan_ok w s c t q d"
  "plan_ok w s c t q (d\<lparr>hd_visit_generation := a4\<rparr>) = plan_ok w s c t q d"
  "plan_ok w s c t q (d\<lparr>hd_lowest_failing := a5\<rparr>) = plan_ok w s c t q d"
  "plan_ok w s c t q (d\<lparr>hd_exchange_active := b\<rparr>) = plan_ok w s c t q d"
  "plan_ok w s c t q (d\<lparr>hd_requests_active := b\<rparr>) = plan_ok w s c t q d"
  "plan_ok w s c t q (d\<lparr>hd_poisoned := b\<rparr>) = plan_ok w s c t q d"
  "plan_ok w s c t q (d\<lparr>hd_prepared_epoch := b\<rparr>) = plan_ok w s c t q d"
  "plan_ok w s c t q (d\<lparr>hd_prepared_views_valid := b\<rparr>) = plan_ok w s c t q d"
  "plan_ok w s c t q (d\<lparr>hd_identity := a4\<rparr>) = plan_ok w s c t q d"
  by (simp_all add: plan_ok_def)

lemma plan_ok_storage [simp]:
  "length a6 = length (hd_send d) \<Longrightarrow> plan_ok w s c t q (d\<lparr>hd_send := a6\<rparr>) = plan_ok w s c t q d"
  "length a6 = length (hd_receive d) \<Longrightarrow> plan_ok w s c t q (d\<lparr>hd_receive := a6\<rparr>) = plan_ok w s c t q d"
  "length a7 = length (hd_requests d) \<Longrightarrow> plan_ok w s c t q (d\<lparr>hd_requests := a7\<rparr>) = plan_ok w s c t q d"
  by (simp_all add: plan_ok_def)

lemma requests_ok_update [simp]:
  "requests_ok (d\<lparr>hd_fields := a1\<rparr>) = requests_ok d"
  "requests_ok (d\<lparr>hd_candidate_views := a2\<rparr>) = requests_ok d"
  "requests_ok (d\<lparr>hd_counters := a3\<rparr>) = requests_ok d"
  "requests_ok (d\<lparr>hd_generation := a4\<rparr>) = requests_ok d"
  "requests_ok (d\<lparr>hd_identity := a4\<rparr>) = requests_ok d"
  "requests_ok (d\<lparr>hd_visit_generation := a4\<rparr>) = requests_ok d"
  "requests_ok (d\<lparr>hd_lowest_failing := a5\<rparr>) = requests_ok d"
  "requests_ok (d\<lparr>hd_exchange_active := b\<rparr>) = requests_ok d"
  "requests_ok (d\<lparr>hd_requests_active := b\<rparr>) = requests_ok d"
  "requests_ok (d\<lparr>hd_poisoned := b\<rparr>) = requests_ok d"
  "requests_ok (d\<lparr>hd_prepared_epoch := b\<rparr>) = requests_ok d"
  "requests_ok (d\<lparr>hd_prepared_views_valid := b\<rparr>) = requests_ok d"
  "requests_ok (d\<lparr>hd_send := a6\<rparr>) = requests_ok d"
  "requests_ok (d\<lparr>hd_receive := a6\<rparr>) = requests_ok d"
  by (simp_all add: requests_ok_def receive_request_def [abs_def] send_request_def [abs_def])

definition no_certificate :: "halo_data \<Rightarrow> bool" where
  "no_certificate d \<longleftrightarrow> (\<forall>x \<in> set (hd_fields d). fs_ghost_revision x = 0)"

definition certificates_ok :: "halo_data \<Rightarrow> bool" where
  "certificates_ok d \<longleftrightarrow>
     (\<forall>x \<in> set (hd_fields d). (fs_ghost_revision x = 0 \<or> fs_ghost_revision x = fs_pending_revision x) \<and>
        (fs_pending_revision x = 0 \<or> fs_pending_revision x = fv_revision (fs_begin_view x))) \<and>
     (hd_exchange_active d \<or> hd_requests_active d \<or> hd_prepared_epoch d \<longrightarrow> no_certificate d)"

definition engine_inv :: "halo_mesh \<Rightarrow> halo_spec list \<Rightarrow> int \<Rightarrow> halo_data \<Rightarrow> bool" where
  "engine_inv w specs q d \<longleftrightarrow> engine_ok w specs q d \<and> certificates_ok d"

lemmas engine_inv_defs = engine_inv_def engine_ok_def certificates_ok_def no_certificate_def halo_specs_def

lemma inv_frame [simp]:
  "engine_inv w specs q (d\<lparr>hd_counters := a3\<rparr>) = engine_inv w specs q d"
  "engine_inv w specs q (d\<lparr>hd_lowest_failing := a5\<rparr>) = engine_inv w specs q d"
  "engine_inv w specs q (d\<lparr>hd_generation := a4\<rparr>) = engine_inv w specs q d"
  "engine_inv w specs q (d\<lparr>hd_identity := a4\<rparr>) = engine_inv w specs q d"
  "engine_inv w specs q (d\<lparr>hd_prepared_views_valid := b\<rparr>) = engine_inv w specs q d"
  "no_certificate (d\<lparr>hd_counters := a3\<rparr>) = no_certificate d"
  "no_certificate (d\<lparr>hd_lowest_failing := a5\<rparr>) = no_certificate d"
  "no_certificate (d\<lparr>hd_generation := a4\<rparr>) = no_certificate d"
  "no_certificate (d\<lparr>hd_prepared_epoch := b\<rparr>) = no_certificate d"
  "no_certificate (d\<lparr>hd_prepared_views_valid := b\<rparr>) = no_certificate d"
  "no_certificate (d\<lparr>hd_exchange_active := b\<rparr>) = no_certificate d"
  "no_certificate (d\<lparr>hd_requests_active := b\<rparr>) = no_certificate d"
  "no_certificate (d\<lparr>hd_poisoned := b\<rparr>) = no_certificate d"
  "no_certificate (d\<lparr>hd_requests := a7\<rparr>) = no_certificate d"
  "no_certificate (d\<lparr>hd_send := a6\<rparr>) = no_certificate d"
  "no_certificate (d\<lparr>hd_receive := a6\<rparr>) = no_certificate d"
  by (simp_all add: engine_inv_defs)

lemma inv_counts [simp]:
  "engine_inv w specs q (count_begin d) = engine_inv w specs q d" "engine_inv w specs q (count_finish d) = engine_inv w specs q d"
  "engine_inv w specs q (count_packed d) = engine_inv w specs q d" "engine_inv w specs q (count_unpacked d) = engine_inv w specs q d"
  "engine_inv w specs q (count_messages d) = engine_inv w specs q d"
  "no_certificate (count_begin d) = no_certificate d" "no_certificate (count_packed d) = no_certificate d"
  "no_certificate (count_messages d) = no_certificate d" "no_certificate (count_finish d) = no_certificate d"
  by (simp_all add: count_begin_def count_finish_def count_packed_def count_unpacked_def count_messages_def)

lemma inv_flags:
  "engine_inv w specs q d \<Longrightarrow> engine_inv w specs q (d\<lparr>hd_exchange_active := False\<rparr>)"
  "engine_inv w specs q d \<Longrightarrow> engine_inv w specs q (d\<lparr>hd_requests_active := False\<rparr>)"
  "engine_inv w specs q d \<Longrightarrow> engine_inv w specs q (d\<lparr>hd_poisoned := True\<rparr>)"
  "engine_inv w specs q d \<Longrightarrow> no_certificate d \<Longrightarrow> engine_inv w specs q (d\<lparr>hd_exchange_active := b\<rparr>)"
  "engine_inv w specs q d \<Longrightarrow> no_certificate d \<Longrightarrow> engine_inv w specs q (d\<lparr>hd_requests_active := b\<rparr>)"
  "engine_inv w specs q d \<Longrightarrow> engine_inv w specs q (d\<lparr>hd_prepared_epoch := False\<rparr>)"
  "engine_inv w specs q d \<Longrightarrow> no_certificate d \<Longrightarrow> engine_inv w specs q (d\<lparr>hd_prepared_epoch := b\<rparr>)"
  by (simp_all add: engine_inv_defs)

lemma inv_receive:
  "engine_inv w specs q d \<Longrightarrow> length rs = length (hd_receive d) \<Longrightarrow> engine_inv w specs q (d\<lparr>hd_receive := rs\<rparr>)"
  by (simp add: engine_inv_defs)

lemma inv_invalidate:
  assumes "engine_inv w specs q d"
  shows "engine_inv w specs q (invalidate_certificates d)" "no_certificate (invalidate_certificates d)"
proof -
  have "halo_specs (invalidate_certificates d) = halo_specs d" by (simp add: halo_specs_def invalidate_certificates_def)
  then show "engine_inv w specs q (invalidate_certificates d)"
    using assms by (auto simp: invalidate_certificates_def engine_inv_def engine_ok_def certificates_ok_def no_certificate_def)
  show "no_certificate (invalidate_certificates d)" by (simp add: invalidate_certificates_def no_certificate_def)
qed

lemma collective_form: "collective_status ans st d = (agreed, d') \<Longrightarrow>
    \<exists>low u. d' = d\<lparr>hd_lowest_failing := low, hd_counters := u\<rparr>"
  by (auto simp: collective_status_def split: prod.splits)

lemma inv_collective:
  assumes "collective_status ans st d = (agreed, d')"
  shows "engine_inv w specs q d' = engine_inv w specs q d" "no_certificate d' = no_certificate d"
  using collective_form [OF assms] by auto

section \<open>Requests\<close>

lemma request_of [simp]:
  "receive_request (d\<lparr>hd_requests := rs\<rparr>) h = receive_request d h" "send_request (d\<lparr>hd_requests := rs\<rparr>) h = send_request d h"
  "receive_request (d\<lparr>hd_requests_active := b\<rparr>) h = receive_request d h" "send_request (d\<lparr>hd_requests_active := b\<rparr>) h = send_request d h"
  by (simp_all add: receive_request_def send_request_def)

lemma recreate_form:
  assumes "recreate_requests created d = (st, d')" "length (hd_requests d) = 2 * length (hd_chunks d)"
  shows "\<exists>rs. d' = d\<lparr>hd_requests := rs, hd_requests_active := False, hd_poisoned := \<not> is_ok st\<rparr> \<and> length rs = length (hd_requests d) \<and>
    (is_ok st \<longrightarrow> rs = map (receive_request d) (hd_chunks d) @ map (send_request d) (hd_chunks d))"
proof -
  let ?e = "d\<lparr>hd_requests := replicate (length (hd_requests d)) Null_request, hd_requests_active := False\<rparr>"
  obtain e where e: "create_requests created ?e = (st, e)" "d' = e\<lparr>hd_poisoned := \<not> is_ok st\<rparr>"
    using assms(1) by (auto simp: recreate_requests_def split: prod.splits)
  obtain rs where rs: "e = ?e\<lparr>hd_requests := rs\<rparr>" "length rs = length (hd_requests ?e)"
    using create_from_frame [OF e(1) [unfolded create_requests_def]] by blast
  have "rs = map (receive_request d) (hd_chunks d) @ map (send_request d) (hd_chunks d)" if "is_ok st"
  proof -
    have "e = ?e\<lparr>hd_requests := map (receive_request ?e) (hd_chunks ?e) @ map (send_request ?e) (hd_chunks ?e)\<rparr>"
      using assms(2) by (intro create_requests_ok [OF e(1) that]) simp
    from arg_cong [OF this, of hd_requests] rs(1) show ?thesis by simp
  qed
  then show ?thesis using rs e(2) by (intro exI [of _ rs]) simp
qed

lemma inv_requests_length: "engine_inv w specs q d \<Longrightarrow> length (hd_requests d) = 2 * length (hd_chunks d)"
  unfolding engine_inv_def engine_ok_def plan_ok_def by (elim conjE)

lemma inv_recreate:
  assumes "engine_inv w specs q d" "recreate_requests created d = (st, d')"
  shows "engine_inv w specs q d' \<and> (no_certificate d \<longrightarrow> no_certificate d') \<and> hd_exchange_active d' = hd_exchange_active d \<and>
    (is_ok st \<longrightarrow> \<not> hd_poisoned d') \<and> hd_send d' = hd_send d \<and> hd_patch d' = hd_patch d \<and> hd_peers d' = hd_peers d"
proof -
  obtain rs where rs: "d' = d\<lparr>hd_requests := rs, hd_requests_active := False, hd_poisoned := \<not> is_ok st\<rparr>"
    "length rs = length (hd_requests d)" "is_ok st \<longrightarrow> rs = map (receive_request d) (hd_chunks d) @ map (send_request d) (hd_chunks d)"
    using recreate_form [OF assms(2) inv_requests_length [OF assms(1)]] by blast
  have "is_ok st \<longrightarrow> requests_ok (d\<lparr>hd_requests := rs\<rparr>)" using rs(3) by (simp add: requests_ok_def)
  then have "engine_inv w specs q d'" using assms(1) rs(2) by (simp add: rs(1) engine_inv_defs)
  then show ?thesis by (simp add: rs(1))
qed

lemma inv_drain:
  assumes "engine_inv w specs q d"
  shows "engine_inv w specs q (cancel_and_drain drained d)" "no_certificate (cancel_and_drain drained d) = no_certificate d"
proof -
  have "engine_inv w specs q (d\<lparr>hd_requests_active := False, hd_receive := write_over drained (hd_receive d)\<rparr>)"
    using inv_receive [OF inv_flags(2) [OF assms], of "write_over drained (hd_receive d)"] by (simp add: write_over_def)
  then show "engine_inv w specs q (cancel_and_drain drained d)" using inv_flags(2) [OF assms] by (simp add: cancel_and_drain_def)
  show "no_certificate (cancel_and_drain drained d) = no_certificate d" by (simp add: cancel_and_drain_def)
qed

lemma inv_restore:
  assumes "engine_inv w specs q d"
  shows "engine_inv w specs q (restore_requests drained recreated restored d) \<and>
    (no_certificate d \<longrightarrow> no_certificate (restore_requests drained recreated restored d))"
proof -
  obtain st e where e: "recreate_requests recreated (cancel_and_drain drained d) = (st, e)" by fastforce
  obtain agreed f where f: "collective_status restored st e = (agreed, f)" by fastforce
  note i = inv_recreate [OF inv_drain(1) [OF assms] e]
  have "engine_inv w specs q f" "no_certificate f = no_certificate e" using inv_collective [OF f] i by simp_all
  then show ?thesis using i inv_flags(3) [of w specs q f] inv_drain(2) [OF assms]
    by (simp add: restore_requests_def Let_def e f)
qed

end
