(* ===== verification/Halo_Calls.thy ===== *)
theory Halo_Calls
  imports Halo_Steps
begin

text \<open>Begin and finish: what each of them leaves behind, and what one that succeeds has done.\<close>

section \<open>Binding the views\<close>

lemma certificates_keys:
  "no_certificate d \<longleftrightarrow> (\<forall>(s, v, p, g) \<in> set (map slot_key (hd_fields d)). g = 0)"
  "certificates_ok d \<longleftrightarrow> (\<forall>(s, v, p, g) \<in> set (map slot_key (hd_fields d)). (g = 0 \<or> g = p) \<and> (p = 0 \<or> p = fv_revision v)) \<and>
    (hd_exchange_active d \<or> hd_requests_active d \<or> hd_prepared_epoch d \<longrightarrow> no_certificate d)"
  by (simp_all add: certificates_ok_def no_certificate_def slot_key_def)

lemma next_visit_part: "stay_part (next_visit d) = stay_part d"
  by (simp add: next_visit_def Let_def stay_part_def frame_part_def plan_part_def halo_specs_def slot_key_def comp_def)

lemma next_visit_fresh:
  assumes "\<forall>x \<in> set (hd_fields d). fs_seen_generation x \<le> hd_visit_generation d"
  shows "\<forall>x \<in> set (hd_fields (next_visit d)). fs_seen_generation x < hd_visit_generation (next_visit d)"
proof (cases "hd_visit_generation d + 1 = 0")
  case True
  then show ?thesis by (simp add: next_visit_def Let_def)
next
  case False
  then have "hd_visit_generation d < hd_visit_generation d + 1"
    using unatSuc [of "hd_visit_generation d"] by (simp add: word_less_nat_alt add.commute)
  then show ?thesis using assms False by (auto simp: next_visit_def Let_def)
qed

lemma inv_visited:
  assumes i: "engine_inv w specs q d" and v: "visit_part e = visit_part (next_visit d)"
    and s: "\<forall>x \<in> set (map fs_seen_generation (hd_fields e)). x \<in> set (map fs_seen_generation (hd_fields (next_visit d))) \<or>
      x = hd_visit_generation (next_visit d)"
  shows "engine_inv w specs q e \<and> no_certificate e = no_certificate d \<and> stay_part e = stay_part d"
proof -
  have st: "stay_part e = stay_part d" and g: "hd_visit_generation e = hd_visit_generation (next_visit d)"
    using v next_visit_part by (simp_all add: visit_part_def)
  have k: "map slot_key (hd_fields e) = map slot_key (hd_fields d)" "frame_part e = frame_part d" "hd_requests e = hd_requests d"
    "hd_poisoned e = hd_poisoned d" "hd_exchange_active e = hd_exchange_active d" "hd_requests_active e = hd_requests_active d"
    "hd_prepared_epoch e = hd_prepared_epoch d"
    using st by (simp_all add: stay_part_def)
  have "\<forall>x \<in> set (hd_fields d). fs_seen_generation x \<le> hd_visit_generation d" using i by (simp add: engine_inv_def engine_ok_def)
  note fresh = next_visit_fresh [OF this]
  have seen: "fs_seen_generation x \<le> hd_visit_generation e" if "x \<in> set (hd_fields e)" for x
  proof -
    have "fs_seen_generation x \<in> set (map fs_seen_generation (hd_fields (next_visit d))) \<or> fs_seen_generation x = hd_visit_generation (next_visit d)"
      using s that by simp
    then show ?thesis using fresh g by (auto simp: less_imp_le)
  qed
  have "requests_ok e = requests_ok d" using k(2,3) by (intro requests_ok_same) (simp_all add: frame_part_def plan_part_def)
  moreover have "engine_ok w specs q d" using i by (simp add: engine_inv_def)
  ultimately have "engine_ok w specs q e"
    using engine_ok_frame [of w specs q d e] k seen by (simp add: engine_ok_def [of w specs q d])
  moreover have "certificates_ok e" "no_certificate e = no_certificate d"
    using i unfolding engine_inv_def certificates_keys k(1,5-7) by simp_all
  ultimately show ?thesis using st by (simp add: engine_inv_def)
qed

lemma inv_lookup:
  assumes "engine_inv w specs q d"
  shows "view_binding.lookup_ok (next_visit d)" "view_binding.seen (next_visit d) = {}" "length (hd_fields d) = length specs"
    "length (hd_fields (next_visit d)) = length specs" "hd_patch (next_visit d) = hd_patch d" "halo_specs (next_visit d) = specs"
proof -
  have e: "engine_ok w specs q d" using assms by (simp add: engine_inv_def)
  have f: "frame_part (next_visit d) = frame_part d" using next_visit_part by (simp add: stay_part_def)
  have s: "halo_specs d = specs" using e by (simp add: engine_ok_def)
  then show l: "length (hd_fields d) = length specs" by (auto simp: halo_specs_def)
  show t: "halo_specs (next_visit d) = specs" and "hd_patch (next_visit d) = hd_patch d" using f s by (simp_all add: frame_part_def)
  then show m: "length (hd_fields (next_visit d)) = length specs" by (auto simp: halo_specs_def)
  have look: "nat (hd_lookup d f) < length specs" if "hd_lookup d f \<ge> 0" for f
  proof -
    have "f \<in> hs_field ` set specs" using e that by (force simp: engine_ok_def)
    then obtain k where "k < length specs" "hs_field (specs ! k) = f" by (auto simp: in_set_conv_nth)
    then show ?thesis using e by (auto simp: engine_ok_def)
  qed
  have "length (hd_candidate_views d) = length specs" using e by (simp add: engine_ok_def)
  then show "view_binding.lookup_ok (next_visit d)"
    using look f m by (simp add: begins.lookup_ok_def frame_part_def)
  have "\<forall>x \<in> set (hd_fields d). fs_seen_generation x \<le> hd_visit_generation d" using e by (simp add: engine_ok_def)
  from next_visit_fresh [OF this] show "view_binding.seen (next_visit d) = {}"
    by (fastforce simp: begins.seen_def dest: nth_mem)
qed

lemma inv_begin_views:
  assumes i: "engine_inv w specs q d" and v: "validate_begin_views views d = (st, e)"
  shows "engine_inv w specs q e \<and> no_certificate e = no_certificate d \<and> stay_part e = stay_part d \<and>
    (is_ok st \<longrightarrow> length (span_list views) = length specs \<and> (\<forall>k < length specs. hd_candidate_views e ! k \<in> set (span_list views) \<and>
      valid_view_shape (hd_candidate_views e ! k) (specs ! k) (hd_patch d)))"
proof (cases "span_null views \<or> span_size views \<noteq> length (hd_fields d)")
  case True
  then show ?thesis using i v by (auto simp: validate_begin_views_def)
next
  case False
  then have r: "visit_views accept_begin store_begin (span_list views) (next_visit d) = (st, e)"
    using v by (simp add: validate_begin_views_def)
  note l = inv_lookup [OF i]
  have n: "length (span_list views) = length (hd_fields (next_visit d))" using False l(3,4) by (cases views) simp_all
  note f = begins.visit_frame [OF r l(1)]
  have "hd_candidate_views e ! k \<in> set (span_list views) \<and> valid_view_shape (hd_candidate_views e ! k) (specs ! k) (hd_patch d)"
    if ok: "is_ok st" and k: "k < length specs" for k
  proof -
    have "fs_spec (hd_fields (next_visit d) ! k) = specs ! k" using section_key_specs [OF k l(6)] .
    then show ?thesis using begins.visit_all [OF r ok l(1,2) n, rule_format, of k] k l(4,5) by (simp add: accept_begin_def)
  qed
  then show ?thesis using inv_visited [OF i, of e] f n l(4) by simp
qed

lemma inv_finish_views:
  assumes i: "engine_inv w specs q d" and v: "bind_finish_views views d = (st, e)"
  shows "engine_inv w specs q e \<and> no_certificate e = no_certificate d \<and> stay_part e = stay_part d \<and>
    (is_ok st \<longrightarrow> length (span_list views) = length specs \<and> (\<forall>k < length specs. fs_finish_view (hd_fields e ! k) \<in> set (span_list views) \<and>
      valid_view_shape (fs_finish_view (hd_fields e ! k)) (specs ! k) (hd_patch d)))"
proof (cases "span_null views \<or> span_size views \<noteq> length (hd_fields d)")
  case True
  then show ?thesis using i v by (auto simp: bind_finish_views_def)
next
  case False
  then have r: "visit_views accept_finish store_finish (span_list views) (next_visit d) = (st, e)"
    using v by (simp add: bind_finish_views_def)
  note l = inv_lookup [OF i]
  have n: "length (span_list views) = length (hd_fields (next_visit d))" using False l(3,4) by (cases views) simp_all
  note f = finishes.visit_frame [OF r l(1)]
  have "fs_finish_view (hd_fields e ! k) \<in> set (span_list views) \<and> valid_view_shape (fs_finish_view (hd_fields e ! k)) (specs ! k) (hd_patch d)"
    if ok: "is_ok st" and k: "k < length specs" for k
  proof -
    have "fs_spec (hd_fields (next_visit d) ! k) = specs ! k" using section_key_specs [OF k l(6)] .
    then show ?thesis using finishes.visit_all [OF r ok l(1,2) n, rule_format, of k] k l(4,5) by (simp add: accept_finish_def)
  qed
  then show ?thesis using inv_visited [OF i, of e] f n l(4) by simp
qed

section \<open>Begin\<close>

lemma candidate_fits:
  assumes "length (hd_fields d) = length specs" "hd_patch d = p"
    and "\<forall>k < length specs. valid_view_shape (hd_candidate_views d ! k) (specs ! k) p"
  shows "fits_patch d"
  using assms by (simp add: fits_patch_def valid_view_shape_def Let_def)

lemma inv_pack:
  assumes w: "mesh_linked w" "small3 (hm_cells w)" "q \<in> mesh_ranks w" and i: "engine_inv w specs q d" and f: "fits_patch d"
  shows "engine_inv w specs q (pack_peers m d)" "no_certificate (pack_peers m d) = no_certificate d"
    "length (hd_send (pack_peers m d)) = length (hd_send d)"
proof -
  have "plan_ok w specs maximum_chunk_doubles (hd_maximum_tag d) q d" "halo_specs d = specs" "hd_patch d = mesh_patch_of w q"
    using i by (simp_all add: engine_inv_def engine_ok_def)
  from packed [OF this(1) w f this(2,3), of m] show "length (hd_send (pack_peers m d)) = length (hd_send d)" by simp
  then show "engine_inv w specs q (pack_peers m d)" using i by (simp add: pack_peers_def engine_inv_defs)
  show "no_certificate (pack_peers m d) = no_certificate d" by (simp add: pack_peers_def)
qed

text \<open>What a preflight that succeeds has prepared.\<close>

definition prepared_by :: "halo_spec list \<Rightarrow> field_view span \<Rightarrow> (int \<Rightarrow> u64) \<Rightarrow> halo_data \<Rightarrow> bool" where
  "prepared_by specs views m d \<longleftrightarrow> \<not> hd_poisoned d \<and> length (span_list views) = length specs \<and>
     (\<forall>k < length specs. hd_candidate_views d ! k \<in> set (span_list views) \<and>
       valid_view_shape (hd_candidate_views d ! k) (specs ! k) (hd_patch d)) \<and>
     (\<forall>k < length (hd_peers d). \<forall>s \<in> set (hp_sends (hd_peers d ! k)).
       block (hd_send d) (unat (sc_offset s)) (unat (sc_count s)) =
         pack_section (hd_candidate_views d ! sc_slot s) (specs ! sc_slot s) (sc_face s) m)"

lemma inv_preflight:
  assumes w: "mesh_linked w" "small3 (hm_cells w)" "q \<in> mesh_ranks w" and i: "engine_inv w specs q d"
    and b: "begin_preflight ans views prerequisite ticket m d = (st, e)"
  shows "engine_inv w specs q e \<and> no_certificate e \<and> (is_ok st \<longrightarrow> prepared_by specs views m e)"
proof -
  define d0 where "d0 = (if \<not> hd_exchange_active (count_begin d) then invalidate_certificates (count_begin d) else count_begin d)"
  define s0 where "s0 = (if hd_exchange_active d0 \<or> tk_active ticket \<or> hd_prepared_epoch d0 then failed Invalid_plan 301 else prerequisite)"
  define x1 where "x1 = (if is_ok s0 \<and> hd_poisoned d0 then recreate_requests (ba_created ans) d0 else (s0, d0))"
  define x2 where "x2 = (if is_ok (fst x1) then validate_begin_views views (snd x1) else (fst x1, snd x1))"
  have "begin_preflight ans views prerequisite ticket m d = (fst x2, if is_ok (fst x2) then pack_peers m (snd x2) else snd x2)"
    unfolding begin_preflight_def Let_def split_beta d0_def s0_def x1_def x2_def by (rule refl)
  then have st: "st = fst x2" and e: "e = (if is_ok (fst x2) then pack_peers m (snd x2) else snd x2)" using b by simp_all
  have ic: "engine_inv w specs q (count_begin d)" using i by simp
  have i0: "engine_inv w specs q d0" "no_certificate d0"
  proof -
    have "no_certificate (count_begin d)" if "hd_exchange_active (count_begin d)"
      using ic that unfolding engine_inv_def certificates_ok_def by (elim conjE) simp
    then show "no_certificate d0" "engine_inv w specs q d0"
      using inv_invalidate [OF ic] ic unfolding d0_def by presburger+
  qed
  obtain s1 d1 where 1: "x1 = (s1, d1)" by fastforce
  have i1: "engine_inv w specs q d1 \<and> no_certificate d1 \<and> (is_ok s1 \<longrightarrow> \<not> hd_poisoned d1)"
  proof (cases "is_ok s0 \<and> hd_poisoned d0")
    case True
    then have "recreate_requests (ba_created ans) d0 = (s1, d1)" using 1 by (simp add: x1_def)
    from inv_recreate [OF i0(1) this] i0(2) show ?thesis by simp
  next
    case False
    then have "s1 = s0" "d1 = d0" using 1 by (auto simp: x1_def split: if_splits)
    then show ?thesis using i0 False by blast
  qed
  obtain s2 d2 where 2: "x2 = (s2, d2)" by fastforce
  show ?thesis
  proof (cases "is_ok s1 \<and> is_ok s2")
    case True
    then have "validate_begin_views views d1 = (s2, d2)" using 1 2 by (simp add: x2_def)
    note v = inv_begin_views [OF conjunct1 [OF i1] this]
    have p2: "hd_patch d2 = hd_patch d1" "hd_poisoned d2 = hd_poisoned d1" using v by (simp_all add: stay_part_def frame_part_def)
    have f: "fits_patch d2"
      using v True p2(1) by (intro candidate_fits [of d2 specs "hd_patch d1"]) (auto simp: engine_inv_def engine_ok_def halo_specs_def)
    have e2: "e = pack_peers m d2" using e 2 True by simp
    have pl: "plan_ok w specs maximum_chunk_doubles (hd_maximum_tag d2) q d2" "halo_specs d2 = specs" "hd_patch d2 = mesh_patch_of w q"
      using v by (simp_all add: engine_inv_def engine_ok_def)
    have "prepared_by specs views m e"
      using v True i1 p2 packed [OF pl(1) w f pl(2,3), of m] by (simp add: prepared_by_def e2) (simp add: pack_peers_def)
    then show ?thesis using inv_pack [OF w _ f, of specs m] v i1 e2 by simp
  next
    case False
    then have "e = d2 \<and> \<not> is_ok st \<and> (x2 = x1 \<or> validate_begin_views views d1 = (s2, d2))"
      using e st 1 2 by (auto simp: x2_def split: if_splits)
    then show ?thesis using i1 1 2 inv_begin_views [of w specs q d1 views s2 d2] by auto
  qed
qed

end
