(* ===== verification/Halo_Outcome.thy ===== *)
theory Halo_Outcome
  imports Halo_Calls
begin

text \<open>The calls as a whole: each keeps the invariant, and a success means what its answers say.\<close>

section \<open>Begin\<close>

lemma inv_lookup_typed:
  assumes "engine_inv w specs q d" "hd_lookup d f \<ge> 0"
  shows "nat (hd_lookup d f) < length (hd_fields d) \<and> hs_field (fs_spec (hd_fields d ! nat (hd_lookup d f))) = f"
proof -
  have e: "engine_ok w specs q d" using assms(1) by (simp add: engine_inv_def)
  then have "f \<in> hs_field ` set specs" using assms(2) by (force simp: engine_ok_def)
  then obtain k where k: "k < length specs" "hs_field (specs ! k) = f" by (auto simp: in_set_conv_nth)
  then have "hd_lookup d f = int k" using e by (auto simp: engine_ok_def)
  moreover have "halo_specs d = specs" using e by (simp add: engine_ok_def)
  ultimately show ?thesis using k section_key_specs [OF k(1), of d] by (auto simp: halo_specs_def)
qed

lemma collective_truthful:
  assumes "engine_inv w specs q d" "collective_status ans st d = (agreed, e)" "is_ok agreed" "truthful q (grid_ranks (hm_grid w)) ans"
  shows "is_ok st"
proof -
  have "hd_rank d = q" "hd_size d = grid_ranks (hm_grid w)" using assms(1) by (simp_all add: engine_inv_def engine_ok_def)
  then have "is_ok (fst (raw_collective_status ans q (grid_ranks (hm_grid w)) st))"
    using assms(2,3) by (auto simp: collective_status_def split: prod.splits)
  then show ?thesis using assms(4) not_fails_ok [of st] by (simp add: truthful_def)
qed

lemma inv_publish:
  assumes "engine_inv w specs q d" "no_certificate d"
  shows "engine_inv w specs q (publish_begin_views d)" "no_certificate (publish_begin_views d)"
proof -
  let ?d = "publish_begin_views d"
  have l: "length (hd_candidate_views d) = length (hd_fields d)"
    using assms(1) by (auto simp: engine_inv_def engine_ok_def halo_specs_def)
  have f: "hd_fields ?d ! k = (hd_fields d ! k)\<lparr>fs_begin_view := hd_candidate_views d ! k, fs_pending_revision := fv_revision (hd_candidate_views d ! k)\<rparr>"
    "length (hd_fields ?d) = length (hd_fields d)" if "k < length (hd_fields d)" for k
    using l that by (simp_all add: publish_begin_views_def)
  have len: "length (hd_fields ?d) = length (hd_fields d)" using l by (simp add: publish_begin_views_def)
  have g: "fs_ghost_revision x = 0 \<and> fs_pending_revision x = fv_revision (fs_begin_view x) \<and> fs_seen_generation x \<le> hd_visit_generation d"
    if x: "x \<in> set (hd_fields ?d)" for x
  proof -
    obtain k where k: "k < length (hd_fields d)" "x = hd_fields ?d ! k" using x len by (auto simp: in_set_conv_nth)
    have "hd_fields d ! k \<in> set (hd_fields d)" using k(1) by simp
    moreover have "\<forall>y \<in> set (hd_fields d). fs_seen_generation y \<le> hd_visit_generation d"
      using assms(1) by (simp add: engine_inv_def engine_ok_def)
    ultimately show ?thesis using f(1) [OF k(1)] k(2) assms(2) by (simp add: no_certificate_def)
  qed
  have sp: "halo_specs ?d = halo_specs d" using f(1) len by (auto simp: halo_specs_def intro: nth_equalityI)
  have e: "engine_ok w specs q d" using assms(1) by (simp add: engine_inv_def)
  have fr: "frame_part ?d = frame_part d"
    using sp by (simp add: frame_part_def plan_part_def publish_begin_views_def)
  have vg: "hd_visit_generation ?d = hd_visit_generation d" by (simp add: publish_begin_views_def)
  have "requests_ok ?d = requests_ok d" "hd_poisoned ?d = hd_poisoned d" by (simp_all add: publish_begin_views_def)
  then have "engine_ok w specs q ?d"
    using engine_ok_frame [OF e fr] g vg e by (auto simp: engine_ok_def [of w specs q d])
  moreover show n: "no_certificate ?d" using g by (simp add: no_certificate_def)
  ultimately show "engine_inv w specs q ?d" using g n by (simp add: engine_inv_def certificates_ok_def)
qed

lemma inv_start:
  assumes "engine_inv w specs q d" "no_certificate d" "start_requests start d = (st, e)"
  shows "engine_inv w specs q e \<and> no_certificate e \<and> (\<exists>b. e = d\<lparr>hd_requests_active := b\<rparr> \<and> (hd_requests d \<noteq> [] \<longrightarrow> b))"
proof (cases "hd_requests d = []")
  case True
  then have "e = d\<lparr>hd_requests_active := hd_requests_active d\<rparr>" using assms(3) by (simp add: start_requests_def)
  then show ?thesis using assms(1,2) True by (metis halo_data.surjective halo_data.update_convs(22))
next
  case False
  then have "e = d\<lparr>hd_requests_active := True\<rparr>" using assms(3) by (simp add: start_requests_def)
  then show ?thesis using inv_flags(5) [OF assms(1,2)] assms(2) by auto
qed

lemma inv_open:
  assumes "engine_inv w specs q d" "no_certificate d"
  shows "engine_inv w specs q (open_exchange d)" "no_certificate (open_exchange d)"
  using inv_flags(4) [of w specs q "d\<lparr>hd_generation := g\<rparr>" True for g] assms by (simp_all add: open_exchange_def Let_def)

text \<open>The state a begin that succeeds has opened.\<close>

definition opened_by :: "halo_spec list \<Rightarrow> field_view span \<Rightarrow> (int \<Rightarrow> u64) \<Rightarrow> halo_data \<Rightarrow> bool" where
  "opened_by specs views m e \<longleftrightarrow> prepared_by specs views m e \<and> hd_exchange_active e \<and> (hd_requests e \<noteq> [] \<longrightarrow> hd_requests_active e)"

lemma begin_outcome:
  assumes w: "mesh_linked w" "small3 (hm_cells w)" "q \<in> mesh_ranks w" and i: "engine_inv w specs q d"
    and b: "halo_begin ans stage views prerequisite ticket m (Some d) = (st, ticket', engine)"
  shows "\<exists>e. engine = Some e \<and> engine_inv w specs q e \<and> no_certificate e \<and>
    (is_ok st \<longrightarrow> truthful q (grid_ranks (hm_grid w)) (ba_packed ans) \<longrightarrow> opened_by specs views m e) \<and>
    (\<not> is_ok st \<longrightarrow> tk_active ticket' = False)"
proof -
  obtain s1 d1 where 1: "begin_preflight ans views prerequisite ticket m d = (s1, d1)" by fastforce
  obtain a1 d2 where 2: "collective_status (ba_packed ans) s1 d1 = (a1, d2)" by fastforce
  obtain s3 d3 where 3: "start_requests (ba_start ans) (count_packed d2) = (s3, d3)" by fastforce
  obtain a4 d4 where 4: "collective_status (ba_started ans) s3 d3 = (a4, d4)" by fastforce
  note p = inv_preflight [OF w i 1]
  have c2: "engine_inv w specs q d2" "no_certificate d2" using inv_collective [OF 2] p by simp_all
  have c2': "engine_inv w specs q (count_packed d2)" "no_certificate (count_packed d2)" using c2 by simp_all
  note c3 = inv_start [OF c2' 3]
  have c4: "engine_inv w specs q d4" "no_certificate d4" using inv_collective [OF 4] c3 by simp_all
  let ?f = "restore_requests (ba_drained ans) (ba_recreated ans) (ba_restored ans) d4"
  let ?e = "open_exchange (publish_begin_views (count_messages d4))"
  consider (refused) "\<not> is_ok a1" "st = a1" "engine = Some (if sdetail a1 = 309 then count_packed d2 else d2)" "\<not> tk_active ticket'"
    | (broken) "is_ok a1" "\<not> is_ok a4" "st = a4" "engine = Some (?f\<lparr>hd_exchange_active := False\<rparr>)" "\<not> tk_active ticket'"
    | (opened) "is_ok a1" "is_ok a4" "st = status_ok" "engine = Some ?e"
    using b by (auto simp: halo_begin_def 1 2 3 4 Let_def split: if_splits)
  then show ?thesis
  proof cases
    case refused
    then show ?thesis using c2 by auto
  next
    case broken
    note r = inv_restore [OF c4(1), of "ba_drained ans" "ba_recreated ans" "ba_restored ans"]
    have "engine_inv w specs q (?f\<lparr>hd_exchange_active := False\<rparr>)" using inv_flags(1) r by blast
    then show ?thesis using broken r c4(2) by simp
  next
    case opened
    have m: "engine_inv w specs q (count_messages d4)" "no_certificate (count_messages d4)" using c4 by simp_all
    note o = inv_open [OF inv_publish [OF m]]
    have "opened_by specs views m ?e" if t: "truthful q (grid_ranks (hm_grid w)) (ba_packed ans)"
    proof -
      have "is_ok s1" using collective_truthful [OF conjunct1 [OF p] 2 opened(1) t] .
      then have pb: "prepared_by specs views m d1" using p by blast
      obtain low2 u2 where d2: "d2 = d1\<lparr>hd_lowest_failing := low2, hd_counters := u2\<rparr>" using collective_form [OF 2] by blast
      obtain act where d3: "d3 = (count_packed d2)\<lparr>hd_requests_active := act\<rparr>" "hd_requests (count_packed d2) \<noteq> [] \<longrightarrow> act" using c3 by blast
      obtain low4 u4 where d4: "d4 = d3\<lparr>hd_lowest_failing := low4, hd_counters := u4\<rparr>" using collective_form [OF 4] by blast
      have same: "hd_poisoned ?e = hd_poisoned d1" "hd_candidate_views ?e = hd_candidate_views d1" "hd_patch ?e = hd_patch d1"
        "hd_peers ?e = hd_peers d1" "hd_send ?e = hd_send d1" "hd_requests ?e = hd_requests d1" "hd_requests_active ?e = act"
        by (simp_all add: open_exchange_def publish_begin_views_def count_messages_def count_packed_def d2 d3(1) d4 Let_def)
      have "hd_exchange_active ?e" by (simp add: open_exchange_def Let_def)
      then show ?thesis using pb d3(2) unfolding opened_by_def prepared_by_def same by (simp add: count_packed_def d2)
    qed
    then show ?thesis using opened o by auto
  qed
qed

section \<open>Finish\<close>

lemma inv_close:
  "engine_inv w specs q d \<Longrightarrow> engine_inv w specs q (finish_exchange_state d)"
  "no_certificate (finish_exchange_state d) = no_certificate d"
  using inv_flags(1,2) by (simp_all add: finish_exchange_state_def)

lemma inv_certify:
  assumes "engine_inv w specs q d" "\<not> hd_exchange_active d" "\<not> hd_requests_active d" "\<not> hd_prepared_epoch d"
  shows "engine_inv w specs q (certify_ghosts d)"
proof -
  have "halo_specs (certify_ghosts d) = halo_specs d" by (simp add: halo_specs_def certify_ghosts_def)
  then show ?thesis using assms
    by (auto simp: certify_ghosts_def engine_inv_def engine_ok_def certificates_ok_def no_certificate_def)
qed

lemma inv_copy:
  assumes "engine_inv w specs q d"
  shows "engine_inv w specs q (copy_local_peers d)" "no_certificate (copy_local_peers d) = no_certificate d"
proof -
  have p: "plan_ok w specs maximum_chunk_doubles (hd_maximum_tag d) q d" using assms by (simp add: engine_inv_def engine_ok_def)
  have "length (hd_receive (copy_local_peers d)) = length (hd_receive d)" using copied(1) [OF p, of "hd_receive d"] by simp
  then show "engine_inv w specs q (copy_local_peers d)" using inv_receive [OF assms] by (simp add: copy_local_peers_def)
  show "no_certificate (copy_local_peers d) = no_certificate d" by (simp add: copy_local_peers_def)
qed

definition arrived :: "finish_answers \<Rightarrow> halo_data \<Rightarrow> u64 list" where
  "arrived ans d = (if hd_requests_active d then write_over (fa_received ans) (hd_receive d) else hd_receive d)"

lemma length_arrived [simp]: "length (arrived ans d) = length (hd_receive d)"
  by (simp add: arrived_def write_over_def)

lemma wait_form:
  assumes "wait_requests ans d = (st, e)"
  shows "\<exists>b. e = d\<lparr>hd_receive := arrived ans d, hd_requests_active := b\<rparr> \<and> (b \<longrightarrow> hd_requests_active d) \<and> (is_ok st \<longrightarrow> \<not> b)"
proof (cases "hd_requests_active d")
  case True
  then show ?thesis using assms
    by (auto simp: wait_requests_def arrived_def split: if_splits intro: exI [of _ False] exI [of _ True])
next
  case False
  then have "e = d\<lparr>hd_receive := arrived ans d, hd_requests_active := False\<rparr>" using assms by (simp add: wait_requests_def arrived_def)
  then show ?thesis by blast
qed

lemma inv_wait:
  assumes "engine_inv w specs q d" "wait_requests ans d = (st, e)"
  shows "engine_inv w specs q e" "no_certificate e = no_certificate d"
proof -
  obtain b where e: "e = d\<lparr>hd_receive := arrived ans d, hd_requests_active := b\<rparr>" "b \<longrightarrow> hd_requests_active d" using wait_form [OF assms(2)] by blast
  have r: "engine_inv w specs q (d\<lparr>hd_receive := arrived ans d\<rparr>)" using inv_receive [OF assms(1)] by simp
  show "engine_inv w specs q e"
  proof (cases b)
    case True
    then have "e = d\<lparr>hd_receive := arrived ans d\<rparr>" using e by simp
    then show ?thesis using r by simp
  qed (use inv_flags(2) [OF r] e(1) in simp)
  show "no_certificate e = no_certificate d" by (simp add: e(1))
qed

text \<open>What a finish that succeeds unpacks.\<close>

definition unpacked_by :: "halo_spec list \<Rightarrow> finish_answers \<Rightarrow> field_view span \<Rightarrow> halo_data \<Rightarrow> halo_data \<Rightarrow> bool" where
  "unpacked_by specs ans views d x \<longleftrightarrow> hd_exchange_active d \<and> \<not> hd_poisoned d \<and> hd_peers x = hd_peers d \<and> halo_specs x = specs \<and>
     hd_receive x = hd_receive (copy_local_peers (d\<lparr>hd_receive := arrived ans d\<rparr>)) \<and> length (span_list views) = length specs \<and>
     (\<forall>k < length specs. fs_finish_view (hd_fields x ! k) \<in> set (span_list views) \<and>
        valid_view_shape (fs_finish_view (hd_fields x ! k)) (specs ! k) (hd_patch d))"

lemma finish_outcome:
  assumes i: "engine_inv w specs q d" and f: "halo_finish ans ticket views m (Some d) = (st, ticket', m', engine)"
  shows "\<exists>g. engine = Some g \<and> (\<not> hd_prepared_epoch d \<or> \<not> is_ok st \<longrightarrow> engine_inv w specs q g) \<and> \<not> hd_exchange_active g \<and> \<not> hd_requests_active g \<and> ticket' = no_ticket \<and>
    (\<not> is_ok st \<longrightarrow> m' = m \<and> (no_certificate d \<longrightarrow> no_certificate g)) \<and>
    (is_ok st \<longrightarrow> truthful q (grid_ranks (hm_grid w)) (fa_bound ans) \<longrightarrow>
      (\<exists>x. unpacked_by specs ans views d x \<and> m' = unpack_peers x m))"
proof -
  let ?d = "count_finish d"
  obtain s1 d1 where 1: "(if \<not> hd_exchange_active ?d \<or> hd_poisoned ?d \<or> \<not> ticket_current ticket ?d then (failed Invalid_plan 301, ?d)
          else bind_finish_views views ?d) = (s1, d1)" by fastforce
  obtain a1 d2 where 2: "collective_status (fa_bound ans) s1 d1 = (a1, d2)" by fastforce
  obtain s3 d3 where 3: "wait_requests ans d2 = (s3, d3)" by fastforce
  obtain a4 d4 where 4: "collective_status (fa_completed ans) s3 d3 = (a4, d4)" by fastforce
  have i0: "engine_inv w specs q ?d" using i by simp
  have b: "engine_inv w specs q d1 \<and> no_certificate d1 = no_certificate d \<and> stay_part d1 = stay_part ?d"
  proof (cases "\<not> hd_exchange_active ?d \<or> hd_poisoned ?d \<or> \<not> ticket_current ticket ?d")
    case True
    then show ?thesis using 1 i0 by auto
  next
    case False
    then have "bind_finish_views views ?d = (s1, d1)" using 1 by simp
    from inv_finish_views [OF i0 this] show ?thesis by simp
  qed
  have c2: "engine_inv w specs q d2" "no_certificate d2 = no_certificate d" using inv_collective [OF 2] b by simp_all
  have c3: "engine_inv w specs q d3" "no_certificate d3 = no_certificate d" using inv_wait [OF c2(1) 3] c2(2) by simp_all
  have c4: "engine_inv w specs q d4" "no_certificate d4 = no_certificate d" using inv_collective [OF 4] c3 by simp_all
  let ?r = "restore_requests (fa_drained ans) (fa_recreated ans) (fa_restored ans) d4"
  define d5 where "d5 = (if \<not> is_ok a4 \<and> sdetail a4 = 310 \<and> scode a4 = Mpi_failure then ?r else d4)"
  have c5: "engine_inv w specs q d5" "no_certificate d \<longrightarrow> no_certificate d5"
    using c4 inv_restore [OF c4(1), of "fa_drained ans" "fa_recreated ans" "fa_restored ans"] by (simp_all add: d5_def)
  let ?x = "copy_local_peers d5"
  let ?c = "certify_ghosts (count_unpacked ?x)"
  consider (lost) low where "\<not> is_ok st" "ticket' = no_ticket" "m' = m" "engine = Some ((finish_exchange_state d5)\<lparr>hd_lowest_failing := low\<rparr>)"
    | (complete) "is_ok a1" "is_ok a4" "st = status_ok" "ticket' = no_ticket" "m' = unpack_peers ?x m"
        "engine = Some (finish_exchange_state (?c\<lparr>hd_lowest_failing := - 1\<rparr>))"
    using f unfolding halo_finish_def option.case Let_def 1 2 3 4 prod.case d5_def [symmetric] by (auto split: if_splits)
  then show ?thesis
  proof cases
    case lost
    then show ?thesis using inv_close(1) [OF c5(1)] inv_close(2) [of d5] c5(2) by (simp add: finish_exchange_state_def)
  next
    case complete
    have d5: "d5 = d4" using complete(2) by (simp add: d5_def)
    let ?z = "finish_exchange_state ((count_unpacked ?x)\<lparr>hd_lowest_failing := - 1\<rparr>)"
    have "hd_prepared_epoch d1 = hd_prepared_epoch d" using b by (simp add: stay_part_def count_finish_def)
    then have pe: "hd_prepared_epoch ?z = hd_prepared_epoch d"
      using collective_form [OF 2] wait_form [OF 3] collective_form [OF 4]
      by (auto simp: d5 finish_exchange_state_def count_unpacked_def copy_local_peers_def)
    have "engine_inv w specs q ((count_unpacked ?x)\<lparr>hd_lowest_failing := - 1\<rparr>)" using inv_copy(1) [OF c5(1)] by simp
    from inv_certify [OF inv_close(1) [OF this]] pe have z: "\<not> hd_prepared_epoch d \<longrightarrow> engine_inv w specs q (certify_ghosts ?z)"
      by (simp add: finish_exchange_state_def)
    have g: "engine = Some (certify_ghosts ?z)"
      unfolding complete(6) by (simp add: finish_exchange_state_def certify_ghosts_def count_unpacked_def copy_local_peers_def)
    have "\<exists>x. unpacked_by specs ans views d x \<and> m' = unpack_peers x m" if t: "truthful q (grid_ranks (hm_grid w)) (fa_bound ans)"
    proof -
      have ok: "is_ok s1" using collective_truthful [OF conjunct1 [OF b] 2 complete(1) t] .
      then have act: "hd_exchange_active d" "\<not> hd_poisoned d" and bd: "bind_finish_views views ?d = (s1, d1)"
        using 1 by (auto simp: count_finish_def split: if_splits)
      note v = inv_finish_views [OF i0 bd]
      obtain low2 u2 where d2: "d2 = d1\<lparr>hd_lowest_failing := low2, hd_counters := u2\<rparr>" using collective_form [OF 2] by blast
      obtain act3 where d3: "d3 = d2\<lparr>hd_receive := arrived ans d2, hd_requests_active := act3\<rparr>" using wait_form [OF 3] by blast
      obtain low4 u4 where d4: "d4 = d3\<lparr>hd_lowest_failing := low4, hd_counters := u4\<rparr>" using collective_form [OF 4] by blast
      have st: "hd_peers d1 = hd_peers d" "hd_send d1 = hd_send d" "hd_receive d1 = hd_receive d" "hd_requests_active d1 = hd_requests_active d"
        "halo_specs d1 = specs" "hd_patch d1 = hd_patch d"
        using v i by (simp_all add: stay_part_def frame_part_def plan_part_def count_finish_def engine_inv_def engine_ok_def)
      have "arrived ans d2 = arrived ans d" by (simp add: arrived_def d2 st)
      then have x: "hd_peers ?x = hd_peers d" "hd_receive ?x = hd_receive (copy_local_peers (d\<lparr>hd_receive := arrived ans d\<rparr>))"
        "hd_fields ?x = hd_fields d1" "halo_specs ?x = specs"
        using st by (simp_all add: d5 d4 d3 d2 copy_local_peers_def local_blocks_def halo_specs_def)
      have "unpacked_by specs ans views d ?x"
        using act v ok st(6) unfolding unpacked_by_def x by (simp add: count_finish_def)
      then show ?thesis using complete(5) by blast
    qed
    then show ?thesis using z g complete(3,4) by (auto simp: finish_exchange_state_def certify_ghosts_def)
  qed
qed

end
