(* ===== verification/Halo_Engine_History.thy ===== *)
theory Halo_Engine_History
  imports Halo_Outcome
begin

text \<open>
  The engine of a rank over any sequence of calls: the collective reserve, begin and finish, and the
  prepared epoch. Whatever the callers pass and MPI answers, the invariant holds after every call.
\<close>

section \<open>The prepared epoch\<close>

lemma enter_outcome:
  assumes "engine_inv w specs q d" "enter_prepared_epoch (Some d) = (st, engine)"
  shows "\<exists>e. engine = Some e \<and> engine_inv w specs q e \<and> no_certificate e"
proof -
  let ?i = "invalidate_certificates d"
  let ?d = "?i\<lparr>hd_fields := map (\<lambda>f. f\<lparr>fs_pending_revision := 0\<rparr>) (hd_fields ?i)\<rparr>"
  note i = inv_invalidate [OF assms(1)]
  have "halo_specs ?d = halo_specs ?i" by (simp add: halo_specs_def)
  then have "engine_inv w specs q ?d" "no_certificate ?d"
    using i by (auto simp: engine_inv_def engine_ok_def certificates_ok_def no_certificate_def)
  moreover from this have "engine_inv w specs q (?d\<lparr>hd_prepared_views_valid := False, hd_prepared_epoch := True\<rparr>)"
    by (intro inv_flags(7)) simp_all
  ultimately show ?thesis using assms(2) by (auto simp: enter_prepared_epoch_def Let_def split: if_splits)
qed

lemma begin_prepared_outcome:
  assumes w: "mesh_linked w" "small3 (hm_cells w)" "q \<in> mesh_ranks w" and i: "engine_inv w specs q d" and ep: "hd_prepared_epoch d"
    and b: "begin_prepared start drained stage views deferred ticket m (Some d) = (st, deferred', ticket', engine)"
  shows "\<exists>e. engine = Some e \<and> engine_inv w specs q e \<and> no_certificate e"
proof -
  let ?d = "count_begin d"
  obtain s1 d1 where 1: "(if \<not> hd_prepared_epoch ?d \<or> hd_exchange_active ?d \<or> tk_active ticket \<or> hd_poisoned ?d
      then (failed Invalid_plan 301, ?d) else validate_begin_views views ?d) = (s1, d1)" by fastforce
  define d2 where "d2 = (if is_ok s1 then count_packed (pack_peers m d1) else d1)"
  obtain s3 d3 where 3: "start_requests start d2 = (s3, d3)" by fastforce
  have i0: "engine_inv w specs q ?d" "no_certificate ?d" 
    using i ep by (simp, simp add: engine_inv_def certificates_ok_def)
  have i1: "engine_inv w specs q d1 \<and> no_certificate d1 \<and> (is_ok s1 \<longrightarrow> fits_patch d1)"
  proof (cases "\<not> hd_prepared_epoch ?d \<or> hd_exchange_active ?d \<or> tk_active ticket \<or> hd_poisoned ?d")
    case True
    then show ?thesis using 1 i0 by auto
  next
    case False
    then have "validate_begin_views views ?d = (s1, d1)" using 1 by simp
    note v = inv_begin_views [OF i0(1) this]
    have "fits_patch d1" if "is_ok s1"
      using inv_lookup(3) [OF conjunct1 [OF v]] v that
      by (intro candidate_fits [of d1 specs "hd_patch ?d"]) (simp_all add: stay_part_def frame_part_def)
    then show ?thesis using v i0(2) by blast
  qed
  have i2: "engine_inv w specs q d2" "no_certificate d2"
    using i1 inv_pack [OF w, of specs d1 m] by (auto simp: d2_def)
  note i3 = inv_start [OF i2 3]
  consider "engine = Some ((cancel_and_drain drained d3)\<lparr>hd_poisoned := True, hd_exchange_active := False, hd_prepared_views_valid := False\<rparr>)"
    | "engine = Some ((open_exchange (if is_ok s1 then publish_begin_views (count_messages d3) else count_messages d3))\<lparr>hd_prepared_views_valid := is_ok s1\<rparr>)"
    using b unfolding begin_prepared_def option.case Let_def 1 prod.case d2_def [symmetric] 3 by (auto split: if_splits)
  then show ?thesis
  proof cases
    case 1
    have "engine_inv w specs q (cancel_and_drain drained d3)" "no_certificate (cancel_and_drain drained d3)"
      using inv_drain i3 by blast+
    then have "engine_inv w specs q ((cancel_and_drain drained d3)\<lparr>hd_poisoned := True, hd_exchange_active := False\<rparr>)"
      using inv_flags(1) [OF inv_flags(3)] by blast
    then show ?thesis using 1 \<open>no_certificate (cancel_and_drain drained d3)\<close> by simp
  next
    case 2
    have m: "engine_inv w specs q (count_messages d3)" "no_certificate (count_messages d3)" using i3 by simp_all
    let ?p = "if is_ok s1 then publish_begin_views (count_messages d3) else count_messages d3"
    have "engine_inv w specs q ?p" "no_certificate ?p" using inv_publish [OF m] m by simp_all
    note inv_open [OF this]
    then show ?thesis using 2 by simp
  qed
qed

lemma finish_prepared_outcome:
  assumes i: "engine_inv w specs q d"
    and f: "finish_prepared ans ticket views deferred m (Some d) = (st, deferred', ticket', m', engine)"
  shows "\<exists>g. engine = Some g \<and> engine_inv w specs q g \<and> no_certificate g = no_certificate d \<and>
    \<not> hd_exchange_active g \<and> \<not> hd_requests_active g"
proof -
  let ?d = "count_finish d"
  define s0 where "s0 = (if \<not> hd_prepared_epoch ?d \<or> \<not> hd_exchange_active ?d \<or> hd_poisoned ?d \<or> \<not> ticket_current ticket ?d
                then failed Invalid_plan 301 else status_ok)"
  obtain s1 d1 where 1: "(if is_ok s0 \<and> hd_prepared_views_valid ?d then bind_finish_views views ?d else (s0, ?d)) = (s1, d1)" by fastforce
  obtain s2 d2 where 2: "wait_requests ans d1 = (s2, d2)" by fastforce
  have i0: "engine_inv w specs q ?d" using i by simp
  have i1: "engine_inv w specs q d1 \<and> no_certificate d1 = no_certificate d"
  proof (cases "is_ok s0 \<and> hd_prepared_views_valid ?d")
    case True
    then have "bind_finish_views views ?d = (s1, d1)" using 1 by simp
    from inv_finish_views [OF i0 this] show ?thesis by simp
  next
    case False
    then have "d1 = ?d" using 1 by (simp only: if_False prod.inject)
    then show ?thesis using i0 by simp
  qed
  have i2: "engine_inv w specs q d2" "no_certificate d2 = no_certificate d" using inv_wait [OF conjunct1 [OF i1] 2] i1 by simp_all
  define ok where "ok = (hd_prepared_views_valid d1 \<and> is_ok s1)"
  let ?x = "if ok then count_unpacked (copy_local_peers d2) else d2"
  consider "engine = Some ((finish_exchange_state ((cancel_and_drain (fa_drained ans) d2)\<lparr>hd_poisoned := True\<rparr>))\<lparr>hd_prepared_views_valid := False\<rparr>)"
    | "engine = Some ((finish_exchange_state ?x)\<lparr>hd_prepared_views_valid := False\<rparr>)"
    using f unfolding finish_prepared_def option.case Let_def s0_def [symmetric] 1 prod.case 2 ok_def [symmetric] by (auto split: if_splits)
  then show ?thesis
  proof cases
    case 1
    have "engine_inv w specs q (finish_exchange_state ((cancel_and_drain (fa_drained ans) d2)\<lparr>hd_poisoned := True\<rparr>))"
      by (intro inv_close(1) inv_flags(3) inv_drain(1) i2(1))
    moreover have "no_certificate (finish_exchange_state ((cancel_and_drain (fa_drained ans) d2)\<lparr>hd_poisoned := True\<rparr>)) = no_certificate d"
      using inv_drain(2) [OF i2(1)] i2(2) by (simp add: inv_close(2))
    ultimately show ?thesis using 1 by (simp add: finish_exchange_state_def)
  next
    case 2
    have x: "engine_inv w specs q ?x" "no_certificate ?x = no_certificate d"
      using inv_copy [OF i2(1)] i2 by (simp_all add: count_unpacked_def)
    have "engine_inv w specs q (finish_exchange_state ?x)" using x(1) by (rule inv_close(1))
    moreover have "no_certificate (finish_exchange_state ?x) = no_certificate d" using x(2) by (simp add: inv_close(2))
    ultimately show ?thesis using 2 by (simp add: finish_exchange_state_def)
  qed
qed

lemma close_outcome:
  assumes "engine_inv w specs q d" "close_prepared_epoch publish lowest (Some d) = engine"
  shows "\<exists>e. engine = Some e \<and> engine_inv w specs q e"
proof -
  let ?p = "publish \<and> \<not> hd_exchange_active d \<and> \<not> hd_requests_active d \<and> \<not> hd_poisoned d"
  let ?c = "(certify_ghosts (d\<lparr>hd_prepared_epoch := False\<rparr>))\<lparr>hd_lowest_failing := - 1, hd_prepared_views_valid := False\<rparr>"
  let ?i = "((invalidate_certificates d)\<lparr>hd_prepared_epoch := False\<rparr>)\<lparr>hd_lowest_failing := lowest, hd_prepared_views_valid := False\<rparr>"
  have c: "engine_inv w specs q ?c" if ?p using inv_certify [OF inv_flags(6) [OF assms(1)]] that by simp
  have i: "engine_inv w specs q ?i" using inv_flags(6) [OF inv_invalidate(1) [OF assms(1)]] by simp
  have "engine = Some (if \<not> hd_prepared_epoch d then d else if ?p then ?c else ?i)"
    using assms(2) by (cases d) (auto simp: close_prepared_epoch_def Let_def certify_ghosts_def invalidate_certificates_def)
  then show ?thesis using c i assms(1) by (simp split: if_splits)
qed

section \<open>Reserve\<close>

text \<open>A mesh on which reserve is called: its ranks are the ranks of the communicator.\<close>

definition mesh_ok :: "halo_mesh \<Rightarrow> int \<Rightarrow> bool" where
  "mesh_ok w q \<longleftrightarrow> mesh_linked w \<and> small3 (hm_cells w) \<and> q \<in> mesh_ranks w"

lemma inv_reserved:
  assumes "engine_ok w specs q d" "\<not> hd_exchange_active d" "\<not> hd_requests_active d" "\<not> hd_prepared_epoch d"
    and "\<forall>x \<in> set (hd_fields d). fs_ghost_revision x = 0 \<and> fs_pending_revision x = 0"
  shows "engine_inv w specs q d"
  using assms by (simp add: engine_inv_def certificates_ok_def)

lemma keep_engine_inv:
  "(\<forall>d. engine = Some d \<longrightarrow> (\<exists>specs. engine_inv w specs q d)) \<Longrightarrow> keep_engine low engine = Some e \<Longrightarrow> \<exists>specs. engine_inv w specs q e"
  by (auto simp: keep_engine_def)

lemma reserve_outcome:
  assumes t: "\<forall>k. truthful q (grid_ranks (hm_grid w)) (rv_agree ans k)"
    and a: "rv_rank ans = Some q" "rv_size ans = Some (grid_ranks (hm_grid w))"
    and old: "\<forall>d. engine = Some d \<longrightarrow> (\<exists>specs. engine_inv w specs q d)"
    and r: "halo_reserve ans null (mesh_patch_of w q) raw (hm_topology w) identities engine = (st, Some e, identities')"
  shows "\<exists>specs. engine_inv w specs q e"
proof -
  let ?n = "grid_ranks (hm_grid w)" and ?p = "mesh_patch_of w q"
  let ?locals = "[validate_request ans ?p raw engine q ?n, mpi_ok (rv_dup_control ans), mpi_ok (rv_handler_control ans),
               mpi_ok (rv_dup_transport ans), mpi_ok (rv_handler_transport ans)]"
  show ?thesis
  proof (cases "null \<or> ?n \<le> 0")
    case True
    then have "engine = Some e" using r a by (auto simp: halo_reserve_def split: if_splits)
    then show ?thesis using old by blast
  next
    case False
    show ?thesis
    proof (cases "first_refusal (rv_agree ans) q ?n 0 ?locals")
      case (Some x)
      then have "\<exists>low. keep_engine low engine = Some e"
        using r a False by (cases x) (auto simp: halo_reserve_def)
      then show ?thesis using keep_engine_inv [OF old] by blast
    next
      case None
      then have "is_ok (fst (raw_collective_status (rv_agree ans 0) q ?n (validate_request ans ?p raw engine q ?n)))"
        by (auto split: prod.splits if_splits)
      then have "is_ok (validate_request ans ?p raw engine q ?n)"
        using t not_fails_ok by (auto simp: truthful_def)
      then have "is_ok (validate_specs raw ?p)" by (auto simp: validate_request_def Let_def split: if_splits)
      then have "is_ok (check_specs ?p [] (span_list raw))" by (auto simp: validate_specs_def split: if_splits)
      from check_specs_distinct [OF this] have dist: "distinct (map hs_field (span_list raw))" by simp
      obtain s d where run: "run_phases (rv_agree ans) 5 (reserve_phases ans (span_list raw))
          (blank_halo\<lparr>hd_rank := q, hd_size := ?n, hd_patch := ?p, hd_topology := hm_topology w\<rparr>) = (s, d)" by fastforce
      obtain identity later where ni: "next_identity identities = (identity, later)" by fastforce
      obtain agreed f where c: "collective_status (rv_agree ans 12) (if identity = 0 then failed Invalid_plan 301 else status_ok)
                      (d\<lparr>hd_identity := identity\<rparr>) = (agreed, f)" by fastforce
      consider "\<exists>low. keep_engine low engine = Some e" | (new) "is_ok s" "e = f\<lparr>hd_lowest_failing := - 1\<rparr>"
        using r a False None by (auto simp: halo_reserve_def Let_def run ni c split: if_splits)
      then show ?thesis
      proof cases
        case 1
        then show ?thesis using keep_engine_inv [OF old] by blast
      next
        case new
        note ph = reserve_phases_ok [OF run new(1) t dist]
        then have "engine_inv w (sort_key hs_field (span_list raw)) q d" by (intro inv_reserved) blast+
        then have "engine_inv w (sort_key hs_field (span_list raw)) q f" using inv_collective(1) [OF c] by simp
        then have "engine_inv w (sort_key hs_field (span_list raw)) q e" using new(2) by simp
        then show ?thesis by blast
      qed
    qed
  qed
qed

end
