(* ===== verification/Halo_Fill.thy ===== *)
theory Halo_Fill
  imports Halo_Engine_History
begin

text \<open>
  The effect of an exchange on the memory of a rank: every ghost behind a linked face gets the value its
  source cell had on the neighbour when the exchange began, and no other address is written.
\<close>

section \<open>Ghosts of a view\<close>

lemma padded_value:
  "0 \<le> n \<Longrightarrow> n < 2 ^ 31 \<Longrightarrow> 0 \<le> g \<Longrightarrow> g < 2 ^ 31 \<Longrightarrow>
    unat (word_of_int n + 2 * word_of_int g :: u64) = nat n + 2 * nat g"
proof -
  assume a: "0 \<le> n" "n < 2 ^ 31" "0 \<le> g" "g < 2 ^ 31"
  have "word_of_int n + 2 * word_of_int g = (word_of_int (n + 2 * g) :: u64)" by simp
  moreover have "unat (word_of_int (n + 2 * g) :: u64) = nat (n + 2 * g)" using a by (intro unat_word_of_int64) simp_all
  ultimately show ?thesis using a by (simp add: nat_add_distrib nat_mult_distrib)
qed

lemma shape_apart:
  assumes v: "valid_view_shape v s p" and p: "small3 (mp_cells p)" and g: "int32_triple (fv_ghosts v)"
  shows "strides_apart v"
proof -
  let ?i = "fv_interior v" and ?g = "fv_ghosts v"
  have i: "?i = mp_cells p" using v by (simp add: valid_view_shape_def Let_def)
  have gh: "int (unat (hs_width s)) \<le> x3 ?g" "int (unat (hs_width s)) \<le> y3 ?g" "int (unat (hs_width s)) \<le> z3 ?g"
    using v by (simp_all add: valid_view_shape_def Let_def not_less)
  then have gp: "0 \<le> x3 ?g" "0 \<le> y3 ?g" "0 \<le> z3 ?g" by linarith+
  have b: "0 < x3 ?i" "0 < y3 ?i" "0 < z3 ?i" "x3 ?i < 2 ^ 31" "y3 ?i < 2 ^ 31" "z3 ?i < 2 ^ 31"
    "x3 ?g < 2 ^ 31" "y3 ?g < 2 ^ 31" "z3 ?g < 2 ^ 31"
    using p g i by (simp_all add: small3_def positive3_def int32_triple_def is_int32_def)
  have u: "unat (word_of_int (x3 ?i) + 2 * word_of_int (x3 ?g) :: u64) = nat (x3 ?i) + 2 * nat (x3 ?g)"
    "unat (word_of_int (y3 ?i) + 2 * word_of_int (y3 ?g) :: u64) = nat (y3 ?i) + 2 * nat (y3 ?g)"
    "unat (word_of_int (z3 ?i) + 2 * word_of_int (z3 ?g) :: u64) = nat (z3 ?i) + 2 * nat (z3 ?g)"
    using b gp by (simp_all only: padded_value less_imp_le)
  obtain zm cm where z: "checked_multiply (fv_stride_y v) (word_of_int (y3 ?i) + 2 * word_of_int (y3 ?g)) = Some zm" "fv_stride_z v \<ge> zm"
    "checked_multiply (fv_stride_z v) (word_of_int (z3 ?i) + 2 * word_of_int (z3 ?g)) = Some cm" "fv_component_stride v \<ge> cm"
    "fv_stride_y v \<ge> word_of_int (x3 ?i) + 2 * word_of_int (x3 ?g)"
    using v unfolding valid_view_shape_def Let_def by (auto split: option.splits)
  show ?thesis using z(2,4,5) checked_multiply_SomeD [OF z(1)] checked_multiply_SomeD [OF z(3)] u gp b(1-3)
    by (simp add: strides_apart_def word_le_nat_alt)
qed

lemma ghost_in_box:
  assumes v: "valid_view_shape v s p" and p: "small3 (mp_cells p)"
    and g: "(c, i) \<in> set (section_cells (mp_cells p) s f (ghost_start (mp_cells p) s f))"
  shows "view_box v i c"
proof -
  let ?n = "mp_cells p" and ?g = "fv_ghosts v" and ?w = "int (unat (hs_width s))"
  have i: "fv_interior v = ?n" "fv_components v = hs_components s" "?w \<le> x3 ?g" "?w \<le> y3 ?g" "?w \<le> z3 ?g"
    using v by (simp_all add: valid_view_shape_def Let_def not_less)
  have c: "c < hs_components s" and l: "i \<in> set (layer_positions ?n (face_axis f) (ghost_start ?n s f) ?w)"
    using g by (simp_all add: set_section)
  have "- ?w \<le> axis_of k i \<and> axis_of k i < axis_of k ?n + ?w" if k: "k < 3" for k
  proof (cases "k = face_axis f")
    case True
    then have r: "ghost_start ?n s f \<le> axis_of k i" "axis_of k i < ghost_start ?n s f + ?w"
      using l set_layer [OF axis_below] k by auto
    have "0 < axis_of k ?n" using p k by (intro axis_positive) (simp add: small3_def)
    then show ?thesis using r True by (auto simp: ghost_start_def split: if_splits)
  next
    case False
    then have "0 \<le> axis_of k i" "axis_of k i < axis_of k ?n" using l set_layer [OF axis_below] k by auto
    then show ?thesis by linarith
  qed
  from this [of 0] this [of 1] this [of 2] show ?thesis using i c by (simp add: view_box_def axis_of_def)
qed

text \<open>A position is a ghost of one face only.\<close>

lemma ghost_face:
  assumes p: "positive3 n" and f: "(c, i) \<in> set (section_cells n s f (ghost_start n s f))"
    and g: "(c', i) \<in> set (section_cells n s' g (ghost_start n s' g))"
  shows "f = g"
proof -
  have out: "axis_of (face_axis f) i < 0 \<and> face_minus f \<or> axis_of (face_axis f) n \<le> axis_of (face_axis f) i \<and> \<not> face_minus f"
    if "(c, i) \<in> set (section_cells n s f (ghost_start n s f))" for c s f
    using that set_layer [OF axis_below, of i n f] axis_below [of f] by (auto simp: set_section ghost_start_def split: if_splits)
  have ins: "0 \<le> axis_of k i \<and> axis_of k i < axis_of k n"
    if "(c, i) \<in> set (section_cells n s f (ghost_start n s f))" "k < 3" "k \<noteq> face_axis f" for c s f k
    using that set_layer [OF axis_below, of i n f] by (auto simp: set_section)
  have "face_axis f = face_axis g"
  proof (rule ccontr)
    assume "face_axis f \<noteq> face_axis g"
    then show False using out [OF f] ins [OF g axis_below, of f] by auto
  qed
  moreover have "face_minus f = face_minus g"
    using out [OF f] out [OF g] axis_positive [OF p, of "face_axis f"] calculation by auto
  ultimately show ?thesis by (cases f; cases g) (simp_all add: face_axis_def face_minus_def)
qed

section \<open>Unpacking as a list of writes\<close>

definition apply_writes :: "(int \<times> u64) list \<Rightarrow> (int \<Rightarrow> u64) \<Rightarrow> (int \<Rightarrow> u64)" where
  "apply_writes ws m = fold (\<lambda>(a, x) m. m(a := x)) ws m"

lemma writes_apart: "a \<notin> fst ` set ws \<Longrightarrow> apply_writes ws m a = m a"
  by (induction ws arbitrary: m) (auto simp: apply_writes_def split_beta)

lemma writes_value:
  "(a, x) \<in> set ws \<Longrightarrow> \<forall>(b, y) \<in> set ws. b = a \<longrightarrow> y = x \<Longrightarrow> apply_writes ws m a = x"
proof (induction ws arbitrary: m)
  case (Cons w ws)
  obtain b y where w: "w = (b, y)" by fastforce
  have s: "apply_writes (w # ws) m = apply_writes ws (m(b := y))" by (simp add: apply_writes_def w)
  show ?case
  proof (cases "a \<in> fst ` set ws")
    case True
    then obtain z where "(a, z) \<in> set ws" by auto
    moreover from this have "z = x" using Cons.prems(2) by auto
    ultimately show ?thesis using Cons unfolding s by simp
  next
    case False
    then have "w = (a, x)" using Cons.prems(1) by force
    then show ?thesis using writes_apart [OF False] w unfolding s by simp
  qed
qed simp

definition section_writes :: "halo_data \<Rightarrow> halo_section \<Rightarrow> (int \<times> u64) list" where
  "section_writes d s = (let f = hd_fields d ! sc_slot s; v = fs_finish_view f in
     map (\<lambda>((c, i), x). (view_cell v i c, x))
       (zip (section_cells (fv_interior v) (fs_spec f) (sc_face s) (ghost_start (fv_interior v) (fs_spec f) (sc_face s)))
         (drop (unat (sc_offset s)) (hd_receive d))))"

lemma unpack_section_writes:
  "unpack_section (fs_finish_view (hd_fields d ! sc_slot s)) (fs_spec (hd_fields d ! sc_slot s)) (sc_face s)
     (drop (unat (sc_offset s)) (hd_receive d)) m = apply_writes (section_writes d s) m"
  unfolding unpack_section_def apply_writes_def section_writes_def Let_def fold_map by (intro fold_cong) (auto simp: fun_eq_iff)

lemma writes_concat: "apply_writes (concat wss) m = fold apply_writes wss m"
  by (induction wss arbitrary: m) (simp_all add: apply_writes_def)

lemma concat_nested: "concat (map f (concat xss)) = concat (map (\<lambda>xs. concat (map f xs)) xss)"
  by (induction xss) simp_all

lemma unpack_writes: "unpack_peers d m = apply_writes (concat (map (section_writes d) (concat (map hp_receives (hd_peers d))))) m"
proof -
  have one: "unpack_section (fs_finish_view (hd_fields d ! sc_slot s)) (fs_spec (hd_fields d ! sc_slot s)) (sc_face s)
      (drop (unat (sc_offset s)) (hd_receive d)) = apply_writes (section_writes d s)" for s
    by (rule ext) (rule unpack_section_writes)
  have "fold (\<lambda>s. apply_writes (section_writes d s)) ss = apply_writes (concat (map (section_writes d) ss))" for ss
    by (rule ext) (simp add: writes_concat fold_map comp_def)
  then have "unpack_peers d m = fold (\<lambda>p. apply_writes (concat (map (section_writes d) (hp_receives p)))) (hd_peers d) m"
    unfolding unpack_peers_def Let_def one by simp
  also have "\<dots> = apply_writes (concat (map (\<lambda>p. concat (map (section_writes d) (hp_receives p))) (hd_peers d))) m"
    by (simp add: writes_concat fold_map comp_def)
  finally show ?thesis by (simp add: concat_nested comp_def)
qed

section \<open>What is written\<close>

lemma zip_take: "zip xs ys = zip xs (take (length xs) ys)"
  using take_zip [of "length xs" xs ys] by simp

text \<open>The ghosts of a slot behind a face of a patch.\<close>

definition slot_ghosts :: "halo_mesh \<Rightarrow> int \<Rightarrow> halo_spec \<Rightarrow> halo_face \<Rightarrow> (u8 \<times> int3) list" where
  "slot_ghosts w r s f = section_cells (mp_cells (mesh_patch_of w r)) s f (ghost_start (mp_cells (mesh_patch_of w r)) s f)"

lemma plan_ghosts:
  assumes p: "plan_ok w specs c tag r d" and k: "k < length specs" and f: "mesh_neighbor w r f = Some q"
  obtains j s where "j < length (hd_peers d)" "s \<in> set (hp_receives (hd_peers d ! j))" "sc_slot s = k" "sc_face s = f"
proof -
  obtain j where j: "j < length (hd_peers d)" "hp_rank (hd_peers d ! j) = q" by (rule plan_peer [OF p f])
  have "(k, f, mesh_amount w r (specs ! k) f) \<in> set (mesh.parcel w specs r f f)" using k by (auto simp: mesh.parcel_def)
  then have "(k, f, mesh_amount w r (specs ! k) f) \<in> set (mesh.incoming w specs r q)"
    using f by (auto simp: mesh.incoming_def intro!: bexI [of _ f])
  then have "(k, f, mesh_amount w r (specs ! k) f) \<in> set (contents (hp_receives (hd_peers d ! j)))"
    using plan_contents(2) [OF p j(1)] j(2) by simp
  then obtain i where i: "i < length (hp_receives (hd_peers d ! j))" "sc_slot (hp_receives (hd_peers d ! j) ! i) = k"
    "sc_dest (hp_receives (hd_peers d ! j) ! i) = f" by (auto simp: contents_def in_set_conv_nth)
  show thesis using that [OF j(1) nth_mem [OF i(1)] i(2)] plan_faces(2) [OF p j(1) i(1)] i(3) by simp
qed

lemma section_written:
  assumes p: "plan_ok w specs c tag r d" and w: "mesh_linked w" "small3 (hm_cells w)" "r \<in> mesh_ranks w"
    and x: "halo_specs x = specs" and k: "k < length (hd_peers d)" and s: "s \<in> set (hp_receives (hd_peers d ! k))"
    and i: "fv_interior (fs_finish_view (hd_fields x ! sc_slot s)) = mp_cells (mesh_patch_of w r)"
    and b: "block (hd_receive x) (unat (sc_offset s)) (unat (sc_count s)) =
      map (\<lambda>(c, i). val (sc_slot s) (sc_face s) c i) (slot_ghosts w r (specs ! sc_slot s) (sc_face s))"
  shows "section_writes x s = map (\<lambda>(c, i). (view_cell (fs_finish_view (hd_fields x ! sc_slot s)) i c, val (sc_slot s) (sc_face s) c i))
    (slot_ghosts w r (specs ! sc_slot s) (sc_face s))"
proof -
  let ?cells = "slot_ghosts w r (specs ! sc_slot s) (sc_face s)"
  have n: "length ?cells = unat (sc_count s)" and l: "sc_slot s < length specs"
    using plan_section(2) [OF p w k s] by (simp_all add: slot_ghosts_def length_section)
  have "section_writes x s = map (\<lambda>((c, i), y). (view_cell (fs_finish_view (hd_fields x ! sc_slot s)) i c, y))
      (zip ?cells (drop (unat (sc_offset s)) (hd_receive x)))"
    unfolding section_writes_def Let_def i section_key_specs [OF l x] slot_ghosts_def by (rule refl)
  also have "zip ?cells (drop (unat (sc_offset s)) (hd_receive x)) = zip ?cells (block (hd_receive x) (unat (sc_offset s)) (unat (sc_count s)))"
    unfolding block_def n [symmetric] by (rule zip_take)
  finally show ?thesis unfolding b by (simp add: zip_map2 zip_same_conv_map comp_def split_beta)
qed

lemma fill_core:
  assumes p: "plan_ok w specs c tag r d" and w: "mesh_linked w" "small3 (hm_cells w)" "r \<in> mesh_ranks w"
    and x: "hd_peers x = hd_peers d" "halo_specs x = specs"
    and shape: "\<And>k. k < length specs \<Longrightarrow> valid_view_shape (fs_finish_view (hd_fields x ! k)) (specs ! k) (mesh_patch_of w r) \<and>
      int32_triple (fv_ghosts (fs_finish_view (hd_fields x ! k)))"
    and separate: "\<And>j k i c i' c'. j < length specs \<Longrightarrow> k < length specs \<Longrightarrow> j \<noteq> k \<Longrightarrow>
      view_box (fs_finish_view (hd_fields x ! j)) i c \<Longrightarrow> view_box (fs_finish_view (hd_fields x ! k)) i' c' \<Longrightarrow>
      view_cell (fs_finish_view (hd_fields x ! j)) i c \<noteq> view_cell (fs_finish_view (hd_fields x ! k)) i' c'"
    and data: "\<And>k s. k < length (hd_peers d) \<Longrightarrow> s \<in> set (hp_receives (hd_peers d ! k)) \<Longrightarrow>
      block (hd_receive x) (unat (sc_offset s)) (unat (sc_count s)) =
        map (\<lambda>(c, i). val (sc_slot s) (sc_face s) c i) (slot_ghosts w r (specs ! sc_slot s) (sc_face s))"
  defines "ws \<equiv> concat (map (section_writes x) (concat (map hp_receives (hd_peers x))))"
  shows "k < length specs \<Longrightarrow> mesh_neighbor w r f = Some q \<Longrightarrow> (cc, i) \<in> set (slot_ghosts w r (specs ! k) f) \<Longrightarrow>
      unpack_peers x m (view_cell (fs_finish_view (hd_fields x ! k)) i cc) = val k f cc i"
    and "(\<And>k f q cc i. k < length specs \<Longrightarrow> mesh_neighbor w r f = Some q \<Longrightarrow> (cc, i) \<in> set (slot_ghosts w r (specs ! k) f) \<Longrightarrow>
      a \<noteq> view_cell (fs_finish_view (hd_fields x ! k)) i cc) \<Longrightarrow> unpack_peers x m a = m a"
proof -
  let ?fv = "\<lambda>k. fs_finish_view (hd_fields x ! k)"
  have pc: "small3 (mp_cells (mesh_patch_of w r))" by (rule patch_small [OF w])
  have inner: "fv_interior (?fv k) = mp_cells (mesh_patch_of w r)" if "k < length specs" for k
    using shape [OF that] by (simp add: valid_view_shape_def Let_def)
  have wr: "section_writes x s = map (\<lambda>(c, i). (view_cell (?fv (sc_slot s)) i c, val (sc_slot s) (sc_face s) c i))
      (slot_ghosts w r (specs ! sc_slot s) (sc_face s))" "sc_slot s < length specs" "mesh_neighbor w r (sc_face s) \<noteq> None"
    if k: "k < length (hd_peers d)" "s \<in> set (hp_receives (hd_peers d ! k))" for k s
  proof -
    note ps = plan_section(2) [OF p w k]
    then show "sc_slot s < length specs" "mesh_neighbor w r (sc_face s) \<noteq> None" by simp_all
    then show "section_writes x s = map (\<lambda>(c, i). (view_cell (?fv (sc_slot s)) i c, val (sc_slot s) (sc_face s) c i))
      (slot_ghosts w r (specs ! sc_slot s) (sc_face s))"
      using inner data [OF k] by (intro section_written [OF p w x(2) k]) simp_all
  qed
  have writes: "(a, y) \<in> set ws \<longleftrightarrow> (\<exists>k f c i. k < length specs \<and> mesh_neighbor w r f \<noteq> None \<and>
      (c, i) \<in> set (slot_ghosts w r (specs ! k) f) \<and> a = view_cell (?fv k) i c \<and> y = val k f c i)" for a y
  proof
    assume "(a, y) \<in> set ws"
    then obtain q s where q: "q \<in> set (hd_peers d)" "s \<in> set (hp_receives q)" "(a, y) \<in> set (section_writes x s)"
      by (auto simp: ws_def x(1))
    then obtain k where k: "k < length (hd_peers d)" "q = hd_peers d ! k" by (auto simp: in_set_conv_nth)
    note u = wr [OF k(1) q(2) [unfolded k(2)]]
    show "\<exists>k f c i. k < length specs \<and> mesh_neighbor w r f \<noteq> None \<and>
      (c, i) \<in> set (slot_ghosts w r (specs ! k) f) \<and> a = view_cell (?fv k) i c \<and> y = val k f c i"
      using q(3) u(2,3) unfolding u(1) by (intro exI [of _ "sc_slot s"] exI [of _ "sc_face s"]) auto
  next
    assume "\<exists>k f c i. k < length specs \<and> mesh_neighbor w r f \<noteq> None \<and>
      (c, i) \<in> set (slot_ghosts w r (specs ! k) f) \<and> a = view_cell (?fv k) i c \<and> y = val k f c i"
    then obtain k f c i q where k: "k < length specs" "mesh_neighbor w r f = Some q" "(c, i) \<in> set (slot_ghosts w r (specs ! k) f)"
      and ay: "a = view_cell (?fv k) i c" "y = val k f c i" by auto
    obtain j s where j: "j < length (hd_peers d)" "s \<in> set (hp_receives (hd_peers d ! j))" "sc_slot s = k" "sc_face s = f"
      by (rule plan_ghosts [OF p k(1,2)])
    have "(a, y) \<in> set (section_writes x s)" unfolding wr(1) [OF j(1,2)] using k(3) ay j(3,4) by force
    then show "(a, y) \<in> set ws" using j(1,2) nth_mem [OF j(1)] by (auto simp: ws_def x(1))
  qed
  have u: "unpack_peers x m = apply_writes ws m" by (simp add: unpack_writes ws_def)
  {
    assume k: "k < length specs" "mesh_neighbor w r f = Some q" "(cc, i) \<in> set (slot_ghosts w r (specs ! k) f)"
    let ?a = "view_cell (?fv k) i cc"
    have here: "(?a, val k f cc i) \<in> set ws" unfolding writes using k by blast
    have only: "y = val k f cc i" if y: "(?a, y) \<in> set ws" for y
    proof -
      obtain k' f' c' i' where o: "k' < length specs" "(c', i') \<in> set (slot_ghosts w r (specs ! k') f')" "?a = view_cell (?fv k') i' c'" "y = val k' f' c' i'"
        using y unfolding writes by blast
      have b: "view_box (?fv k) i cc" "view_box (?fv k') i' c'"
        using ghost_in_box [OF conjunct1 [OF shape [OF k(1)]] pc k(3) [unfolded slot_ghosts_def]]
          ghost_in_box [OF conjunct1 [OF shape [OF o(1)]] pc o(2) [unfolded slot_ghosts_def]] by simp_all
      have "k = k'" using separate [OF k(1) o(1) _ b] o(3) by blast
      moreover from this have "i = i' \<and> cc = c'"
        using cells_apart [OF shape_apart [OF conjunct1 [OF shape [OF k(1)]] pc conjunct2 [OF shape [OF k(1)]]] b(1), of i' c'] b(2) o(3) by simp
      moreover from this have "f = f'"
        using ghost_face [of "mp_cells (mesh_patch_of w r)" cc i "specs ! k" f c' "specs ! k'" f'] k(3) o(2) pc
        by (simp add: slot_ghosts_def small3_def)
      ultimately show ?thesis using o(4) by simp
    qed
    have "\<forall>(b, y) \<in> set ws. b = ?a \<longrightarrow> y = val k f cc i"
    proof (rule ballI)
      fix z assume z: "z \<in> set ws"
      obtain b y where zy: "z = (b, y)" by fastforce
      show "case z of (b, y) \<Rightarrow> b = ?a \<longrightarrow> y = val k f cc i" using only [of y] z unfolding zy by auto
    qed
    then show "unpack_peers x m ?a = val k f cc i" unfolding u by (rule writes_value [OF here])
  next
    assume away: "\<And>k f q cc i. k < length specs \<Longrightarrow> mesh_neighbor w r f = Some q \<Longrightarrow> (cc, i) \<in> set (slot_ghosts w r (specs ! k) f) \<Longrightarrow>
      a \<noteq> view_cell (?fv k) i cc"
    have "a \<notin> fst ` set ws"
    proof
      assume "a \<in> fst ` set ws"
      then obtain y where "(a, y) \<in> set ws" by auto
      then obtain k f c i where k: "k < length specs" "mesh_neighbor w r f \<noteq> None" "(c, i) \<in> set (slot_ghosts w r (specs ! k) f)" "a = view_cell (?fv k) i c"
        unfolding writes by blast
      obtain q where "mesh_neighbor w r f = Some q" using k(2) by blast
      from away [OF k(1) this k(3)] k(4) show False by simp
    qed
    then show "unpack_peers x m a = m a" unfolding u by (rule writes_apart)
  }
qed

end
