(* ===== verification/Halo_Two_Ranks.thy ===== *)
theory Halo_Two_Ranks
  imports Halo_Plans Halo_Engine_History
begin

text \<open>The two ranks of \<^verbatim>\<open>Halo_Plans\<close> reserve their engines: the start of the histories the properties are evaluated on.\<close>

section \<open>Answers\<close>

text \<open>On every call MPI answers with what the rank contributed.\<close>

definition echo :: status_answers where
  "echo = \<lparr>sa_min = Some, sa_bcast = (\<lambda>_. Some)\<rparr>"

lemma truthful_echo: "q = 0 \<or> q = 1 \<Longrightarrow> truthful q 2 echo"
proof -
  assume q: "q = 0 \<or> q = 1"
  have "\<not> is_ok (fst (raw_collective_status echo q 2 st))" if f: "rank_fails st" for st
  proof -
    have c: "halo_candidate q st = word_of_int q" using f by (simp add: halo_candidate_def rank_fails_def)
    have s: "(word_of_int q :: u64) \<noteq> u64_max" "\<not> (word_of_int q :: u64) \<ge> word_of_int 2" "uint (word_of_int q :: u64) = q"
      using q by (elim disjE; simp only:; code_simp)+
    have l: "scode (halo_local st) \<noteq> Ok" "halo_code_valid (scode (halo_local st))"
      using f by (simp_all add: rank_fails_def halo_local_def failed_def)
    have "code_of_value (code_value (scode (halo_local st))) \<noteq> Ok"
      using l by (cases "scode (halo_local st)") (simp_all add: code_of_value_def)
    then show ?thesis
      unfolding raw_collective_status_def Let_def echo_def status_answers.select_convs option.case c if_not_P [OF s(1)] if_not_P [OF s(2)] s(3)
      by (simp add: is_ok_def failed_def)
  qed
  then show ?thesis unfolding truthful_def by blast
qed

lemma echo_ok: "collective_status echo status_ok d =
    (status_ok, noted d (- 1) ((hd_counters d)\<lparr>ho_consensus_calls := ho_consensus_calls (hd_counters d) + 1\<rparr>))"
  by (simp add: collective_status_def raw_collective_status_def echo_def halo_candidate_def halo_local_def noted_def)

definition two_answers :: "int \<Rightarrow> reserve_answers" where
  "two_answers q = \<lparr>rv_rank = Some q, rv_size = Some 2, rv_memory = True, rv_agree = (\<lambda>_. echo), rv_dup_control = True,
     rv_handler_control = True, rv_dup_transport = True, rv_handler_transport = True, rv_tag = Some (Some 1), rv_tag_min = Some,
     rv_fields_memory = True, rv_contract_min = Some, rv_contract_max = Some, rv_peers_memory = True, rv_wires_memory = True,
     rv_alltoall = Some, rv_created = (\<lambda>_. True)\<rparr>"

definition two_requests :: "int \<Rightarrow> halo_request list" where
  "two_requests q = [Receive_request 0 2 (1 - q) 0, Send_request 0 2 (1 - q) 0]"

definition ready :: "int \<Rightarrow> halo_data" where
  "ready q = (planned q)\<lparr>hd_requests := two_requests q, hd_identity := 1,
     hd_counters := (hd_counters blank_halo)\<lparr>ho_consensus_calls := 8\<rparr>\<rparr>"

section \<open>Reserve\<close>

lemma build_peers_noted: "build_peers d = Inr e \<Longrightarrow> build_peers (noted d low u) = Inr (noted e low u)"
  by (auto simp: build_peers_def noted_def halo_specs_def Let_def split: sum.splits option.splits if_splits)

lemma run_echo:
  "phase d = (status_ok, d1) \<Longrightarrow> hd_counters d1 = u \<Longrightarrow> run_phases (\<lambda>_. echo) k (phase # phases) d =
    run_phases (\<lambda>_. echo) (k + 1) phases (noted d1 (- 1) (u\<lparr>ho_consensus_calls := ho_consensus_calls u + 1\<rparr>))"
  by (simp add: echo_ok)

lemma two_phases:
  assumes q: "q = 0 \<or> q = 1"
  shows "run_phases (\<lambda>_. echo) 5 (reserve_phases (two_answers q) one_field)
    (blank_halo\<lparr>hd_rank := q, hd_size := 2, hd_patch := mesh_patch_of two_ranks q, hd_topology := hm_topology two_ranks\<rparr>) =
    (status_ok, (ready q)\<lparr>hd_identity := 0, hd_counters := (hd_counters blank_halo)\<lparr>ho_consensus_calls := 7\<rparr>\<rparr>)"
proof -
  let ?d = "blank_halo\<lparr>hd_rank := q, hd_size := 2, hd_patch := mesh_patch_of two_ranks q, hd_topology := hm_topology two_ranks\<rparr>"
  let ?u = "\<lambda>n. (hd_counters blank_halo)\<lparr>ho_consensus_calls := n\<rparr>" and ?a = "two_answers q"
  let ?d1 = "?d\<lparr>hd_maximum_tag := 1, hd_stats := (hd_stats blank_halo)\<lparr>ht_maximum_tag := 1\<rparr>\<rparr>"
  have u: "(?u n)\<lparr>ho_consensus_calls := ho_consensus_calls (?u n) + 1\<rparr> = ?u (n + 1)" for n by simp
  have c: "hd_counters ?d1 = ?u 0" by (simp add: blank_halo_def)
  have n: "hd_counters (noted d l v) = v" for d l v by (simp add: noted_def)
  have 1: "tag_phase ?a ?d = (status_ok, ?d1)"
    by (simp add: tag_phase_def two_answers_def mpi_ok_def blank_halo_def)
  have 2: "fields_phase ?a one_field (noted ?d1 (- 1) v) = (status_ok, noted (planned_input q) (- 1) v)" for v
    by (simp add: fields_phase_def two_answers_def one_field_def planned_input_def noted_def blank_halo_def field_slot_of_def)
  have 3: "contract_phase ?a d = (status_ok, d)" for d by (simp add: contract_phase_def two_answers_def)
  have 4: "peers_phase ?a (noted (planned_input q) (- 1) v) = (status_ok, noted (planned q) (- 1) v)" for v
    using build_peers_noted [OF planned_ok [OF q]] by (simp add: peers_phase_def two_answers_def)
  have 5: "(\<lambda>d. (if rv_wires_memory ?a then status_ok else failed Allocation_failure 0, d)) d = (status_ok, d)" for d
    by (simp add: two_answers_def)
  have 6: "sizes_phase ?a d = (status_ok, d)" for d by (simp add: sizes_phase_def two_answers_def)
  have 7: "create_requests (rv_created ?a) (noted (planned q) (- 1) v) = (status_ok, noted ((planned q)\<lparr>hd_requests := two_requests q\<rparr>) (- 1) v)" for v
    by (simp add: create_requests_def planned_def planned_chunks_def planned_peers_def receive_request_def send_request_def two_requests_def
        noted_def two_answers_def)
  have again: "noted (noted d l v) l' v' = noted d l' v'" for d l v l' v' by (simp add: noted_def)
  have r: "run_phases (\<lambda>_. echo) k (phase # phases) d = run_phases (\<lambda>_. echo) (k + 1) phases (noted d1 (- 1) (?u (m + 1)))"
    if "phase d = (status_ok, d1)" "hd_counters d1 = ?u m" for k phase phases d d1 m
    using run_echo [where phase = phase and d = d, OF that] unfolding u .
  let ?run = "\<lambda>k phases d. run_phases (\<lambda>_. echo) k phases d"
  have s1: "?run k (tag_phase ?a # ps) ?d = ?run (k + 1) ps (noted ?d1 (- 1) (?u (0 + 1)))" for k ps by (rule r, rule 1, rule c)
  have s2: "?run k (fields_phase ?a one_field # ps) (noted ?d1 (- 1) (?u m)) = ?run (k + 1) ps (noted (planned_input q) (- 1) (?u (m + 1)))" for k ps m
    by (rule trans, rule r, rule 2, rule n, simp only: again)
  have s3: "?run k (contract_phase ?a # ps) (noted d (- 1) (?u m)) = ?run (k + 1) ps (noted d (- 1) (?u (m + 1)))" for k ps d m
    by (rule trans, rule r, rule 3, rule n, simp only: again)
  have s4: "?run k (peers_phase ?a # ps) (noted (planned_input q) (- 1) (?u m)) = ?run (k + 1) ps (noted (planned q) (- 1) (?u (m + 1)))" for k ps m
    by (rule trans, rule r, rule 4, rule n, simp only: again)
  have s5: "?run k ((\<lambda>d. (if rv_wires_memory ?a then status_ok else failed Allocation_failure 0, d)) # ps) (noted d (- 1) (?u m)) =
      ?run (k + 1) ps (noted d (- 1) (?u (m + 1)))" for k ps d m
    by (rule trans, rule r, rule 5, rule n, simp only: again)
  have s6: "?run k (sizes_phase ?a # ps) (noted d (- 1) (?u m)) = ?run (k + 1) ps (noted d (- 1) (?u (m + 1)))" for k ps d m
    by (rule trans, rule r, rule 6, rule n, simp only: again)
  have s7: "?run k (create_requests (rv_created ?a) # ps) (noted (planned q) (- 1) (?u m)) =
      ?run (k + 1) ps (noted ((planned q)\<lparr>hd_requests := two_requests q\<rparr>) (- 1) (?u (m + 1)))" for k ps m
    by (rule trans, rule r, rule 7, rule n, simp only: again)
  have "run_phases (\<lambda>_. echo) 5 (reserve_phases ?a one_field) ?d =
      (status_ok, noted ((planned q)\<lparr>hd_requests := two_requests q\<rparr>) (- 1) (?u (0 + 1 + 1 + 1 + 1 + 1 + 1 + 1)))"
    unfolding reserve_phases_def s1 s2 s3 s4 s5 s6 s7 run_phases.simps(1) by (rule refl)
  also have "\<dots> = (status_ok, (ready q)\<lparr>hd_identity := 0, hd_counters := ?u 7\<rparr>)"
    by (simp add: noted_def ready_def planned_def planned_input_def blank_halo_def)
  finally show ?thesis .
qed

lemma two_world: "mesh_linked two_ranks" "small3 (hm_cells two_ranks)" "0 \<in> mesh_ranks two_ranks" "1 \<in> mesh_ranks two_ranks"
  "grid_ranks (hm_grid two_ranks) = 2"
  by (simp_all add: two_ranks_linked small3_def positive3_def) (simp_all add: two_ranks_def grid_ranks_def)

lemma two_reserved:
  assumes q: "q = 0 \<or> q = 1"
  shows "halo_reserve (two_answers q) False (mesh_patch_of two_ranks q) (Span one_field) (hm_topology two_ranks) 1 None =
    (status_ok, Some (ready q), 2)"
proof -
  let ?a = "two_answers q" and ?p = "mesh_patch_of two_ranks q"
  have "validate_patch ?p q 2 = status_ok" "check_specs ?p [] one_field = status_ok"
    using q by (elim disjE; simp only:; code_simp)+
  then have v: "validate_request ?a ?p (Span one_field) None q 2 = status_ok"
    by (simp add: validate_request_def validate_specs_def two_answers_def halo_active_def) (simp add: one_field_def)
  have a: "rv_rank ?a = Some q" "rv_size ?a = Some 2" "rv_agree ?a = (\<lambda>_. echo)" "mpi_ok (rv_dup_control ?a) = status_ok"
    "mpi_ok (rv_handler_control ?a) = status_ok" "mpi_ok (rv_dup_transport ?a) = status_ok" "mpi_ok (rv_handler_transport ?a) = status_ok"
    by (simp_all add: two_answers_def mpi_ok_def)
  have quiet: "raw_collective_status echo q 2 status_ok = (status_ok, - 1)"
    by (simp add: raw_collective_status_def echo_def halo_candidate_def halo_local_def)
  have f: "first_refusal (\<lambda>_. echo) q 2 0 [status_ok, status_ok, status_ok, status_ok, status_ok] = None"
    by (simp add: quiet)
  have i: "next_identity 1 = (1, 2)" by (simp add: next_identity_def)
  let ?d = "(ready q)\<lparr>hd_counters := (hd_counters blank_halo)\<lparr>ho_consensus_calls := 7\<rparr>, hd_identity := 1\<rparr>"
  have last_step: "collective_status echo status_ok ?d =
      (status_ok, noted ?d (- 1) ((hd_counters blank_halo)\<lparr>ho_consensus_calls := 8\<rparr>))"
    unfolding echo_ok by (simp add: noted_def)
  have "(noted ?d (- 1) ((hd_counters blank_halo)\<lparr>ho_consensus_calls := 8\<rparr>))\<lparr>hd_lowest_failing := - 1\<rparr> = ready q"
    by (simp add: noted_def ready_def planned_def planned_input_def blank_halo_def)
  then show ?thesis
    unfolding halo_reserve_def a v option.case f two_phases [OF q] Let_def prod.case i span_list.simps
    by (simp add: two_phases [OF q] last_step)
qed

lemma ready_inv: "q = 0 \<or> q = 1 \<Longrightarrow> engine_inv two_ranks one_field q (ready q)"
proof -
  assume q: "q = 0 \<or> q = 1"
  have world: "(blank_halo\<lparr>hd_rank := q, hd_size := 2, hd_patch := mesh_patch_of two_ranks q, hd_topology := hm_topology two_ranks\<rparr>) =
    (blank_halo\<lparr>hd_rank := q, hd_size := grid_ranks (hm_grid two_ranks), hd_patch := mesh_patch_of two_ranks q, hd_topology := hm_topology two_ranks\<rparr>)"
    by (simp add: two_world)
  have a: "rv_agree (two_answers q) = (\<lambda>_. echo)" by (simp add: two_answers_def)
  have run: "run_phases (rv_agree (two_answers q)) 5 (reserve_phases (two_answers q) one_field)
      (blank_halo\<lparr>hd_rank := q, hd_size := grid_ranks (hm_grid two_ranks), hd_patch := mesh_patch_of two_ranks q, hd_topology := hm_topology two_ranks\<rparr>) =
      (status_ok, (ready q)\<lparr>hd_identity := 0, hd_counters := (hd_counters blank_halo)\<lparr>ho_consensus_calls := 7\<rparr>\<rparr>)"
    unfolding a world [symmetric] by (rule two_phases [OF q])
  have t: "\<forall>k. truthful q (grid_ranks (hm_grid two_ranks)) (rv_agree (two_answers q) k)"
    using truthful_echo [OF q] by (simp add: a two_world)
  have sorted: "sort_key hs_field one_field = one_field" "distinct (map hs_field one_field)" by (simp_all add: one_field_def)
  note ph = reserve_phases_ok [OF run _ t sorted(2), unfolded sorted(1)]
  then have "engine_inv two_ranks one_field q ((ready q)\<lparr>hd_identity := 0, hd_counters := (hd_counters blank_halo)\<lparr>ho_consensus_calls := 7\<rparr>\<rparr>)"
    by (intro inv_reserved) simp_all
  then show "engine_inv two_ranks one_field q (ready q)" by simp
qed

end
