(* ===== verification/Halo_Exchange.thy ===== *)
theory Halo_Exchange
  imports Halo_Fill Halo_Two_Ranks
begin

text \<open>
  The properties of the halo exchange: the state of an engine over any history of calls, and an exchange
  of all ranks of a mesh from the begin of each to the finish of each.
\<close>

section \<open>Histories of an engine\<close>

text \<open>
  The protocol of \<^verbatim>\<open>v04_parallel.hpp\<close> for the owner of an engine: inside a prepared epoch the prepared pair
  is called, outside it the ordinary one.
\<close>

inductive engine_history :: "halo_mesh \<Rightarrow> int \<Rightarrow> halo_data option \<Rightarrow> bool" for w :: halo_mesh and q :: int where
  unreserved: "engine_history w q None"
| reserved: "engine_history w q engine \<Longrightarrow> \<forall>k. truthful q (grid_ranks (hm_grid w)) (rv_agree ans k) \<Longrightarrow>
    rv_rank ans = Some q \<Longrightarrow> rv_size ans = Some (grid_ranks (hm_grid w)) \<Longrightarrow>
    halo_reserve ans null (mesh_patch_of w q) raw (hm_topology w) identities engine = (st, engine', identities') \<Longrightarrow>
    engine_history w q engine'"
| begun: "engine_history w q engine \<Longrightarrow> halo_begin ba stage views prerequisite ticket m engine = (st, ticket', engine') \<Longrightarrow>
    engine_history w q engine'"
| finished: "engine_history w q (Some d) \<Longrightarrow> \<not> hd_prepared_epoch d \<Longrightarrow>
    halo_finish fa ticket views m (Some d) = (st, ticket', m', engine') \<Longrightarrow> engine_history w q engine'"
| entered: "engine_history w q engine \<Longrightarrow> enter_prepared_epoch engine = (st, engine') \<Longrightarrow> engine_history w q engine'"
| begun_prepared: "engine_history w q (Some d) \<Longrightarrow> hd_prepared_epoch d \<Longrightarrow>
    begin_prepared start drained stage views deferred ticket m (Some d) = (st, deferred', ticket', engine') \<Longrightarrow> engine_history w q engine'"
| finished_prepared: "engine_history w q engine \<Longrightarrow>
    finish_prepared fa ticket views deferred m engine = (st, deferred', ticket', m', engine') \<Longrightarrow> engine_history w q engine'"
| closed: "engine_history w q engine \<Longrightarrow> close_prepared_epoch publish low engine = engine' \<Longrightarrow> engine_history w q engine'"

lemma history_inv:
  assumes "engine_history w q engine" "mesh_linked w" "small3 (hm_cells w)" "q \<in> mesh_ranks w"
  shows "\<forall>d. engine = Some d \<longrightarrow> (\<exists>specs. engine_inv w specs q d)"
  using assms(1)
proof induction
  case (reserved engine ans null raw identities st engine' identities')
  show ?case
  proof (intro allI impI)
    fix e assume "engine' = Some e"
    then show "\<exists>specs. engine_inv w specs q e"
      using reserve_outcome [OF reserved.hyps(2-4) reserved.IH] reserved.hyps(5) by blast
  qed
next
  case (begun engine ba stage views prerequisite ticket m st ticket' engine')
  show ?case
  proof (cases engine)
    case None
    then show ?thesis using begun.hyps(2) by (simp add: halo_begin_def)
  next
    case (Some d)
    then obtain specs where "engine_inv w specs q d" using begun.IH by blast
    from begin_outcome [OF assms(2-4) this] begun.hyps(2) Some show ?thesis by blast
  qed
next
  case (finished d fa ticket views m st ticket' m' engine')
  then obtain specs where "engine_inv w specs q d" by blast
  from finish_outcome [OF this finished.hyps(3)] finished.hyps(2) show ?case by blast
next
  case (entered engine st engine')
  show ?case
  proof (cases engine)
    case None
    then show ?thesis using entered.hyps(2) by (simp add: enter_prepared_epoch_def)
  next
    case (Some d)
    then obtain specs where "engine_inv w specs q d" using entered.IH by blast
    from enter_outcome [OF this] entered.hyps(2) Some show ?thesis by blast
  qed
next
  case (begun_prepared d start drained stage views deferred ticket m st deferred' ticket' engine')
  then obtain specs where "engine_inv w specs q d" by blast
  from begin_prepared_outcome [OF assms(2-4) this begun_prepared.hyps(2,3)] show ?case by blast
next
  case (finished_prepared engine fa ticket views deferred m st deferred' ticket' m' engine')
  show ?case
  proof (cases engine)
    case None
    then show ?thesis using finished_prepared.hyps(2) by (simp add: finish_prepared_def)
  next
    case (Some d)
    then obtain specs where "engine_inv w specs q d" using finished_prepared.IH by blast
    from finish_prepared_outcome [OF this] finished_prepared.hyps(2) Some show ?thesis by blast
  qed
next
  case (closed engine publish low engine')
  show ?case
  proof (cases engine)
    case None
    then show ?thesis using closed.hyps(2) by (simp add: close_prepared_epoch_def)
  next
    case (Some d)
    then obtain specs where "engine_inv w specs q d" using closed.IH by blast
    from close_outcome [OF this] closed.hyps(2) Some show ?thesis by blast
  qed
qed simp

lemma inv_typed:
  assumes i: "engine_inv w specs q d" and w: "mesh_linked w" "small3 (hm_cells w)" "q \<in> mesh_ranks w" and p: "p \<in> set (hd_peers d)"
  shows "s \<in> set (hp_sends p) \<Longrightarrow> sc_slot s < length (hd_fields d) \<and> unat (sc_offset s) + unat (sc_count s) \<le> length (hd_send d)"
    and "s \<in> set (hp_receives p) \<Longrightarrow> sc_slot s < length (hd_fields d) \<and> unat (sc_offset s) + unat (sc_count s) \<le> length (hd_receive d)"
proof -
  have pl: "plan_ok w specs maximum_chunk_doubles (hd_maximum_tag d) q d" and n: "length (hd_fields d) = length specs"
    using i by (auto simp: engine_inv_def engine_ok_def halo_specs_def)
  obtain k where k: "k < length (hd_peers d)" "p = hd_peers d ! k" using p by (auto simp: in_set_conv_nth)
  note st = plan_storage [OF pl k(1)]
  have fit: "counts_before ss j + unat (sc_count (ss ! j)) \<le> counts_before ss (length ss)" if "j < length ss" for ss :: "halo_section list" and j
  proof -
    have "counts_before ss j + unat (sc_count (ss ! j)) = counts_before ss (Suc j)" using that by (simp add: counts_before_def take_Suc_conv_app_nth)
    moreover have "counts_before ss (length ss) = counts_before ss (Suc j) + sum_list (map (unat \<circ> sc_count) (drop (Suc j) ss))"
      unfolding counts_before_def by (metis append_take_drop_id map_append order_refl sum_list_append take_all)
    ultimately show ?thesis by simp
  qed
  {
    assume s: "s \<in> set (hp_sends p)"
    then obtain j where j: "j < length (hp_sends p)" "s = hp_sends p ! j" by (auto simp: in_set_conv_nth)
    show "sc_slot s < length (hd_fields d) \<and> unat (sc_offset s) + unat (sc_count s) \<le> length (hd_send d)"
      using plan_section(1) [OF pl w k(1)] s k(2) n plan_offsets(1) [OF pl k(1), of j] j fit [OF j(1)] plan_peerD(6) [OF pl k(1)] st by simp
  next
    assume s: "s \<in> set (hp_receives p)"
    then obtain j where j: "j < length (hp_receives p)" "s = hp_receives p ! j" by (auto simp: in_set_conv_nth)
    show "sc_slot s < length (hd_fields d) \<and> unat (sc_offset s) + unat (sc_count s) \<le> length (hd_receive d)"
      using plan_section(2) [OF pl w k(1)] s k(2) n plan_offsets(2) [OF pl k(1), of j] j fit [OF j(1)] plan_peerD(7) [OF pl k(1)] st by simp
  }
qed

section \<open>An exchange of all ranks\<close>

text \<open>
  What every rank brings to an exchange: its engine, the arguments of its \<^verbatim>\<open>begin\<close> and \<^verbatim>\<open>finish\<close>, what MPI
  answers it, and its memory at either call; the application may write in between.
\<close>

record exchange_run =
  er_engine :: "int \<Rightarrow> halo_data"
  er_stage :: "int \<Rightarrow> stage_id"
  er_prerequisite :: "int \<Rightarrow> status"
  er_ticket :: "int \<Rightarrow> halo_ticket"
  er_begin :: "int \<Rightarrow> begin_answers"
  er_sources :: "int \<Rightarrow> field_view span"
  er_source_memory :: "int \<Rightarrow> int \<Rightarrow> u64"
  er_finish :: "int \<Rightarrow> finish_answers"
  er_views :: "int \<Rightarrow> field_view span"
  er_memory :: "int \<Rightarrow> int \<Rightarrow> u64"

definition er_begun :: "exchange_run \<Rightarrow> int \<Rightarrow> status \<times> halo_ticket \<times> halo_data option" where
  "er_begun x q = halo_begin (er_begin x q) (er_stage x q) (er_sources x q) (er_prerequisite x q) (er_ticket x q)
     (er_source_memory x q) (Some (er_engine x q))"

definition er_open :: "exchange_run \<Rightarrow> int \<Rightarrow> halo_data" where
  "er_open x q = the (snd (snd (er_begun x q)))"

definition er_finished :: "exchange_run \<Rightarrow> int \<Rightarrow> status \<times> halo_ticket \<times> (int \<Rightarrow> u64) \<times> halo_data option" where
  "er_finished x q = halo_finish (er_finish x q) (fst (snd (er_begun x q))) (er_views x q) (er_memory x q) (Some (er_open x q))"

definition er_result :: "exchange_run \<Rightarrow> int \<Rightarrow> int \<Rightarrow> u64" where
  "er_result x q = fst (snd (snd (er_finished x q)))"

section \<open>The exchange of the two ranks\<close>

definition two_view :: field_view where
  "two_view = \<lparr>fv_base = Some 1000, fv_interior = \<lparr>x3 = 2, y3 = 1, z3 = 1\<rparr>, fv_ghosts = \<lparr>x3 = 1, y3 = 1, z3 = 1\<rparr>, fv_components = 1,
     fv_stride_y = 4, fv_stride_z = 12, fv_component_stride = 36, fv_replica = 0, fv_field = 7, fv_revision = 5,
     fv_storage_identity = 1, fv_revision_domain = 1\<rparr>"

definition two_memory :: "int \<Rightarrow> int \<Rightarrow> u64" where
  "two_memory q a = word_of_int (a + 10000 * q)"

definition two_run :: exchange_run where
  "two_run = \<lparr>er_engine = ready, er_stage = (\<lambda>_. 3), er_prerequisite = (\<lambda>_. status_ok), er_ticket = (\<lambda>_. no_ticket),
     er_begin = (\<lambda>_. \<lparr>ba_created = (\<lambda>_. True), ba_packed = echo, ba_start = True, ba_started = echo, ba_drained = nth,
       ba_recreated = (\<lambda>_. True), ba_restored = echo\<rparr>),
     er_sources = (\<lambda>_. Span [two_view]), er_source_memory = two_memory,
     er_finish = (\<lambda>q. \<lparr>fa_bound = echo, fa_wait = True, fa_received = (\<lambda>_. nth [two_memory (1 - q) 1001, two_memory (1 - q) 1000]),
       fa_completed = echo, fa_drained = nth, fa_recreated = (\<lambda>_. True), fa_restored = echo\<rparr>),
     er_views = (\<lambda>_. Span [two_view]), er_memory = (\<lambda>_ _. 0)\<rparr>"

definition two_closed :: halo_data where
  "two_closed = the (snd (snd (snd (er_finished two_run 0))))"

lemma two_history: "engine_history two_ranks 0 (Some (ready 0))"
proof (rule engine_history.reserved [OF engine_history.unreserved, where ans = "two_answers 0"])
  show "\<forall>k. truthful 0 (grid_ranks (hm_grid two_ranks)) (rv_agree (two_answers 0) k)"
    using truthful_echo [of 0] by (simp add: two_world two_answers_def)
  show "rv_rank (two_answers 0) = Some 0" "rv_size (two_answers 0) = Some (grid_ranks (hm_grid two_ranks))"
    by (simp_all add: two_answers_def two_world)
  show "halo_reserve (two_answers 0) False (mesh_patch_of two_ranks 0) (Span one_field) (hm_topology two_ranks) 1 None =
    (status_ok, Some (ready 0), 2)" by (rule two_reserved) simp
qed

lemma two_open_engine: "snd (snd (er_begun two_run 0)) = Some (er_open two_run 0)" "er_engine two_run 0 = ready 0"
  by code_simp (simp add: two_run_def)

lemma two_open_history: "engine_history two_ranks 0 (Some (er_open two_run 0))"
proof -
  have "er_begun two_run 0 = (fst (er_begun two_run 0), fst (snd (er_begun two_run 0)), Some (er_open two_run 0))"
    using two_open_engine(1) by (metis prod.collapse)
  then show ?thesis unfolding er_begun_def two_open_engine(2) by (rule engine_history.begun [OF two_history])
qed

lemma two_closed_history: "engine_history two_ranks 0 (Some two_closed)"
proof -
  have "\<not> hd_prepared_epoch (er_open two_run 0)" by code_simp
  moreover have "snd (snd (snd (er_finished two_run 0))) = Some two_closed" by code_simp
  then have "er_finished two_run 0 = (fst (er_finished two_run 0), fst (snd (er_finished two_run 0)), fst (snd (snd (er_finished two_run 0))), Some two_closed)"
    by (metis prod.collapse)
  ultimately show ?thesis unfolding er_finished_def by (rule engine_history.finished [OF two_open_history])
qed

section \<open>The ordinary finish inside a prepared epoch\<close>

text \<open>
  \<^verbatim>\<open>begin\<close> refuses an engine in a prepared epoch, \<^verbatim>\<open>finish\<close> does not: called with the ticket of a prepared
  exchange it certifies the ghosts while the epoch is still open. The histories above leave this call out.
\<close>

lemma finish_certifies_inside_epoch:
  "case begin_prepared True nth 3 (Span [two_view]) status_ok no_ticket (two_memory 0) (snd (enter_prepared_epoch (Some (ready 0)))) of
     (started, deferred, ticket, engine) \<Rightarrow>
       (case halo_finish (er_finish two_run 0) ticket (Span [two_view]) (\<lambda>_. 0) engine of
          (finished, ticket', m, engine') \<Rightarrow>
            started = status_ok \<and> finished = status_ok \<and> hd_prepared_epoch (the engine') \<and> ghost_revision engine' 7 = 5)"
  by code_simp

section \<open>The state of an engine\<close>

text \<open>
  C40. Whatever sequence of calls an engine has seen, it is well typed: every section of every peer names a
  field of the engine and lies inside the storage it is packed into or unpacked from, the lookup sends a
  field to its own slot or to none, there is a candidate view per field and two requests per message.
\<close>

theorem halo_engine_typed:
  assumes "mesh_linked w" "small3 (hm_cells w)" "q \<in> mesh_ranks w" "engine_history w q (Some d)"
  shows "(\<forall>p \<in> set (hd_peers d).
      (\<forall>s \<in> set (hp_sends p). sc_slot s < length (hd_fields d) \<and> unat (sc_offset s) + unat (sc_count s) \<le> length (hd_send d)) \<and>
      (\<forall>s \<in> set (hp_receives p). sc_slot s < length (hd_fields d) \<and> unat (sc_offset s) + unat (sc_count s) \<le> length (hd_receive d))) \<and>
    (\<forall>f. hd_lookup d f \<ge> 0 \<longrightarrow> nat (hd_lookup d f) < length (hd_fields d) \<and> hs_field (fs_spec (hd_fields d ! nat (hd_lookup d f))) = f) \<and>
    length (hd_candidate_views d) = length (hd_fields d) \<and> length (hd_requests d) = 2 * length (hd_chunks d)"
proof -
  obtain specs where i: "engine_inv w specs q d" using history_inv [OF assms(4,1-3)] by blast
  have "length (hd_candidate_views d) = length (hd_fields d)" using i by (auto simp: engine_inv_def engine_ok_def halo_specs_def)
  then show ?thesis using inv_typed [OF i assms(1-3)] inv_lookup_typed [OF i] inv_requests_length [OF i] by blast
qed

theorem halo_engine_typed_witness:
  "\<exists>p \<in> set (hd_peers (ready 0)). \<exists>s \<in> set (hp_receives p). sc_slot s < length (hd_fields (ready 0)) \<and>
    unat (sc_offset s) + unat (sc_count s) \<le> length (hd_receive (ready 0))"
proof -
  have "hd_peers (ready 0) \<noteq> []" "hp_receives (hd_peers (ready 0) ! 0) \<noteq> []" by code_simp+
  then have "hd_peers (ready 0) ! 0 \<in> set (hd_peers (ready 0))"
    "hp_receives (hd_peers (ready 0) ! 0) ! 0 \<in> set (hp_receives (hd_peers (ready 0) ! 0))" by simp_all
  with halo_engine_typed [OF two_world(1-3) two_history] show ?thesis by blast
qed



section \<open>An exchange that completes\<close>

text \<open>The views of a call do not overlap: the arena keeps the storages of the fields apart.\<close>

definition views_apart :: "field_view list \<Rightarrow> bool" where
  "views_apart vs \<longleftrightarrow> (\<forall>v \<in> set vs. view_ok v) \<and>
     (\<forall>v \<in> set vs. \<forall>u \<in> set vs. fv_field v \<noteq> fv_field u \<longrightarrow>
       (\<forall>i c j b. view_box v i c \<longrightarrow> view_box u j b \<longrightarrow> view_cell v i c \<noteq> view_cell u j b))"

text \<open>Every rank reports success, no consensus hides a failure, and MPI delivers what was sent.\<close>

definition exchange_completes :: "halo_mesh \<Rightarrow> halo_spec list \<Rightarrow> exchange_run \<Rightarrow> bool" where
  "exchange_completes w specs x \<longleftrightarrow> (\<forall>q \<in> mesh_ranks w.
     engine_inv w specs q (er_engine x q) \<and> is_ok (fst (er_begun x q)) \<and> is_ok (fst (er_finished x q)) \<and>
     truthful q (grid_ranks (hm_grid w)) (ba_packed (er_begin x q)) \<and> truthful q (grid_ranks (hm_grid w)) (fa_bound (er_finish x q)) \<and>
     views_apart (span_list (er_views x q)) \<and>
     (\<forall>r \<in> mesh_ranks w. delivers (hd_requests (er_open x q)) (hd_send (er_open x q)) (hd_requests (er_open x r))
        (arrived (er_finish x r) (er_open x r)) q r))"

lemma two_rank_completes:
  assumes q: "q = 0 \<or> q = 1"
  shows "is_ok (fst (er_begun two_run q)) \<and> is_ok (fst (er_finished two_run q)) \<and>
    hd_requests (er_open two_run q) = two_requests q \<and> hd_send (er_open two_run q) = [two_memory q 1001, two_memory q 1000] \<and>
    arrived (er_finish two_run q) (er_open two_run q) = [two_memory (1 - q) 1001, two_memory (1 - q) 1000]"
  using q by (intro conjI; elim disjE; simp only:; code_simp)

lemma two_completes: "exchange_completes two_ranks one_field two_run"
  unfolding exchange_completes_def
proof
  fix q assume "q \<in> mesh_ranks two_ranks"
  then have q: "q = 0 \<or> q = 1" by (simp add: two_ranks_linked)
  have a: "er_engine two_run q = ready q" "ba_packed (er_begin two_run q) = echo" "fa_bound (er_finish two_run q) = echo"
    "span_list (er_views two_run q) = [two_view]" by (simp_all add: two_run_def)
  have "view_ok two_view" by (simp add: view_ok_def two_view_def int32_triple_def is_int32_def addressable_def)
  then have v: "views_apart [two_view]" by (simp add: views_apart_def)
  have "delivers (hd_requests (er_open two_run q)) (hd_send (er_open two_run q)) (hd_requests (er_open two_run r))
        (arrived (er_finish two_run r) (er_open two_run r)) q r" if r: "r \<in> mesh_ranks two_ranks" for r
  proof -
    have "r = 0 \<or> r = 1" using r by (simp add: two_ranks_linked)
    then show ?thesis using two_rank_completes [OF q] two_rank_completes [of r]
      by (auto simp: delivers_def two_requests_def)
  qed
  then show "engine_inv two_ranks one_field q (er_engine two_run q) \<and> is_ok (fst (er_begun two_run q)) \<and> is_ok (fst (er_finished two_run q)) \<and>
     truthful q (grid_ranks (hm_grid two_ranks)) (ba_packed (er_begin two_run q)) \<and> truthful q (grid_ranks (hm_grid two_ranks)) (fa_bound (er_finish two_run q)) \<and>
     views_apart (span_list (er_views two_run q)) \<and>
     (\<forall>r \<in> mesh_ranks two_ranks. delivers (hd_requests (er_open two_run q)) (hd_send (er_open two_run q)) (hd_requests (er_open two_run r))
        (arrived (er_finish two_run r) (er_open two_run r)) q r)"
    using ready_inv [OF q] two_rank_completes [OF q] truthful_echo [OF q] v unfolding a two_world(5) by blast
qed

lemma completes_rank:
  assumes w: "mesh_linked w" "small3 (hm_cells w)" "q \<in> mesh_ranks w" and x: "exchange_completes w specs x"
  obtains y where "engine_inv w specs q (er_open x q)" "opened_by specs (er_sources x q) (er_source_memory x q) (er_open x q)"
    "unpacked_by specs (er_finish x q) (er_views x q) (er_open x q) y" "er_result x q = unpack_peers y (er_memory x q)"
proof -
  have h: "engine_inv w specs q (er_engine x q)" "is_ok (fst (er_begun x q))" "is_ok (fst (er_finished x q))"
    "truthful q (grid_ranks (hm_grid w)) (ba_packed (er_begin x q))" "truthful q (grid_ranks (hm_grid w)) (fa_bound (er_finish x q))"
    using x w(3) unfolding exchange_completes_def by blast+
  obtain st t en where b: "er_begun x q = (st, t, en)" by (cases "er_begun x q") auto
  obtain e where e: "en = Some e" "engine_inv w specs q e" "opened_by specs (er_sources x q) (er_source_memory x q) e"
    using begin_outcome [OF w h(1) b [unfolded er_begun_def]] h(2,4) b by auto
  have op: "er_open x q = e" by (simp add: er_open_def b e(1))
  obtain st' t' m' en' where f: "er_finished x q = (st', t', m', en')" by (cases "er_finished x q") auto
  obtain y where "unpacked_by specs (er_finish x q) (er_views x q) e y" "m' = unpack_peers y (er_memory x q)"
    using finish_outcome [OF e(2) f [unfolded er_finished_def op]] h(3,5) f by auto
  then show thesis using that e(2,3) op f by (simp add: er_result_def)
qed

lemma bound_unique:
  assumes "ordered_specs specs" "length vs = length specs" "\<forall>k < length specs. b k \<in> set vs \<and> fv_field (b k) = hs_field (specs ! k)"
    and "u \<in> set vs" "k < length specs" "fv_field u = hs_field (specs ! k)"
  shows "b k = u"
proof -
  have d: "distinct (map hs_field specs)" using assms(1) by (simp add: ordered_specs_def)
  have inj: "inj_on b {..< length specs}"
  proof (rule inj_onI)
    fix i j assume ij: "i \<in> {..< length specs}" "j \<in> {..< length specs}" "b i = b j"
    then have "map hs_field specs ! i = map hs_field specs ! j" using assms(3) by (metis lessThan_iff nth_map)
    then show "i = j" using nth_eq_iff_index_eq [OF d, of i j] ij by simp
  qed
  have "card (b ` {..< length specs}) = length vs" using card_image [OF inj] assms(2) by simp
  moreover have "b ` {..< length specs} \<subseteq> set vs" using assms(3) by auto
  ultimately have "b ` {..< length specs} = set vs"
    using card_length [of vs] card_mono [of "set vs" "b ` {..< length specs}"] by (intro card_subset_eq) simp_all
  then obtain j where j: "j < length specs" "u = b j" using assms(4) by auto
  then have "map hs_field specs ! j = map hs_field specs ! k" using assms(3,5,6) by simp
  then show ?thesis using nth_eq_iff_index_eq [OF d, of j k] j assms(5) by simp
qed

text \<open>The ghosts of all fields of an exchange get these values.\<close>

definition source_value :: "halo_mesh \<Rightarrow> halo_spec list \<Rightarrow> exchange_run \<Rightarrow> int \<Rightarrow> nat \<Rightarrow> halo_face \<Rightarrow> u8 \<Rightarrow> int3 \<Rightarrow> u64" where
  "source_value w specs x r k f c i = (case mesh_neighbor w r f of None \<Rightarrow> 0
     | Some q \<Rightarrow> er_source_memory x q (view_cell (hd_candidate_views (er_open x q) ! k)
         (ghost_source (mp_cells (mesh_patch_of w r)) (mp_cells (mesh_patch_of w q)) (specs ! k) f i) c))"

lemma exchange_fills:
  assumes w: "mesh_linked w" "small3 (hm_cells w)" and x: "exchange_completes w specs x" and r: "r \<in> mesh_ranks w"
    and y: "unpacked_by specs (er_finish x r) (er_views x r) (er_open x r) y"
  shows "k < length specs \<Longrightarrow> mesh_neighbor w r f = Some q \<Longrightarrow> (cc, i) \<in> set (slot_ghosts w r (specs ! k) f) \<Longrightarrow>
      unpack_peers y m (view_cell (fs_finish_view (hd_fields y ! k)) i cc) = source_value w specs x r k f cc i"
    and "(\<And>k f q cc i. k < length specs \<Longrightarrow> mesh_neighbor w r f = Some q \<Longrightarrow> (cc, i) \<in> set (slot_ghosts w r (specs ! k) f) \<Longrightarrow>
      a \<noteq> view_cell (fs_finish_view (hd_fields y ! k)) i cc) \<Longrightarrow> unpack_peers y m a = m a"
proof -
  let ?d = "er_open x" and ?fv = "\<lambda>k. fs_finish_view (hd_fields y ! k)"
  have rank: "engine_inv w specs q (?d q)" "opened_by specs (er_sources x q) (er_source_memory x q) (?d q)" if "q \<in> mesh_ranks w" for q
    by (rule completes_rank [OF w that x], assumption)+
  have eng: "plan_ok w specs maximum_chunk_doubles (hd_maximum_tag (?d q)) q (?d q)" "hd_patch (?d q) = mesh_patch_of w q" "requests_ok (?d q)"
    "ordered_specs specs"
    if "q \<in> mesh_ranks w" for q
    using rank [OF that] by (simp_all add: engine_inv_def engine_ok_def opened_by_def prepared_by_def)
  have un: "hd_peers y = hd_peers (?d r)" "halo_specs y = specs" "length (span_list (er_views x r)) = length specs"
    "hd_receive y = hd_receive (copy_local_peers ((?d r)\<lparr>hd_receive := arrived (er_finish x r) (?d r)\<rparr>))"
    using y by (simp_all add: unpacked_by_def)
  have bv: "?fv k \<in> set (span_list (er_views x r)) \<and> valid_view_shape (?fv k) (specs ! k) (mesh_patch_of w r)" if "k < length specs" for k
    using y that eng(2) [OF r] by (simp add: unpacked_by_def)
  have ap: "views_apart (span_list (er_views x r))" using x r unfolding exchange_completes_def by blast
  have shape: "valid_view_shape (?fv k) (specs ! k) (mesh_patch_of w r) \<and> int32_triple (fv_ghosts (?fv k))" if "k < length specs" for k
    using bv [OF that] ap by (simp add: views_apart_def view_ok_def)
  have field: "fv_field (?fv k) = hs_field (specs ! k)" if "k < length specs" for k
    using bv [OF that] by (simp add: valid_view_shape_def Let_def)
  have separate: "view_cell (?fv j) i c \<noteq> view_cell (?fv k) i' c'"
    if "j < length specs" "k < length specs" "j \<noteq> k" "view_box (?fv j) i c" "view_box (?fv k) i' c'" for j k i c i' c'
  proof -
    have "distinct (map hs_field specs)" using eng(4) [OF r] by (simp add: ordered_specs_def)
    then have "fv_field (?fv j) \<noteq> fv_field (?fv k)" using nth_eq_iff_index_eq [of "map hs_field specs" j k] that(1-3) field by simp
    then show ?thesis using ap bv that unfolding views_apart_def by blast
  qed
  have packed: "block (hd_send (?d q)) (unat (sc_offset s)) (unat (sc_count s)) =
      pack_section (hd_candidate_views (?d q) ! sc_slot s) (specs ! sc_slot s) (sc_face s) (er_source_memory x q)"
    if "q \<in> mesh_ranks w" "k < length (hd_peers (?d q))" "s \<in> set (hp_sends (hd_peers (?d q) ! k))" for q k s
    using rank(2) [OF that(1)] that(2,3) by (simp add: opened_by_def prepared_by_def)
  have data: "block (hd_receive y) (unat (sc_offset s)) (unat (sc_count s)) =
        map (\<lambda>(c, i). source_value w specs x r (sc_slot s) (sc_face s) c i) (slot_ghosts w r (specs ! sc_slot s) (sc_face s))"
    if k: "k < length (hd_peers (?d r))" "s \<in> set (hp_receives (hd_peers (?d r) ! k))" for k s
  proof -
    let ?q = "hp_rank (hd_peers (?d r) ! k)" and ?n = "mp_cells (mesh_patch_of w r)"
    have ps: "sc_slot s < length specs" "mesh_neighbor w r (sc_face s) = Some ?q" using plan_section(2) [OF eng(1) [OF r] w r k] by simp_all
    then have q: "?q \<in> mesh_ranks w" using mesh.symmetric [OF w(1) r] by blast
    let ?v = "hd_candidate_views (?d ?q) ! sc_slot s" and ?n' = "mp_cells (mesh_patch_of w ?q)"
    have mpi: "delivers (hd_requests (?d p)) (hd_send (?d p)) (hd_requests (?d r)) (arrived (er_finish x r) (?d r)) p r" if "p \<in> mesh_ranks w" for p
      using x that r unfolding exchange_completes_def by blast
    have "block (hd_receive y) (unat (sc_offset s)) (unat (sc_count s)) =
        pack_section ?v (specs ! sc_slot s) (opposite (sc_face s)) (er_source_memory x ?q)"
      unfolding un(4) using eng(1,3) mpi
      by (intro sections_delivered [OF w(1), of maximum_chunk_doubles specs "\<lambda>q. hd_maximum_tag (?d q)" ?d _ r
            "\<lambda>q k f. pack_section (hd_candidate_views (?d q) ! k) (specs ! k) f (er_source_memory x q)"] packed r k)
        (simp_all add: maximum_chunk_doubles_def)
    also have "fv_interior ?v = ?n'"
      using rank(2) [OF q] ps(1) eng(2) [OF q] by (simp add: opened_by_def prepared_by_def valid_view_shape_def Let_def)
    have al: "\<forall>k < 3. k \<noteq> face_axis (sc_face s) \<longrightarrow> axis_of k ?n' = axis_of k ?n"
      using neighbor_aligned [of "hm_grid w" r "hm_cells w" "hm_topology w" "sc_face s" ?q] w(1) r ps(2)
      by (simp add: mesh_linked_def mesh_fits_def mesh_ranks_def mesh_neighbor_def mesh_patch_of_def)
    have "pack_section ?v (specs ! sc_slot s) (opposite (sc_face s)) (er_source_memory x ?q) =
        map (\<lambda>(c, i). source_value w specs x r (sc_slot s) (sc_face s) c i) (slot_ghosts w r (specs ! sc_slot s) (sc_face s))"
      unfolding pack_section_def \<open>fv_interior ?v = ?n'\<close> source_cells [OF al] slot_ghosts_def map_map
      by (rule map_cong) (simp_all add: source_value_def ps(2) split_beta)
    finally show ?thesis .
  qed
  note core = fill_core [OF eng(1) [OF r] w r un(1,2) shape separate data]
  show "k < length specs \<Longrightarrow> mesh_neighbor w r f = Some q \<Longrightarrow> (cc, i) \<in> set (slot_ghosts w r (specs ! k) f) \<Longrightarrow>
      unpack_peers y m (view_cell (fs_finish_view (hd_fields y ! k)) i cc) = source_value w specs x r k f cc i"
    by (rule core(1))
  show "(\<And>k f q cc i. k < length specs \<Longrightarrow> mesh_neighbor w r f = Some q \<Longrightarrow> (cc, i) \<in> set (slot_ghosts w r (specs ! k) f) \<Longrightarrow>
      a \<noteq> view_cell (fs_finish_view (hd_fields y ! k)) i cc) \<Longrightarrow> unpack_peers y m a = m a"
    by (rule core(2))
qed

section \<open>The ghosts after an exchange\<close>

text \<open>A ghost and its source are the same cell of the mesh, round the periodic directions.\<close>

lemma source_global:
  assumes w: "mesh_linked w" and r: "r \<in> mesh_ranks w" and f: "mesh_neighbor w r f = Some q" and a: "a < 3"
  defines "p \<equiv> mesh_patch_of w r" and "p' \<equiv> mesh_patch_of w q"
  shows "(axis_of a (mp_begin p') + axis_of a (ghost_source (mp_cells p) (mp_cells p') s f i)) mod axis_of a (hm_cells w) =
    (axis_of a (mp_begin p) + axis_of a i) mod axis_of a (hm_cells w)"
proof -
  have h: "mesh_fits (hm_cells w) (hm_grid w)" "positive3 (hm_grid w)" "0 \<le> r" "r < grid_ranks (hm_grid w)"
    "neighbor_rank (patch_of (hm_cells w) (hm_grid w) r) (hm_topology w) f = Some q"
    using w r f by (simp_all add: mesh_linked_def mesh_fits_def mesh_ranks_def mesh_neighbor_def mesh_patch_of_def)
  show ?thesis
  proof (cases "a = face_axis f")
    case False
    then show ?thesis using neighbor_aligned [OF h(2-5) a False] axis_below [of f] a
      by (simp add: p_def p'_def mesh_patch_of_def ghost_source_def)
  next
    case True
    let ?n = "axis_of a (hm_cells w)" and ?i = "axis_of a i"
    note adj = neighbor_adjacent [OF h(1,3-5), folded True]
    have src: "axis_of a (ghost_source (mp_cells p) (mp_cells p') s f i) =
        ?i + (if face_minus f then axis_of a (mp_cells p') else - axis_of a (mp_cells p))"
      using True axis_below [of f] by (simp add: ghost_source_def inner_start_def ghost_start_def)
    show ?thesis
    proof (cases "face_minus f")
      case minus: True
      then have "(axis_of a (mp_begin p') + axis_of a (mp_cells p')) mod ?n = axis_of a (mp_begin p) mod ?n"
        using adj by (simp add: p_def p'_def mesh_patch_of_def)
      from mod_add_cong [OF this refl, of ?i] show ?thesis using minus by (simp add: src algebra_simps)
    next
      case plus: False
      then have "axis_of a (mp_begin p') mod ?n = (axis_of a (mp_begin p) + axis_of a (mp_cells p)) mod ?n"
        using adj by (simp add: p_def p'_def mesh_patch_of_def)
      from mod_add_cong [OF this refl, of "?i - axis_of a (mp_cells p)"] show ?thesis using plus by (simp add: src algebra_simps)
    qed
  qed
qed

text \<open>
  C2. An exchange that completes fills the ghosts: behind every face with a neighbour, every ghost of every
  field holds, for each component, what its source cell held on the neighbour when the neighbour began; and
  the source is the same cell of the mesh as the ghost, round the mesh where it is periodic. It holds for
  any decomposition, several fields, faces that lead to the same rank and a rank that is its own neighbour.
\<close>

theorem halo_fills_ghosts:
  assumes "mesh_linked w" "small3 (hm_cells w)" "exchange_completes w specs x" "r \<in> mesh_ranks w"
    and "k < length specs" "mesh_neighbor w r f = Some q" "(c, i) \<in> set (slot_ghosts w r (specs ! k) f)"
    and "v \<in> set (span_list (er_views x r))" "fv_field v = hs_field (specs ! k)"
    and "u \<in> set (span_list (er_sources x q))" "fv_field u = hs_field (specs ! k)"
  defines "source \<equiv> ghost_source (mp_cells (mesh_patch_of w r)) (mp_cells (mesh_patch_of w q)) (specs ! k) f i"
  shows "er_result x r (view_cell v i c) = er_source_memory x q (view_cell u source c) \<and>
    (\<forall>a < 3. (axis_of a (mp_begin (mesh_patch_of w q)) + axis_of a source) mod axis_of a (hm_cells w) =
      (axis_of a (mp_begin (mesh_patch_of w r)) + axis_of a i) mod axis_of a (hm_cells w))"
proof -
  have q: "q \<in> mesh_ranks w" using mesh.symmetric [OF assms(1,4,6)] by blast
  obtain y where y: "engine_inv w specs r (er_open x r)" "unpacked_by specs (er_finish x r) (er_views x r) (er_open x r) y"
    "er_result x r = unpack_peers y (er_memory x r)"
    by (rule completes_rank [OF assms(1,2,4,3)])
  have o: "ordered_specs specs" "hd_patch (er_open x r) = mesh_patch_of w r" using y(1) by (simp_all add: engine_inv_def engine_ok_def)
  have "fs_finish_view (hd_fields y ! k) = v"
    using y(2) assms(5,8,9)
    by (intro bound_unique [OF o(1), of "span_list (er_views x r)" "\<lambda>k. fs_finish_view (hd_fields y ! k)"])
      (auto simp: unpacked_by_def valid_view_shape_def Let_def)
  moreover have "opened_by specs (er_sources x q) (er_source_memory x q) (er_open x q)"
    by (rule completes_rank [OF assms(1,2) q assms(3)])
  then have "hd_candidate_views (er_open x q) ! k = u"
    using assms(5,10,11)
    by (intro bound_unique [OF o(1), of "span_list (er_sources x q)" "\<lambda>k. hd_candidate_views (er_open x q) ! k"])
      (auto simp: opened_by_def prepared_by_def valid_view_shape_def Let_def)
  ultimately have "er_result x r (view_cell v i c) = er_source_memory x q (view_cell u source c)"
    using exchange_fills(1) [OF assms(1-4) y(2) assms(5-7)] y(3) assms(6) by (simp add: source_value_def source_def)
  then show ?thesis using source_global [OF assms(1,4,6)] by (simp add: source_def)
qed

theorem halo_fills_ghosts_witness:
  "er_result two_run 0 (view_cell two_view \<lparr>x3 = - 1, y3 = 0, z3 = 0\<rparr> 0) = two_memory 1 (view_cell two_view \<lparr>x3 = 1, y3 = 0, z3 = 0\<rparr> 0)"
proof -
  have n: "0 < length one_field" "mesh_neighbor two_ranks 0 Xm = Some 1" by code_simp+
  have g: "(0, \<lparr>x3 = - 1, y3 = 0, z3 = 0\<rparr>) \<in> set (slot_ghosts two_ranks 0 (one_field ! 0) Xm)" by code_simp
  have v: "two_view \<in> set (span_list (er_views two_run 0))" "fv_field two_view = hs_field (one_field ! 0)"
    "two_view \<in> set (span_list (er_sources two_run 1))" by code_simp+
  have "ghost_source (mp_cells (mesh_patch_of two_ranks 0)) (mp_cells (mesh_patch_of two_ranks 1)) (one_field ! 0) Xm
      \<lparr>x3 = - 1, y3 = 0, z3 = 0\<rparr> = \<lparr>x3 = 1, y3 = 0, z3 = 0\<rparr>" by code_simp
  moreover have "er_source_memory two_run = two_memory" by (simp add: two_run_def)
  ultimately show ?thesis
    using halo_fills_ghosts [OF two_world(1,2) two_completes two_world(3) n g v(1,2) v(3,2)] by simp
qed



end
