(* ===== verification/Halo_Consensus.thy ===== *)
theory Halo_Consensus
  imports Halo_Reserve Collective
begin

text \<open>
  The consensus of the halo engine: when MPI answers as documented, every rank learns the status of the
  lowest failing rank. It is the same key selection as in the transaction, without a severity, and the
  same locale provides the proof. With it, every collective step of the engine ends alike on all ranks.
\<close>

section \<open>The lowest failing rank\<close>

interpretation halo: leader_selection "\<lambda>r. halo_candidate (int r)" rank_fails "\<lambda>_. 0"
proof (unfold_locales, goal_cases)
  case (1 v r)
  then show ?case by (simp add: halo_candidate_def rank_fails_def unat_of_nat)
qed (simp_all add: halo_candidate_def rank_fails_def)

definition status_wire :: "status \<Rightarrow> u64 \<times> u64" where
  "status_wire st = (code_value (scode (halo_local st)), ucast (sdetail (halo_local st)))"

text \<open>\<^verbatim>\<open>MPI_Allreduce\<close> with \<^verbatim>\<open>MPI_MIN\<close> and \<^verbatim>\<open>MPI_Bcast\<close> on every rank.\<close>

definition status_conforms :: "nat \<Rightarrow> (nat \<Rightarrow> status) \<Rightarrow> (nat \<Rightarrow> status_answers) \<Rightarrow> bool" where
  "status_conforms n locals answers \<longleftrightarrow>
     (let selected = Min ((\<lambda>r. halo_candidate (int r) (locals r)) ` {..< n}); root = unat selected in
      \<forall>r < n. sa_min (answers r) (halo_candidate (int r) (locals r)) = Some selected \<and>
        (selected \<noteq> u64_max \<longrightarrow>
          sa_bcast (answers r) selected (if r = root then status_wire (locals r) else (0, 0)) = Some (status_wire (locals root))))"

definition halo_agreed :: "nat \<Rightarrow> (nat \<Rightarrow> status) \<Rightarrow> status \<times> int" where
  "halo_agreed n locals = (case find (\<lambda>r. rank_fails (locals r)) [0..<n] of None \<Rightarrow> (status_ok, - 1)
     | Some r \<Rightarrow> (halo_local (locals r), int r))"

lemma halo_local_named: "named_code (scode (halo_local st))"
  by (cases "scode st") (simp_all add: halo_local_def failed_def)

lemma find_first: "find P [0..<n] = Some q \<Longrightarrow> q < n \<and> P q \<and> (\<forall>r < q. \<not> P r)"
  by (auto simp: find_Some_iff)

lemma status_agreed:
  assumes n: "n < 2 ^ 31" and c: "status_conforms n locals answers" and r: "r < n"
  shows "raw_collective_status (answers r) (int r) (int n) (locals r) = halo_agreed n locals"
proof (cases "find (\<lambda>r. rank_fails (locals r)) [0..<n]")
  case None
  then have "\<forall>r < n. \<not> rank_fails (locals r)" by (auto simp: find_None_iff)
  then have "halo.selected n locals = u64_max" using r by (intro halo.selected_quiet) auto
  then show ?thesis using c r unfolding halo_agreed_def None
    by (simp add: status_conforms_def raw_collective_status_def halo.selected_def Let_def)
next
  case (Some l)
  note l = find_first [OF this]
  define s where "s = halo.selected n locals"
  note lead = halo.leader [where r = l and vs = locals, OF n] l
  have k: "low_rank s < n" "rank_fails (locals (low_rank s))" "s = halo_candidate (int (low_rank s)) (locals (low_rank s))"
    "s \<noteq> u64_max" "low_rank s \<le> l"
    using lead unfolding s_def by auto
  then have eq: "low_rank s = l" using l by (meson le_neq_implies_less)
  have u: "unat s = l"
    using halo.key_value [OF k(2), of "low_rank s"] k(1,3) n eq by simp
  then have ui: "uint s = int l" by (simp add: uint_nat)
  have "unat (word_of_int (int n) :: u64) = n" using n by (simp add: unat_of_nat)
  then have below: "\<not> s \<ge> word_of_int (int n)" using u l by (simp add: word_le_nat_alt)
  have wire: "status_wire (locals l) = (code_value (scode (halo_local (locals l))), ucast (sdetail (halo_local (locals l))))"
    by (simp add: status_wire_def)
  have detail: "\<not> (ucast (sdetail st) :: u64) > 0xFFFFFFFF" for st :: status
  proof -
    have "unat (sdetail st) < 2 ^ LENGTH(32)" by (rule unsigned_less)
    then show ?thesis by (simp add: word_less_nat_alt)
  qed
  have narrow: "(ucast (ucast (sdetail st) :: u64) :: u32) = sdetail st" for st :: status
    by (simp add: ucast_up_ucast_id is_up)
  have "code_value (scode (halo_local (locals l))) \<le> 7" using halo_local_named by (rule code_value_named)
  then have code: "\<not> code_value (scode (halo_local (locals l))) > code_value Io_failure" by simp
  have m: "sa_min (answers r) (halo_candidate (int r) (locals r)) = Some s"
    "sa_bcast (answers r) s (if r = l then status_wire (locals r) else (0, 0)) = Some (status_wire (locals l))"
    using c r k(4) u unfolding status_conforms_def Let_def s_def halo.selected_def by auto
  have arg: "(if int r = uint s then (code_value (scode (halo_local (locals r))), ucast (sdetail (halo_local (locals r)))) else (0, 0)) =
      (if r = l then status_wire (locals r) else (0, 0))" by (simp add: ui status_wire_def)
  show ?thesis
    unfolding raw_collective_status_def Let_def m(1) option.case if_not_P [OF k(4)] if_not_P [OF below] arg m(2) wire
      halo_agreed_def Some
    using detail code narrow by (simp add: ui code_of_value_code_value [OF halo_local_named])
qed

lemma agreed_ok: "is_ok (fst (halo_agreed n locals)) \<longleftrightarrow> (\<forall>r < n. \<not> rank_fails (locals r))"
proof (cases "find (\<lambda>r. rank_fails (locals r)) [0..<n]")
  case None
  then have "\<forall>r < n. \<not> rank_fails (locals r)" by (auto simp: find_None_iff)
  then show ?thesis unfolding halo_agreed_def None by simp
next
  case (Some l)
  from find_first [OF this] Some show ?thesis by (auto simp: halo_agreed_def rank_fails_def is_ok_def)
qed

lemma collective_agreed:
  assumes "n < 2 ^ 31" "status_conforms n locals answers" "r < n" "hd_rank d = int r" "hd_size d = int n"
  shows "collective_status (answers r) (locals r) d = (fst (halo_agreed n locals),
    d\<lparr>hd_lowest_failing := snd (halo_agreed n locals),
      hd_counters := (hd_counters d)\<lparr>ho_consensus_calls := ho_consensus_calls (hd_counters d) + 1\<rparr>\<rparr>)"
  using status_agreed [OF assms(1-3)] by (simp add: collective_status_def assms split_beta)

end
