(* ===== verification/Halo_Agreement.thy ===== *)
theory Halo_Agreement
  imports Halo_Exchange Halo_Consensus
begin

text \<open>
  Begin and finish are collective: with the consensus MPI documents, every rank reports the status of the
  lowest failing rank, and a call fails everywhere when it fails anywhere.
\<close>

section \<open>Begin\<close>

text \<open>The status a rank brings to the first and to the second consensus of begin.\<close>

definition begin_checked :: "begin_answers \<Rightarrow> field_view span \<Rightarrow> status \<Rightarrow> halo_ticket \<Rightarrow> (int \<Rightarrow> u64) \<Rightarrow> halo_data \<Rightarrow> status" where
  "begin_checked ans views prerequisite ticket m d = fst (begin_preflight ans views prerequisite ticket m d)"

definition begin_started :: "begin_answers \<Rightarrow> field_view span \<Rightarrow> status \<Rightarrow> halo_ticket \<Rightarrow> (int \<Rightarrow> u64) \<Rightarrow> halo_data \<Rightarrow> status" where
  "begin_started ans views prerequisite ticket m d =
     fst (start_requests (ba_start ans) (snd (begin_preflight ans views prerequisite ticket m d)))"

text \<open>The first consensus decides unless all ranks pass it.\<close>

definition decided :: "status \<times> int \<Rightarrow> status \<times> int \<Rightarrow> status \<times> int" where
  "decided a b = (if is_ok (fst a) then b else a)"

lemma agreed_lowest: "is_ok (fst (halo_agreed n locals)) \<Longrightarrow> halo_agreed n locals = (status_ok, - 1)"
proof (cases "find (\<lambda>r. rank_fails (locals r)) [0..<n]")
  case (Some l)
  assume ok: "is_ok (fst (halo_agreed n locals))"
  have "halo_agreed n locals = (halo_local (locals l), int l)" unfolding halo_agreed_def Some by simp
  then have "\<not> rank_fails (locals l)" using ok by (simp add: rank_fails_def is_ok_def)
  then show ?thesis using find_first [OF Some] by blast
qed (simp add: halo_agreed_def)

lemma preflight_world:
  assumes "begin_preflight ans views prerequisite ticket m d = (st, e)" "engine_inv w specs q d"
    and "mesh_linked w" "small3 (hm_cells w)" "q \<in> mesh_ranks w"
  shows "hd_rank e = q" "hd_size e = grid_ranks (hm_grid w)"
  using inv_preflight [OF assms(3-5,2,1)] by (simp_all add: engine_inv_def engine_ok_def)

lemma restore_lowest: "hd_lowest_failing (restore_requests drained recreated restored d) = hd_lowest_failing d"
  by (simp add: restore_requests_def Let_def split: prod.splits)


lemma echo_conforms:
  assumes "\<forall>q < n. \<not> rank_fails (locals q)" "0 < n"
  shows "status_conforms n locals (\<lambda>_. echo)"
proof -
  have img: "(\<lambda>q. halo_candidate (int q) (locals q)) ` {..< n} = {u64_max}"
    using assms by (auto simp: halo_candidate_def rank_fails_def intro!: image_eqI [of _ _ 0])
  show ?thesis unfolding status_conforms_def Let_def img
    using assms(1) by (simp add: echo_def halo_candidate_def rank_fails_def)
qed

lemma two_ranks_below: "(\<forall>q < 2. P q) \<longleftrightarrow> P 0 \<and> P (1 :: nat)"
  by (auto simp: less_2_cases_iff)


section \<open>Finish\<close>

definition finish_checked :: "halo_ticket \<Rightarrow> field_view span \<Rightarrow> halo_data \<Rightarrow> status \<times> halo_data" where
  "finish_checked ticket views d =
     (let d = count_finish d in
      if \<not> hd_exchange_active d \<or> hd_poisoned d \<or> \<not> ticket_current ticket d then (failed Invalid_plan 301, d)
      else bind_finish_views views d)"

definition finish_waited :: "finish_answers \<Rightarrow> halo_data \<Rightarrow> status" where
  "finish_waited ans d = (if hd_requests_active d \<and> \<not> fa_wait ans then failed Mpi_failure 310 else status_ok)"

text \<open>
  C38. Finish is collective: every rank returns the same status and names the same rank. If any rank fails
  its checks or loses a message, every rank reports the lowest of them, no rank writes to its fields, no
  certificate stands, and the exchange is closed on all of them.
\<close>

theorem halo_finish_agreed:
  assumes "mesh_linked w" "small3 (hm_cells w)" "grid_ranks (hm_grid w) = int n" "n < 2 ^ 31" "r < n"
    and "\<forall>q < n. engine_inv w specs (int q) (d q) \<and> hd_exchange_active (d q)"
    and "status_conforms n (\<lambda>q. fst (finish_checked (ticket q) (views q) (d q))) (\<lambda>q. fa_bound (fa q))"
    and "status_conforms n (\<lambda>q. finish_waited (fa q) (d q)) (\<lambda>q. fa_completed (fa q))"
  defines "checked \<equiv> halo_agreed n (\<lambda>q. fst (finish_checked (ticket q) (views q) (d q)))"
    and "waited \<equiv> halo_agreed n (\<lambda>q. finish_waited (fa q) (d q))"
  shows "\<exists>st m' e. halo_finish (fa r) (ticket r) (views r) m (Some (d r)) = (st, no_ticket, m', Some e) \<and>
    st = fst (decided checked waited) \<and> hd_lowest_failing e = snd (decided checked waited) \<and>
    \<not> hd_exchange_active e \<and> \<not> hd_requests_active e \<and>
    (is_ok st \<longleftrightarrow> (\<forall>q < n. \<not> rank_fails (fst (finish_checked (ticket q) (views q) (d q))) \<and> \<not> rank_fails (finish_waited (fa q) (d q)))) \<and>
    (\<not> is_ok st \<longrightarrow> m' = m \<and> (\<forall>f. ghost_revision (Some e) f = 0))"
proof -
  have i: "engine_inv w specs (int r) (d r)" and act: "hd_exchange_active (d r)" using assms(5,6) by simp_all
  then have i0: "engine_inv w specs (int r) (count_finish (d r))" by simp
  obtain s1 d1 where 1: "finish_checked (ticket r) (views r) (d r) = (s1, d1)" by fastforce
  have i1: "engine_inv w specs (int r) d1 \<and> hd_requests_active d1 = hd_requests_active (d r) \<and> no_certificate d1 = no_certificate (d r)"
  proof (cases "\<not> hd_exchange_active (count_finish (d r)) \<or> hd_poisoned (count_finish (d r)) \<or> \<not> ticket_current (ticket r) (count_finish (d r))")
    case True
    then have "d1 = count_finish (d r)" using 1 by (auto simp: finish_checked_def Let_def)
    then show ?thesis using i0 by (simp add: count_finish_def)
  next
    case False
    then have "bind_finish_views (views r) (count_finish (d r)) = (s1, d1)" using 1 by (simp add: finish_checked_def Let_def)
    from inv_finish_views [OF i0 this] show ?thesis by (simp add: stay_part_def count_finish_def)
  qed
  have w1: "hd_rank d1 = int r" "hd_size d1 = int n" using i1 assms(3) by (simp_all add: engine_inv_def engine_ok_def)
  have l1: "fst (finish_checked (ticket r) (views r) (d r)) = s1" by (simp add: 1)
  obtain u1 where c1: "collective_status (fa_bound (fa r)) s1 d1 = (fst checked, d1\<lparr>hd_lowest_failing := snd checked, hd_counters := u1\<rparr>)"
    using collective_agreed [OF assms(4,7,5), of d1] w1 l1 unfolding checked_def by auto
  define d2 where "d2 = d1\<lparr>hd_lowest_failing := snd checked, hd_counters := u1\<rparr>"
  obtain s3 d3 where 3: "wait_requests (fa r) d2 = (s3, d3)" by fastforce
  obtain b where d3: "d3 = d2\<lparr>hd_receive := arrived (fa r) d2, hd_requests_active := b\<rparr>" using wait_form [OF 3] by blast
  have s3: "s3 = finish_waited (fa r) (d r)"
    using 3 i1 by (auto simp: wait_requests_def finish_waited_def d2_def split: if_splits)
  obtain u2 where c2: "collective_status (fa_completed (fa r)) s3 d3 = (fst waited, d3\<lparr>hd_lowest_failing := snd waited, hd_counters := u2\<rparr>)"
    using collective_agreed [OF assms(4,8,5), of d3] w1 unfolding waited_def s3 by (auto simp: d3 d2_def)
  define d4 where "d4 = d3\<lparr>hd_lowest_failing := snd waited, hd_counters := u2\<rparr>"
  define d5 where "d5 = (if \<not> is_ok (fst waited) \<and> sdetail (fst waited) = 310 \<and> scode (fst waited) = Mpi_failure
    then restore_requests (fa_drained (fa r)) (fa_recreated (fa r)) (fa_restored (fa r)) d4 else d4)"
  have low: "hd_lowest_failing d2 = snd checked" "hd_lowest_failing d4 = snd waited" by (simp_all add: d2_def d4_def)
  obtain st t m' en where f: "halo_finish (fa r) (ticket r) (views r) m (Some (d r)) = (st, t, m', en)"
    by (cases "halo_finish (fa r) (ticket r) (views r) m (Some (d r))") auto
  obtain e where e: "en = Some e" "\<not> hd_exchange_active e" "\<not> hd_requests_active e" "t = no_ticket"
    "\<not> is_ok st \<longrightarrow> m' = m \<and> (no_certificate (d r) \<longrightarrow> no_certificate e)"
    using finish_outcome [OF i f] by blast
  have form: "halo_finish (fa r) (ticket r) (views r) m (Some (d r)) =
    (if \<not> is_ok (fst checked) \<or> \<not> is_ok (fst waited)
     then (if \<not> is_ok (fst checked) then fst checked else fst waited, no_ticket, m,
       Some ((finish_exchange_state d5)\<lparr>hd_lowest_failing := (if \<not> is_ok (fst checked) then snd checked else snd waited)\<rparr>))
     else (status_ok, no_ticket, unpack_peers (copy_local_peers d5) m,
       Some (finish_exchange_state ((certify_ghosts (count_unpacked (copy_local_peers d5)))\<lparr>hd_lowest_failing := - 1\<rparr>))))"
    unfolding halo_finish_def option.case 1 [unfolded finish_checked_def Let_def] prod.case c1 d2_def [symmetric] Let_def 3 c2
      d4_def [symmetric] d5_def [symmetric] low by (rule refl)
  have ok: "is_ok (fst checked) \<longleftrightarrow> (\<forall>q < n. \<not> rank_fails (fst (finish_checked (ticket q) (views q) (d q))))"
    "is_ok (fst waited) \<longleftrightarrow> (\<forall>q < n. \<not> rank_fails (finish_waited (fa q) (d q)))"
    unfolding checked_def waited_def by (rule agreed_ok)+
  have st: "st = fst (decided checked waited) \<and> hd_lowest_failing e = snd (decided checked waited)"
  proof (cases "is_ok (fst checked) \<and> is_ok (fst waited)")
    case True
    then have "waited = (status_ok, - 1)" unfolding waited_def by (intro agreed_lowest) simp
    then show ?thesis using f e(1) True by (auto simp: form decided_def finish_exchange_state_def)
  next
    case False
    then show ?thesis using f e(1) by (auto simp: form decided_def finish_exchange_state_def split: if_splits)
  qed
  have none: "no_certificate (d r)" using i act by (simp add: engine_inv_def certificates_ok_def)
  have cert: "ghost_revision (Some e) f = 0" if bad: "\<not> is_ok st" for f
  proof -
    have en: "engine_inv w specs (int r) e" using finish_outcome [OF i f] e(1) bad by auto
    have "no_certificate e" using e(5) bad none by blast
    then show ?thesis using inv_lookup_typed [OF en, of f] by (auto simp: ghost_revision_def no_certificate_def)
  qed
  have "is_ok st \<longleftrightarrow> is_ok (fst checked) \<and> is_ok (fst waited)" using st by (auto simp: decided_def)
  then show ?thesis using f e st ok cert by auto
qed

theorem halo_finish_agreed_witness:
  "fst (er_finished two_run (int 1)) = status_ok \<and> fst (snd (er_finished two_run (int 1))) = no_ticket"
proof -
  let ?t = "\<lambda>q. fst (snd (er_begun two_run (int q)))" and ?v = "\<lambda>q. er_views two_run (int q)" and ?d = "\<lambda>q. er_open two_run (int q)"
    and ?f = "\<lambda>q. er_finish two_run (int q)"
  have inv: "engine_inv two_ranks one_field (int q) (?d q) \<and> hd_exchange_active (?d q)" if "q < 2" for q
  proof -
    have "int q \<in> mesh_ranks two_ranks" using that by (auto simp: two_ranks_linked)
    then show ?thesis by (rule completes_rank [OF two_world(1,2) _ two_completes]) (simp add: opened_by_def)
  qed
  have ok: "\<not> rank_fails (fst (finish_checked (?t q) (?v q) (?d q)))" "\<not> rank_fails (finish_waited (?f q) (?d q))" if "q = 0 \<or> q = 1" for q
    using that by (elim disjE; simp only:; code_simp)+
  have echoes: "(\<lambda>q. fa_bound (?f q)) = (\<lambda>_. echo)" "(\<lambda>q. fa_completed (?f q)) = (\<lambda>_. echo)" by (simp_all add: two_run_def)
  have c: "status_conforms 2 (\<lambda>q. fst (finish_checked (?t q) (?v q) (?d q))) (\<lambda>q. fa_bound (?f q))"
    "status_conforms 2 (\<lambda>q. finish_waited (?f q) (?d q)) (\<lambda>q. fa_completed (?f q))"
    unfolding echoes using ok [of 0] ok [of 1] by (intro echo_conforms; simp add: two_ranks_below)+
  have n: "grid_ranks (hm_grid two_ranks) = int 2" "(2 :: nat) < 2 ^ 31" by (simp_all add: two_world)
  have agreed: "halo_agreed 2 (\<lambda>q. fst (finish_checked (?t q) (?v q) (?d q))) = (status_ok, - 1)"
    "halo_agreed 2 (\<lambda>q. finish_waited (?f q) (?d q)) = (status_ok, - 1)"
    using ok [of 0] ok [of 1] by (intro agreed_lowest; simp add: agreed_ok two_ranks_below)+
  have "(1 :: nat) < 2" "\<forall>q < 2. engine_inv two_ranks one_field (int q) (?d q) \<and> hd_exchange_active (?d q)" by simp (use inv in blast)
  from halo_finish_agreed [OF two_world(1,2) n this c, of "er_memory two_run (int 1)"] show ?thesis
    unfolding agreed by (auto simp: er_finished_def decided_def)
qed

end
