(* ===== verification/Spec2Isabelle.thy ===== *)
theory Spec2Isabelle
  imports Field_Registry Resource_Contract Identities Arena_Layout Field_Storage State_Layers
    View_Intervals Attempt_State Attempt_Certificates Face_Storage Face_Writer Attempt_Finish
    Attempt_Outcome Collective Face_Geometry Face_Copy Face_Commit
    Graph_Workspace Execution_Graph Graph_Freeze Graph_Schedule Graph_Contract
    Axis_Split Mesh_Decomposition Mesh_Patch Cpu_Tiles
    Exchange_Owner Exchange_Delivery Exchange_Prepare Exchange_Exists Exchange_Complete
    Thread_Team Thread_Team_Proofs Thread_Team_Progress
    Halo_Plans Halo_Exchange Halo_Agreement
begin

text \<open>
  \<^bold>\<open>Hundun-Flow: the discrete core of the solver.\<close>

  Version 0.4 of the solver (\<^verbatim>\<open>src/versions/v0.4\<close>) advances a flow field on a Cartesian mesh that is
  distributed over MPI ranks. Under the numerical kernels lies a discrete core that decides where every
  value lives, which views of it are current, in which order the stages of a time step run, what a rank
  sends to which other rank, and whether an attempted step is accepted. This library models that core,
  and proves that it does what its callers rely on. All paths below are relative to that directory.

  \<^bold>\<open>How the parts work together.\<close>
  A \<^emph>\<open>field registry\<close> collects the fields of the enabled modules. The \<^emph>\<open>arena compiler\<close> gives every field
  of the frozen schema strides, replicas and an offset in the block of its owner; \<^emph>\<open>field storage\<close> allocates
  the blocks and grants pointers through checked views, and \<^emph>\<open>state layers\<close> rotate three replicas between
  the roles of the accepted, previous and trial state. A step is an \<^emph>\<open>attempt transaction\<close>: it revises the
  trial, publishes caches with certificates of the revisions they were computed from, reaches a verdict
  with all ranks, and then commits or rejects everything together, the \<^emph>\<open>face fluxes\<close> of the final
  flux writer included. The stages run in the order of a \<^emph>\<open>frozen execution graph\<close>, on the cells of the
  patch the \<^emph>\<open>decomposition\<close> gives to the rank, cut into tiles for the \<^emph>\<open>thread team\<close>. Two exchanges move
  data between the ranks: the \<^emph>\<open>halo engine\<close> fills the ghosts around a patch with the cells of the
  neighbours, and the \<^emph>\<open>exchange owner\<close> routes deposition rows to the ranks that own their cells.

  \<^bold>\<open>Theories and sources.\<close>
  \<^item> \<^verbatim>\<open>Prelude\<close>: machine integers, spans, status values, checked sizes, hashing
    (\<^verbatim>\<open>include/hundun/v04_types.hpp\<close>, \<^verbatim>\<open>v04_status.hpp\<close>, \<^verbatim>\<open>src/core_status.cpp\<close>, \<^verbatim>\<open>core_arena_detail.hpp\<close>).
  \<^item> \<^verbatim>\<open>Field_Registry\<close>: \<^verbatim>\<open>src/core_field_registry.cpp\<close>. \<^verbatim>\<open>Resource_Contract\<close>: \<^verbatim>\<open>core_resource_contract.cpp\<close>.
    \<^verbatim>\<open>Identities\<close>: the identity counter with its compare-exchange loop, and \<^verbatim>\<open>core_revision.cpp\<close>.
  \<^item> \<^verbatim>\<open>Arena_Layout\<close>, \<^verbatim>\<open>Field_Storage\<close>, \<^verbatim>\<open>State_Layers\<close>: the three parts of \<^verbatim>\<open>src/core_arena.cpp\<close>.
  \<^item> \<^verbatim>\<open>View_Intervals\<close>: \<^verbatim>\<open>src/field_view_interval_detail.hpp\<close>.
  \<^item> \<^verbatim>\<open>Attempt_State\<close>, \<^verbatim>\<open>Attempt_Finish\<close>: \<^verbatim>\<open>src/core_transaction.cpp\<close>; \<^verbatim>\<open>Attempt_Certificates\<close>,
    \<^verbatim>\<open>Attempt_Outcome\<close> and \<^verbatim>\<open>Collective\<close> prove what a certificate, a commit and the agreement of the ranks mean.
  \<^item> \<^verbatim>\<open>Face_Storage\<close>, \<^verbatim>\<open>Face_Writer\<close>: the storage, leases, publication and completion of the face flux in
    \<^verbatim>\<open>src/solver_face_flux.cpp\<close>; \<^verbatim>\<open>Face_Geometry\<close>, \<^verbatim>\<open>Face_Copy\<close>, \<^verbatim>\<open>Face_Commit\<close> prove addresses, copies and life cycle.
  \<^item> \<^verbatim>\<open>Graph_Workspace\<close>, \<^verbatim>\<open>Execution_Graph\<close>: \<^verbatim>\<open>src/core_execution_graph.cpp\<close>; \<^verbatim>\<open>Graph_Freeze\<close>, \<^verbatim>\<open>Graph_Schedule\<close>,
    \<^verbatim>\<open>Graph_Contract\<close> prove what a frozen graph promises.
  \<^item> \<^verbatim>\<open>Axis_Split\<close>, \<^verbatim>\<open>Mesh_Decomposition\<close>, \<^verbatim>\<open>Mesh_Patch\<close>, \<^verbatim>\<open>Cpu_Tiles\<close>: \<^verbatim>\<open>src/mesh_decomposition.cpp\<close> and
    \<^verbatim>\<open>mesh_focus_detail.hpp\<close>.
  \<^item> \<^verbatim>\<open>Buffers\<close>: blocks of words in a buffer, shared by the two exchanges.
  \<^item> \<^verbatim>\<open>Exchange_Owner\<close>: \<^verbatim>\<open>src/models_exchange_owner.cpp\<close>; \<^verbatim>\<open>Exchange_Delivery\<close>, \<^verbatim>\<open>Exchange_Prepare\<close>,
    \<^verbatim>\<open>Exchange_Exists\<close>, \<^verbatim>\<open>Exchange_Complete\<close> prove delivery, the outcome of a routing step and its audit.
  \<^item> \<^verbatim>\<open>Thread_Team\<close>: \<^verbatim>\<open>CpuThreadTeam\<close> of \<^verbatim>\<open>src/parallel_cpu.cpp\<close>; \<^verbatim>\<open>Thread_Team_Proofs\<close>, \<^verbatim>\<open>Thread_Team_Progress\<close>.
  \<^item> \<^verbatim>\<open>Halo_Sections\<close>, \<^verbatim>\<open>Halo_Plan\<close>, \<^verbatim>\<open>Halo_Engine\<close>, \<^verbatim>\<open>Halo_Reserve\<close>: \<^verbatim>\<open>HaloEngine\<close> of \<^verbatim>\<open>src/parallel_halo.cpp\<close> and
    \<^verbatim>\<open>include/hundun/v04_parallel.hpp\<close>. On the plan: \<^verbatim>\<open>Halo_Geometry\<close>, \<^verbatim>\<open>Halo_Layers\<close>, \<^verbatim>\<open>Halo_Layout\<close>,
    \<^verbatim>\<open>Halo_Offsets\<close>, \<^verbatim>\<open>Halo_Reciprocal\<close>, \<^verbatim>\<open>Halo_Plans\<close>. On the state: \<^verbatim>\<open>Halo_State\<close>, \<^verbatim>\<open>Halo_History\<close>, \<^verbatim>\<open>Halo_Views\<close>,
    \<^verbatim>\<open>Halo_Steps\<close>, \<^verbatim>\<open>Halo_Calls\<close>, \<^verbatim>\<open>Halo_Outcome\<close>, \<^verbatim>\<open>Halo_Engine_History\<close>. On the data: \<^verbatim>\<open>Halo_Transfer\<close>,
    \<^verbatim>\<open>Halo_Delivery\<close>, \<^verbatim>\<open>Halo_Fill\<close>. On all ranks: \<^verbatim>\<open>Halo_Consensus\<close>, \<^verbatim>\<open>Halo_Two_Ranks\<close>, \<^verbatim>\<open>Halo_Exchange\<close>, \<^verbatim>\<open>Halo_Agreement\<close>.

  \<^bold>\<open>What is proved.\<close>
  \<^item> Memory: compiled layouts and face storages place everything disjoint, aligned and in bounds; checked
    pointers and views of different roles never alias; a write grant or a rotation makes exactly the right
    views stale; the overlap test is sound.
  \<^item> Attempts: a cache computed from a superseded trial does not survive the verdict; a certificate authorises
    one attempt once; commit and rejection are all or nothing, for the face flux down to the values.
  \<^item> Order: a frozen graph commits only what a consensus covered, its workspaces do not meet while both live,
    its dataflow is sound, and looking up a stage returns what was registered.
  \<^item> Work: the process grid is optimal, patches and tiles partition the cells, the owner of a cell is the rank
    of its patch; a call of the thread team executes each task once per worker and loses no wake-up.
  \<^item> Communication: all ranks reach one decision and name one failing rank, in an attempt, in a routing step and
    in both halves of a halo exchange; rows arrive bit for bit at the rank that owns them and segments are
    audited as a whole; the plans of neighbours fit together, a completed halo exchange fills every ghost
    with the value of the same mesh cell on the neighbour and writes nothing else, and the certificate of a
    field's ghosts is current in every history of an engine.

  The contracts that several components share are locales, interpreted on the model's own operations: a clock
  of tokens (\<^verbatim>\<open>Identities\<close>, for identities and for write grants), a schema indexed by identifiers
  (\<^verbatim>\<open>Field_Registry\<close>, for the registry and its snapshot), a key whose minimum names the failing rank
  (\<^verbatim>\<open>Collective\<close>, for attempts and for the halo engine), a symmetric neighbour relation (\<^verbatim>\<open>Halo_Reciprocal\<close>)
  and the binding of views to the fields of a plan (\<^verbatim>\<open>Halo_Views\<close>, for begin and for finish).

  \<^bold>\<open>Conventions.\<close>
  \<^item> A \<^verbatim>\<open>std::size_t\<close>, revision, identity or fingerprint is a 64-bit word and wraps as in the code; a
    \<^verbatim>\<open>std::int32_t\<close> is an integer with its bound as a predicate (\<open>is_int32\<close>, \<open>small3\<close>); a length or an index
    into a vector is a natural number.
  \<^item> A \<^verbatim>\<open>double\<close> that is only moved or compared for identity is its 64 bits. Memory is a map from addresses, in
    doubles, to such bits.
  \<^item> Whether an allocation succeeds is a boolean argument. The answers of MPI are arguments: functions of what
    the rank contributed, \<open>None\<close> for an error code. What MPI documents for all ranks together (a minimum is the
    minimum of the contributions, a broadcast carries the root's buffer, a message carries the sender's
    data) is a predicate on these answers, and a hypothesis only of the properties about several ranks. For
    the routing step \<^verbatim>\<open>Exchange_Exists\<close> shows that such answers exist for every input.
  \<^item> A failed receive may leave anything in the receive storage; so may a cancelled one.
  \<^item> Test hooks (\<^verbatim>\<open>HUNDUN_V04_ENABLE_TEST_ACCESS\<close>) are off, as in a release build.

  \<^bold>\<open>Termination.\<close> No definition uses fuel. The first-fit search for a workspace, the divisor loops of the
  decomposition, the audit of the groups and the cutting of messages have their termination proofs; the first
  also has the least offset as its value. The thread team is a step relation over the critical sections of
  its mutex; a measure bounds the steps the threads take by themselves.

  \<^bold>\<open>The protocol of the halo engine.\<close> Histories of an engine follow \<^verbatim>\<open>v04_parallel.hpp\<close>: inside a prepared epoch
  the owner calls the prepared pair, outside it the ordinary one. The code refuses an ordinary begin inside an
  epoch but not an ordinary finish; the lemma \<open>finish_certifies_inside_epoch\<close> of \<^verbatim>\<open>Halo_Exchange\<close> shows what
  happens then.

  \<^bold>\<open>Not modelled.\<close>
  \<^item> The floating-point kernels: discretisation, Krylov and multigrid solvers, pressure coupling, thermodynamics,
    transport, combustion, sprays, turbulence, boundary conditions and the geometry of immersed bodies. What
    they compute is a matter of numerical analysis; a model over the reals would not be the code. For the same
    reason the reconstruction and divergence kernels of \<^verbatim>\<open>solver_face_flux.cpp\<close> and the sum of weights
    in the audit of a segment (an argument here) are left out.
  \<^item> Case parsing, restart files, evidence, monitors and visualisation: file formats around file and process I/O.
  \<^item> The discovery and pinning of cores in \<^verbatim>\<open>parallel_cpu.cpp\<close>, which is calls to the operating system; the
    team takes the outcome of binding a worker as an argument.
  \<^item> The donor exchange of the immersed boundary (\<^verbatim>\<open>parallel_ibm_donor.cpp\<close>).
  \<^item> Timers, addresses kept as statistics, and the freeing of MPI handles.
\<close>

end
